(* ===== verification/Prelude.thy ===== *)
theory Prelude
  imports
    Main
    "HOL-Library.Char_ord"
    "HOL-Library.List_Lexorder"
begin

text \<open>
  Shared vocabulary of the development: Go errors as values, the functions of Go's
  \<^verbatim>\<open>strings\<close>, \<^verbatim>\<open>strconv\<close> and \<^verbatim>\<open>slices\<close> packages that the sources call, and the generic
  lemmas the components rely on. A Go string is a byte sequence, modelled as a \<^typ>\<open>string\<close>
  (a list of 8-bit characters), so \<^verbatim>\<open>len\<close> is \<^term>\<open>length\<close>. The collections \<open>go_string\<close> and
  \<open>model_defs\<close> gather the facts that component proofs pass to the simplifier.
\<close>

named_theorems go_string \<open>characterisations of the Go string operations\<close>
named_theorems model_defs \<open>definitions of the model unfolded in component proofs\<close>

subsection \<open>Errors and panics\<close>

text \<open>
  An \<^verbatim>\<open>error\<close> value. \<^verbatim>\<open>Errf\<close> and \<^verbatim>\<open>Wrapf\<close> keep the format string and the arguments of
  \<^verbatim>\<open>fmt.Errorf\<close> unformatted (\<^verbatim>\<open>Wrapf\<close> is a format with \<^verbatim>\<open>%w\<close>); \<^verbatim>\<open>Sentinel\<close> is a package-level
  error variable that callers compare with \<^verbatim>\<open>errors.Is\<close>; \<^verbatim>\<open>Multi\<close> is an accumulated
  multierror. A Go result of type \<^verbatim>\<open>error\<close> is a \<^verbatim>\<open>gerror option\<close>, with \<^term>\<open>None\<close> for \<^verbatim>\<open>nil\<close>.
\<close>

datatype gerror =
    Err string
  | Errf string "string list"
  | Wrapf string "string list" gerror
  | Sentinel string
  | Multi "gerror list"

type_synonym err = "gerror option"

text \<open>A computation that may panic: \<^term>\<open>Inl\<close> is the panic.\<close>

type_synonym 'a may_panic = "string + 'a"

text \<open>Accumulating errors: appending flattens a nested multierror, and \<^verbatim>\<open>ErrorOrNil\<close> is \<^verbatim>\<open>nil\<close>
  exactly when nothing was appended.\<close>

fun multi_append :: "gerror list \<Rightarrow> gerror \<Rightarrow> gerror list" where
  "multi_append es (Multi xs) = es @ xs"
| "multi_append es e = es @ [e]"

definition append_if :: "gerror list \<Rightarrow> err \<Rightarrow> gerror list" where
  "append_if es e = (case e of None \<Rightarrow> es | Some x \<Rightarrow> multi_append es x)"

definition ErrorOrNil :: "gerror list \<Rightarrow> err" where
  "ErrorOrNil es = (if es = [] then None else Some (Multi es))"

lemma ErrorOrNil_None [simp]: "ErrorOrNil es = None \<longleftrightarrow> es = []"
  by (simp add: ErrorOrNil_def)

lemma ErrorOrNil_cases: "ErrorOrNil es = Some e \<Longrightarrow> e = Multi es \<and> es \<noteq> []"
  by (auto simp: ErrorOrNil_def split: if_splits)

lemma append_if_None [simp]: "append_if es None = es"
  by (simp add: append_if_def)

lemma append_if_ErrorOrNil: "append_if es (ErrorOrNil xs) = es @ xs"
  by (simp add: append_if_def ErrorOrNil_def)

lemma append_if_ErrorOrNil_Nil: "append_if es (ErrorOrNil xs) = [] \<longleftrightarrow> es = [] \<and> xs = []"
  by (simp add: append_if_ErrorOrNil)

lemma fst_apsnd: "fst (apsnd f x) = fst x"
  by (cases x) simp

subsection \<open>Prefixes and suffixes\<close>

definition HasPrefix :: "string \<Rightarrow> string \<Rightarrow> bool" where
  "HasPrefix s p \<longleftrightarrow> length p \<le> length s \<and> take (length p) s = p"

definition HasSuffix :: "string \<Rightarrow> string \<Rightarrow> bool" where
  "HasSuffix s p \<longleftrightarrow> length p \<le> length s \<and> drop (length s - length p) s = p"

definition TrimPrefix :: "string \<Rightarrow> string \<Rightarrow> string" where
  "TrimPrefix s p = (if HasPrefix s p then drop (length p) s else s)"

definition TrimSuffix :: "string \<Rightarrow> string \<Rightarrow> string" where
  "TrimSuffix s p = (if HasSuffix s p then take (length s - length p) s else s)"

lemma HasPrefix_iff [go_string]: "HasPrefix s p \<longleftrightarrow> (\<exists>t. s = p @ t)"
proof
  assume "HasPrefix s p"
  then have "s = p @ drop (length p) s"
    by (metis HasPrefix_def append_take_drop_id)
  then show "\<exists>t. s = p @ t" by blast
qed (auto simp: HasPrefix_def)

lemma HasSuffix_iff [go_string]: "HasSuffix s p \<longleftrightarrow> (\<exists>t. s = t @ p)"
proof
  assume "HasSuffix s p"
  then have "s = take (length s - length p) s @ p"
    by (metis HasSuffix_def append_take_drop_id)
  then show "\<exists>t. s = t @ p" by blast
qed (auto simp: HasSuffix_def)

lemma HasPrefix_append [simp]: "HasPrefix (p @ t) p"
  by (auto simp: HasPrefix_iff)

lemma HasSuffix_append [simp]: "HasSuffix (t @ p) p"
  by (auto simp: HasSuffix_iff)

lemma HasPrefixE: "HasPrefix s p \<Longrightarrow> (\<And>t. s = p @ t \<Longrightarrow> P) \<Longrightarrow> P"
  by (auto simp: HasPrefix_iff)

lemma HasSuffixE: "HasSuffix s p \<Longrightarrow> (\<And>t. s = t @ p \<Longrightarrow> P) \<Longrightarrow> P"
  by (auto simp: HasSuffix_iff)

lemma TrimPrefix_append [simp]: "TrimPrefix (p @ t) p = t"
  by (simp add: TrimPrefix_def)

lemma TrimSuffix_append [simp]: "TrimSuffix (t @ p) p = t"
  by (simp add: TrimSuffix_def)

subsection \<open>Splitting and joining\<close>

text \<open>\<^verbatim>\<open>strings.Split\<close> with a one-byte separator; the result is never empty.\<close>

fun Split :: "char \<Rightarrow> string \<Rightarrow> string list" where
  "Split c [] = [[]]"
| "Split c (x # xs) =
     (if x = c then [] # Split c xs
      else case Split c xs of [] \<Rightarrow> [[x]] | y # ys \<Rightarrow> (x # y) # ys)"

fun Join :: "string \<Rightarrow> string list \<Rightarrow> string" where
  "Join sep [] = []"
| "Join sep [x] = x"
| "Join sep (x # y # ys) = x @ sep @ Join sep (y # ys)"

lemma Split_not_Nil [simp]: "Split c s \<noteq> []"
  by (induction s) (auto split: list.splits)

lemma Split_no_sep: "x \<in> set (Split c s) \<Longrightarrow> c \<notin> set x"
proof (induction s arbitrary: x)
  case (Cons a s)
  then show ?case
    by (cases "Split c s") (auto split: if_splits)
qed simp

lemma Join_Cons: "ys \<noteq> [] \<Longrightarrow> Join sep (x # ys) = x @ sep @ Join sep ys"
  by (cases ys) auto

lemma Join_Split [simp]: "Join [c] (Split c s) = s"
proof (induction s)
  case (Cons a s)
  show ?case
  proof (cases "a = c")
    case True
    with Cons show ?thesis by (simp add: Join_Cons)
  next
    case False
    obtain y ys where sp: "Split c s = y # ys"
      by (cases "Split c s") auto
    have "Join [c] ((a # y) # ys) = a # Join [c] (y # ys)"
      by (cases ys) auto
    with Cons False sp show ?thesis by simp
  qed
qed simp

lemma Split_plain: "c \<notin> set x \<Longrightarrow> Split c x = [x]"
  by (induction x) auto

lemma Split_append_sep: "c \<notin> set x \<Longrightarrow> Split c (x @ c # rest) = x # Split c rest"
  by (induction x) auto

lemma Split_Join:
  "xs \<noteq> [] \<Longrightarrow> \<forall>x \<in> set xs. c \<notin> set x \<Longrightarrow> Split c (Join [c] xs) = xs"
proof (induction xs rule: induct_list012)
  case (3 x y zs)
  then show ?case by (simp add: Split_append_sep)
qed (auto simp: Split_plain)

lemma Join_snoc: "xs \<noteq> [] \<Longrightarrow> Join sep (xs @ [x]) = Join sep xs @ sep @ x"
  by (induction xs rule: induct_list012) auto

lemma Join_append:
  "xs \<noteq> [] \<Longrightarrow> ys \<noteq> [] \<Longrightarrow> Join sep (xs @ ys) = Join sep xs @ sep @ Join sep ys"
  by (induction xs rule: induct_list012) (auto simp: Join_Cons)

lemma Join_prefix_tail:
  "Join [c] xs @ c # r = Join [c] ys \<Longrightarrow> xs \<noteq> [] \<Longrightarrow> ys \<noteq> [] \<Longrightarrow>
   \<forall>x \<in> set xs. c \<notin> set x \<Longrightarrow> \<forall>y \<in> set ys. c \<notin> set y \<Longrightarrow> ys = xs @ Split c r"
proof -
  assume eq: "Join [c] xs @ c # r = Join [c] ys"
    and ne: "xs \<noteq> []" "ys \<noteq> []"
    and ok: "\<forall>x \<in> set xs. c \<notin> set x" "\<forall>y \<in> set ys. c \<notin> set y"
  have sp: "Split c (Join [c] xs @ c # r) = xs @ Split c r"
    using ne(1) ok(1)
    by (induction xs rule: induct_list012) (auto simp: Split_append_sep)
  have "Split c (Join [c] ys) = ys" using ne ok by (simp add: Split_Join)
  with eq sp show "ys = xs @ Split c r" by metis
qed

subsection \<open>Searching\<close>

text \<open>\<^verbatim>\<open>strings.LastIndex\<close> for a one-byte needle; \<^term>\<open>None\<close> stands for -1.\<close>

fun LastIndex :: "string \<Rightarrow> char \<Rightarrow> nat option" where
  "LastIndex [] c = None"
| "LastIndex (x # xs) c =
     (case LastIndex xs c of
        Some i \<Rightarrow> Some (Suc i)
      | None \<Rightarrow> if x = c then Some 0 else None)"

lemma LastIndex_None [simp]: "LastIndex s c = None \<longleftrightarrow> c \<notin> set s"
  by (induction s) (auto split: option.splits)

lemma LastIndex_append: "c \<notin> set r \<Longrightarrow> LastIndex (l @ c # r) c = Some (length l)"
  by (induction l) (auto split: option.splits)

lemma LastIndex_Some:
  "LastIndex s c = Some i \<Longrightarrow>
   s = take i s @ c # drop (Suc i) s \<and> c \<notin> set (drop (Suc i) s)"
  by (induction s arbitrary: i) (auto split: option.splits if_splits)

text \<open>\<^verbatim>\<open>strings.Index\<close>: the first occurrence of a substring.\<close>

fun Index :: "string \<Rightarrow> string \<Rightarrow> nat option" where
  "Index [] sub = (if sub = [] then Some 0 else None)"
| "Index (x # xs) sub =
     (if HasPrefix (x # xs) sub then Some 0 else map_option Suc (Index xs sub))"

definition Contains :: "string \<Rightarrow> string \<Rightarrow> bool" where
  "Contains s sub \<longleftrightarrow> Index s sub \<noteq> None"

text \<open>\<^verbatim>\<open>strings.SplitN(s, sep, 2)\<close> as the pair of its parts, for a separator that occurs.\<close>

definition SplitN2 :: "string \<Rightarrow> string \<Rightarrow> (string \<times> string) option" where
  "SplitN2 s sep = map_option (\<lambda>i. (take i s, drop (i + length sep) s)) (Index s sep)"

lemma Index_skip:
  "sub \<noteq> [] \<Longrightarrow> hd sub \<notin> set l \<Longrightarrow> Index (l @ r) sub = map_option ((+) (length l)) (Index r sub)"
proof (induction l)
  case Nil
  then show ?case by (cases "Index r sub") auto
next
  case (Cons a l)
  then have "\<not> HasPrefix (a # l @ r) sub"
    by (cases sub) (auto simp: HasPrefix_def)
  with Cons show ?case by (cases "Index r sub") auto
qed

lemma Index_absent: "sub \<noteq> [] \<Longrightarrow> hd sub \<notin> set s \<Longrightarrow> Index s sub = None"
  using Index_skip [of sub s "[]"] by simp

lemma Index_hit: "HasPrefix s sub \<Longrightarrow> Index s sub = Some 0"
  by (cases s) (auto simp: HasPrefix_def)

lemma Index_first:
  "sub \<noteq> [] \<Longrightarrow> hd sub \<notin> set l \<Longrightarrow> Index (l @ sub @ r) sub = Some (length l)"
  by (simp add: Index_skip Index_hit)

lemma SplitN2_first:
  "sub \<noteq> [] \<Longrightarrow> hd sub \<notin> set l \<Longrightarrow> SplitN2 (l @ sub @ r) sub = Some (l, r)"
  by (simp add: SplitN2_def Index_first)

lemma Index_Some: "Index s sub = Some i \<Longrightarrow> s = take i s @ sub @ drop (i + length sub) s"
proof (induction s arbitrary: i)
  case (Cons x xs)
  show ?case
  proof (cases "HasPrefix (x # xs) sub")
    case True
    with Cons.prems have "i = 0" by simp
    with True show ?thesis by (metis HasPrefix_def add_0 append_take_drop_id append_Nil take_0)
  next
    case False
    with Cons.prems obtain j where "Index xs sub = Some j" and "i = Suc j" by auto
    with Cons.IH [of j] show ?thesis by simp
  qed
qed (auto split: if_splits)

lemma Index_None_append: "Index s sub = None \<Longrightarrow> sub \<noteq> [] \<Longrightarrow> s \<noteq> l @ sub @ r"
proof (induction s arbitrary: l)
  case (Cons x xs)
  show ?case
  proof
    assume eq: "x # xs = l @ sub @ r"
    show False
    proof (cases l)
      case Nil
      with eq have "Index (x # xs) sub = Some 0" by (simp add: Index_hit)
      with Cons.prems show False by simp
    next
      case (Cons y ys)
      with eq have "xs = ys @ sub @ r" by simp
      with Cons.IH [of ys] Cons.prems show False by (auto split: if_splits)
    qed
  qed
qed auto

lemma Contains_iff [go_string]: "sub \<noteq> [] \<Longrightarrow> Contains s sub \<longleftrightarrow> (\<exists>l r. s = l @ sub @ r)"
  unfolding Contains_def using Index_Some Index_None_append by (metis option.exhaust)

end
