(* ===== verification/Regex.thy ===== *)
theory Regex
  imports Prelude
begin

text \<open>
  The fragment of Go's \<^verbatim>\<open>regexp\<close> syntax the sources use, with an executable matcher by
  derivatives. All patterns modelled here are anchored (\<^verbatim>\<open>^...$\<close>) and built from ASCII
  classes, so \<^verbatim>\<open>MatchString\<close> is a match of the whole byte string. The lemmas \<open>rmatch_Ch\<close> to
  \<open>rmatch_Rep0\<close> give the language of each construct; components use them to turn a
  transcribed pattern into a statement about characters and lengths.
\<close>

datatype rx =
    RZero
  | ROne
  | RCh "char \<Rightarrow> bool"
  | RAlt rx rx
  | RSeq rx rx
  | RStar rx

fun nullable :: "rx \<Rightarrow> bool" where
  "nullable RZero = False"
| "nullable ROne = True"
| "nullable (RCh p) = False"
| "nullable (RAlt a b) = (nullable a \<or> nullable b)"
| "nullable (RSeq a b) = (nullable a \<and> nullable b)"
| "nullable (RStar a) = True"

fun deriv :: "char \<Rightarrow> rx \<Rightarrow> rx" where
  "deriv c RZero = RZero"
| "deriv c ROne = RZero"
| "deriv c (RCh p) = (if p c then ROne else RZero)"
| "deriv c (RAlt a b) = RAlt (deriv c a) (deriv c b)"
| "deriv c (RSeq a b) =
     (if nullable a then RAlt (RSeq (deriv c a) b) (deriv c b) else RSeq (deriv c a) b)"
| "deriv c (RStar a) = RSeq (deriv c a) (RStar a)"

fun rmatch :: "rx \<Rightarrow> string \<Rightarrow> bool" where
  "rmatch r [] = nullable r"
| "rmatch r (c # s) = rmatch (deriv c r) s"

subsection \<open>Derived constructs\<close>

definition RLit :: "string \<Rightarrow> rx" where
  "RLit s = foldr (\<lambda>c r. RSeq (RCh (\<lambda>x. x = c)) r) s ROne"

definition ROpt :: "rx \<Rightarrow> rx" where
  "ROpt r = RAlt ROne r"

definition RPlus :: "rx \<Rightarrow> rx" where
  "RPlus r = RSeq r (RStar r)"

text \<open>Bounded repetition \<^verbatim>\<open>r{0,n}\<close>.\<close>

fun RRep0 :: "nat \<Rightarrow> rx \<Rightarrow> rx" where
  "RRep0 0 r = ROne"
| "RRep0 (Suc n) r = ROpt (RSeq r (RRep0 n r))"

subsection \<open>Languages of the constructs\<close>

lemma rmatch_Zero [simp]: "\<not> rmatch RZero s"
  by (induction s) auto

lemma rmatch_One [simp]: "rmatch ROne s \<longleftrightarrow> s = []"
  by (cases s) auto

lemma rmatch_Ch [simp]: "rmatch (RCh p) s \<longleftrightarrow> (\<exists>c. s = [c] \<and> p c)"
  by (cases s) auto

lemma rmatch_Alt [simp]: "rmatch (RAlt a b) s \<longleftrightarrow> rmatch a s \<or> rmatch b s"
  by (induction s arbitrary: a b) auto

lemma rmatch_Seq: "rmatch (RSeq a b) s \<longleftrightarrow> (\<exists>u v. s = u @ v \<and> rmatch a u \<and> rmatch b v)"
proof (induction s arbitrary: a)
  case (Cons c s)
  have "(\<exists>u v. c # s = u @ v \<and> rmatch a u \<and> rmatch b v) \<longleftrightarrow>
      (nullable a \<and> rmatch b (c # s)) \<or>
      (\<exists>u v. s = u @ v \<and> rmatch (deriv c a) u \<and> rmatch b v)"
    (is "?L \<longleftrightarrow> ?N \<or> ?D")
  proof
    assume ?L
    then obtain u v where uv: "c # s = u @ v" "rmatch a u" "rmatch b v" by blast
    show "?N \<or> ?D"
    proof (cases u)
      case Nil
      with uv show ?thesis by simp
    next
      case (Cons x u')
      with uv have "s = u' @ v \<and> rmatch (deriv c a) u' \<and> rmatch b v" by simp
      then show ?thesis by blast
    qed
  next
    assume "?N \<or> ?D"
    then show ?L
    proof
      assume ?N
      then have "c # s = [] @ (c # s) \<and> rmatch a [] \<and> rmatch b (c # s)" by simp
      then show ?L by blast
    next
      assume ?D
      then obtain u v where "s = u @ v" "rmatch (deriv c a) u" "rmatch b v" by blast
      then have "c # s = (c # u) @ v \<and> rmatch a (c # u) \<and> rmatch b v" by simp
      then show ?L by blast
    qed
  qed
  then show ?case by (simp add: Cons disj_commute)
qed simp

lemma rmatch_Star_step:
  "rmatch (RStar a) s \<longleftrightarrow> s = [] \<or> (\<exists>u v. s = u @ v \<and> u \<noteq> [] \<and> rmatch a u \<and> rmatch (RStar a) v)"
proof (cases s)
  case (Cons c s')
  have "rmatch (RStar a) s \<longleftrightarrow> (\<exists>u v. s' = u @ v \<and> rmatch (deriv c a) u \<and> rmatch (RStar a) v)"
    by (simp add: Cons rmatch_Seq)
  also have "\<dots> \<longleftrightarrow> (\<exists>u v. s = u @ v \<and> u \<noteq> [] \<and> rmatch a u \<and> rmatch (RStar a) v)"
    (is "?L \<longleftrightarrow> ?R")
  proof
    assume ?L
    then obtain u v where "s' = u @ v" "rmatch (deriv c a) u" "rmatch (RStar a) v" by blast
    then have "s = (c # u) @ v \<and> c # u \<noteq> [] \<and> rmatch a (c # u) \<and> rmatch (RStar a) v"
      by (simp add: Cons)
    then show ?R by blast
  next
    assume ?R
    then obtain u v where "s = u @ v" "u \<noteq> []" "rmatch a u" "rmatch (RStar a) v" by blast
    with Cons show ?L by (cases u) auto
  qed
  finally show ?thesis by (simp add: Cons)
qed simp

declare rmatch.simps [simp del]

lemma rmatch_Star: "rmatch (RStar a) s \<longleftrightarrow> (\<exists>xs. s = concat xs \<and> (\<forall>x \<in> set xs. rmatch a x))"
proof
  show "rmatch (RStar a) s \<Longrightarrow> \<exists>xs. s = concat xs \<and> (\<forall>x \<in> set xs. rmatch a x)"
  proof (induction s rule: length_induct)
    case (1 s)
    show ?case
    proof (cases "s = []")
      case True
      then show ?thesis by (intro exI [of _ "[]"]) simp
    next
      case False
      with "1.prems" obtain u v where
        uv: "s = u @ v" "u \<noteq> []" "rmatch a u" "rmatch (RStar a) v"
        using rmatch_Star_step by blast
      then obtain xs where "v = concat xs" "\<forall>x \<in> set xs. rmatch a x"
        using "1.IH" by force
      with uv show ?thesis by (intro exI [of _ "u # xs"]) simp
    qed
  qed
  show "\<exists>xs. s = concat xs \<and> (\<forall>x \<in> set xs. rmatch a x) \<Longrightarrow> rmatch (RStar a) s"
  proof -
    assume "\<exists>xs. s = concat xs \<and> (\<forall>x \<in> set xs. rmatch a x)"
    then obtain xs where "s = concat xs" "\<forall>x \<in> set xs. rmatch a x" by blast
    then show "rmatch (RStar a) s"
    proof (induction xs arbitrary: s)
      case (Cons x xs)
      then have "rmatch (RStar a) (concat xs)" and "rmatch a x" by auto
      with Cons.prems show ?case
        by (cases "x = []") (auto simp: rmatch_Star_step [of a "x @ concat xs"])
    qed (simp add: rmatch.simps)
  qed
qed

lemma rmatch_Star_Ch [simp]: "rmatch (RStar (RCh p)) s \<longleftrightarrow> (\<forall>c \<in> set s. p c)"
proof
  assume "\<forall>c \<in> set s. p c"
  then show "rmatch (RStar (RCh p)) s"
    unfolding rmatch_Star by (intro exI [of _ "map (\<lambda>c. [c]) s"]) auto
qed (fastforce simp: rmatch_Star)

lemma rmatch_Opt [simp]: "rmatch (ROpt r) s \<longleftrightarrow> s = [] \<or> rmatch r s"
  by (simp add: ROpt_def)

lemma rmatch_Seq_Ch: "rmatch (RSeq (RCh p) r) s \<longleftrightarrow> (\<exists>c t. s = c # t \<and> p c \<and> rmatch r t)"
  (is "?L \<longleftrightarrow> ?R")
proof
  assume ?R
  then obtain c t where "s = [c] @ t \<and> rmatch (RCh p) [c] \<and> rmatch r t" by auto
  then show ?L unfolding rmatch_Seq by blast
qed (auto simp: rmatch_Seq)

lemma rmatch_Seq_last:
  "rmatch (RSeq r (RCh p)) s \<longleftrightarrow> (\<exists>t c. s = t @ [c] \<and> rmatch r t \<and> p c)"
  by (auto simp: rmatch_Seq)

lemma rmatch_Plus_Ch [simp]: "rmatch (RPlus (RCh p)) s \<longleftrightarrow> s \<noteq> [] \<and> (\<forall>c \<in> set s. p c)"
  by (cases s) (auto simp: RPlus_def rmatch_Seq_Ch)

lemma rmatch_Lit [simp]: "rmatch (RLit l) s \<longleftrightarrow> s = l"
proof (induction l arbitrary: s)
  case (Cons a l)
  then show ?case by (auto simp: RLit_def rmatch_Seq_Ch)
qed (simp add: RLit_def)

lemma rmatch_Rep0 [simp]:
  "rmatch (RRep0 n (RCh p)) s \<longleftrightarrow> length s \<le> n \<and> (\<forall>c \<in> set s. p c)"
proof (induction n arbitrary: s)
  case (Suc n)
  show ?case
    by (cases s) (auto simp: rmatch_Seq_Ch Suc)
qed auto

lemma rmatch_Seq_Lit: "rmatch (RSeq (RLit l) r) s \<longleftrightarrow> (\<exists>t. s = l @ t \<and> rmatch r t)"
  by (auto simp: rmatch_Seq)

subsection \<open>Character classes\<close>

definition is_alnum :: "char \<Rightarrow> bool" where
  "is_alnum c \<longleftrightarrow>
     (CHR ''a'' \<le> c \<and> c \<le> CHR ''z'') \<or> (CHR ''A'' \<le> c \<and> c \<le> CHR ''Z'') \<or>
     (CHR ''0'' \<le> c \<and> c \<le> CHR ''9'')"

definition is_digit :: "char \<Rightarrow> bool" where
  "is_digit c \<longleftrightarrow> CHR ''0'' \<le> c \<and> c \<le> CHR ''9''"

text \<open>A word bounded by a first and last class with a middle class of at most \<open>n\<close> characters:
  the shape \<^verbatim>\<open>A(B{0,n}A)?\<close> shared by the label patterns.\<close>

definition RBounded :: "(char \<Rightarrow> bool) \<Rightarrow> (char \<Rightarrow> bool) \<Rightarrow> nat \<Rightarrow> rx" where
  "RBounded a b n = RSeq (RCh a) (ROpt (RSeq (RRep0 n (RCh b)) (RCh a)))"

lemma rmatch_Bounded:
  assumes sub: "\<And>c. a c \<Longrightarrow> b c"
  shows "rmatch (RBounded a b n) s \<longleftrightarrow>
     s \<noteq> [] \<and> a (hd s) \<and> a (last s) \<and> (\<forall>c \<in> set s. b c) \<and> length s \<le> n + 2"
proof (cases s rule: rev_cases)
  case Nil
  then show ?thesis by (simp add: RBounded_def rmatch_Seq_Ch)
next
  case (snoc m z)
  show ?thesis
  proof (cases m)
    case Nil
    with snoc show ?thesis by (auto simp: RBounded_def rmatch_Seq_Ch sub)
  next
    case (Cons x m')
    have "rmatch (RBounded a b n) s \<longleftrightarrow> a x \<and> length m' \<le> n \<and> (\<forall>c \<in> set m'. b c) \<and> a z"
      using snoc Cons by (auto simp: RBounded_def rmatch_Seq_Ch rmatch_Seq_last)
    with snoc Cons show ?thesis by (auto simp: sub)
  qed
qed

end
