(* ===== verification/Namespaces.thy ===== *)
theory Namespaces
  imports Regex "HOL-Library.Sublist" "HOL-Library.Word"
begin

text \<open>
  Namespace paths and matchers: \<^verbatim>\<open>internal/schema/resources/namespace/namespace.go\<close>, and the
  SQL restriction built from matchers in \<^verbatim>\<open>internal/database/namespace.go\<close>.
  A path is \<^verbatim>\<open>root\<close> or \<^verbatim>\<open>root.seg1...segN\<close>; a matcher is a path, or a path followed by
  \<^verbatim>\<open>.**\<close> that stands for the path and everything below it. The lemmas show that validated
  paths are exactly the joins of valid segments, that \<^verbatim>\<open>Matches\<close> is a prefix relation on
  segments, how ancestors are enumerated, and when \<^verbatim>\<open>ConstrainMatcher\<close> is the intersection
  of two matchers.
\<close>

subsection \<open>Constants\<close>

definition Root :: string where "Root = ''root''"
definition PathSeparator :: string where "PathSeparator = ''.''"
definition Wildcard :: string where "Wildcard = ''**''"
definition WildcardSuffix :: string where "WildcardSuffix = PathSeparator @ Wildcard"
definition SkipPermissionChecks :: string where
  "SkipPermissionChecks = ''<SKIP_NAMESPACE_PERMISSION_CHECK>''"
definition NoMatchSentinel :: string where "NoMatchSentinel = ''<NO_MATCH>''"

lemmas ns_consts = Root_def PathSeparator_def Wildcard_def WildcardSuffix_def

subsection \<open>Operations\<close>

definition NameFromPath :: "string \<Rightarrow> string" where
  "NameFromPath path =
     (case LastIndex path CHR ''.'' of
        Some i \<Rightarrow> drop (i + length PathSeparator) path
      | None \<Rightarrow> path)"

definition seg_word :: "char \<Rightarrow> bool" where
  "seg_word c \<longleftrightarrow> is_alnum c \<or> c = CHR ''_''"

definition seg_char :: "char \<Rightarrow> bool" where
  "seg_char c \<longleftrightarrow> is_alnum c \<or> c = CHR ''_'' \<or> c = CHR ''-''"

definition validNameRegex :: rx where
  "validNameRegex = RSeq (RPlus (RCh seg_word)) (RStar (RCh seg_char))"

definition validPathRegex :: rx where
  "validPathRegex =
     RSeq (RLit ''root'')
       (RStar (RSeq (RLit ''.'') (RSeq (RPlus (RCh seg_word)) (RStar (RCh seg_char)))))"

definition ValidateName :: "string \<Rightarrow> err" where
  "ValidateName name =
     (if name = '''' then Some (Err ''name is required'')
      else if \<not> rmatch validNameRegex name
      then Some (Err ''name must be a valid namespace path segment'')
      else None)"

definition ValidatePath :: "string \<Rightarrow> err" where
  "ValidatePath path =
     (if path = '''' then Some (Err ''path is required'')
      else if path = SkipPermissionChecks then Some (Err ''disallowed sentinel value'')
      else if path \<noteq> Root \<and> \<not> HasPrefix path (Root @ PathSeparator)
      then Some (Err ''path must be a child of root'')
      else if \<not> rmatch validPathRegex path
      then Some (Err ''path can only contain lowercase letters a-z'')
      else None)"

definition ValidateMatcher :: "string \<Rightarrow> err" where
  "ValidateMatcher matcher =
     (if matcher = '''' then Some (Err ''namespace matcher is required'')
      else if matcher \<noteq> Root \<and> \<not> HasPrefix matcher (Root @ PathSeparator)
      then Some (Err ''matcher must start with root'')
      else if HasSuffix matcher ''.**''
      then ValidatePath (take (length matcher - 3) matcher)
      else ValidatePath matcher)"

definition DepthOfPath :: "string \<Rightarrow> nat" where
  "DepthOfPath path =
     nat (max (int (length (filter (\<lambda>s. s \<noteq> '''') (Split CHR ''.'' path))) - 1) 0)"

definition SplitPathToPrefixes :: "string \<Rightarrow> string list" where
  "SplitPathToPrefixes path =
     (if path = '''' then []
      else let parts = Split CHR ''.'' path
           in map (\<lambda>i. Join PathSeparator (take (i + 1) parts)) [0..<length parts])"

text \<open>The comparison function passed to \<^verbatim>\<open>slices.SortFunc\<close>: the depths are unsigned 64-bit
  and their wrapped difference is read back as a signed integer.\<close>

definition comparePaths :: "string \<Rightarrow> string \<Rightarrow> int" where
  "comparePaths i j =
     (let iDepth = (of_nat (DepthOfPath i) :: 64 word); jDepth = of_nat (DepthOfPath j)
      in if iDepth \<noteq> jDepth then sint (iDepth - jDepth)
         else if i < j then -1 else if i > j then 1 else 0)"

fun insert_by :: "('a \<Rightarrow> 'a \<Rightarrow> int) \<Rightarrow> 'a \<Rightarrow> 'a list \<Rightarrow> 'a list" where
  "insert_by cmp x [] = [x]"
| "insert_by cmp x (y # ys) = (if cmp x y \<le> 0 then x # y # ys else y # insert_by cmp x ys)"

definition SortFunc :: "('a \<Rightarrow> 'a \<Rightarrow> int) \<Rightarrow> 'a list \<Rightarrow> 'a list" where
  "SortFunc cmp xs = foldr (insert_by cmp) xs []"

definition SplitPathsToPrefixes :: "string list \<Rightarrow> string list" where
  "SplitPathsToPrefixes paths =
     (if paths = [] then []
      else SortFunc comparePaths (remdups (concat (map SplitPathToPrefixes paths))))"

definition PathFromRoot :: "string list \<Rightarrow> string" where
  "PathFromRoot parts = Join PathSeparator (Root # parts)"

definition ParentPath :: "string \<Rightarrow> string" where
  "ParentPath path =
     (case LastIndex path CHR ''.'' of None \<Rightarrow> Root | Some i \<Rightarrow> take i path)"

definition IsChild :: "string \<Rightarrow> string \<Rightarrow> bool" where
  "IsChild parentPath childPath \<longleftrightarrow> HasPrefix childPath (parentPath @ PathSeparator)"

definition IsSameOrChild :: "string \<Rightarrow> string \<Rightarrow> bool" where
  "IsSameOrChild parentPath childPath \<longleftrightarrow> parentPath = childPath \<or> IsChild parentPath childPath"

text \<open>\<^verbatim>\<open>longer[:len(longer)-len(WildcardSuffix)]\<close> panics when the longer string has fewer than
  three bytes.\<close>

definition ConstrainMatcher :: "string \<Rightarrow> string \<Rightarrow> (string \<times> bool) may_panic" where
  "ConstrainMatcher ns1 ns2 =
     (if ns1 = '''' \<or> ns2 = '''' then Inr ('''', False)
      else if ns1 = ns2 then Inr (ns1, True)
      else
        let shorter = (if length ns1 > length ns2 then ns2 else ns1);
            longer = (if length ns1 > length ns2 then ns1 else ns2)
        in if length longer < length WildcardSuffix then Inl ''slice bounds out of range''
           else if shorter = take (length longer - length WildcardSuffix) longer
           then Inr (shorter, True)
           else if \<not> HasSuffix shorter WildcardSuffix then Inr ('''', False)
           else if HasPrefix longer (take (length shorter - length Wildcard) shorter)
           then Inr (longer, True)
           else Inr ('''', False))"

definition Matches :: "string \<Rightarrow> string \<Rightarrow> bool" where
  "Matches matcher namespace =
     (if matcher = '''' \<or> namespace = '''' then False
      else if HasSuffix matcher WildcardSuffix then
        let baseNamespace = take (length matcher - length WildcardSuffix) matcher
        in namespace = baseNamespace \<or> IsChild baseNamespace namespace
      else matcher = namespace)"

subsection \<open>Valid paths are joins of valid segments\<close>

definition valid_seg :: "string \<Rightarrow> bool" where
  "valid_seg s \<longleftrightarrow> s \<noteq> [] \<and> seg_word (hd s) \<and> (\<forall>c \<in> set s. seg_char c)"

definition valid_path :: "string \<Rightarrow> bool" where
  "valid_path p \<longleftrightarrow> ValidatePath p = None"

definition valid_matcher :: "string \<Rightarrow> bool" where
  "valid_matcher m \<longleftrightarrow> ValidateMatcher m = None"

lemma seg_word_char: "seg_word c \<Longrightarrow> seg_char c"
  by (auto simp: seg_word_def seg_char_def)

lemma seg_char_special [simp]:
  "\<not> seg_char CHR ''.''" "\<not> seg_char CHR ''*''" "\<not> seg_char CHR ''<''"
  "\<not> seg_char CHR ''%''" "seg_char CHR ''r''" "seg_char CHR ''o''" "seg_char CHR ''t''"
  by (auto simp: seg_char_def is_alnum_def less_eq_char_def)

lemma valid_seg_no_dot: "valid_seg s \<Longrightarrow> CHR ''.'' \<notin> set s"
  by (auto simp: valid_seg_def)

lemma valid_seg_not_Nil: "valid_seg s \<Longrightarrow> s \<noteq> []"
  by (auto simp: valid_seg_def)

lemma valid_seg_root [simp]: "valid_seg ''root''"
  by (simp add: valid_seg_def seg_word_def is_alnum_def less_eq_char_def)

lemma rmatch_segment:
  "rmatch (RSeq (RPlus (RCh seg_word)) (RStar (RCh seg_char))) s \<longleftrightarrow> valid_seg s"
proof
  assume "rmatch (RSeq (RPlus (RCh seg_word)) (RStar (RCh seg_char))) s"
  then show "valid_seg s"
    by (force simp: rmatch_Seq valid_seg_def hd_append intro: seg_word_char)
next
  assume v: "valid_seg s"
  then have "s = [hd s] @ tl s \<and> rmatch (RPlus (RCh seg_word)) [hd s] \<and>
      rmatch (RStar (RCh seg_char)) (tl s)"
    by (cases s) (auto simp: valid_seg_def)
  then show "rmatch (RSeq (RPlus (RCh seg_word)) (RStar (RCh seg_char))) s"
    unfolding rmatch_Seq by blast
qed

lemma Join_root_concat: "Join ''.'' (r # segs) = r @ concat (map (\<lambda>s. ''.'' @ s) segs)"
  by (induction segs arbitrary: r) auto

lemma rmatch_validPathRegex:
  "rmatch validPathRegex p \<longleftrightarrow> (\<exists>segs. p = PathFromRoot segs \<and> (\<forall>s \<in> set segs. valid_seg s))"
proof
  assume "rmatch validPathRegex p"
  then obtain xs where p: "p = ''root'' @ concat xs"
    and xs: "\<forall>x \<in> set xs. \<exists>s. x = ''.'' @ s \<and> valid_seg s"
    by (auto simp: validPathRegex_def rmatch_Seq_Lit rmatch_Star rmatch_segment)
  let ?segs = "map tl xs"
  have "map (\<lambda>s. ''.'' @ s) ?segs = xs"
    using xs by (induction xs) auto
  then have "p = PathFromRoot ?segs"
    using p by (simp add: PathFromRoot_def ns_consts Join_root_concat)
  moreover have "\<forall>s \<in> set ?segs. valid_seg s" using xs by auto
  ultimately show "\<exists>segs. p = PathFromRoot segs \<and> (\<forall>s \<in> set segs. valid_seg s)" by blast
next
  assume "\<exists>segs. p = PathFromRoot segs \<and> (\<forall>s \<in> set segs. valid_seg s)"
  then obtain segs where p: "p = PathFromRoot segs" and v: "\<forall>s \<in> set segs. valid_seg s" by blast
  have "p = ''root'' @ concat (map (\<lambda>s. ''.'' @ s) segs)"
    using p by (simp add: PathFromRoot_def ns_consts Join_root_concat)
  moreover have "\<forall>x \<in> set (map (\<lambda>s. ''.'' @ s) segs). \<exists>s. x = ''.'' @ s \<and> valid_seg s"
    using v by auto
  ultimately show "rmatch validPathRegex p"
    unfolding validPathRegex_def rmatch_Seq_Lit rmatch_Star rmatch_segment by blast
qed

lemma PathFromRoot_cases: "PathFromRoot [] = Root"
  "PathFromRoot (s # ss) = Root @ ''.'' @ Join ''.'' (s # ss)"
  by (simp_all add: PathFromRoot_def ns_consts)

lemma PathFromRoot_guards:
  "PathFromRoot segs \<noteq> []" "PathFromRoot segs \<noteq> SkipPermissionChecks"
  "PathFromRoot segs = Root \<or> HasPrefix (PathFromRoot segs) (Root @ PathSeparator)"
  by (cases segs; simp add: PathFromRoot_cases ns_consts SkipPermissionChecks_def HasPrefix_def)+

lemma valid_path_iff:
  "valid_path p \<longleftrightarrow> (\<exists>segs. p = PathFromRoot segs \<and> (\<forall>s \<in> set segs. valid_seg s))"
proof -
  have "valid_path p \<longleftrightarrow> rmatch validPathRegex p"
  proof
    assume "rmatch validPathRegex p"
    then show "valid_path p"
      using PathFromRoot_guards rmatch_validPathRegex [of p]
      by (auto simp: valid_path_def ValidatePath_def)
  qed (auto simp: valid_path_def ValidatePath_def split: if_splits)
  then show ?thesis by (simp add: rmatch_validPathRegex)
qed

lemma valid_pathE:
  assumes "valid_path p"
  obtains segs where "p = PathFromRoot segs" "\<forall>s \<in> set segs. valid_seg s"
  using assms valid_path_iff by blast

lemma valid_path_PathFromRoot [intro]: "\<forall>s \<in> set segs. valid_seg s \<Longrightarrow> valid_path (PathFromRoot segs)"
  by (auto simp: valid_path_iff)

lemma Split_PathFromRoot:
  "\<forall>s \<in> set segs. valid_seg s \<Longrightarrow> Split CHR ''.'' (PathFromRoot segs) = Root # segs"
  unfolding PathFromRoot_def PathSeparator_def
  by (rule Split_Join) (auto simp: Root_def dest: valid_seg_no_dot)

lemma PathFromRoot_inj:
  "PathFromRoot xs = PathFromRoot ys \<Longrightarrow> \<forall>s \<in> set xs. valid_seg s \<Longrightarrow>
   \<forall>s \<in> set ys. valid_seg s \<Longrightarrow> xs = ys"
  by (metis Split_PathFromRoot list.inject)

lemma valid_path_not_Nil: "valid_path p \<Longrightarrow> p \<noteq> []"
  by (metis valid_pathE PathFromRoot_guards(1))

lemma valid_path_chars: "valid_path p \<Longrightarrow> c \<in> set p \<Longrightarrow> seg_char c \<or> c = CHR ''.''"
proof -
  assume "valid_path p" "c \<in> set p"
  then obtain segs where "p = PathFromRoot segs" "\<forall>s \<in> set segs. valid_seg s"
    by (auto elim: valid_pathE)
  with \<open>c \<in> set p\<close> show ?thesis
    by (auto simp: PathFromRoot_def ns_consts Join_root_concat valid_seg_def split: if_splits)
qed

lemma valid_path_no_star: "valid_path p \<Longrightarrow> CHR ''*'' \<notin> set p"
  using valid_path_chars by fastforce

lemma valid_path_not_wild: "valid_path p \<Longrightarrow> \<not> HasSuffix p WildcardSuffix"
  using valid_path_no_star by (fastforce simp: HasSuffix_iff ns_consts)

lemma PathFromRoot_append:
  "PathFromRoot (xs @ ys) = (if ys = [] then PathFromRoot xs
     else PathFromRoot xs @ ''.'' @ Join ''.'' ys)"
  unfolding PathFromRoot_def PathSeparator_def
  using Join_append [of "Root # xs" ys "''.''"] by simp

lemma IsChild_segs:
  assumes "\<forall>s \<in> set xs. valid_seg s" "\<forall>s \<in> set ys. valid_seg s"
  shows "IsChild (PathFromRoot xs) (PathFromRoot ys) \<longleftrightarrow> strict_prefix xs ys"
proof
  assume "IsChild (PathFromRoot xs) (PathFromRoot ys)"
  then obtain t where t: "PathFromRoot xs @ CHR ''.'' # t = PathFromRoot ys"
    by (auto simp: IsChild_def HasPrefix_iff PathSeparator_def)
  have "Root # ys = (Root # xs) @ Split CHR ''.'' t"
    using t assms unfolding PathFromRoot_def PathSeparator_def
    by (intro Join_prefix_tail) (auto simp: Root_def dest: valid_seg_no_dot)
  then show "strict_prefix xs ys" by (auto simp: strict_prefix_def)
next
  assume "strict_prefix xs ys"
  then obtain zs where "ys = xs @ zs" "zs \<noteq> []" by (auto simp: strict_prefix_def prefix_def)
  then show "IsChild (PathFromRoot xs) (PathFromRoot ys)"
    by (auto simp: PathFromRoot_append IsChild_def HasPrefix_iff PathSeparator_def)
qed

lemma IsSameOrChild_segs:
  assumes "\<forall>s \<in> set xs. valid_seg s" "\<forall>s \<in> set ys. valid_seg s"
  shows "IsSameOrChild (PathFromRoot xs) (PathFromRoot ys) \<longleftrightarrow> prefix xs ys"
  using IsChild_segs [OF assms] PathFromRoot_inj [OF _ assms]
  by (auto simp: IsSameOrChild_def prefix_order.le_less)

subsection \<open>Matchers\<close>

abbreviation wild :: "string \<Rightarrow> string" where
  "wild p \<equiv> p @ WildcardSuffix"

lemma WildcardSuffix_lit: "WildcardSuffix = ''.**''"
  by (simp add: ns_consts)

lemma wild_lengths [simp]:
  "length WildcardSuffix = 3" "length Wildcard = 2" "WildcardSuffix \<noteq> []"
  "take (Suc 0) WildcardSuffix = ''.''"
  by (simp_all add: ns_consts)

lemma valid_path_prefix: "valid_path p \<Longrightarrow> p = Root \<or> HasPrefix p (Root @ PathSeparator)"
  by (auto simp: valid_path_def ValidatePath_def split: if_splits)

lemma valid_path_length: "valid_path p \<Longrightarrow> 4 \<le> length p"
  using valid_path_prefix by (fastforce simp: HasPrefix_iff ns_consts)

lemma valid_matcher_iff:
  "valid_matcher m \<longleftrightarrow> valid_path m \<or> (\<exists>p. m = wild p \<and> valid_path p)"
proof
  assume "valid_matcher m"
  then show "valid_path m \<or> (\<exists>p. m = wild p \<and> valid_path p)"
    by (auto simp: valid_matcher_def ValidateMatcher_def valid_path_def HasSuffix_iff
        WildcardSuffix_lit split: if_splits)
next
  assume "valid_path m \<or> (\<exists>p. m = wild p \<and> valid_path p)"
  then show "valid_matcher m"
  proof
    assume v: "valid_path m"
    with valid_path_not_wild [OF v] valid_path_prefix [OF v] valid_path_not_Nil [OF v]
    show ?thesis
      by (auto simp: valid_matcher_def ValidateMatcher_def valid_path_def WildcardSuffix_lit)
  next
    assume "\<exists>p. m = wild p \<and> valid_path p"
    then obtain p where m: "m = wild p" and v: "valid_path p" by blast
    from valid_path_prefix [OF v] have "HasPrefix m (Root @ PathSeparator)"
      by (auto simp: m ns_consts HasPrefix_iff)
    moreover have "HasSuffix m ''.**''" by (simp add: m WildcardSuffix_lit)
    ultimately show ?thesis
      using v
      by (auto simp: valid_matcher_def ValidateMatcher_def valid_path_def m WildcardSuffix_lit)
  qed
qed

lemma valid_matcherE:
  assumes "valid_matcher m"
  obtains (path) "valid_path m" | (wild) p where "m = wild p" "valid_path p"
  using assms valid_matcher_iff by blast

lemma Matches_path: "valid_path p \<Longrightarrow> Matches p ns \<longleftrightarrow> ns = p"
  using valid_path_not_Nil valid_path_not_wild by (auto simp: Matches_def)

lemma Matches_wild: "valid_path p \<Longrightarrow> Matches (wild p) ns \<longleftrightarrow> ns = p \<or> HasPrefix ns (p @ ''.'')"
  using valid_path_not_Nil
  by (auto simp: Matches_def IsChild_def PathSeparator_def HasPrefix_iff)

lemma Matches_wild_segs:
  assumes "\<forall>s \<in> set xs. valid_seg s" "\<forall>s \<in> set ys. valid_seg s"
  shows "Matches (wild (PathFromRoot xs)) (PathFromRoot ys) \<longleftrightarrow> prefix xs ys"
proof -
  have "valid_path (PathFromRoot xs)" using assms by auto
  then show ?thesis
    using IsSameOrChild_segs [OF assms]
    by (auto simp: Matches_wild IsSameOrChild_def IsChild_def PathSeparator_def)
qed

subsection \<open>Intersection of matchers\<close>

text \<open>
  The two situations in which \<^verbatim>\<open>ConstrainMatcher\<close> is not the intersection. A collision: two
  different plain paths, one being the other without its last three bytes. A short child: a
  plain path below the base of a wildcard matcher that is not longer than the matcher.
\<close>

definition tail_collision :: "string \<Rightarrow> string \<Rightarrow> bool" where
  "tail_collision m1 m2 \<longleftrightarrow>
     \<not> HasSuffix m1 WildcardSuffix \<and> \<not> HasSuffix m2 WildcardSuffix \<and>
     ((length m1 + 3 = length m2 \<and> HasPrefix m2 m1) \<or> (length m2 + 3 = length m1 \<and> HasPrefix m1 m2))"

definition short_child :: "string \<Rightarrow> string \<Rightarrow> bool" where
  "short_child m1 m2 \<longleftrightarrow>
     (HasSuffix m1 WildcardSuffix \<and> \<not> HasSuffix m2 WildcardSuffix \<and>
        IsChild (TrimSuffix m1 WildcardSuffix) m2 \<and> length m2 < length m1) \<or>
     (HasSuffix m2 WildcardSuffix \<and> \<not> HasSuffix m1 WildcardSuffix \<and>
        IsChild (TrimSuffix m2 WildcardSuffix) m1 \<and> length m1 \<le> length m2)"

definition matcher_set :: "string \<Rightarrow> string set" where
  "matcher_set m = {ns. Matches m ns}"

lemma prefix_dot_chain:
  assumes "HasPrefix ns (p @ ''.'')" "HasPrefix ns (q @ ''.'')" "length p < length q"
  shows "HasPrefix q (p @ ''.'')"
proof -
  from assms have p: "take (length p + 1) ns = p @ ''.''" and q: "take (length q + 1) ns = q @ ''.''"
    by (auto simp: HasPrefix_def)
  have "take (length p + 1) (q @ ''.'') = take (length p + 1) ns"
    using assms(3) q [symmetric] by (simp add: min_absorb1)
  with p assms(3) have "take (length (p @ ''.'')) q = p @ ''.''" by simp
  then show ?thesis by (metis HasPrefix_append append_take_drop_id)
qed

lemma prefix_dot_same_length:
  "HasPrefix ns (p @ ''.'') \<Longrightarrow> HasPrefix ns (q @ ''.'') \<Longrightarrow> length p = length q \<Longrightarrow> p = q"
  by (auto simp: HasPrefix_def)

lemma wild_neq_path: "valid_path p \<Longrightarrow> p \<noteq> wild q"
  using valid_path_not_wild by (metis HasSuffix_append)

lemma wild_neq_take: "valid_path p \<Longrightarrow> wild q \<noteq> take n p"
proof
  assume "valid_path p" and eq: "wild q = take n p"
  have "CHR ''*'' \<in> set (wild q)" by (simp add: WildcardSuffix_lit)
  then have "CHR ''*'' \<in> set p" unfolding eq by (rule in_set_takeD)
  with \<open>valid_path p\<close> show False using valid_path_no_star by blast
qed

lemma take3_prefix:
  assumes "p = take (length q - 3) q" "4 \<le> length q"
  shows "length p + 3 = length q \<and> HasPrefix q p"
proof -
  have "q = p @ drop (length q - 3) q" using assms(1) by simp
  then have "HasPrefix q p" by (metis HasPrefix_append)
  with assms show ?thesis by simp
qed

lemma Constrain_paths:
  assumes "valid_path p" "valid_path q" "p \<noteq> q" "\<not> tail_collision p q"
  shows "ConstrainMatcher p q = Inr ('''', False)"
proof -
  have ns: "\<not> HasSuffix p WildcardSuffix" "\<not> HasSuffix q WildcardSuffix"
    using assms valid_path_not_wild by auto
  have len: "4 \<le> length p" "4 \<le> length q" using assms valid_path_length by auto
  have "p \<noteq> take (length q - 3) q" "q \<noteq> take (length p - 3) p"
    using take3_prefix [of p q] take3_prefix [of q p] len assms(4) ns
    by (auto simp: tail_collision_def)
  then show ?thesis
    using ns len assms(3) by (auto simp: ConstrainMatcher_def Let_def)
qed

lemma Constrain_wilds:
  assumes v: "valid_path p" "valid_path q" and le: "length p \<le> length q" and ne: "p \<noteq> q"
  shows "ConstrainMatcher (wild p) (wild q) =
      (if HasPrefix q (p @ ''.'') then Inr (wild q, True) else Inr ('''', False))" (is ?A)
    and "ConstrainMatcher (wild q) (wild p) =
      (if length p = length q \<or> \<not> HasPrefix q (p @ ''.'') then Inr ('''', False)
       else Inr (wild q, True))" (is ?B)
proof -
  have bq: "take (length (wild q) - 3) (wild q) = q" "take (length (wild p) - 3) (wild p) = p" by auto
  have tk: "take (length (wild p) - 2) (wild p) = p @ ''.''" "take (length (wild q) - 2) (wild q) = q @ ''.''"
    by (simp_all add: WildcardSuffix_lit)
  have nq: "wild p \<noteq> q" "wild q \<noteq> p" using wild_neq_path v by metis+
  have pre: "HasPrefix (wild q) (p @ ''.'') \<longleftrightarrow> HasPrefix q (p @ ''.'')"
    using le ne by (cases "length p = length q") (auto simp: HasPrefix_def WildcardSuffix_lit)
  have pre': "length p = length q \<Longrightarrow> \<not> HasPrefix (wild p) (q @ ''.'')"
    using ne by (auto simp: HasPrefix_def WildcardSuffix_lit)
  show ?A
    using le ne nq pre
    by (simp add: ConstrainMatcher_def Let_def bq tk)
  show ?B
    using le ne nq pre pre'
    by (auto simp: ConstrainMatcher_def Let_def bq tk)
qed

lemma Constrain_wild_path:
  assumes v: "valid_path p" "valid_path q"
  shows "ConstrainMatcher (wild p) q =
      (if p = q then Inr (q, True)
       else if length (wild p) \<le> length q \<and> HasPrefix q (p @ ''.'') then Inr (q, True)
       else Inr ('''', False))" (is ?A)
    and "ConstrainMatcher q (wild p) =
      (if p = q then Inr (q, True)
       else if length (wild p) < length q \<and> HasPrefix q (p @ ''.'') then Inr (q, True)
       else Inr ('''', False))" (is ?B)
proof -
  have nw: "\<not> HasSuffix q WildcardSuffix" "q \<noteq> []" "4 \<le> length q"
    using v valid_path_not_wild valid_path_not_Nil valid_path_length by auto
  have bq: "take (length (wild p) - 3) (wild p) = p" by auto
  have tk: "take (length (wild p) - 2) (wild p) = p @ ''.''" by (simp add: WildcardSuffix_lit)
  have nq: "wild p \<noteq> q" "q \<noteq> wild p" using wild_neq_path v by metis+
  have nt: "wild p \<noteq> take n q" for n using wild_neq_take v by auto
  show ?A
    using nw nq nt by (auto simp: ConstrainMatcher_def Let_def bq tk)
  show ?B
    using nw nq nt by (auto simp: ConstrainMatcher_def Let_def bq tk)
qed

text \<open>The result is always one of the two arguments, so it never widens both.\<close>

lemma ConstrainMatcher_arg:
  "ConstrainMatcher m1 m2 = Inr (c, True) \<Longrightarrow> c = m1 \<or> c = m2"
  by (auto simp: ConstrainMatcher_def Let_def split: if_splits)

lemma ConstrainMatcher_no_panic:
  "valid_matcher m1 \<Longrightarrow> valid_matcher m2 \<Longrightarrow> \<exists>c ok. ConstrainMatcher m1 m2 = Inr (c, ok)"
proof -
  have "4 \<le> length m" if "valid_matcher m" for m
    using that by (cases rule: valid_matcherE) (auto dest: valid_path_length)
  moreover assume "valid_matcher m1" "valid_matcher m2"
  ultimately have "4 \<le> length m1" "4 \<le> length m2" by auto
  then show ?thesis by (auto simp: ConstrainMatcher_def Let_def)
qed

lemma not_short_child_wild_path:
  assumes "valid_path q"
  shows "short_child (wild p) q \<longleftrightarrow> HasPrefix q (p @ ''.'') \<and> length q < length (wild p)"
    and "short_child q (wild p) \<longleftrightarrow> HasPrefix q (p @ ''.'') \<and> length q \<le> length (wild p)"
  using valid_path_not_wild [OF assms]
  by (auto simp: short_child_def IsChild_def PathSeparator_def)

definition constrain_spec :: "string \<Rightarrow> string \<Rightarrow> (string \<times> bool) may_panic \<Rightarrow> bool" where
  "constrain_spec m1 m2 r \<longleftrightarrow>
     (\<exists>c. r = Inr (c, True) \<and> valid_matcher c \<and> matcher_set c = matcher_set m1 \<inter> matcher_set m2) \<or>
     (r = Inr ('''', False) \<and> matcher_set m1 \<inter> matcher_set m2 = {})"

lemma constrain_spec_wild_path:
  assumes v: "valid_path p" "valid_path q"
  shows "\<not> short_child (wild p) q \<Longrightarrow> constrain_spec (wild p) q (ConstrainMatcher (wild p) q)"
    and "\<not> short_child q (wild p) \<Longrightarrow> constrain_spec q (wild p) (ConstrainMatcher q (wild p))"
  using v not_short_child_wild_path [OF v(2)]
  by (auto simp: constrain_spec_def Constrain_wild_path matcher_set_def Matches_path Matches_wild
      valid_matcher_iff)

lemma constrain_spec_wilds:
  assumes v: "valid_path p" "valid_path q"
  shows "constrain_spec (wild p) (wild q) (ConstrainMatcher (wild p) (wild q))"
proof (cases "p = q")
  case True
  have "ConstrainMatcher (wild q) (wild q) = Inr (wild q, True)"
    by (simp add: ConstrainMatcher_def WildcardSuffix_lit)
  then show ?thesis using v True by (auto simp: constrain_spec_def valid_matcher_iff)
next
  case ne: False
  have empty: "HasPrefix p (q @ ''.'') \<or> HasPrefix q (p @ ''.'')"
    if "ns \<in> matcher_set (wild p) \<inter> matcher_set (wild q)" for ns
    using that v ne prefix_dot_chain [of ns p q] prefix_dot_chain [of ns q p]
      prefix_dot_same_length [of ns p q]
    by (cases "length p" "length q" rule: linorder_cases) (auto simp: matcher_set_def Matches_wild)
  have sub: "matcher_set (wild b) \<subseteq> matcher_set (wild a)"
    if "HasPrefix b (a @ ''.'')" "valid_path a" "valid_path b" for a b
    using that by (fastforce simp: matcher_set_def Matches_wild HasPrefix_iff)
  have len: "HasPrefix b (a @ ''.'') \<Longrightarrow> length a < length b" for a b by (auto simp: HasPrefix_def)
  show ?thesis
  proof (cases "length p \<le> length q")
    case True
    then have "\<not> HasPrefix p (q @ ''.'')" using len [of p q] by auto
    then show ?thesis
      using Constrain_wilds(1) [OF v True ne] empty sub [of q p] v
      by (auto simp: constrain_spec_def valid_matcher_iff)
  next
    case False
    then have "\<not> HasPrefix q (p @ ''.'')" using len [of q p] by auto
    moreover have "length q \<le> length p" "length q \<noteq> length p" using False by auto
    ultimately show ?thesis
      using Constrain_wilds(2) [OF v(2,1), of] ne empty sub [of p q] v
      by (auto simp: constrain_spec_def valid_matcher_iff)
  qed
qed

lemma constrain_spec_paths:
  assumes v: "valid_path p" "valid_path q" and "\<not> tail_collision p q"
  shows "constrain_spec p q (ConstrainMatcher p q)"
proof (cases "p = q")
  case True
  then have "ConstrainMatcher p q = Inr (q, True)"
    using valid_path_not_Nil [OF v(1)] by (simp add: ConstrainMatcher_def)
  with True v show ?thesis by (auto simp: constrain_spec_def valid_matcher_iff)
next
  case False
  with v Constrain_paths [OF v False assms(3)] show ?thesis
    by (auto simp: constrain_spec_def matcher_set_def Matches_path)
qed

lemma constrain_spec_valid:
  assumes "valid_matcher m1" "valid_matcher m2" "\<not> tail_collision m1 m2" "\<not> short_child m1 m2"
  shows "constrain_spec m1 m2 (ConstrainMatcher m1 m2)"
  using assms
  by (elim valid_matcherE) (auto intro: constrain_spec_paths constrain_spec_wilds constrain_spec_wild_path)

text \<open>
  Property C10. For any two valid matchers outside the two defective shapes,
  \<^verbatim>\<open>ConstrainMatcher\<close> does not panic and computes the exact intersection: on success the
  returned matcher is valid and matches precisely the namespaces matched by both arguments,
  and it reports failure only when no namespace is matched by both.
\<close>

theorem ConstrainMatcher_exact:
  assumes "valid_matcher m1" "valid_matcher m2" "\<not> tail_collision m1 m2" "\<not> short_child m1 m2"
  shows "(\<exists>c. ConstrainMatcher m1 m2 = Inr (c, True) \<and> valid_matcher c \<and>
            matcher_set c = matcher_set m1 \<inter> matcher_set m2) \<or>
         (ConstrainMatcher m1 m2 = Inr ('''', False) \<and> matcher_set m1 \<inter> matcher_set m2 = {})"
  using constrain_spec_valid [OF assms] unfolding constrain_spec_def .

theorem ConstrainMatcher_exact_witness:
  "ConstrainMatcher ''root.**'' ''root.team.**'' = Inr (''root.team.**'', True) \<and>
   matcher_set ''root.team.**'' = matcher_set ''root.**'' \<inter> matcher_set ''root.team.**''"
proof -
  have h: "valid_matcher ''root.**''" "valid_matcher ''root.team.**''"
    "\<not> tail_collision ''root.**'' ''root.team.**''" "\<not> short_child ''root.**'' ''root.team.**''"
    by code_simp+
  have c: "ConstrainMatcher ''root.**'' ''root.team.**'' = Inr (''root.team.**'', True)" by code_simp
  from ConstrainMatcher_exact [OF h] show ?thesis unfolding c by simp
qed

text \<open>
  The collision defect, for every path: constraining a valid plain path \<open>p\<close>
  with the different valid plain path \<open>p @ t\<close>, where \<open>t\<close> is any three bytes, succeeds with
  \<open>p\<close>, although no namespace is matched by both. An actor allowed only in
  \<^verbatim>\<open>root.team123\<close> that filters on \<^verbatim>\<open>root.team\<close> is given the matcher \<^verbatim>\<open>root.team\<close>.
\<close>

theorem ConstrainMatcher_collision:
  assumes "valid_path p" "valid_path (p @ t)" "length t = 3"
  shows "ConstrainMatcher p (p @ t) = Inr (p, True) \<and> ConstrainMatcher (p @ t) p = Inr (p, True) \<and>
         matcher_set p \<inter> matcher_set (p @ t) = {}"
proof -
  have "t \<noteq> []" using assms(3) by auto
  moreover have "ConstrainMatcher p (p @ t) = Inr (p, True)" "ConstrainMatcher (p @ t) p = Inr (p, True)"
    using assms valid_path_not_Nil [OF assms(1)] by (auto simp: ConstrainMatcher_def Let_def)
  ultimately show ?thesis using assms by (auto simp: matcher_set_def Matches_path)
qed

theorem ConstrainMatcher_collision_witness:
  "ConstrainMatcher ''root.team'' ''root.team123'' = Inr (''root.team'', True) \<and>
   matcher_set ''root.team'' \<inter> matcher_set ''root.team123'' = {}"
proof -
  have h: "valid_path ''root.team''" "valid_path (''root.team'' @ ''123'')" by code_simp+
  from ConstrainMatcher_collision [OF h] show ?thesis by simp
qed

text \<open>
  The short-child defect, for every path: a child whose last segment is a single
  character is matched by the wildcard matcher of its parent, yet \<^verbatim>\<open>ConstrainMatcher\<close> reports
  an empty intersection; with a two-character segment the answer depends on the argument order.
\<close>

theorem ConstrainMatcher_short_child:
  assumes "valid_path p" "valid_path (p @ ''.'' @ s)" "length s \<le> 2"
  shows "p @ ''.'' @ s \<in> matcher_set (wild p) \<inter> matcher_set (p @ ''.'' @ s) \<and>
         ConstrainMatcher (p @ ''.'' @ s) (wild p) = Inr ('''', False) \<and>
         ConstrainMatcher (wild p) (p @ ''.'' @ s) =
           (if length s = 2 then Inr (p @ ''.'' @ s, True) else Inr ('''', False))"
  using assms Constrain_wild_path [OF assms(1,2)]
  by (auto simp: matcher_set_def Matches_wild Matches_path HasPrefix_iff)

theorem ConstrainMatcher_short_child_witness:
  "ConstrainMatcher ''root.**'' ''root.a'' = Inr ([], False) \<and>
   ''root.a'' \<in> matcher_set ''root.**'' \<inter> matcher_set ''root.a''"
proof -
  have h: "valid_path ''root''" "valid_path (''root'' @ ''.'' @ ''a'')" by code_simp+
  from ConstrainMatcher_short_child [OF h] show ?thesis by (simp add: WildcardSuffix_lit)
qed

text \<open>
  On valid paths a wildcard matcher is decided segment by segment: it matches a
  namespace exactly when the segments of its base are a prefix of the segments of the
  namespace. In particular \<^verbatim>\<open>root.foo.**\<close> does not match \<^verbatim>\<open>root.foobar\<close>.
\<close>

theorem Matches_wildcard_segments:
  assumes "\<forall>s \<in> set base. valid_seg s" "\<forall>s \<in> set path. valid_seg s"
  shows "Matches (PathFromRoot base @ WildcardSuffix) (PathFromRoot path) \<longleftrightarrow> prefix base path"
  using assms by (rule Matches_wild_segs)

theorem Matches_wildcard_segments_witness:
  "Matches ''root.foo.**'' ''root.foo.bar'' \<and> \<not> Matches ''root.foo.**'' ''root.foobar''"
proof -
  have v: "valid_seg ''foo''" "valid_seg ''bar''" "valid_seg ''foobar''" by code_simp+
  have "Matches (PathFromRoot [''foo''] @ WildcardSuffix) (PathFromRoot [''foo'', ''bar'']) \<longleftrightarrow>
      prefix [''foo''] [''foo'', ''bar'']"
    using v by (intro Matches_wildcard_segments) auto
  moreover have "Matches (PathFromRoot [''foo''] @ WildcardSuffix) (PathFromRoot [''foobar'']) \<longleftrightarrow>
      prefix [''foo''] [''foobar'']"
    using v by (intro Matches_wildcard_segments) auto
  ultimately show ?thesis by (simp add: PathFromRoot_def ns_consts)
qed

subsection \<open>Parents, names and ancestors\<close>

lemma valid_path_snocE:
  assumes "valid_path p" "p \<noteq> Root"
  obtains segs s where "p = PathFromRoot segs @ ''.'' @ s" "valid_seg s" "\<forall>x \<in> set segs. valid_seg x"
proof -
  from assms obtain xs where xs: "p = PathFromRoot xs" "\<forall>s \<in> set xs. valid_seg s"
    by (auto elim: valid_pathE)
  with assms(2) have "xs \<noteq> []" by (auto simp: PathFromRoot_cases)
  then obtain ys y where "xs = ys @ [y]" by (cases xs rule: rev_cases) auto
  with xs that [of ys y] show thesis by (auto simp: PathFromRoot_append)
qed

lemma ParentPath_snoc: "valid_seg s \<Longrightarrow> ParentPath (q @ ''.'' @ s) = q"
  using LastIndex_append [of "CHR ''.''" s q] valid_seg_no_dot by (auto simp: ParentPath_def)

lemma NameFromPath_snoc: "valid_seg s \<Longrightarrow> NameFromPath (q @ ''.'' @ s) = s"
  using LastIndex_append [of "CHR ''.''" s q] valid_seg_no_dot
  by (auto simp: NameFromPath_def PathSeparator_def)

lemma ValidateName_seg: "ValidateName s = None \<longleftrightarrow> valid_seg s"
  by (auto simp: ValidateName_def validNameRegex_def rmatch_segment valid_seg_def)

text \<open>
  A valid path other than the root is its parent path, the separator and its
  derived name; the parent is again a valid path and the name a valid namespace name. The
  parent and the name of the root are the root itself.
\<close>

theorem ParentPath_NameFromPath:
  assumes "valid_path p"
  shows "(if p = Root then ParentPath p = Root \<and> NameFromPath p = Root
          else p = ParentPath p @ PathSeparator @ NameFromPath p \<and>
               IsChild (ParentPath p) p \<and>
               valid_path (ParentPath p) \<and> ValidateName (NameFromPath p) = None)"
proof (cases "p = Root")
  case True
  then show ?thesis by (simp add: ParentPath_def NameFromPath_def Root_def)
next
  case False
  from valid_path_snocE [OF assms False] obtain segs s where
    p: "p = PathFromRoot segs @ ''.'' @ s" and s: "valid_seg s" and v: "\<forall>x \<in> set segs. valid_seg x" .
  have "ParentPath p = PathFromRoot segs" "NameFromPath p = s"
    unfolding p using s by (rule ParentPath_snoc, rule NameFromPath_snoc)
  then show ?thesis
    using False p s v
    by (auto simp: PathSeparator_def ValidateName_seg IsChild_def HasPrefix_iff)
qed

lemma SplitPathToPrefixes_segs:
  assumes "\<forall>s \<in> set segs. valid_seg s"
  shows "SplitPathToPrefixes (PathFromRoot segs) =
     map (\<lambda>i. PathFromRoot (take i segs)) [0..<Suc (length segs)]"
  using PathFromRoot_guards(1) [of segs]
  by (simp add: SplitPathToPrefixes_def Split_PathFromRoot [OF assms] PathFromRoot_def [symmetric] Let_def
      del: upt_Suc)

lemma set_SplitPathToPrefixes:
  assumes "valid_path p"
  shows "set (SplitPathToPrefixes p) = {q. valid_path q \<and> IsSameOrChild q p}"
proof -
  from assms obtain segs where p: "p = PathFromRoot segs" and v: "\<forall>s \<in> set segs. valid_seg s"
    by (auto elim: valid_pathE)
  have tk: "\<forall>s \<in> set (take i segs). valid_seg s" for i using v by (auto dest: in_set_takeD)
  show ?thesis
  proof (intro set_eqI iffI)
    fix q assume "q \<in> set (SplitPathToPrefixes p)"
    then obtain i where "q = PathFromRoot (take i segs)"
      using v unfolding p by (auto simp: SplitPathToPrefixes_segs simp del: upt_Suc)
    then show "q \<in> {q. valid_path q \<and> IsSameOrChild q p}"
      using tk v by (auto simp: p IsSameOrChild_segs take_is_prefix)
  next
    fix q assume "q \<in> {q. valid_path q \<and> IsSameOrChild q p}"
    then obtain xs where "q = PathFromRoot xs" "prefix xs segs"
      using v by (auto simp: p IsSameOrChild_segs elim!: valid_pathE)
    then have "q = PathFromRoot (take (length xs) segs)" "length xs \<le> length segs"
      by (auto simp: prefix_def)
    then show "q \<in> set (SplitPathToPrefixes p)"
      using v unfolding p by (auto simp: SplitPathToPrefixes_segs simp del: upt_Suc)
  qed
qed

lemma DepthOfPath_segs:
  assumes "\<forall>s \<in> set segs. valid_seg s"
  shows "DepthOfPath (PathFromRoot segs) = length segs"
proof -
  have "filter (\<lambda>s. s \<noteq> '''') (Root # segs) = Root # segs"
    using assms by (auto simp: Root_def filter_id_conv dest: valid_seg_not_Nil)
  then show ?thesis using assms by (simp add: DepthOfPath_def Split_PathFromRoot)
qed

theorem ParentPath_NameFromPath_witness:
  "valid_path ''root.foo.bar'' \<and> ParentPath ''root.foo.bar'' = ''root.foo'' \<and>
   valid_path (ParentPath ''root.foo.bar'')"
proof -
  have h: "valid_path ''root.foo.bar''" by code_simp
  have "ParentPath ''root.foo.bar'' = ''root.foo''" by code_simp
  with h ParentPath_NameFromPath [OF h] show ?thesis by (simp add: Root_def)
qed

text \<open>
  \<^verbatim>\<open>SplitPathToPrefixes\<close> lists exactly the valid paths that are the given path or
  an ancestor of it, without repetition, in order of strictly increasing depth from the root
  to the path itself.
\<close>

theorem SplitPathToPrefixes_ancestors:
  assumes "valid_path p"
  shows "set (SplitPathToPrefixes p) = {q. valid_path q \<and> IsSameOrChild q p} \<and>
         map DepthOfPath (SplitPathToPrefixes p) = [0..<Suc (DepthOfPath p)] \<and>
         last (SplitPathToPrefixes p) = p"
proof -
  from assms obtain segs where p: "p = PathFromRoot segs" and v: "\<forall>s \<in> set segs. valid_seg s"
    by (auto elim: valid_pathE)
  have "DepthOfPath (PathFromRoot (take i segs)) = min (length segs) i" for i
    using v DepthOfPath_segs [of "take i segs"] by (auto dest: in_set_takeD)
  then have "map DepthOfPath (SplitPathToPrefixes p) = [0..<Suc (DepthOfPath p)]"
    unfolding p SplitPathToPrefixes_segs [OF v] DepthOfPath_segs [OF v]
    by (auto simp: comp_def intro!: nth_equalityI simp del: upt_Suc)
  moreover have "last (SplitPathToPrefixes p) = p"
    unfolding p SplitPathToPrefixes_segs [OF v] by simp
  ultimately show ?thesis using set_SplitPathToPrefixes [OF assms] by blast
qed

theorem SplitPathToPrefixes_ancestors_witness:
  "SplitPathToPrefixes ''root.foo.bar'' = [''root'', ''root.foo'', ''root.foo.bar''] \<and>
   set [''root'', ''root.foo'', ''root.foo.bar''] =
     {q. valid_path q \<and> IsSameOrChild q ''root.foo.bar''}"
proof -
  have h: "valid_path ''root.foo.bar''" by code_simp
  have e: "SplitPathToPrefixes ''root.foo.bar'' = [''root'', ''root.foo'', ''root.foo.bar'']" by code_simp
  from SplitPathToPrefixes_ancestors [OF h] show ?thesis unfolding e by blast
qed

text \<open>Sorting by a comparison function that agrees with a total preorder.\<close>

lemma set_insert_by [simp]: "set (insert_by cmp x ys) = insert x (set ys)"
  by (induction ys) auto

lemma set_SortFunc [simp]: "set (SortFunc cmp xs) = set xs"
  by (induction xs) (auto simp: SortFunc_def)

lemma distinct_SortFunc: "distinct xs \<Longrightarrow> distinct (SortFunc cmp xs)"
proof (induction xs)
  case (Cons x xs)
  have "distinct (insert_by cmp x ys)" if "distinct ys" "x \<notin> set ys" for ys
    using that by (induction ys) auto
  with Cons set_SortFunc [of cmp xs] show ?case by (simp add: SortFunc_def)
qed (simp add: SortFunc_def)

lemma sorted_SortFunc:
  assumes le: "\<And>x y. x \<in> A \<Longrightarrow> y \<in> A \<Longrightarrow> cmp x y \<le> 0 \<Longrightarrow> key x \<le> key y"
    and ge: "\<And>x y. x \<in> A \<Longrightarrow> y \<in> A \<Longrightarrow> 0 < cmp x y \<Longrightarrow> key y \<le> key x"
    and "set xs \<subseteq> A"
  shows "sorted (map (key :: 'a \<Rightarrow> 'b :: linorder) (SortFunc cmp xs))"
  using assms(3)
proof (induction xs)
  case (Cons x xs)
  have ins: "sorted (map key (insert_by cmp x ys))" if "sorted (map key ys)" "set ys \<subseteq> A" "x \<in> A" for ys
    using that by (induction ys) (auto simp: le ge dest: le [of x] intro: order_trans)
  have "set (SortFunc cmp xs) \<subseteq> A" using Cons.prems by simp
  with Cons ins [of "SortFunc cmp xs"] show ?case by (simp add: SortFunc_def)
qed (simp add: SortFunc_def)

lemma sint_diff_of_nat:
  assumes "a < 2 ^ 63" "b < 2 ^ 63"
  shows "sint ((of_nat a :: 64 word) - of_nat b) = int a - int b"
proof -
  have "(of_nat a :: 64 word) - of_nat b = word_of_int (int a - int b)" by simp
  moreover have "sint (word_of_int (int a - int b) :: 64 word) = signed_take_bit 63 (int a - int b)"
    by (simp only: sint_sbintrunc') simp
  moreover have "signed_take_bit 63 (int a - int b) = int a - int b"
    using assms by (intro signed_take_bit_int_eq_self) auto
  ultimately show ?thesis by simp
qed

lemma of_nat_word_inj:
  assumes "a < 2 ^ 63" "b < 2 ^ 63"
  shows "(of_nat a :: 64 word) = of_nat b \<longleftrightarrow> a = b"
  using sint_diff_of_nat [OF assms] by auto

lemma DepthOfPath_le: "DepthOfPath p \<le> length p"
proof -
  have "length (Split c s) \<le> Suc (length s)" for c s
    by (induction s) (auto split: list.splits)
  then have "length (filter (\<lambda>s. s \<noteq> '''') (Split CHR ''.'' p)) \<le> Suc (length p)"
    using length_filter_le order_trans by blast
  then show ?thesis by (simp add: DepthOfPath_def)
qed

lemma comparePaths_le:
  assumes "length i < 2 ^ 63" "length j < 2 ^ 63"
  shows "comparePaths i j \<le> 0 \<longleftrightarrow>
     DepthOfPath i < DepthOfPath j \<or> (DepthOfPath i = DepthOfPath j \<and> i \<le> j)"
proof -
  have d: "DepthOfPath i < 2 ^ 63" "DepthOfPath j < 2 ^ 63"
    using assms DepthOfPath_le order_le_less_trans by blast+
  show ?thesis
    using sint_diff_of_nat [OF d] of_nat_word_inj [OF d]
    by (auto simp: comparePaths_def Let_def)
qed

text \<open>
  For valid paths (of any length a Go string can have) \<^verbatim>\<open>SplitPathsToPrefixes\<close>
  returns every path and every ancestor exactly once, shallower paths first, so that creating
  the namespaces in this order never creates a child before its parent.
\<close>

theorem SplitPathsToPrefixes_parents_first:
  assumes "\<forall>p \<in> set paths. valid_path p \<and> length p < 2 ^ 63"
  shows "set (SplitPathsToPrefixes paths) = {q. valid_path q \<and> (\<exists>p \<in> set paths. IsSameOrChild q p)} \<and>
         distinct (SplitPathsToPrefixes paths) \<and>
         sorted (map DepthOfPath (SplitPathsToPrefixes paths))"
proof -
  let ?xs = "remdups (concat (map SplitPathToPrefixes paths))"
  let ?A = "{q. length q < (2 ^ 63 :: nat)}"
  have set: "set ?xs = {q. valid_path q \<and> (\<exists>p \<in> set paths. IsSameOrChild q p)}"
    using assms set_SplitPathToPrefixes by auto
  have A: "set ?xs \<subseteq> ?A"
    using assms unfolding set by (fastforce simp: IsSameOrChild_def IsChild_def HasPrefix_def)
  have wk: "sorted (map DepthOfPath (SortFunc comparePaths ?xs))"
    using A by (rule sorted_SortFunc [of ?A comparePaths DepthOfPath, rotated 2])
      (auto simp: comparePaths_le not_le [symmetric] intro: less_imp_le)
  show ?thesis
    using set wk by (auto simp: SplitPathsToPrefixes_def intro: distinct_SortFunc)
qed

theorem SplitPathsToPrefixes_parents_first_witness:
  "SplitPathsToPrefixes [''root.foo.bar'', ''root.baz''] =
     [''root'', ''root.baz'', ''root.foo'', ''root.foo.bar''] \<and>
   sorted (map DepthOfPath (SplitPathsToPrefixes [''root.foo.bar'', ''root.baz'']))"
proof -
  have h: "valid_path ''root.foo.bar''" "valid_path ''root.baz''" by code_simp+
  have "SplitPathsToPrefixes [''root.foo.bar'', ''root.baz''] =
      [''root'', ''root.baz'', ''root.foo'', ''root.foo.bar'']"
    by code_simp
  moreover have "\<forall>p \<in> set [''root.foo.bar'', ''root.baz'']. valid_path p \<and> length p < 2 ^ 63"
    using h by simp
  ultimately show ?thesis
    using SplitPathsToPrefixes_parents_first [of "[''root.foo.bar'', ''root.baz'']"] by blast
qed

end
