(* ===== verification/Permissions.thy ===== *)
theory Permissions
  imports Namespaces
begin

text \<open>
  Permissions and their evaluation for an actor: the schema of
  \<^verbatim>\<open>internal/schema/auth/permission.go\<close>, the actor of \<^verbatim>\<open>internal/apauth/core/actor.go\<close> and the
  matching functions of \<^verbatim>\<open>internal/apauth/core/permissions.go\<close>. A permission's namespace may be
  a mustache template over the actor's data; the template engine is third-party code, so it is
  the parameter \<open>render\<close> of every definition that reaches it. The lemmas characterise which
  actions a list of permissions grants.
\<close>

subsection \<open>The permission schema\<close>

definition PermissionWildcard :: string where "PermissionWildcard = ''*''"

record permission =
  p_Namespace :: string
  p_Resources :: "string list"
  p_ResourceIds :: "string list"
  p_Verbs :: "string list"

definition Permission_Equal :: "permission \<Rightarrow> permission \<Rightarrow> bool" where
  "Permission_Equal p q \<longleftrightarrow>
     p_Namespace p = p_Namespace q \<and> p_Resources p = p_Resources q \<and>
     p_ResourceIds p = p_ResourceIds q \<and> p_Verbs p = p_Verbs q"

text \<open>One error for every empty string of a list.\<close>

definition empty_errors :: "string \<Rightarrow> string list \<Rightarrow> gerror list" where
  "empty_errors msg xs = map (\<lambda>_. Err msg) (filter (\<lambda>x. x = '''') xs)"

definition Permission_Validate :: "permission \<Rightarrow> err" where
  "Permission_Validate p = ErrorOrNil
     ((if p_Namespace p = '''' then [Err ''permission namespace is required''] else []) @
      empty_errors ''permission resource id is required'' (p_ResourceIds p) @
      (if length (p_Resources p) = 0 then [Err ''at least one permission resource is required''] else []) @
      empty_errors ''permission resource is required'' (p_Resources p) @
      (if length (p_Verbs p) = 0 then [Err ''at least one permissions verb is required''] else []) @
      empty_errors ''permission verb is required'' (p_Verbs p))"

definition NoPermissions :: "permission list" where "NoPermissions = []"

definition AllPermissions :: "permission list" where
  "AllPermissions =
     [\<lparr>p_Namespace = ''root.**'', p_Resources = [''*''], p_ResourceIds = [], p_Verbs = [''*'']\<rparr>]"

definition PermissionsSingle :: "string \<Rightarrow> string \<Rightarrow> string \<Rightarrow> permission list" where
  "PermissionsSingle namespace resource verb =
     [\<lparr>p_Namespace = namespace, p_Resources = [resource], p_ResourceIds = [], p_Verbs = [verb]\<rparr>]"

definition PermissionsSingleWithResourceIds ::
  "string \<Rightarrow> string \<Rightarrow> string \<Rightarrow> string list \<Rightarrow> permission list" where
  "PermissionsSingleWithResourceIds namespace resource verb resourceIds =
     [\<lparr>p_Namespace = namespace, p_Resources = [resource], p_ResourceIds = resourceIds, p_Verbs = [verb]\<rparr>]"

subsection \<open>Actors\<close>

text \<open>String maps are maps; \<^verbatim>\<open>nil\<close> and the empty map behave alike for every use below.\<close>

type_synonym string_map = "string \<rightharpoonup> string"

record actor =
  a_Id :: string
  a_Name :: string
  a_ExternalId :: string
  a_Namespace :: string
  a_Labels :: string_map
  a_Annotations :: string_map
  a_Permissions :: "permission list"

definition Actor_GetName :: "actor \<Rightarrow> string" where
  "Actor_GetName a = (if a_Name a = '''' \<and> a_Id a \<noteq> '''' then a_Id a else a_Name a)"

definition isValidValueForNamespaceTemplating :: "string \<Rightarrow> bool" where
  "isValidValueForNamespaceTemplating val \<longleftrightarrow> val \<noteq> '''' \<and> val \<noteq> Wildcard"

definition filterLabelOrAnnotationForPermission :: "string_map \<Rightarrow> string_map" where
  "filterLabelOrAnnotationForPermission vals =
     (\<lambda>k. case vals k of
            Some v \<Rightarrow> if isValidValueForNamespaceTemplating v then Some v else None
          | None \<Rightarrow> None)"

text \<open>The \<^verbatim>\<open>map[string]any\<close> handed to the template engine: the two string maps and, when it is
  usable, the external id.\<close>

record template_data =
  td_labels :: string_map
  td_annotations :: string_map
  td_external_id :: "string option"

definition GetPermissionTemplateData :: "actor \<Rightarrow> template_data" where
  "GetPermissionTemplateData a =
     \<lparr>td_labels = filterLabelOrAnnotationForPermission (a_Labels a),
      td_annotations = filterLabelOrAnnotationForPermission (a_Annotations a),
      td_external_id =
        (if isValidValueForNamespaceTemplating (a_ExternalId a) then Some (a_ExternalId a) else None)\<rparr>"

text \<open>Actor data behind the \<^verbatim>\<open>IActorData\<close> interface is either an \<^verbatim>\<open>Actor\<close> already or another
  implementation, known through its getters only.\<close>

datatype iactor_data = IsActor actor | OtherActorData string string string string string_map string_map "permission list"

fun CreateActor :: "iactor_data \<Rightarrow> actor" where
  "CreateActor (IsActor a) = a"
| "CreateActor (OtherActorData i name extId ns labels annotations perms) =
     \<lparr>a_Id = i, a_Name = name, a_ExternalId = extId, a_Namespace = ns, a_Labels = labels,
      a_Annotations = annotations, a_Permissions = perms\<rparr>"

subsection \<open>Matching\<close>

fun ContainsMustache :: "string \<Rightarrow> bool" where
  "ContainsMustache (a # b # s) = (a = CHR ''{'' \<and> b = CHR ''{'' \<or> ContainsMustache (b # s))"
| "ContainsMustache _ = False"

type_synonym renderer = "string \<Rightarrow> template_data \<Rightarrow> gerror + string"

definition renderPermissionNamespace :: "renderer \<Rightarrow> actor option \<Rightarrow> string \<Rightarrow> string \<times> bool" where
  "renderPermissionNamespace render actor namespace =
     (if \<not> ContainsMustache namespace then (namespace, True)
      else case actor of
             None \<Rightarrow> ('''', False)
           | Some a \<Rightarrow>
               (case render namespace (GetPermissionTemplateData a) of
                  Inl e \<Rightarrow> ('''', False)
                | Inr rendered \<Rightarrow> (rendered, True)))"

definition renderValidPermissionNamespace :: "renderer \<Rightarrow> actor option \<Rightarrow> string \<Rightarrow> string \<times> bool" where
  "renderValidPermissionNamespace render actor ns =
     (let (rendered, ok) = renderPermissionNamespace render actor ns
      in if \<not> ok then ('''', False)
         else if ValidateMatcher rendered \<noteq> None then ('''', False)
         else (rendered, True))"

definition matchesNamespace :: "renderer \<Rightarrow> actor option \<Rightarrow> permission \<Rightarrow> string \<Rightarrow> bool" where
  "matchesNamespace render actor p targetNamespace =
     (if p_Namespace p = '''' \<or> targetNamespace = '''' then False
      else if targetNamespace = SkipPermissionChecks then True
      else let (matcher, ok) = renderValidPermissionNamespace render actor (p_Namespace p)
           in if \<not> ok then False else Matches matcher targetNamespace)"

definition matchesResource :: "permission \<Rightarrow> string \<Rightarrow> bool" where
  "matchesResource p targetResource =
     (if targetResource = '''' then False
      else list_ex (\<lambda>r. r = PermissionWildcard \<or> r = targetResource) (p_Resources p))"

definition matchesVerb :: "permission \<Rightarrow> string \<Rightarrow> bool" where
  "matchesVerb p targetVerb =
     (if targetVerb = '''' then False
      else list_ex (\<lambda>v. v = PermissionWildcard \<or> v = targetVerb) (p_Verbs p))"

definition matchesResourceId :: "permission \<Rightarrow> string \<Rightarrow> bool" where
  "matchesResourceId p targetResourceId =
     (if length (p_ResourceIds p) = 0 then True
      else if targetResourceId = '''' then True
      else List.member (p_ResourceIds p) targetResourceId)"

definition allowsForActor ::
  "renderer \<Rightarrow> actor option \<Rightarrow> permission \<Rightarrow> string \<Rightarrow> string \<Rightarrow> string \<Rightarrow> string \<Rightarrow> bool" where
  "allowsForActor render actor p namespace resource verb resourceId =
     (if \<not> matchesNamespace render actor p namespace then False
      else if \<not> matchesResource p resource then False
      else if \<not> matchesVerb p verb then False
      else if \<not> matchesResourceId p resourceId then False
      else True)"

definition permissionsAllowForActor ::
  "renderer \<Rightarrow> actor option \<Rightarrow> permission list \<Rightarrow> string \<Rightarrow> string \<Rightarrow> string \<Rightarrow> string \<Rightarrow> bool" where
  "permissionsAllowForActor render actor permissions namespace resource verb resourceId =
     list_ex (\<lambda>p. allowsForActor render actor p namespace resource verb resourceId) permissions"

definition permissionsAllowWithRestrictionsForActor ::
  "renderer \<Rightarrow> actor option \<Rightarrow> permission list \<Rightarrow> permission list \<Rightarrow>
   string \<Rightarrow> string \<Rightarrow> string \<Rightarrow> string \<Rightarrow> bool" where
  "permissionsAllowWithRestrictionsForActor render actor actorPermissions restrictions namespace resource verb resourceId =
     (if \<not> permissionsAllowForActor render actor actorPermissions namespace resource verb resourceId then False
      else if length restrictions = 0 then True
      else permissionsAllowForActor render actor restrictions namespace resource verb resourceId)"

subsection \<open>What a permission grants\<close>

text \<open>The matcher a permission contributes for an actor, if its template renders to a valid one.\<close>

definition perm_matcher :: "renderer \<Rightarrow> actor option \<Rightarrow> permission \<Rightarrow> string option" where
  "perm_matcher render actor p =
     (let (m, ok) = renderValidPermissionNamespace render actor (p_Namespace p) in if ok then Some m else None)"

lemma renderValid_Some:
  "renderValidPermissionNamespace render actor ns = (m, True) \<Longrightarrow> valid_matcher m"
  by (auto simp: renderValidPermissionNamespace_def valid_matcher_def split: prod.splits if_splits)

lemma renderValid_iff:
  "renderValidPermissionNamespace render actor (p_Namespace p) =
     (case perm_matcher render actor p of Some m \<Rightarrow> (m, True) | None \<Rightarrow> ('''', False))"
  by (auto simp: perm_matcher_def renderValidPermissionNamespace_def split: prod.splits if_splits)

lemma perm_matcher_valid: "perm_matcher render actor p = Some m \<Longrightarrow> valid_matcher m"
  by (auto simp: perm_matcher_def dest: renderValid_Some split: prod.splits if_splits)

lemma perm_matcher_literal:
  "\<not> ContainsMustache (p_Namespace p) \<Longrightarrow>
   perm_matcher render actor p = (if valid_matcher (p_Namespace p) then Some (p_Namespace p) else None)"
  by (simp add: perm_matcher_def renderValidPermissionNamespace_def renderPermissionNamespace_def valid_matcher_def)

lemma perm_matcher_empty: "p_Namespace p = '''' \<Longrightarrow> perm_matcher render actor p = None"
  by (simp add: perm_matcher_literal valid_matcher_def ValidateMatcher_def)

lemma ContainsMustache_brace: "ContainsMustache s \<Longrightarrow> CHR ''{'' \<in> set s"
  by (induction s rule: ContainsMustache.induct) auto

lemma valid_path_no_mustache: "valid_path p \<Longrightarrow> \<not> ContainsMustache p"
  using valid_path_chars [of p "CHR ''{''"] ContainsMustache_brace [of p]
  by (auto simp: seg_char_def is_alnum_def less_eq_char_def)

lemma valid_path_neq_Skip: "valid_path ns \<Longrightarrow> ns \<noteq> SkipPermissionChecks"
  by (auto simp: valid_path_def ValidatePath_def split: if_splits)

lemma matchesNamespace_valid:
  "valid_path ns \<Longrightarrow> matchesNamespace render actor p ns \<longleftrightarrow>
     (\<exists>m. perm_matcher render actor p = Some m \<and> Matches m ns)"
  using perm_matcher_empty [of p render actor]
  by (cases "perm_matcher render actor p")
     (auto simp: matchesNamespace_def valid_path_neq_Skip valid_path_not_Nil renderValid_iff)

text \<open>Which resources, verbs and ids a permission names.\<close>

definition names :: "string list \<Rightarrow> string \<Rightarrow> bool" where
  "names xs x \<longleftrightarrow> x \<in> set xs \<or> PermissionWildcard \<in> set xs"

lemma matchesResource_names: "matchesResource p r \<longleftrightarrow> r \<noteq> '''' \<and> names (p_Resources p) r"
  by (auto simp: matchesResource_def names_def list_ex_iff)

lemma matchesVerb_names: "matchesVerb p v \<longleftrightarrow> v \<noteq> '''' \<and> names (p_Verbs p) v"
  by (auto simp: matchesVerb_def names_def list_ex_iff)

lemma matchesResourceId_iff:
  "matchesResourceId p i \<longleftrightarrow> p_ResourceIds p = [] \<or> i = '''' \<or> i \<in> set (p_ResourceIds p)"
  by (auto simp: matchesResourceId_def)

definition applies :: "string \<Rightarrow> string \<Rightarrow> permission \<Rightarrow> bool" where
  "applies resource verb p \<longleftrightarrow> names (p_Resources p) resource \<and> names (p_Verbs p) verb"

lemma allowsForActor_iff:
  "allowsForActor render actor p ns r v i \<longleftrightarrow>
     r \<noteq> '''' \<and> v \<noteq> '''' \<and> matchesNamespace render actor p ns \<and> applies r v p \<and> matchesResourceId p i"
  by (auto simp: allowsForActor_def matchesResource_names matchesVerb_names applies_def)

lemma permissionsAllow_iff:
  "permissionsAllowForActor render actor ps ns r v i \<longleftrightarrow>
     (\<exists>p \<in> set ps. allowsForActor render actor p ns r v i)"
  by (simp add: permissionsAllowForActor_def list_ex_iff)

lemma permissionsAllow_valid:
  "valid_path ns \<Longrightarrow> permissionsAllowForActor render actor ps ns r v i \<longleftrightarrow>
     r \<noteq> '''' \<and> v \<noteq> '''' \<and>
     (\<exists>p \<in> set ps. \<exists>m. perm_matcher render actor p = Some m \<and> Matches m ns \<and> applies r v p \<and> matchesResourceId p i)"
  by (auto simp: permissionsAllow_iff allowsForActor_iff matchesNamespace_valid)

lemma Permission_Validate_ok:
  "Permission_Validate p = None \<longleftrightarrow>
     p_Namespace p \<noteq> '''' \<and> p_Resources p \<noteq> [] \<and> p_Verbs p \<noteq> [] \<and>
     '''' \<notin> set (p_Resources p) \<and> '''' \<notin> set (p_Verbs p) \<and> '''' \<notin> set (p_ResourceIds p)"
  by (auto simp: Permission_Validate_def empty_errors_def filter_empty_conv)

text \<open>A namespace-level check that names no namespace or id succeeds whenever the check for
  some concrete object would.\<close>

lemma allowsForActor_Skip:
  assumes "allowsForActor render actor p ns r v i"
  shows "allowsForActor render actor p SkipPermissionChecks r v i"
    and "allowsForActor render actor p SkipPermissionChecks r v ''''"
  using assms by (auto simp: allowsForActor_iff matchesNamespace_def matchesResourceId_iff
      SkipPermissionChecks_def split: if_splits)

end
