(* ===== verification/Request_Auth.thy ===== *)
theory Request_Auth
  imports Permissions
begin

text \<open>
  The authorisation carried by a request (\<^verbatim>\<open>internal/apauth/core/request_auth.go\<close>): the actor,
  an optional session and optional restrictions that narrow the actor's permissions. It answers
  point queries (\<^verbatim>\<open>Allows\<close>, \<^verbatim>\<open>AllowsReason\<close>) and computes the namespace matchers that list
  queries use (\<^verbatim>\<open>GetNamespacesAllowed\<close>). The lemmas show that restrictions only narrow, that
  the two point queries agree, and how the list of matchers relates to the point queries.
\<close>

subsection \<open>Loops that may panic\<close>

fun bind_panic :: "'a may_panic \<Rightarrow> ('a \<Rightarrow> 'b may_panic) \<Rightarrow> 'b may_panic" where
  "bind_panic (Inl e) f = Inl e"
| "bind_panic (Inr x) f = f x"

text \<open>A loop that appends the values each element yields, in order.\<close>

fun collect :: "('a \<Rightarrow> 'b list may_panic) \<Rightarrow> 'a list \<Rightarrow> 'b list may_panic" where
  "collect f [] = Inr []"
| "collect f (x # xs) = bind_panic (f x) (\<lambda>ys. bind_panic (collect f xs) (\<lambda>zs. Inr (ys @ zs)))"

lemma collect_Inr: "(\<And>x. x \<in> set xs \<Longrightarrow> f x = Inr (g x)) \<Longrightarrow> collect f xs = Inr (concat (map g xs))"
  by (induction xs) auto

lemma bind_panic_Inr: "bind_panic m f = Inr y \<longleftrightarrow> (\<exists>x. m = Inr x \<and> f x = Inr y)"
  by (cases m) auto

lemma collect_set:
  "collect f xs = Inr ys \<Longrightarrow> y \<in> set ys \<longleftrightarrow> (\<exists>x \<in> set xs. \<exists>zs. f x = Inr zs \<and> y \<in> set zs)"
  by (induction xs arbitrary: ys) (auto simp: bind_panic_Inr)

subsection \<open>Request authorisation\<close>

record request_auth =
  ra_sessionId :: "string option"
  ra_actor :: "actor option"
  ra_permissions :: "permission list"

definition IsAuthenticated :: "request_auth \<Rightarrow> bool" where
  "IsAuthenticated ra \<longleftrightarrow> ra_actor ra \<noteq> None"

definition IsSession :: "request_auth \<Rightarrow> bool" where
  "IsSession ra \<longleftrightarrow> IsAuthenticated ra \<and> ra_sessionId ra \<noteq> None"

definition SetSessionId :: "request_auth \<Rightarrow> string option \<Rightarrow> request_auth" where
  "SetSessionId ra sessionId = ra\<lparr>ra_sessionId := sessionId\<rparr>"

definition MustGetActor :: "request_auth \<Rightarrow> actor may_panic" where
  "MustGetActor ra =
     (case ra_actor ra of None \<Rightarrow> Inl ''expected request to be authenticated'' | Some a \<Rightarrow> Inr a)"

definition SetPermissions :: "request_auth \<Rightarrow> permission list \<Rightarrow> request_auth" where
  "SetPermissions ra permissions = ra\<lparr>ra_permissions := permissions\<rparr>"

definition NewUnauthenticatedRequestAuth :: request_auth where
  "NewUnauthenticatedRequestAuth = \<lparr>ra_sessionId = None, ra_actor = None, ra_permissions = []\<rparr>"

definition NewAuthenticatedRequestAuth :: "iactor_data \<Rightarrow> request_auth" where
  "NewAuthenticatedRequestAuth a =
     \<lparr>ra_sessionId = None, ra_actor = Some (CreateActor a), ra_permissions = []\<rparr>"

definition NewAuthenticatedRequestAuthWithSession :: "iactor_data \<Rightarrow> string option \<Rightarrow> request_auth" where
  "NewAuthenticatedRequestAuthWithSession a sess =
     \<lparr>ra_sessionId = sess, ra_actor = Some (CreateActor a), ra_permissions = []\<rparr>"

definition NewAuthenticatedRequestAuthWithPermissions :: "iactor_data \<Rightarrow> permission list \<Rightarrow> request_auth" where
  "NewAuthenticatedRequestAuthWithPermissions a permissions =
     \<lparr>ra_sessionId = None, ra_actor = Some (CreateActor a), ra_permissions = permissions\<rparr>"

definition NewAuthenticatedRequestAuthWithSessionAndPermissions ::
  "iactor_data \<Rightarrow> string option \<Rightarrow> permission list \<Rightarrow> request_auth" where
  "NewAuthenticatedRequestAuthWithSessionAndPermissions a sess permissions =
     \<lparr>ra_sessionId = sess, ra_actor = Some (CreateActor a), ra_permissions = permissions\<rparr>"

text \<open>The inner loop of \<^verbatim>\<open>GetNamespacesAllowed\<close>: the candidates narrowed by one restriction.\<close>

definition constrain_candidates :: "string \<Rightarrow> string list \<Rightarrow> string list may_panic" where
  "constrain_candidates restrictionNamespace candidateNamespaces =
     collect (\<lambda>candidateNamespace.
        bind_panic (ConstrainMatcher restrictionNamespace candidateNamespace)
          (\<lambda>(restricted, ok). Inr (if ok then [restricted] else []))) candidateNamespaces"

text \<open>The receiver may be \<^verbatim>\<open>nil\<close>. \<^verbatim>\<open>slices.Sort\<close> orders strings bytewise and \<^verbatim>\<open>slices.Compact\<close>
  drops adjacent duplicates.\<close>

definition GetNamespacesAllowed ::
  "renderer \<Rightarrow> request_auth option \<Rightarrow> string \<Rightarrow> string \<Rightarrow> string list may_panic" where
  "GetNamespacesAllowed render nra resource verb =
     (case nra of None \<Rightarrow> Inr [] | Some ra \<Rightarrow>
      case ra_actor ra of None \<Rightarrow> Inr [] | Some actor \<Rightarrow>
        let appliesTo = (\<lambda>permission.
              (List.member (p_Resources permission) resource \<or> List.member (p_Resources permission) PermissionWildcard) \<and>
              (List.member (p_Verbs permission) verb \<or> List.member (p_Verbs permission) PermissionWildcard));
            candidateNamespaces = concat (map (\<lambda>permission.
              if appliesTo permission then
                let (ns, ok) = renderValidPermissionNamespace render (Some actor) (p_Namespace permission)
                in if ok then [ns] else []
              else []) (a_Permissions actor))
        in bind_panic
             (if length (ra_permissions ra) > 0 then
                collect (\<lambda>permission.
                  if appliesTo permission then
                    let (restrictionNamespace, ok) =
                      renderValidPermissionNamespace render (Some actor) (p_Namespace permission)
                    in if \<not> ok then Inr [] else constrain_candidates restrictionNamespace candidateNamespaces
                  else Inr []) (ra_permissions ra)
              else Inr candidateNamespaces)
             (\<lambda>finalNamespaces. Inr (remdups_adj (sort finalNamespaces))))"

definition Allows ::
  "renderer \<Rightarrow> request_auth option \<Rightarrow> string \<Rightarrow> string \<Rightarrow> string \<Rightarrow> string \<Rightarrow> bool" where
  "Allows render nra namespace resource verb resourceId =
     (case nra of None \<Rightarrow> False | Some ra \<Rightarrow>
      case ra_actor ra of None \<Rightarrow> False | Some actor \<Rightarrow>
        permissionsAllowWithRestrictionsForActor render (Some actor) (a_Permissions actor)
          (ra_permissions ra) namespace resource verb resourceId)"

definition AllowsReason ::
  "renderer \<Rightarrow> request_auth option \<Rightarrow> string \<Rightarrow> string \<Rightarrow> string \<Rightarrow> string \<Rightarrow> bool \<times> string" where
  "AllowsReason render nra namespace resource verb resourceId =
     (case nra of None \<Rightarrow> (False, ''request auth is nil'') | Some ra \<Rightarrow>
      case ra_actor ra of None \<Rightarrow> (False, ''actor not authenticated'') | Some actor \<Rightarrow>
        if \<not> permissionsAllowForActor render (Some actor) (a_Permissions actor) namespace resource verb resourceId
        then (False, ''actor permissions do not allow this action'')
        else if length (ra_permissions ra) > 0 \<and>
          \<not> permissionsAllowForActor render (Some actor) (ra_permissions ra) namespace resource verb resourceId
        then (False, ''request permissions do not allow this action'')
        else (Allows render (Some ra) namespace resource verb resourceId, ''''))"

subsection \<open>Point queries\<close>

lemma Allows_iff:
  "Allows render (Some ra) ns r v i \<longleftrightarrow>
     (\<exists>actor. ra_actor ra = Some actor \<and>
        permissionsAllowForActor render (Some actor) (a_Permissions actor) ns r v i \<and>
        (ra_permissions ra = [] \<or> permissionsAllowForActor render (Some actor) (ra_permissions ra) ns r v i))"
  by (auto simp: Allows_def permissionsAllowWithRestrictionsForActor_def split: option.splits)

lemma AllowsReason_Allows:
  "AllowsReason render nra ns r v i = (a, reason) \<Longrightarrow>
   (a \<longleftrightarrow> Allows render nra ns r v i) \<and> (reason = '''' \<longleftrightarrow> Allows render nra ns r v i)"
  by (auto simp: AllowsReason_def Allows_def permissionsAllowWithRestrictionsForActor_def
      split: option.splits if_splits)

lemma Allows_Skip:
  assumes "Allows render nra ns r v i"
  shows "Allows render nra SkipPermissionChecks r v i" and "Allows render nra SkipPermissionChecks r v ''''"
proof -
  obtain ra where [simp]: "nra = Some ra" using assms by (cases nra) (auto simp: Allows_def)
  show "Allows render nra SkipPermissionChecks r v i" "Allows render nra SkipPermissionChecks r v ''''"
    using assms by (fastforce simp: Allows_iff permissionsAllow_iff intro: allowsForActor_Skip)+
qed

subsection \<open>The matchers of a list query\<close>

lemma set_map_filter: "y \<in> set (List.map_filter f xs) \<longleftrightarrow> (\<exists>x \<in> set xs. f x = Some y)"
  by (induction xs) (auto simp: map_filter_def)

text \<open>The matchers that a list of permissions contributes for a resource and a verb.\<close>

definition perm_matchers :: "renderer \<Rightarrow> actor \<Rightarrow> string \<Rightarrow> string \<Rightarrow> permission list \<Rightarrow> string list" where
  "perm_matchers render actor r v ps =
     List.map_filter (\<lambda>p. if applies r v p then perm_matcher render (Some actor) p else None) ps"

lemma set_perm_matchers:
  "m \<in> set (perm_matchers render actor r v ps) \<longleftrightarrow>
     (\<exists>p \<in> set ps. applies r v p \<and> perm_matcher render (Some actor) p = Some m)"
  by (auto simp: perm_matchers_def set_map_filter split: if_splits)

lemma perm_matchers_valid: "m \<in> set (perm_matchers render actor r v ps) \<Longrightarrow> valid_matcher m"
  by (auto simp: set_perm_matchers perm_matcher_valid)

lemma perm_matchers_allow:
  assumes "valid_path ns" "r \<noteq> ''''" "v \<noteq> ''''"
  shows "(\<exists>m \<in> set (perm_matchers render actor r v ps). Matches m ns) \<longleftrightarrow>
         permissionsAllowForActor render (Some actor) ps ns r v ''''"
  using assms unfolding permissionsAllow_valid [OF assms(1)]
  by (simp add: Bex_def set_perm_matchers matchesResourceId_iff) blast

lemma map_filter_Cons: "List.map_filter f (x # xs) = (case f x of None \<Rightarrow> [] | Some y \<Rightarrow> [y]) @ List.map_filter f xs"
  by (simp add: map_filter_def split: option.splits)

lemma perm_matchers_loop:
  "concat (map (\<lambda>p. if (List.member (p_Resources p) r \<or> List.member (p_Resources p) PermissionWildcard) \<and>
                       (List.member (p_Verbs p) v \<or> List.member (p_Verbs p) PermissionWildcard)
                    then let (ns, ok) = renderValidPermissionNamespace render (Some actor) (p_Namespace p)
                         in if ok then [ns] else []
                    else []) ps) = perm_matchers render actor r v ps"
proof (induction ps)
  case (Cons p ps)
  then show ?case
    by (cases "perm_matcher render (Some actor) p")
       (auto simp: perm_matchers_def map_filter_Cons applies_def names_def renderValid_iff)
qed (simp add: perm_matchers_def map_filter_def)

text \<open>The matchers that survive one restriction matcher.\<close>

definition constrained :: "string \<Rightarrow> string list \<Rightarrow> string list" where
  "constrained m cs = List.map_filter (\<lambda>c. case ConstrainMatcher m c of Inr (x, True) \<Rightarrow> Some x | _ \<Rightarrow> None) cs"

lemma constrain_candidates_Inr:
  assumes "valid_matcher m" "\<forall>c \<in> set cs. valid_matcher c"
  shows "constrain_candidates m cs = Inr (constrained m cs)"
  using assms(2)
proof (induction cs)
  case (Cons c cs)
  obtain x ok where "ConstrainMatcher m c = Inr (x, ok)"
    using ConstrainMatcher_no_panic [OF assms(1), of c] Cons.prems by auto
  with Cons show ?case
    by (cases ok) (simp_all add: constrain_candidates_def constrained_def map_filter_Cons)
qed (simp add: constrain_candidates_def constrained_def map_filter_def)

lemma set_constrained: "x \<in> set (constrained m cs) \<longleftrightarrow> (\<exists>c \<in> set cs. ConstrainMatcher m c = Inr (x, True))"
proof
  assume "x \<in> set (constrained m cs)"
  then show "\<exists>c \<in> set cs. ConstrainMatcher m c = Inr (x, True)"
    unfolding constrained_def set_map_filter
    by (elim bexE) (force split: sum.split_asm prod.split_asm bool.split_asm)
next
  assume "\<exists>c \<in> set cs. ConstrainMatcher m c = Inr (x, True)"
  then obtain c where "c \<in> set cs" "ConstrainMatcher m c = Inr (x, True)" by blast
  then show "x \<in> set (constrained m cs)"
    unfolding constrained_def set_map_filter by (intro bexI [of _ c]) auto
qed

text \<open>The value of \<^verbatim>\<open>GetNamespacesAllowed\<close> before sorting, without the panic branches.\<close>

definition allowed_list :: "renderer \<Rightarrow> actor \<Rightarrow> permission list \<Rightarrow> string \<Rightarrow> string \<Rightarrow> string list" where
  "allowed_list render actor restrictions r v =
     (let cs = perm_matchers render actor r v (a_Permissions actor) in
      if restrictions = [] then cs
      else concat (map (\<lambda>m. constrained m cs) (perm_matchers render actor r v restrictions)))"

lemma restrictions_loop:
  assumes "\<forall>c \<in> set cs. valid_matcher c"
  shows "collect (\<lambda>p. if (List.member (p_Resources p) r \<or> List.member (p_Resources p) PermissionWildcard) \<and>
                       (List.member (p_Verbs p) v \<or> List.member (p_Verbs p) PermissionWildcard)
                    then let (ns, ok) = renderValidPermissionNamespace render (Some actor) (p_Namespace p)
                         in if \<not> ok then Inr [] else constrain_candidates ns cs
                    else Inr []) ps =
         Inr (concat (map (\<lambda>m. constrained m cs) (perm_matchers render actor r v ps)))"
proof (induction ps)
  case (Cons p ps)
  then show ?case
    using constrain_candidates_Inr [OF perm_matcher_valid assms, of render "Some actor" p]
    by (cases "perm_matcher render (Some actor) p")
       (auto simp: perm_matchers_def map_filter_Cons applies_def names_def renderValid_iff)
qed (simp add: perm_matchers_def map_filter_def)

lemma GetNamespacesAllowed_Inr:
  assumes "ra_actor ra = Some actor"
  shows "GetNamespacesAllowed render (Some ra) r v =
         Inr (remdups_adj (sort (allowed_list render actor (ra_permissions ra) r v)))"
proof -
  have "\<forall>c \<in> set (perm_matchers render actor r v (a_Permissions actor)). valid_matcher c"
    by (auto dest: perm_matchers_valid)
  from restrictions_loop [OF this, unfolded Let_def, of r v render actor "ra_permissions ra"] show ?thesis
    unfolding GetNamespacesAllowed_def Let_def perm_matchers_loop [unfolded Let_def]
    by (simp add: assms allowed_list_def Let_def del: List.member_iff)
qed

definition compatible_restrictions ::
  "renderer \<Rightarrow> actor \<Rightarrow> permission list \<Rightarrow> string \<Rightarrow> string \<Rightarrow> bool" where
  "compatible_restrictions render actor restrictions r v \<longleftrightarrow>
     list_all (\<lambda>m. list_all (\<lambda>c. \<not> tail_collision m c \<and> \<not> short_child m c)
       (perm_matchers render actor r v (a_Permissions actor))) (perm_matchers render actor r v restrictions)"

lemma constrained_Matches:
  assumes "valid_matcher m" "\<forall>c \<in> set cs. valid_matcher c \<and> \<not> tail_collision m c \<and> \<not> short_child m c"
  shows "(\<exists>x \<in> set (constrained m cs). Matches x ns) \<longleftrightarrow> Matches m ns \<and> (\<exists>c \<in> set cs. Matches c ns)"
proof -
  have "(\<exists>x. ConstrainMatcher m c = Inr (x, True) \<and> Matches x ns) \<longleftrightarrow> Matches m ns \<and> Matches c ns"
    if "c \<in> set cs" for c
    using constrain_spec_valid [OF assms(1), of c] assms(2) that
    by (fastforce simp: constrain_spec_def matcher_set_def set_eq_iff)
  then show ?thesis unfolding Bex_def set_constrained by blast
qed

lemma constrained_valid:
  assumes "valid_matcher m" "\<forall>c \<in> set cs. valid_matcher c" "x \<in> set (constrained m cs)"
  shows "valid_matcher x"
  using assms ConstrainMatcher_arg by (fastforce simp: set_constrained)

lemma allowed_list_valid: "m \<in> set (allowed_list render actor qs r v) \<Longrightarrow> valid_matcher m"
  using constrained_valid perm_matchers_valid
  by (fastforce simp: allowed_list_def Let_def split: if_splits)

lemma allowed_list_Matches:
  assumes "compatible_restrictions render actor qs r v"
  shows "(\<exists>m \<in> set (allowed_list render actor qs r v). Matches m ns) \<longleftrightarrow>
    (\<exists>c \<in> set (perm_matchers render actor r v (a_Permissions actor)). Matches c ns) \<and>
    (qs = [] \<or> (\<exists>m \<in> set (perm_matchers render actor r v qs). Matches m ns))"
proof (cases "qs = []")
  case False
  let ?cs = "perm_matchers render actor r v (a_Permissions actor)"
  have "(\<exists>x \<in> set (constrained m ?cs). Matches x ns) \<longleftrightarrow> Matches m ns \<and> (\<exists>c \<in> set ?cs. Matches c ns)"
    if "m \<in> set (perm_matchers render actor r v qs)" for m
    by (rule constrained_Matches)
       (use assms that perm_matchers_valid in \<open>auto simp: compatible_restrictions_def list_all_iff\<close>)
  then have "(\<exists>x \<in> set (concat (map (\<lambda>m. constrained m ?cs) (perm_matchers render actor r v qs))). Matches x ns) \<longleftrightarrow>
      (\<exists>c \<in> set ?cs. Matches c ns) \<and> (\<exists>m \<in> set (perm_matchers render actor r v qs). Matches m ns)"
    by auto
  with False show ?thesis by (simp add: allowed_list_def)
qed (simp add: allowed_list_def)

lemma sorted_distinct_adj: "sorted (xs :: 'a :: linorder list) \<Longrightarrow> distinct (remdups_adj xs)"
  by (induction xs rule: remdups_adj.induct) (auto simp: order.antisym)


text \<open>
  Property C2. Deny by default, and restrictions only narrow: a missing or unauthenticated
  request allows nothing, a request without restrictions allows exactly what one of the actor's
  permissions allows, and non-empty restrictions allow an action exactly when the actor alone is
  allowed it and one of the restrictions allows it too. \<^verbatim>\<open>AllowsReason\<close> gives the same answer
  and an empty reason exactly when it allows.
\<close>

theorem Allows_restrictions:
  "\<not> Allows render None ns r v i \<and>
   (ra_actor ra = None \<longrightarrow> \<not> Allows render (Some ra) ns r v i) \<and>
   (ra_actor ra = Some a \<longrightarrow>
      (Allows render (Some (SetPermissions ra [])) ns r v i \<longleftrightarrow>
         (\<exists>p \<in> set (a_Permissions a). allowsForActor render (Some a) p ns r v i)) \<and>
      (qs \<noteq> [] \<longrightarrow> (Allows render (Some (SetPermissions ra qs)) ns r v i \<longleftrightarrow>
         Allows render (Some (SetPermissions ra [])) ns r v i \<and>
         (\<exists>q \<in> set qs. allowsForActor render (Some a) q ns r v i)))) \<and>
   (AllowsReason render nra ns r v i = (ok, reason) \<longrightarrow>
      (ok \<longleftrightarrow> Allows render nra ns r v i) \<and> (reason = '''' \<longleftrightarrow> ok))"
proof -
  have "\<not> Allows render None ns r v i" by (simp add: Allows_def)
  then show ?thesis
    using AllowsReason_Allows [of render nra ns r v i ok reason]
    by (auto simp: Allows_iff SetPermissions_def permissionsAllow_iff)
qed

text \<open>
  A restriction can widen a list query: when the actor may act only in the plain
  namespace \<open>p @ t\<close>, where \<open>t\<close> is three bytes, and the request is restricted to the plain namespace
  \<open>p\<close>, no namespace is allowed by the point query, yet the list query is given the matcher \<open>p\<close>,
  a namespace that the actor's permissions do not reach.
\<close>

theorem GetNamespacesAllowed_widens:
  assumes "valid_path p" "valid_path (p @ t)" "length t = 3"
    and "valid_path ns" "ra_actor ra = Some actor" "a_Permissions actor = PermissionsSingle (p @ t) r v"
    and "ra_permissions ra = PermissionsSingle p r v"
  shows "GetNamespacesAllowed render (Some ra) r v = Inr [p] \<and> \<not> Allows render (Some ra) ns r v i"
proof -
  have vm: "valid_matcher p" "valid_matcher (p @ t)" using assms by (auto simp: valid_matcher_iff)
  have nm: "\<not> ContainsMustache p" "\<not> ContainsMustache (p @ t)"
    using assms(1,2) by (auto dest: valid_path_no_mustache)
  have m: "perm_matchers render actor r v (PermissionsSingle q r v) = [q]"
    if "valid_matcher q" "\<not> ContainsMustache q" for q
    using that
    by (simp add: perm_matchers_def PermissionsSingle_def map_filter_Cons applies_def names_def perm_matcher_literal)
  have "ConstrainMatcher p (p @ t) = Inr (p, True)"
    using assms(3) valid_path_not_Nil [OF assms(1)] by (auto simp: ConstrainMatcher_def Let_def)
  then have "allowed_list render actor (ra_permissions ra) r v = [p]"
    using assms(6,7) m [OF vm(1) nm(1)] m [OF vm(2) nm(2)]
    by (simp add: allowed_list_def constrained_def map_filter_Cons PermissionsSingle_def)
  moreover have "\<not> (Matches p ns \<and> Matches (p @ t) ns)"
    using assms(1-3) by (auto simp: Matches_path)
  then have "\<not> Allows render (Some ra) ns r v i"
    using assms(4-7) vm nm
    by (auto simp: Allows_iff permissionsAllow_valid PermissionsSingle_def perm_matcher_literal)
  ultimately show ?thesis by (simp add: GetNamespacesAllowed_Inr [OF assms(5)])
qed

subsection \<open>Concrete requests\<close>

text \<open>An actor with given permissions, and a template engine that leaves text without tags
  unchanged.\<close>

definition sample_actor :: "permission list \<Rightarrow> actor" where
  "sample_actor ps = \<lparr>a_Id = ''act_1'', a_Name = ''a'', a_ExternalId = ''x'', a_Namespace = ''root'',
     a_Labels = Map.empty, a_Annotations = Map.empty, a_Permissions = ps\<rparr>"

definition sample_request :: "permission list \<Rightarrow> permission list \<Rightarrow> request_auth" where
  "sample_request ps qs = \<lparr>ra_sessionId = None, ra_actor = Some (sample_actor ps), ra_permissions = qs\<rparr>"

definition identity_render :: renderer where "identity_render t d = Inr t"

lemma sample_request_sel [simp]:
  "ra_actor (sample_request ps qs) = Some (sample_actor ps)" "ra_permissions (sample_request ps qs) = qs"
  "a_Permissions (sample_actor ps) = ps"
  by (simp_all add: sample_request_def sample_actor_def)


theorem Allows_restrictions_witness:
  "Allows identity_render (Some (SetPermissions (sample_request AllPermissions []) [])) ''root.a'' ''r'' ''get'' '''' \<and>
   \<not> Allows identity_render (Some (SetPermissions (sample_request AllPermissions [])
        (PermissionsSingle ''root.b'' ''r'' ''get''))) ''root.a'' ''r'' ''get'' ''''"
proof -
  let ?al = "allowsForActor identity_render (Some (sample_actor AllPermissions))"
  have f: "\<exists>p \<in> set AllPermissions. ?al p ''root.a'' ''r'' ''get'' ''''"
    "\<not> (\<exists>p \<in> set (PermissionsSingle ''root.b'' ''r'' ''get''). ?al p ''root.a'' ''r'' ''get'' '''')"
    "PermissionsSingle ''root.b'' ''r'' ''get'' \<noteq> []"
    by code_simp+
  show ?thesis
    using Allows_restrictions [of identity_render "''root.a''" "''r''" "''get''" "''''"
        "sample_request AllPermissions []" "sample_actor AllPermissions" "PermissionsSingle ''root.b'' ''r'' ''get''"] f
    by simp
qed

theorem GetNamespacesAllowed_widens_witness:
  "GetNamespacesAllowed identity_render
     (Some (sample_request (PermissionsSingle ''root.team123'' ''r'' ''list'') (PermissionsSingle ''root.team'' ''r'' ''list'')))
     ''r'' ''list'' = Inr [''root.team''] \<and>
   \<not> Allows identity_render
     (Some (sample_request (PermissionsSingle ''root.team123'' ''r'' ''list'') (PermissionsSingle ''root.team'' ''r'' ''list'')))
     ''root.team'' ''r'' ''list'' ''''"
proof -
  have "valid_path ''root.team''" "valid_path (''root.team'' @ ''123'')" by code_simp+
  from GetNamespacesAllowed_widens [OF this, of "''root.team''"] this show ?thesis by simp
qed

end
