(* ===== verification/Namespace_Filter.thy ===== *)
theory Namespace_Filter
  imports Namespaces
begin

text \<open>
  The SQL restriction that list and metrics queries build from namespace matchers
  (\<^verbatim>\<open>restrictToNamespaceMatcher\<close>, \<^verbatim>\<open>namespaceMatcherCondition\<close> and
  \<^verbatim>\<open>restrictToNamespaceMatchers\<close> in \<^verbatim>\<open>internal/database/namespace.go\<close>). The condition tree is
  what the code hands to the query builder; the database evaluates it, and its \<^verbatim>\<open>LIKE\<close>
  operator is a parameter whose documented laws are the locale \<open>sql_like\<close>. The lemmas
  relate the rows the condition selects to \<^verbatim>\<open>namespace.Matches\<close>.
\<close>

subsection \<open>Conditions\<close>

datatype sq_cond = SqEq string | SqLike string | SqOr "sq_cond list"

definition namespaceMatcherCondition :: "string \<Rightarrow> sq_cond" where
  "namespaceMatcherCondition matcher =
     (if HasSuffix matcher ''.**'' then
        let statedNamespace = take (length matcher - 3) matcher
        in SqOr [SqEq statedNamespace, SqLike (statedNamespace @ ''.%'')]
      else SqEq matcher)"

text \<open>A query is the conjunction of the conditions added to it so far.\<close>

definition restrictToNamespaceMatcher :: "sq_cond list \<Rightarrow> string \<Rightarrow> sq_cond list" where
  "restrictToNamespaceMatcher q matcher =
     (if HasSuffix matcher ''.**'' then
        let statedNamespace = take (length matcher - 3) matcher
        in q @ [SqOr [SqEq statedNamespace, SqLike (statedNamespace @ ''.%'')]]
      else q @ [SqEq matcher])"

definition restrictToNamespaceMatchers :: "sq_cond list \<Rightarrow> string list \<Rightarrow> sq_cond list" where
  "restrictToNamespaceMatchers q matchers =
     (if matchers = [] then q
      else if length matchers = 1 then restrictToNamespaceMatcher q (matchers ! 0)
      else q @ [SqOr (map namespaceMatcherCondition matchers)])"

subsection \<open>Evaluation by the database\<close>

fun cond_holds :: "(string \<Rightarrow> string \<Rightarrow> bool) \<Rightarrow> string \<Rightarrow> sq_cond \<Rightarrow> bool" where
  "cond_holds like v (SqEq x) = (v = x)"
| "cond_holds like v (SqLike pat) = like pat v"
| "cond_holds like v (SqOr cs) = list_ex (cond_holds like v) cs"

definition query_selects :: "(string \<Rightarrow> string \<Rightarrow> bool) \<Rightarrow> sq_cond list \<Rightarrow> string \<Rightarrow> bool" where
  "query_selects like q v \<longleftrightarrow> list_all (cond_holds like v) q"

text \<open>The documented behaviour of \<^verbatim>\<open>LIKE\<close> on patterns without an escape character: a percent
  sign stands for any sequence, an underscore for any one character, any other character for
  itself.\<close>

locale sql_like =
  fixes like :: "string \<Rightarrow> string \<Rightarrow> bool"
  assumes like_end: "like [] s \<longleftrightarrow> s = []"
    and like_percent: "like (CHR ''%'' # pat) s \<longleftrightarrow> (\<exists>u v. s = u @ v \<and> like pat v)"
    and like_underscore: "like (CHR ''_'' # pat) s \<longleftrightarrow> (\<exists>c t. s = c # t \<and> like pat t)"
    and like_char: "c \<noteq> CHR ''%'' \<Longrightarrow> c \<noteq> CHR ''_'' \<Longrightarrow> c \<noteq> CHR 0x5C \<Longrightarrow>
      like (c # pat) s \<longleftrightarrow> (\<exists>t. s = c # t \<and> like pat t)"
begin

lemma like_any: "like ''%'' s"
  unfolding like_percent like_end by (rule exI [of _ s]) simp

lemma like_literal_prefix:
  "\<forall>c \<in> set p. c \<noteq> CHR ''%'' \<and> c \<noteq> CHR ''_'' \<and> c \<noteq> CHR 0x5C \<Longrightarrow>
   like (p @ pat) s \<longleftrightarrow> (\<exists>t. s = p @ t \<and> like pat t)"
  by (induction p arbitrary: s) (auto simp: like_char)

lemma like_self: "\<forall>c \<in> set p. c \<noteq> CHR ''%'' \<and> c \<noteq> CHR 0x5C \<Longrightarrow> like pat t \<Longrightarrow> like (p @ pat) (p @ t)"
proof (induction p)
  case (Cons c p)
  then show ?case
    by (cases "c = CHR ''_''") (auto simp: like_underscore like_char)
qed simp

end

text \<open>An executable \<^verbatim>\<open>LIKE\<close> that satisfies the laws.\<close>

fun like_exec :: "string \<Rightarrow> string \<Rightarrow> bool" where
  "like_exec [] s = (s = [])"
| "like_exec (p # ps) [] = (p = CHR ''%'' \<and> like_exec ps [])"
| "like_exec (p # ps) (c # cs) =
     (if p = CHR ''%'' then like_exec ps (c # cs) \<or> like_exec (p # ps) cs
      else (p = CHR ''_'' \<or> p = c) \<and> like_exec ps cs)"

lemma like_exec_percent: "like_exec (CHR ''%'' # pat) s \<longleftrightarrow> (\<exists>u v. s = u @ v \<and> like_exec pat v)"
proof (induction s)
  case (Cons c s)
  have "(\<exists>u v. c # s = u @ v \<and> like_exec pat v) \<longleftrightarrow>
      like_exec pat (c # s) \<or> (\<exists>u v. s = u @ v \<and> like_exec pat v)"
    by (metis append_Cons append_Nil list.exhaust list.inject)
  with Cons show ?case by simp
qed auto

lemma like_exec_cons:
  "p \<noteq> CHR ''%'' \<Longrightarrow> like_exec (p # pat) s \<longleftrightarrow> (\<exists>c t. s = c # t \<and> (p = CHR ''_'' \<or> p = c) \<and> like_exec pat t)"
  by (cases s) auto

interpretation pg: sql_like like_exec
  by unfold_locales (auto simp: like_exec_percent like_exec_cons)

subsection \<open>Selected namespaces\<close>

lemma restrictToNamespaceMatcher_cond:
  "restrictToNamespaceMatcher q m = q @ [namespaceMatcherCondition m]"
  by (simp add: restrictToNamespaceMatcher_def namespaceMatcherCondition_def Let_def)

lemma query_selects_matchers:
  "ms \<noteq> [] \<Longrightarrow> query_selects like (restrictToNamespaceMatchers [] ms) v \<longleftrightarrow>
     (\<exists>m \<in> set ms. cond_holds like v (namespaceMatcherCondition m))"
  by (cases ms)
     (auto simp: query_selects_def restrictToNamespaceMatchers_def restrictToNamespaceMatcher_cond
       list_ex_iff)

lemma cond_path: "valid_path p \<Longrightarrow> cond_holds like v (namespaceMatcherCondition p) \<longleftrightarrow> v = p"
  using valid_path_not_wild [of p] by (simp add: namespaceMatcherCondition_def WildcardSuffix_lit)

lemma cond_wild:
  "cond_holds like v (namespaceMatcherCondition (p @ ''.**'')) \<longleftrightarrow> v = p \<or> like (p @ ''.%'') v"
  by (simp add: namespaceMatcherCondition_def Let_def)

lemma valid_path_like_chars:
  "valid_path p \<Longrightarrow> c \<in> set p \<Longrightarrow> c \<noteq> CHR ''%'' \<and> c \<noteq> CHR 0x5C"
  using valid_path_chars [of p c] by (auto simp: seg_char_def is_alnum_def less_eq_char_def)

context sql_like
begin

lemma cond_complete:
  assumes "valid_matcher m" "Matches m ns"
  shows "cond_holds like ns (namespaceMatcherCondition m)"
  using assms(1)
proof (cases rule: valid_matcherE)
  case path
  then show ?thesis using assms(2) by (simp add: cond_path Matches_path)
next
  case (wild p)
  with assms(2) have "ns = p \<or> (\<exists>t. ns = p @ ''.'' @ t)" by (auto simp: Matches_wild HasPrefix_iff)
  moreover have "like (p @ ''.%'') (p @ ''.'' @ t)" for t
    using like_self [of "p @ ''.''" "''%''" t] like_any valid_path_like_chars [OF wild(2)] by auto
  ultimately show ?thesis by (auto simp: wild(1) WildcardSuffix_lit cond_wild)
qed

lemma cond_sound:
  assumes "valid_matcher m" "CHR ''_'' \<notin> set m" "cond_holds like ns (namespaceMatcherCondition m)"
  shows "Matches m ns"
  using assms(1)
proof (cases rule: valid_matcherE)
  case path
  then show ?thesis using assms(3) by (simp add: cond_path Matches_path)
next
  case (wild p)
  have "\<forall>c \<in> set (p @ ''.''). c \<noteq> CHR ''%'' \<and> c \<noteq> CHR ''_'' \<and> c \<noteq> CHR 0x5C"
    using valid_path_like_chars [OF wild(2)] assms(2) by (auto simp: wild(1))
  from like_literal_prefix [OF this, of "''%''"] assms(3) show ?thesis
    by (auto simp: wild WildcardSuffix_lit cond_wild Matches_wild [unfolded WildcardSuffix_lit] HasPrefix_iff)
qed

end



text \<open>
  Where the restriction is wider than the matcher: an empty matcher list selects
  every namespace, and an underscore in the base of a wildcard matcher stands for any
  character, so the query for \<^verbatim>\<open>p_s.**\<close> also selects the children of \<^verbatim>\<open>pxs\<close> for every \<^verbatim>\<open>x\<close>,
  which the matcher does not match.
\<close>

theorem restrictToNamespaceMatchers_overmatch:
  assumes "sql_like like" "valid_path (p @ ''_'' @ s)" "c \<noteq> CHR ''_''"
  shows "query_selects like (restrictToNamespaceMatchers [] []) ns \<and>
         query_selects like (restrictToNamespaceMatchers [] [p @ ''_'' @ s @ ''.**'']) (p @ [c] @ s @ ''.'' @ t) \<and>
         \<not> Matches (p @ ''_'' @ s @ ''.**'') (p @ [c] @ s @ ''.'' @ t)"
proof -
  have ok: "\<forall>c \<in> set p. c \<noteq> CHR ''%'' \<and> c \<noteq> CHR 0x5C"
    "\<forall>c \<in> set (s @ ''.''). c \<noteq> CHR ''%'' \<and> c \<noteq> CHR 0x5C"
    using valid_path_like_chars [OF assms(2)] by auto
  have "like (CHR ''_'' # s @ ''.%'') (c # s @ ''.'' @ t)"
    using sql_like.like_self [OF assms(1) ok(2), of "''%''" t] sql_like.like_any [OF assms(1)]
    by (simp add: sql_like.like_underscore [OF assms(1)])
  then have "like (p @ CHR ''_'' # s @ ''.%'') (p @ c # s @ ''.'' @ t)"
    by (rule sql_like.like_self [OF assms(1) ok(1)])
  then have "query_selects like (restrictToNamespaceMatchers [] [p @ ''_'' @ s @ ''.**'']) (p @ [c] @ s @ ''.'' @ t)"
    using query_selects_matchers [of "[p @ ''_'' @ s @ ''.**'']"] cond_wild [of like _ "p @ ''_'' @ s"]
    by auto
  moreover have "\<not> Matches ((p @ ''_'' @ s) @ WildcardSuffix) (p @ [c] @ s @ ''.'' @ t)"
    using assms(3) unfolding Matches_wild [OF assms(2)] HasPrefix_def by auto
  ultimately show ?thesis
    by (simp add: query_selects_def restrictToNamespaceMatchers_def WildcardSuffix_lit)
qed

theorem restrictToNamespaceMatchers_overmatch_witness:
  "query_selects like_exec (restrictToNamespaceMatchers [] [''root.a_b.**'']) ''root.axb.c'' \<and>
   \<not> Matches ''root.a_b.**'' ''root.axb.c''"
proof -
  have "valid_path (''root.a'' @ ''_'' @ ''b'')" by code_simp
  from restrictToNamespaceMatchers_overmatch [OF pg.sql_like_axioms this, of "CHR ''x''" "''root''" "''c''"]
  show ?thesis by simp
qed

end
