(* ===== verification/Access_Control.thy ===== *)
theory Access_Control
  imports Request_Auth Namespace_Filter
begin

text \<open>
  The permission middleware of \<^verbatim>\<open>internal/apauth/service\<close>: the per-route builder, the validator
  placed in the request context, object validation after loading, the namespace matchers of list
  endpoints, and the middleware that runs the checks around a handler
  (\<^verbatim>\<open>permission_validator.go\<close>, \<^verbatim>\<open>auth_conditions.go\<close>, \<^verbatim>\<open>gin.go\<close>), together with the matcher
  intersection of the resource search route (\<^verbatim>\<open>internal/routes/resource_search.go\<close>).
\<close>

subsection \<open>Objects, builders, validators and the request context\<close>

text \<open>An object as the validator sees it: what its \<^verbatim>\<open>GetNamespace\<close> and \<^verbatim>\<open>GetId\<close> return, absent
  when the object does not implement the method.\<close>

record gobj =
  o_namespace :: "string option"
  o_id :: "string option"

definition DefaultIdExtractor :: "gobj \<Rightarrow> string may_panic" where
  "DefaultIdExtractor obj =
     (case o_id obj of None \<Rightarrow> Inl ''could not extract id from object'' | Some i \<Rightarrow> Inr i)"

record permission_builder =
  pvb_resource :: string
  pvb_verbs :: "string list"
  pvb_idField :: string
  pvb_namespace :: string
  pvb_namespaceQueryParam :: string
  pvb_namespacePathParam :: string
  pvb_idExtractor :: "(gobj \<Rightarrow> string may_panic) option"
  pvb_unauthRedirectGen :: "(string \<Rightarrow> string) option"

definition ForResource :: "permission_builder \<Rightarrow> string \<Rightarrow> permission_builder" where
  "ForResource pb resource = pb\<lparr>pvb_resource := resource\<rparr>"
definition ForVerb :: "permission_builder \<Rightarrow> string \<Rightarrow> permission_builder" where
  "ForVerb pb verb = pb\<lparr>pvb_verbs := [verb]\<rparr>"
definition ForVerbs :: "permission_builder \<Rightarrow> string list \<Rightarrow> permission_builder" where
  "ForVerbs pb verbs = pb\<lparr>pvb_verbs := verbs\<rparr>"
definition ForIdField :: "permission_builder \<Rightarrow> string \<Rightarrow> permission_builder" where
  "ForIdField pb idField = pb\<lparr>pvb_idField := idField\<rparr>"
definition ForIdExtractor :: "permission_builder \<Rightarrow> (gobj \<Rightarrow> string may_panic) \<Rightarrow> permission_builder" where
  "ForIdExtractor pb idExtractor = pb\<lparr>pvb_idExtractor := Some idExtractor\<rparr>"
definition ForNamespace :: "permission_builder \<Rightarrow> string \<Rightarrow> permission_builder" where
  "ForNamespace pb namespace = pb\<lparr>pvb_namespace := namespace\<rparr>"
definition ForNamespaceQueryParam :: "permission_builder \<Rightarrow> string \<Rightarrow> permission_builder" where
  "ForNamespaceQueryParam pb param = pb\<lparr>pvb_namespaceQueryParam := param\<rparr>"
definition ForNamespacePathParam :: "permission_builder \<Rightarrow> string \<Rightarrow> permission_builder" where
  "ForNamespacePathParam pb param = pb\<lparr>pvb_namespacePathParam := param\<rparr>"
definition WithRedirectOnUnauthenticated ::
  "permission_builder \<Rightarrow> (string \<Rightarrow> string) \<Rightarrow> permission_builder" where
  "WithRedirectOnUnauthenticated pb gen = pb\<lparr>pvb_unauthRedirectGen := Some gen\<rparr>"

record permission_validator =
  rpv_pvb :: permission_builder
  rpv_ra :: "request_auth option"
  rpv_hasBeenValidated :: bool
  rpv_errorReturn :: bool

text \<open>The parts of the gin context the middleware reads and writes: path and query parameters,
  the request URI, and the context values it installs.\<close>

record gin_context =
  gc_Param :: "string \<Rightarrow> string"
  gc_Query :: "string \<Rightarrow> string"
  gc_RequestURI :: string
  gc_validator :: "permission_validator option"
  gc_auth :: "request_auth option"
  gc_secretReplay :: bool

subsection \<open>Validator operations\<close>

definition MarkValidated :: "permission_validator \<Rightarrow> permission_validator" where
  "MarkValidated rpv = rpv\<lparr>rpv_hasBeenValidated := True\<rparr>"

definition MarkErrorReturn :: "permission_validator \<Rightarrow> permission_validator" where
  "MarkErrorReturn rpv = rpv\<lparr>rpv_errorReturn := True\<rparr>"

text \<open>The loop over the verbs of the route: the first verb that is allowed ends it, otherwise the
  reason of the last verb remains.\<close>

fun first_allowed :: "(string \<Rightarrow> bool \<times> string) \<Rightarrow> string list \<Rightarrow> string \<Rightarrow> bool \<times> string" where
  "first_allowed check [] lastReason = (False, lastReason)"
| "first_allowed check (verb # verbs) lastReason =
     (let (allowed, reason) = check verb
      in if allowed then (True, '''') else first_allowed check verbs reason)"

definition ValidateNamespaceResourceId ::
  "renderer \<Rightarrow> permission_validator \<Rightarrow> string \<Rightarrow> string \<Rightarrow> permission_validator \<times> err" where
  "ValidateNamespaceResourceId render rpv0 ns resourceId =
     (let rpv = rpv0\<lparr>rpv_hasBeenValidated := True\<rparr>;
          pvb = rpv_pvb rpv;
          (allowed, lastReason) = first_allowed
            (\<lambda>verb. AllowsReason render (rpv_ra rpv) ns (pvb_resource pvb) verb resourceId) (pvb_verbs pvb) ''''
      in if allowed then (rpv, None) else (rpv, Some (Errf ''permission denied: %s'' [lastReason])))"

definition ValidateNamespace :: "renderer \<Rightarrow> permission_validator \<Rightarrow> string \<Rightarrow> permission_validator \<times> err" where
  "ValidateNamespace render rpv ns = ValidateNamespaceResourceId render rpv ns ''''"

definition Validate :: "renderer \<Rightarrow> permission_validator \<Rightarrow> gobj \<Rightarrow> (permission_validator \<times> err) may_panic" where
  "Validate render rpv obj =
     (case o_namespace obj of
        None \<Rightarrow> Inl ''object does not implement namespace retrieval''
      | Some ns \<Rightarrow>
          let idExtractor = (case pvb_idExtractor (rpv_pvb rpv) of Some f \<Rightarrow> f | None \<Rightarrow> DefaultIdExtractor)
          in bind_panic (idExtractor obj) (\<lambda>resourceId.
               Inr (ValidateNamespaceResourceId render rpv ns resourceId)))"

fun filter_validated ::
  "renderer \<Rightarrow> permission_validator \<Rightarrow> gobj list \<Rightarrow> (permission_validator \<times> gobj list) may_panic" where
  "filter_validated render rpv [] = Inr (rpv, [])"
| "filter_validated render rpv (obj # objs) =
     bind_panic (Validate render rpv obj) (\<lambda>(rpv1, e).
       bind_panic (filter_validated render rpv1 objs) (\<lambda>(rpv2, filtered).
         Inr (rpv2, if e = None then obj # filtered else filtered)))"

definition FilterForValidatedResources ::
  "renderer \<Rightarrow> permission_validator \<Rightarrow> gobj list \<Rightarrow> (permission_validator \<times> gobj list) may_panic" where
  "FilterForValidatedResources render validator objs = filter_validated render (MarkValidated validator) objs"

text \<open>The union over the verbs, keeping the first occurrence of each matcher.\<close>

fun add_unseen :: "string list \<Rightarrow> string list \<Rightarrow> string list" where
  "add_unseen acc [] = acc"
| "add_unseen acc (x # xs) = add_unseen (if List.member acc x then acc else acc @ [x]) xs"

fun union_over_verbs ::
  "(string \<Rightarrow> string list may_panic) \<Rightarrow> string list \<Rightarrow> string list \<Rightarrow> string list may_panic" where
  "union_over_verbs f acc [] = Inr acc"
| "union_over_verbs f acc (verb # verbs) =
     bind_panic (f verb) (\<lambda>xs. union_over_verbs f (add_unseen acc xs) verbs)"

definition GetEffectiveNamespaceMatchers ::
  "renderer \<Rightarrow> permission_validator \<Rightarrow> string option \<Rightarrow> string list may_panic" where
  "GetEffectiveNamespaceMatchers render rpv queryMatcher =
     (if (case rpv_ra rpv of None \<Rightarrow> True | Some ra \<Rightarrow> \<not> IsAuthenticated ra) then Inr [NoMatchSentinel]
      else bind_panic
        (union_over_verbs (\<lambda>verb. GetNamespacesAllowed render (rpv_ra rpv) (pvb_resource (rpv_pvb rpv)) verb)
           [] (pvb_verbs (rpv_pvb rpv)))
        (\<lambda>allowedNamespaces.
          if length allowedNamespaces = 0 then Inr []
          else case queryMatcher of
                 None \<Rightarrow> Inr allowedNamespaces
               | Some qm \<Rightarrow>
                   bind_panic
                     (collect (\<lambda>allowed. bind_panic (ConstrainMatcher allowed qm)
                        (\<lambda>(constrained, ok). Inr (if ok then [constrained] else []))) allowedNamespaces)
                     (\<lambda>result. if length result = 0 then Inr [NoMatchSentinel] else Inr result)))"

subsection \<open>The middleware\<close>

definition getNamespace :: "permission_builder \<Rightarrow> gin_context \<Rightarrow> string" where
  "getNamespace pb c =
     (if pvb_namespacePathParam pb \<noteq> '''' \<and> gc_Param c (pvb_namespacePathParam pb) \<noteq> ''''
      then gc_Param c (pvb_namespacePathParam pb)
      else if pvb_namespaceQueryParam pb \<noteq> '''' \<and> gc_Query c (pvb_namespaceQueryParam pb) \<noteq> ''''
      then gc_Query c (pvb_namespaceQueryParam pb)
      else if pvb_namespace pb \<noteq> '''' then pvb_namespace pb
      else SkipPermissionChecks)"

definition getResourceId :: "permission_builder \<Rightarrow> gin_context \<Rightarrow> string" where
  "getResourceId pb c = (if pvb_idField pb = '''' then '''' else gc_Param c (pvb_idField pb))"

type_synonym auth_validator = "gin_context \<Rightarrow> request_auth \<Rightarrow> gin_context \<times> bool \<times> string"

definition combineAuthValidators :: "auth_validator list list \<Rightarrow> auth_validator list" where
  "combineAuthValidators validators = concat validators"

fun run_validators :: "auth_validator list \<Rightarrow> gin_context \<Rightarrow> request_auth \<Rightarrow> gin_context \<times> bool \<times> string" where
  "run_validators [] gctx ra = (gctx, True, '''')"
| "run_validators (v # vs) gctx ra =
     (let (gctx1, valid, reason) = v gctx ra
      in if \<not> valid then (gctx1, False, reason) else run_validators vs gctx1 ra)"

definition validateAllAuthValidators ::
  "auth_validator list \<Rightarrow> gin_context \<Rightarrow> request_auth option \<Rightarrow> gin_context \<times> bool \<times> string" where
  "validateAllAuthValidators validators gctx nra =
     (case nra of None \<Rightarrow> (gctx, False, ''auth present'') | Some ra \<Rightarrow> run_validators validators gctx ra)"

definition applyAuthToGinContext :: "renderer \<Rightarrow> gin_context \<Rightarrow> request_auth \<Rightarrow> gin_context" where
  "applyAuthToGinContext render c ra =
     c\<lparr>gc_auth := Some ra,
       gc_secretReplay := Allows render (Some ra) SkipPermissionChecks ''secrets'' ''replay'' ''''\<rparr>"

definition permissionValidator :: "renderer \<Rightarrow> permission_builder \<Rightarrow> auth_validator" where
  "permissionValidator render pb gctx ra =
     (if \<not> IsAuthenticated ra then (gctx, False, ''not authenticated'')
      else
        let validator = \<lparr>rpv_pvb = pb, rpv_ra = Some ra, rpv_hasBeenValidated = False, rpv_errorReturn = False\<rparr>;
            gctx1 = gctx\<lparr>gc_validator := Some validator\<rparr>;
            ns = getNamespace pb gctx1;
            resourceId = getResourceId pb gctx1;
            (allowed, lastReason) = first_allowed
              (\<lambda>verb. AllowsReason render (Some ra) ns (pvb_resource pb) verb resourceId) (pvb_verbs pb) ''''
        in (gctx1, allowed, lastReason))"

definition postValidator :: "gin_context \<Rightarrow> unit may_panic" where
  "postValidator gctx =
     (case gc_validator gctx of
        None \<Rightarrow> Inl ''no resource validator present in context''
      | Some v \<Rightarrow>
          if \<not> rpv_hasBeenValidated v \<and> \<not> rpv_errorReturn v
          then Inl ''resources not validated in endpoint call'' else Inr ())"

text \<open>What the middleware answers for a request whose authentication has been established: a
  redirect, a rejection, or the result of the handler.\<close>

datatype 'r outcome = Redirect302 string | Unauthorized401 | Forbidden403 string | Handled 'r

definition requiredWithRedirectAndPostValidation ::
  "renderer \<Rightarrow> auth_validator list \<Rightarrow> string \<Rightarrow> (string \<Rightarrow> string) option \<Rightarrow> auth_validator list \<Rightarrow>
   (gin_context \<Rightarrow> unit may_panic) option \<Rightarrow> (gin_context \<Rightarrow> gin_context \<times> 'r) \<Rightarrow>
   gin_context \<Rightarrow> request_auth \<Rightarrow> 'r outcome may_panic" where
  "requiredWithRedirectAndPostValidation render defaultAuthValidators baseUrl unauthRedirect validators
       postValidation handler c a =
     (if \<not> IsAuthenticated a then
        (case unauthRedirect of
           Some gen \<Rightarrow> Inr (Redirect302 (gen (baseUrl @ gc_RequestURI c)))
         | None \<Rightarrow> Inr Unauthorized401)
      else
        let (c1, valid, reason) =
              validateAllAuthValidators (combineAuthValidators [defaultAuthValidators, validators]) c (Some a)
        in if \<not> valid then Inr (Forbidden403 reason)
           else let (c2, response) = handler (applyAuthToGinContext render c1 a)
                in case postValidation of
                     None \<Rightarrow> Inr (Handled response)
                   | Some post \<Rightarrow> bind_panic (post c2) (\<lambda>_. Inr (Handled response)))"

definition Build ::
  "renderer \<Rightarrow> auth_validator list \<Rightarrow> string \<Rightarrow> permission_builder \<Rightarrow>
   ((gin_context \<Rightarrow> gin_context \<times> 'r) \<Rightarrow> gin_context \<Rightarrow> request_auth \<Rightarrow> 'r outcome may_panic) may_panic" where
  "Build render defaultAuthValidators baseUrl pb =
     (if pvb_resource pb = '''' then Inl ''resource must be specified''
      else if length (pvb_verbs pb) = 0 then Inl ''verb must be specified''
      else Inr (requiredWithRedirectAndPostValidation render defaultAuthValidators baseUrl
             (pvb_unauthRedirectGen pb) [permissionValidator render pb] (Some postValidator)))"

subsection \<open>Resource search\<close>

definition intersectNamespaceMatchers :: "string list \<Rightarrow> string list \<Rightarrow> string list may_panic" where
  "intersectNamespaceMatchers left right =
     (if length left = 0 \<or> length right = 0 then Inr []
      else bind_panic
        (collect (\<lambda>a. collect (\<lambda>b. bind_panic (ConstrainMatcher a b)
           (\<lambda>(constrained, ok). Inr (if ok then [constrained] else []))) right) left)
        (\<lambda>seen. Inr (remdups seen)))"

definition permittedSearchNamespaceMatchers ::
  "renderer \<Rightarrow> request_auth option \<Rightarrow> string \<Rightarrow> string \<Rightarrow> string list may_panic" where
  "permittedSearchNamespaceMatchers render ra resource requested =
     bind_panic (GetNamespacesAllowed render ra resource ''list'') (\<lambda>listNs.
     bind_panic (GetNamespacesAllowed render ra resource ''get'') (\<lambda>getNs.
     bind_panic (intersectNamespaceMatchers listNs getNs) (\<lambda>matchers.
     bind_panic (if requested \<noteq> '''' then intersectNamespaceMatchers matchers [requested] else Inr matchers)
       (\<lambda>matchers'. Inr (sort matchers')))))"

subsection \<open>The verb loop\<close>

lemma first_allowed_fst: "fst (first_allowed check verbs r) \<longleftrightarrow> (\<exists>v \<in> set verbs. fst (check v))"
  by (induction check verbs r rule: first_allowed.induct) (auto simp: Let_def split: prod.splits)

lemma AllowsReason_fst [simp]: "fst (AllowsReason render nra ns r v i) \<longleftrightarrow> Allows render nra ns r v i"
  by (cases "AllowsReason render nra ns r v i") (auto dest: AllowsReason_Allows)

definition any_verb_allows :: "renderer \<Rightarrow> permission_builder \<Rightarrow> request_auth option \<Rightarrow> string \<Rightarrow> string \<Rightarrow> bool" where
  "any_verb_allows render pb nra ns i \<longleftrightarrow> list_ex (\<lambda>v. Allows render nra ns (pvb_resource pb) v i) (pvb_verbs pb)"

lemma first_allowed_any:
  "fst (first_allowed (\<lambda>v. AllowsReason render nra ns (pvb_resource pb) v i) (pvb_verbs pb) r) \<longleftrightarrow>
   any_verb_allows render pb nra ns i"
  by (simp add: first_allowed_fst any_verb_allows_def list_ex_iff)

lemma ValidateNamespaceResourceId_iff:
  "ValidateNamespaceResourceId render rpv ns i = (rpv', e) \<Longrightarrow>
   rpv' = rpv\<lparr>rpv_hasBeenValidated := True\<rparr> \<and>
   (e = None \<longleftrightarrow> any_verb_allows render (rpv_pvb rpv) (rpv_ra rpv) ns i)"
  using first_allowed_any [of render "rpv_ra rpv" ns "rpv_pvb rpv" i "[]"]
  by (auto simp: ValidateNamespaceResourceId_def Let_def split: prod.splits if_splits)

lemma any_verb_allows_Skip:
  assumes "any_verb_allows render pb nra ns i"
  shows "any_verb_allows render pb nra SkipPermissionChecks i"
    "any_verb_allows render pb nra SkipPermissionChecks ''''"
  using assms by (auto simp: any_verb_allows_def list_ex_iff intro: Allows_Skip)

lemma permissionValidator_iff:
  "permissionValidator render pb c ra = (c', valid, reason) \<Longrightarrow>
   valid \<longleftrightarrow> ra_actor ra \<noteq> None \<and> any_verb_allows render pb (Some ra) (getNamespace pb c) (getResourceId pb c)"
  using first_allowed_any [of render "Some ra" "getNamespace pb c" pb "getResourceId pb c" "[]"]
  by (auto simp: permissionValidator_def Let_def IsAuthenticated_def getNamespace_def getResourceId_def
      split: prod.splits if_splits)

lemma permissionValidator_context:
  "permissionValidator render pb c ra = (c', True, reason) \<Longrightarrow>
   c' = c\<lparr>gc_validator := Some \<lparr>rpv_pvb = pb, rpv_ra = Some ra, rpv_hasBeenValidated = False, rpv_errorReturn = False\<rparr>\<rparr>"
  by (auto simp: permissionValidator_def Let_def split: prod.splits if_splits)

lemma run_validators_append:
  "run_validators (xs @ ys) c ra =
     (let (c1, valid, reason) = run_validators xs c ra
      in if valid then run_validators ys c1 ra else (c1, valid, reason))"
  by (induction xs c ra rule: run_validators.induct) (auto simp: Let_def split: prod.splits)

subsection \<open>What the middleware guarantees\<close>


text \<open>
  On routes without a configured namespace the check of the middleware never
  rejects a request that the later object check would accept: if validation of an object in
  namespace \<open>ns\<close> with id \<open>i\<close> succeeds, the middleware accepts the request, whether or not the
  route extracts the id.
\<close>

theorem precheck_admits_validated:
  assumes "ValidateNamespaceResourceId render rpv ns i = (rpv', None)"
    and "rpv_ra rpv = Some ra" "rpv_pvb rpv = pb"
    and "pvb_namespace pb = ''''" "pvb_namespaceQueryParam pb = ''''" "pvb_namespacePathParam pb = ''''"
    and "getResourceId pb c = i \<or> getResourceId pb c = ''''"
  shows "\<exists>c' reason. permissionValidator render pb c ra = (c', True, reason)"
proof -
  obtain c' valid reason where p: "permissionValidator render pb c ra = (c', valid, reason)"
    by (metis prod_cases3)
  have "any_verb_allows render pb (Some ra) ns i"
    using ValidateNamespaceResourceId_iff [OF assms(1)] assms(2,3) by simp
  moreover from this have "ra_actor ra \<noteq> None"
    by (auto simp: any_verb_allows_def list_ex_iff Allows_iff)
  moreover have "getNamespace pb c = SkipPermissionChecks" using assms(4-6) by (simp add: getNamespace_def)
  ultimately show ?thesis
    using permissionValidator_iff [OF p] assms(7) p any_verb_allows_Skip by metis
qed


subsection \<open>The matchers of a list endpoint\<close>

lemma set_add_unseen: "set (add_unseen acc xs) = set acc \<union> set xs"
  by (induction acc xs rule: add_unseen.induct) auto

lemma distinct_add_unseen: "distinct acc \<Longrightarrow> distinct (add_unseen acc xs)"
  by (induction acc xs rule: add_unseen.induct) auto

lemma union_over_verbs_Inr:
  assumes "\<And>v. v \<in> set verbs \<Longrightarrow> f v = Inr (g v)"
  shows "\<exists>ys. union_over_verbs f acc verbs = Inr ys \<and> set ys = set acc \<union> (\<Union>v \<in> set verbs. set (g v)) \<and>
           (distinct acc \<longrightarrow> distinct ys)"
  using assms
proof (induction verbs arbitrary: acc)
  case (Cons v verbs)
  from Cons.IH [of "add_unseen acc (g v)"] Cons.prems show ?case
    by (auto simp: set_add_unseen distinct_add_unseen)
qed simp

text \<open>The restrictions of a request are unproblematic for every verb of a route.\<close>

definition compatible_route :: "renderer \<Rightarrow> request_auth \<Rightarrow> actor \<Rightarrow> permission_builder \<Rightarrow> bool" where
  "compatible_route render ra actor pb \<longleftrightarrow>
     list_all (\<lambda>v. v \<noteq> '''' \<and> compatible_restrictions render actor (ra_permissions ra) (pvb_resource pb) v)
       (pvb_verbs pb)"

lemma allowed_namespaces_route:
  assumes "ra_actor ra = Some actor" "compatible_route render ra actor pb" "pvb_resource pb \<noteq> ''''"
  shows "\<exists>ms. union_over_verbs (\<lambda>v. GetNamespacesAllowed render (Some ra) (pvb_resource pb) v) [] (pvb_verbs pb) = Inr ms \<and>
     distinct ms \<and> (\<forall>m \<in> set ms. valid_matcher m) \<and>
     (\<forall>ns. valid_path ns \<longrightarrow> (\<exists>m \<in> set ms. Matches m ns) \<longleftrightarrow> any_verb_allows render pb (Some ra) ns '''')"
proof -
  let ?g = "\<lambda>v. remdups_adj (sort (allowed_list render actor (ra_permissions ra) (pvb_resource pb) v))"
  obtain ms where ms: "union_over_verbs (\<lambda>v. GetNamespacesAllowed render (Some ra) (pvb_resource pb) v) [] (pvb_verbs pb) = Inr ms"
    "set ms = (\<Union>v \<in> set (pvb_verbs pb). set (?g v))" "distinct ms"
    using union_over_verbs_Inr [of "pvb_verbs pb" _ ?g "[]", OF GetNamespacesAllowed_Inr [OF assms(1)]] by auto
  have "(\<exists>m \<in> set (?g v). Matches m ns) \<longleftrightarrow> Allows render (Some ra) ns (pvb_resource pb) v ''''"
    if "v \<in> set (pvb_verbs pb)" "valid_path ns" for v ns
  proof -
    have v: "v \<noteq> ''''" "compatible_restrictions render actor (ra_permissions ra) (pvb_resource pb) v"
      using assms(2) that(1) by (auto simp: compatible_route_def list_all_iff)
    show ?thesis
      using allowed_list_Matches [OF v(2), of ns] perm_matchers_allow [OF that(2) assms(3) v(1)] assms(1)
      by (auto simp: Allows_iff)
  qed
  moreover have "\<forall>m \<in> set ms. valid_matcher m" using allowed_list_valid by (auto simp: ms(2))
  ultimately show ?thesis using ms by (auto simp: any_verb_allows_def list_ex_iff)
qed

lemma narrow_loop:
  assumes "\<forall>m \<in> set ms. valid_matcher m" "valid_matcher qm"
  shows "\<exists>ys. collect (\<lambda>allowed. bind_panic (ConstrainMatcher allowed qm)
            (\<lambda>(constrained, ok). Inr (if ok then [constrained] else []))) ms = Inr ys \<and>
          (\<forall>y. y \<in> set ys \<longleftrightarrow> (\<exists>m \<in> set ms. ConstrainMatcher m qm = Inr (y, True)))"
  using assms(1)
proof (induction ms)
  case (Cons m ms)
  obtain x ok where "ConstrainMatcher m qm = Inr (x, ok)"
    using ConstrainMatcher_no_panic [OF _ assms(2), of m] Cons.prems by auto
  with Cons show ?case by (cases ok) auto
qed simp

lemma sentinel_matches_nothing: "valid_path ns \<Longrightarrow> \<not> Matches NoMatchSentinel ns"
proof -
  have "\<not> HasSuffix NoMatchSentinel WildcardSuffix" "ValidatePath NoMatchSentinel \<noteq> None" by code_simp+
  then show "valid_path ns \<Longrightarrow> \<not> Matches NoMatchSentinel ns" by (auto simp: Matches_def valid_path_def)
qed


text \<open>
  No access turns into an unrestricted query: for an actor allowed only in the plain
  namespace \<open>q\<close> and a request restricted to another plain namespace \<open>p\<close>, nothing is allowed
  anywhere, yet the middleware of a route without a namespace admits the request, the matchers
  computed for the list query are the empty list, and the SQL restriction built from the empty
  list selects every namespace.
\<close>

theorem no_access_unrestricted_query:
  assumes "valid_path p" "valid_path q" "p \<noteq> q" "\<not> tail_collision p q"
    and "ra_actor ra = Some actor" "a_Permissions actor = PermissionsSingle q r v"
    and "ra_permissions ra = PermissionsSingle p r v" "r \<noteq> ''''" "v \<noteq> ''''"
    and "pvb_resource pb = r" "pvb_verbs pb = [v]" "getNamespace pb c = SkipPermissionChecks" "getResourceId pb c = ''''"
    and "rpv_ra rpv = Some ra" "rpv_pvb rpv = pb" "valid_path ns"
  shows "(\<exists>c' reason. permissionValidator render pb c ra = (c', True, reason)) \<and>
     \<not> any_verb_allows render pb (Some ra) ns i \<and>
     GetEffectiveNamespaceMatchers render rpv None = Inr [] \<and>
     query_selects like (restrictToNamespaceMatchers [] []) ns"
proof -
  have vm: "valid_matcher p" "valid_matcher q" using assms(1,2) by (auto simp: valid_matcher_iff)
  have pm: "perm_matchers render actor r v (PermissionsSingle x r v) = [x]" if "valid_path x" for x
    using that valid_path_no_mustache [OF that]
    by (simp add: perm_matchers_def PermissionsSingle_def map_filter_Cons applies_def names_def
        perm_matcher_literal valid_matcher_iff)
  have "ConstrainMatcher p q = Inr ('''', False)"
    using constrain_spec_paths [of p q] assms(1-4) ConstrainMatcher_arg [of p q]
    by (auto simp: constrain_spec_def matcher_set_def Matches_path)
  then have al: "allowed_list render actor (ra_permissions ra) r v = []"
    using pm [OF assms(1)] pm [OF assms(2)] assms(6,7)
    by (simp add: allowed_list_def constrained_def map_filter_Cons PermissionsSingle_def)
  have "GetEffectiveNamespaceMatchers render rpv None = Inr []"
    using GetNamespacesAllowed_Inr [OF assms(5), of render r v] al assms
    by (simp add: GetEffectiveNamespaceMatchers_def IsAuthenticated_def)
  moreover have "\<not> any_verb_allows render pb (Some ra) ns i"
    using assms valid_path_no_mustache [OF assms(1)] valid_path_no_mustache [OF assms(2)] vm
    by (auto simp: any_verb_allows_def Allows_iff permissionsAllow_valid PermissionsSingle_def
        perm_matcher_literal Matches_path)
  moreover have "any_verb_allows render pb (Some ra) SkipPermissionChecks ''''"
    using assms by (auto simp: any_verb_allows_def Allows_iff permissionsAllow_iff allowsForActor_iff applies_def
        names_def matchesNamespace_def PermissionsSingle_def matchesResourceId_iff SkipPermissionChecks_def
        valid_path_not_Nil)
  then have "\<exists>c' reason. permissionValidator render pb c ra = (c', True, reason)"
    using permissionValidator_iff [of render pb c ra] assms(5,12,13) by (metis option.distinct(1) prod_cases3)
  ultimately show ?thesis by (simp add: query_selects_def restrictToNamespaceMatchers_def)
qed

subsection \<open>Concrete routes\<close>

definition sample_route :: permission_builder where
  "sample_route = \<lparr>pvb_resource = ''connections'', pvb_verbs = [''list''], pvb_idField = '''', pvb_namespace = '''',
     pvb_namespaceQueryParam = '''', pvb_namespacePathParam = '''', pvb_idExtractor = None,
     pvb_unauthRedirectGen = None\<rparr>"

definition sample_context :: gin_context where
  "sample_context = \<lparr>gc_Param = (\<lambda>_. ''''), gc_Query = (\<lambda>_. ''''), gc_RequestURI = ''/api'', gc_validator = None,
     gc_auth = None, gc_secretReplay = False\<rparr>"

definition sample_validator :: "request_auth \<Rightarrow> permission_validator" where
  "sample_validator ra = \<lparr>rpv_pvb = sample_route, rpv_ra = Some ra, rpv_hasBeenValidated = False,
     rpv_errorReturn = False\<rparr>"

abbreviation "lister ns \<equiv> sample_request (PermissionsSingle ns ''connections'' ''list'') []"

text \<open>A handler that marks the validator in its context and answers 200.\<close>

definition marking_handler :: "gin_context \<Rightarrow> gin_context \<times> nat" where
  "marking_handler c = (c\<lparr>gc_validator := map_option MarkValidated (gc_validator c)\<rparr>, 200)"


theorem precheck_admits_validated_witness:
  "\<exists>c' reason. permissionValidator identity_render sample_route sample_context (lister ''root.a'') = (c', True, reason)"
proof -
  obtain rpv' e where v: "ValidateNamespaceResourceId identity_render (sample_validator (lister ''root.a'')) ''root.a'' ''cxn_1''
      = (rpv', e)" by fastforce
  have "any_verb_allows identity_render sample_route (Some (lister ''root.a'')) ''root.a'' ''cxn_1''" by code_simp
  then have "e = None" using ValidateNamespaceResourceId_iff [OF v] by (simp add: sample_validator_def)
  with v have v: "ValidateNamespaceResourceId identity_render (sample_validator (lister ''root.a'')) ''root.a'' ''cxn_1''
      = (rpv', None)" by simp
  show ?thesis
    by (rule precheck_admits_validated [OF v])
       (simp_all add: sample_validator_def sample_route_def getResourceId_def)
qed



theorem no_access_unrestricted_query_witness:
  "GetEffectiveNamespaceMatchers identity_render
     (sample_validator (sample_request (PermissionsSingle ''root.bob'' ''connections'' ''list'')
        (PermissionsSingle ''root.alice'' ''connections'' ''list''))) None = Inr [] \<and>
   query_selects like_exec (restrictToNamespaceMatchers [] []) ''root.carol''"
proof -
  have h: "valid_path ''root.alice''" "valid_path ''root.bob''" "\<not> tail_collision ''root.alice'' ''root.bob''"
    "valid_path ''root.carol''"
    by code_simp+
  show ?thesis
    using no_access_unrestricted_query [OF h(1,2) _ h(3), of
        "sample_request (PermissionsSingle ''root.bob'' ''connections'' ''list'') (PermissionsSingle ''root.alice'' ''connections'' ''list'')"
        "sample_actor (PermissionsSingle ''root.bob'' ''connections'' ''list'')" "''connections''" "''list''"
        sample_route sample_context
        "sample_validator (sample_request (PermissionsSingle ''root.bob'' ''connections'' ''list'') (PermissionsSingle ''root.alice'' ''connections'' ''list''))"
        "''root.carol''" identity_render "''''" like_exec] h(4)
    by (simp add: sample_validator_def sample_route_def getNamespace_def getResourceId_def)
qed

subsection \<open>Search matchers\<close>

lemma inner_intersect:
  assumes "valid_matcher a" "\<forall>b \<in> set right. valid_matcher b"
  shows "collect (\<lambda>b. bind_panic (ConstrainMatcher a b) (\<lambda>(constrained, ok). Inr (if ok then [constrained] else []))) right
    = Inr (constrained a right)"
  using constrain_candidates_Inr [OF assms] by (simp add: constrain_candidates_def)

text \<open>
  The intersection of two lists of valid matchers, none of whose pairs is
  defective, is duplicate-free and matches a namespace exactly when both lists match it.
\<close>

theorem intersectNamespaceMatchers_exact:
  assumes "\<forall>a \<in> set left. valid_matcher a" "\<forall>b \<in> set right. valid_matcher b"
    and "\<forall>a \<in> set left. \<forall>b \<in> set right. \<not> tail_collision a b \<and> \<not> short_child a b"
  shows "\<exists>ms. intersectNamespaceMatchers left right = Inr ms \<and> distinct ms \<and>
    ((\<exists>m \<in> set ms. Matches m ns) \<longleftrightarrow> (\<exists>a \<in> set left. Matches a ns) \<and> (\<exists>b \<in> set right. Matches b ns))"
proof -
  have "collect (\<lambda>a. collect (\<lambda>b. bind_panic (ConstrainMatcher a b)
          (\<lambda>(constrained, ok). Inr (if ok then [constrained] else []))) right) left =
        Inr (concat (map (\<lambda>a. constrained a right) left))"
    using assms(1,2) by (intro collect_Inr inner_intersect) auto
  moreover have "(\<exists>x \<in> set (constrained a right). Matches x ns) \<longleftrightarrow> Matches a ns \<and> (\<exists>b \<in> set right. Matches b ns)"
    if "a \<in> set left" for a
    using constrained_Matches [of a right ns] assms that by blast
  ultimately show ?thesis by (auto simp: intersectNamespaceMatchers_def)
qed

theorem intersectNamespaceMatchers_exact_witness:
  "\<exists>ms. intersectNamespaceMatchers [''root.**''] [''root.a.**''] = Inr ms \<and> (\<exists>m \<in> set ms. Matches m ''root.a'')"
proof -
  have h: "\<forall>a \<in> set [''root.**'']. valid_matcher a" "\<forall>b \<in> set [''root.a.**'']. valid_matcher b"
    "\<forall>a \<in> set [''root.**'']. \<forall>b \<in> set [''root.a.**'']. \<not> tail_collision a b \<and> \<not> short_child a b"
    "\<exists>a \<in> set [''root.**'']. Matches a ''root.a''" "\<exists>b \<in> set [''root.a.**'']. Matches b ''root.a''"
    by code_simp+
  from intersectNamespaceMatchers_exact [OF h(1-3), of "''root.a''"] h(4,5) show ?thesis by blast
qed

end
