(* ===== verification/Labels.thy ===== *)
theory Labels
  imports Regex Namespaces "HOL-Library.AList"
begin

text \<open>
  Labels, annotations and identifiers: the key and value grammars, the partition into user and
  system (\<^verbatim>\<open>apxy/\<close>) labels, upsert merging, the implicit identity labels and the carry-forward of
  parent labels (\<^verbatim>\<open>internal/database/labels.go\<close>, \<^verbatim>\<open>internal/database/annotations.go\<close>,
  \<^verbatim>\<open>internal/apid/apid.go\<close>, \<^verbatim>\<open>internal/schema/common/resource_name.go\<close>).

  A Go map of strings is an association list without duplicate keys; the order of the list is the
  order in which one \<^verbatim>\<open>range\<close> loop visits the map, which Go leaves open, so the theorems speak of
  \<^term>\<open>map_of\<close> and hold for every order. A \<^verbatim>\<open>nil\<close> map is the empty list: the code treats the two
  alike, and both are stored as NULL.
\<close>

subsection \<open>Maps of strings\<close>

type_synonym smap = "(string \<times> string) list"

definition wf_map :: "smap \<Rightarrow> bool" where
  "wf_map m \<longleftrightarrow> distinct (map fst m)"

text \<open>The loop \<^verbatim>\<open>for k, v := range kvs { out[k] = v }\<close>.\<close>

definition put_all :: "smap \<Rightarrow> smap \<Rightarrow> smap" where
  "put_all kvs out = fold (\<lambda>(k, v). AList.update k v) kvs out"

definition keys :: "smap \<Rightarrow> string list" where "keys m = map fst m"

subsection \<open>Identifiers and names\<close>

definition ID_Prefix :: "string \<Rightarrow> string" where
  "ID_Prefix i = (case Index i ''_'' of None \<Rightarrow> '''' | Some idx \<Rightarrow> take (idx + 1) i)"

definition ID_HasPrefix :: "string \<Rightarrow> string \<Rightarrow> bool" where
  "ID_HasPrefix i p = HasPrefix i p"

definition ID_ValidatePrefix :: "string \<Rightarrow> string \<Rightarrow> err" where
  "ID_ValidatePrefix i expected =
     (if i = '''' then None
      else if \<not> ID_HasPrefix i expected
      then Some (Errf ''expected prefix %q but got %q'' [expected, ID_Prefix i])
      else None)"

definition validPrefixes :: "string list" where
  "validPrefixes = [''act_'', ''cxn_'', ''cxr_'', ''cvd_'', ''tok_'', ''akc_'', ''pou_'', ''non_'', ''req_'', ''cor_'',
     ''jti_'', ''oas_'', ''sess_'', ''key_'', ''dek_'', ''rl_'', ''stk_'', ''ntf_'']"

definition ID_Parse :: "string \<Rightarrow> string \<times> err" where
  "ID_Parse s =
     (if s = '''' then ('''', None)
      else if list_ex (\<lambda>p. HasPrefix s p) validPrefixes then (s, None)
      else ('''', Some (Errf ''apid: unknown prefix in %q'' [s])))"

definition MustParse :: "string \<Rightarrow> string may_panic" where
  "MustParse s = (case ID_Parse s of (i, None) \<Rightarrow> Inr i | (_, Some e) \<Rightarrow> Inl ''apid: unknown prefix'')"

definition alnum_dash :: "char \<Rightarrow> bool" where
  "alnum_dash c \<longleftrightarrow> is_alnum c \<or> c = CHR ''-''"

definition label_char :: "char \<Rightarrow> bool" where
  "label_char c \<longleftrightarrow> is_alnum c \<or> c = CHR ''.'' \<or> c = CHR ''_'' \<or> c = CHR ''-''"

definition resourceNameRegex :: rx where
  "resourceNameRegex = RBounded is_alnum label_char 61"

definition ResourceName_Validate :: "string \<Rightarrow> err" where
  "ResourceName_Validate n =
     (if n = '''' then Some (Err ''resource name is required'')
      else if length n > 63 then Some (Errf ''resource name exceeds maximum length of %d characters'' [''63''])
      else if \<not> rmatch resourceNameRegex n
      then Some (Err ''resource name must start and end with an alphanumeric character'')
      else None)"

subsection \<open>Label grammars\<close>

definition LabelKeyNameMaxLength :: nat where "LabelKeyNameMaxLength = 63"
definition LabelKeyPrefixMaxLength :: nat where "LabelKeyPrefixMaxLength = 253"
definition LabelValueMaxLength :: nat where "LabelValueMaxLength = 63"
definition ApxyLabelValueMaxLength :: nat where "ApxyLabelValueMaxLength = 253"
definition ApxyReservedPrefix :: string where "ApxyReservedPrefix = ''apxy/''"
definition ApxyImplicitSegment :: string where "ApxyImplicitSegment = ''-''"

definition labelKeyNameRegex :: rx where
  "labelKeyNameRegex = RAlt (RBounded is_alnum label_char 61) (RCh is_alnum)"

definition labelKeyPrefixRegex :: rx where
  "labelKeyPrefixRegex =
     RSeq (RStar (RSeq (RBounded is_alnum alnum_dash 61) (RLit ''.''))) (RBounded is_alnum alnum_dash 61)"

definition labelValueRegex :: rx where
  "labelValueRegex = RAlt (ROpt (RBounded is_alnum label_char 61)) (ROpt (RCh is_alnum))"

definition apxyPathSegmentRegex :: rx where
  "apxyPathSegmentRegex = RAlt (RBounded is_alnum alnum_dash 61) (RLit ''-'')"

definition apxyLabelValueRegex :: rx where
  "apxyLabelValueRegex = RRep0 253 (RCh label_char)"

text \<open>The checks of the name part, shared by both key grammars.\<close>

definition validate_name_part :: "string \<Rightarrow> err" where
  "validate_name_part name =
     (if name = '''' then Some (Err ''label key name cannot be empty'')
      else if length name > LabelKeyNameMaxLength
      then Some (Errf ''label key name exceeds maximum length of %d characters'' [''63''])
      else if \<not> rmatch labelKeyNameRegex name
      then Some (Errf ''label key name %q must start and end with alphanumeric'' [name])
      else None)"

fun validate_segments :: "string list \<Rightarrow> err" where
  "validate_segments [] = None"
| "validate_segments (seg # segs) =
     (if seg = '''' then Some (Err ''apxy/ label key has empty path segment'')
      else if \<not> rmatch apxyPathSegmentRegex seg
      then Some (Errf ''apxy/ label key segment %q must be a DNS label or the '-' sentinel'' [seg])
      else validate_segments segs)"

text \<open>Called on keys that begin with \<^verbatim>\<open>apxy/\<close>, so a slash is present; the branch without one is
  Go's slice panic, written as an error value that no caller reaches.\<close>

definition validateApxyLabelKey :: "string \<Rightarrow> err" where
  "validateApxyLabelKey key =
     (case LastIndex key CHR ''/'' of
        None \<Rightarrow> Some (Err ''panic: slice bounds out of range'')
      | Some idx \<Rightarrow>
          let prefix = take idx key; name = drop (idx + 1) key in
          if length prefix > LabelKeyPrefixMaxLength
          then Some (Errf ''label key prefix exceeds maximum length of %d characters'' [''253''])
          else let innerPath = TrimPrefix prefix ''apxy'' in
            if innerPath = ''''
            then Some (Err ''apxy/ label key requires at least one segment after apxy/'')
            else (case validate_segments (Split CHR ''/'' (drop 1 innerPath)) of
                    Some e \<Rightarrow> Some e
                  | None \<Rightarrow> validate_name_part name))"

definition ValidateLabelKey :: "string \<Rightarrow> err" where
  "ValidateLabelKey key =
     (if key = '''' then Some (Err ''label key cannot be empty'')
      else if HasPrefix key ApxyReservedPrefix then validateApxyLabelKey key
      else
        let (hasSlash, prefix, name) =
          (case LastIndex key CHR ''/'' of
             Some idx \<Rightarrow> (True, take idx key, drop (idx + 1) key)
           | None \<Rightarrow> (False, '''', key))
        in if hasSlash \<and> prefix = ''''
           then Some (Err ''label key prefix cannot be empty when slash is present'')
           else if prefix \<noteq> '''' \<and> length prefix > LabelKeyPrefixMaxLength
           then Some (Errf ''label key prefix exceeds maximum length of %d characters'' [''253''])
           else if prefix \<noteq> '''' \<and> \<not> rmatch labelKeyPrefixRegex prefix
           then Some (Errf ''label key prefix %q is not a valid DNS subdomain'' [prefix])
           else validate_name_part name)"

definition ValidateUserLabelKey :: "string \<Rightarrow> err" where
  "ValidateUserLabelKey key =
     (if HasPrefix key ApxyReservedPrefix
      then Some (Errf ''label key %q is in the reserved %q namespace and cannot be set by users''
        [key, ApxyReservedPrefix])
      else ValidateLabelKey key)"

definition ValidateLabelValue :: "string \<Rightarrow> err" where
  "ValidateLabelValue value =
     (if length value > LabelValueMaxLength
      then Some (Errf ''label value exceeds maximum length of %d characters'' [''63''])
      else if value \<noteq> '''' \<and> \<not> rmatch labelValueRegex value
      then Some (Errf ''label value %q must start and end with alphanumeric'' [value])
      else None)"

definition ValidateApxyLabelValue :: "string \<Rightarrow> err" where
  "ValidateApxyLabelValue value =
     (if length value > ApxyLabelValueMaxLength
      then Some (Errf ''apxy label value exceeds maximum length of %d characters'' [''253''])
      else if value \<noteq> '''' \<and> \<not> rmatch apxyLabelValueRegex value
      then Some (Errf ''apxy label value %q may contain only alphanumeric characters'' [value])
      else None)"

definition validateValueForKey :: "string \<Rightarrow> string \<Rightarrow> err" where
  "validateValueForKey key value =
     (if HasPrefix key ApxyReservedPrefix then ValidateApxyLabelValue value else ValidateLabelValue value)"

text \<open>The two checks of one entry, each wrapped with its context.\<close>

definition entry_errors :: "string \<Rightarrow> err \<Rightarrow> err \<Rightarrow> gerror list" where
  "entry_errors key keyErr valueErr =
     (case keyErr of Some e \<Rightarrow> [Wrapf ''invalid label key %q: %w'' [key] e] | None \<Rightarrow> []) @
     (case valueErr of Some e \<Rightarrow> [Wrapf ''invalid label value for key %q: %w'' [key] e] | None \<Rightarrow> [])"

definition ValidateLabels :: "smap \<Rightarrow> err" where
  "ValidateLabels labels =
     ErrorOrNil (concat (map (\<lambda>(key, value).
       entry_errors key (ValidateLabelKey key) (validateValueForKey key value)) labels))"

definition ValidateUserLabels :: "smap \<Rightarrow> err" where
  "ValidateUserLabels labels =
     ErrorOrNil (concat (map (\<lambda>(key, value).
       entry_errors key (ValidateUserLabelKey key) (ValidateLabelValue value)) labels))"

definition ValidateUserLabelDeletionKeys :: "string list \<Rightarrow> err" where
  "ValidateUserLabelDeletionKeys ks =
     ErrorOrNil (concat (map (\<lambda>k. entry_errors k (ValidateUserLabelKey k) None) ks))"

definition Labels_Validate :: "smap \<Rightarrow> err" where
  "Labels_Validate l = ValidateLabels l"

definition Labels_Get :: "smap \<Rightarrow> string \<Rightarrow> string \<times> bool" where
  "Labels_Get l key = (case map_of l key of Some v \<Rightarrow> (v, True) | None \<Rightarrow> ('''', False))"

definition Labels_Has :: "smap \<Rightarrow> string \<Rightarrow> bool" where
  "Labels_Has l key = (case map_of l key of Some v \<Rightarrow> True | None \<Rightarrow> False)"

definition Labels_Copy :: "smap \<Rightarrow> smap" where
  "Labels_Copy l = put_all l []"

subsection \<open>Annotations\<close>

definition AnnotationsTotalMaxSize :: nat where "AnnotationsTotalMaxSize = 256 * 1024"

definition ValidateAnnotationKey :: "string \<Rightarrow> err" where
  "ValidateAnnotationKey key = ValidateLabelKey key"

definition ValidateAnnotations :: "smap \<Rightarrow> err" where
  "ValidateAnnotations annotations =
     (let keyErrs = concat (map (\<lambda>(key, value).
            case ValidateAnnotationKey key of
              Some e \<Rightarrow> [Wrapf ''invalid annotation key %q: %w'' [key] e] | None \<Rightarrow> []) annotations);
          totalSize = sum_list (map (\<lambda>(key, value). length key + length value) annotations)
      in ErrorOrNil (keyErrs @
           (if totalSize > AnnotationsTotalMaxSize
            then [Errf ''total annotations size %d exceeds maximum of %d bytes'' []] else [])))"

subsection \<open>User and system labels\<close>

definition SplitUserAndApxyLabels :: "smap \<Rightarrow> smap \<times> smap" where
  "SplitUserAndApxyLabels labels =
     fold (\<lambda>(k, v) (user, apxy).
        if HasPrefix k ApxyReservedPrefix then (user, AList.update k v apxy)
        else (AList.update k v user, apxy)) labels ([], [])"

definition MergeApxyAndUserLabels :: "smap \<Rightarrow> smap \<Rightarrow> smap" where
  "MergeApxyAndUserLabels user apxy =
     (if length user = 0 \<and> length apxy = 0 then [] else put_all apxy (put_all user []))"

definition MergeUpsertLabels :: "smap \<Rightarrow> smap \<Rightarrow> smap" where
  "MergeUpsertLabels callerLabels existingLabels =
     (let (newUser, newApxy) = SplitUserAndApxyLabels callerLabels;
          (_, existingApxy) = SplitUserAndApxyLabels existingLabels;
          mergedApxy = put_all newApxy (put_all existingApxy [])
      in MergeApxyAndUserLabels newUser mergedApxy)"

subsection \<open>Implicit identity labels and carry-forward\<close>

definition NamespaceLabelToken :: string where "NamespaceLabelToken = ''ns''"

definition ApidPrefixToLabelToken :: "string \<Rightarrow> string" where
  "ApidPrefixToLabelToken p = TrimSuffix p ''_''"

definition BuildImplicitResourceLabelsForToken :: "string \<Rightarrow> string \<Rightarrow> string \<Rightarrow> string \<Rightarrow> smap" where
  "BuildImplicitResourceLabelsForToken rt i name0 namespacePath =
     (if rt = '''' \<or> i = '''' then []
      else let name = (if name0 = '''' then i else name0)
           in [(ApxyReservedPrefix @ rt @ ''/'' @ ApxyImplicitSegment @ ''/id'', i),
               (ApxyReservedPrefix @ rt @ ''/'' @ ApxyImplicitSegment @ ''/name'', name),
               (ApxyReservedPrefix @ rt @ ''/'' @ ApxyImplicitSegment @ ''/ns'', namespacePath)])"

definition BuildNamespaceImplicitResourceLabels :: "string \<Rightarrow> smap" where
  "BuildNamespaceImplicitResourceLabels path =
     BuildImplicitResourceLabelsForToken NamespaceLabelToken path (NameFromPath path) path"

definition InjectNamespaceSelfImplicitLabels :: "string \<Rightarrow> smap \<Rightarrow> smap" where
  "InjectNamespaceSelfImplicitLabels path existing =
     (let implicit = BuildNamespaceImplicitResourceLabels path
      in if length implicit = 0 then Labels_Copy existing
         else put_all implicit (put_all existing []))"

definition BuildImplicitResourceLabels :: "string \<Rightarrow> string \<Rightarrow> string \<Rightarrow> smap" where
  "BuildImplicitResourceLabels i name namespacePath =
     (if i = '''' then []
      else BuildImplicitResourceLabelsForToken (ApidPrefixToLabelToken (ID_Prefix i)) i name namespacePath)"

definition InjectSelfImplicitLabels :: "string \<Rightarrow> string \<Rightarrow> string \<Rightarrow> smap \<Rightarrow> smap" where
  "InjectSelfImplicitLabels i name namespacePath existing =
     (let implicit = BuildImplicitResourceLabels i name namespacePath
      in if length implicit = 0 then Labels_Copy existing
         else put_all implicit (put_all existing []))"

definition carried_key :: "string \<Rightarrow> string \<Rightarrow> string" where
  "carried_key parentRt k =
     (if HasPrefix k ApxyReservedPrefix then k else ApxyReservedPrefix @ parentRt @ ''/'' @ k)"

definition BuildCarriedLabels :: "string \<Rightarrow> smap \<Rightarrow> smap" where
  "BuildCarriedLabels parentRt parentLabels =
     (if parentRt = '''' \<or> length parentLabels = 0 then []
      else fold (\<lambda>(k, v). AList.update (carried_key parentRt k) v) parentLabels [])"

record parent_carry_forward =
  pcf_Rt :: string
  pcf_Labels :: smap

definition ApplyParentCarryForward :: "smap \<Rightarrow> parent_carry_forward list \<Rightarrow> smap" where
  "ApplyParentCarryForward userLabels parents =
     put_all userLabels
       (fold (\<lambda>p out. put_all (BuildCarriedLabels (pcf_Rt p) (pcf_Labels p)) out) parents [])"

subsection \<open>Lookups after the loops\<close>

abbreviation apxy_key :: "string \<Rightarrow> bool" where "apxy_key k \<equiv> HasPrefix k ApxyReservedPrefix"

lemma map_of_rev_wf: "wf_map m \<Longrightarrow> map_of (rev m) = map_of m"
  by (rule map_of_inject_set [THEN iffD2]) (simp_all add: wf_map_def rev_map [symmetric])

lemma map_of_put_all_rev: "map_of (put_all kvs out) = map_of out ++ map_of (rev kvs)"
  unfolding put_all_def
  by (induction kvs arbitrary: out) (auto simp: update_conv' fun_eq_iff map_add_def split: option.splits)

lemma map_of_put_all: "wf_map kvs \<Longrightarrow> map_of (put_all kvs out) = map_of out ++ map_of kvs"
  by (simp add: map_of_put_all_rev map_of_rev_wf)

lemma wf_put_all: "wf_map out \<Longrightarrow> wf_map (put_all kvs out)"
  unfolding put_all_def wf_map_def
  by (induction kvs arbitrary: out) (auto simp: distinct_update)

lemma wf_Nil [simp]: "wf_map []"
  by (simp add: wf_map_def)

lemma put_all_Nil [simp]: "put_all [] out = out"
  by (simp add: put_all_def)

lemma map_of_filter_key: "map_of (filter (\<lambda>(k, v). P k) m) k = (if P k then map_of m k else None)"
  by (induction m) auto

lemma wf_filter: "wf_map m \<Longrightarrow> wf_map (filter P m)"
  by (simp add: wf_map_def distinct_map_filter)

lemma put_all_eq_Nil: "put_all kvs [] = [] \<longleftrightarrow> kvs = []"
proof -
  have "map_of (put_all kvs []) = map_of (rev kvs)" by (simp add: map_of_put_all_rev)
  then show ?thesis by (metis map_of_eq_empty_iff rev_is_Nil_conv)
qed

lemma Split_fold:
  "fold (\<lambda>(k, v) (user, apxy).
      if apxy_key k then (user, AList.update k v apxy) else (AList.update k v user, apxy)) l (u, a) =
   (put_all (filter (\<lambda>(k, v). \<not> apxy_key k) l) u, put_all (filter (\<lambda>(k, v). apxy_key k) l) a)"
  by (induction l arbitrary: u a) (auto simp: put_all_def)

lemma Split_lookup:
  assumes "wf_map l" "SplitUserAndApxyLabels l = (u, a)"
  shows "map_of u k = (if apxy_key k then None else map_of l k)"
    and "map_of a k = (if apxy_key k then map_of l k else None)" and "wf_map u" "wf_map a"
  using assms wf_filter [OF assms(1)]
  by (auto simp: SplitUserAndApxyLabels_def Split_fold map_of_put_all map_of_filter_key wf_put_all)

lemma map_of_Merge: "wf_map u \<Longrightarrow> wf_map a \<Longrightarrow> map_of (MergeApxyAndUserLabels u a) = map_of u ++ map_of a"
  by (auto simp: MergeApxyAndUserLabels_def map_of_put_all)

lemma wf_Merge: "wf_map (MergeApxyAndUserLabels u a)"
  by (simp add: MergeApxyAndUserLabels_def wf_put_all)

text \<open>
  Splitting labels into the user and the system part loses nothing: the user part
  has exactly the keys outside \<^verbatim>\<open>apxy/\<close>, the system part exactly those inside, and merging them
  gives back the same map.
\<close>

theorem Labels_split_merge:
  assumes "wf_map l" "SplitUserAndApxyLabels l = (user, apxy)"
  shows "map_of (MergeApxyAndUserLabels user apxy) = map_of l \<and>
         (\<forall>k. map_of user k = (if apxy_key k then None else map_of l k)) \<and>
         (\<forall>k. map_of apxy k = (if apxy_key k then map_of l k else None))"
  using Split_lookup [OF assms]
  by (auto simp: map_of_Merge fun_eq_iff map_add_def split: option.splits)

text \<open>
  An upsert replaces the user labels by the caller's and merges the system labels:
  for a key in \<^verbatim>\<open>apxy/\<close> the caller's value wins and the stored one is kept otherwise; for any
  other key only the caller's value counts, so stored user labels do not survive.
\<close>

theorem MergeUpsertLabels_lookup:
  assumes "wf_map caller" "wf_map existing"
  shows "map_of (MergeUpsertLabels caller existing) k =
     (if apxy_key k then (case map_of caller k of Some v \<Rightarrow> Some v | None \<Rightarrow> map_of existing k)
      else map_of caller k) \<and> wf_map (MergeUpsertLabels caller existing)"
proof -
  obtain nu na where c: "SplitUserAndApxyLabels caller = (nu, na)" by fastforce
  obtain eu ea where e: "SplitUserAndApxyLabels existing = (eu, ea)" by fastforce
  note s = Split_lookup [OF assms(1) c] Split_lookup [OF assms(2) e]
  have "MergeUpsertLabels caller existing = MergeApxyAndUserLabels nu (put_all na (put_all ea []))"
    by (simp add: MergeUpsertLabels_def c e)
  then show ?thesis
    using s by (auto simp: map_of_Merge wf_put_all map_of_put_all map_add_def wf_Merge split: option.splits)
qed

subsection \<open>Carry-forward\<close>

lemma apxy_carried_key [simp]: "apxy_key (carried_key rt k)"
  by (simp add: carried_key_def)

lemma carried_fold:
  "fold (\<lambda>(k, v). AList.update (carried_key rt k) v) l out = put_all (map (\<lambda>(k, v). (carried_key rt k, v)) l) out"
  by (induction l arbitrary: out) (auto simp: put_all_def)

lemma wf_BuildCarriedLabels: "wf_map (BuildCarriedLabels rt l)"
  by (simp add: BuildCarriedLabels_def carried_fold wf_put_all)

lemma map_of_carried_apxy: "map_of (BuildCarriedLabels rt l) k = Some v \<Longrightarrow> apxy_key k"
  by (auto simp: BuildCarriedLabels_def carried_fold map_of_put_all_rev dest!: map_of_SomeD split: if_splits)

lemma map_of_parents:
  "map_of (fold (\<lambda>p out. put_all (BuildCarriedLabels (pcf_Rt p) (pcf_Labels p)) out) ps out) =
   fold (\<lambda>p m. m ++ map_of (BuildCarriedLabels (pcf_Rt p) (pcf_Labels p))) ps (map_of out)"
  by (induction ps arbitrary: out) (auto simp: map_of_put_all wf_BuildCarriedLabels)

lemma parents_apxy:
  "fold (\<lambda>p m. m ++ map_of (BuildCarriedLabels (pcf_Rt p) (pcf_Labels p))) ps m0 k = Some v \<Longrightarrow>
   apxy_key k \<or> m0 k = Some v"
  by (induction ps arbitrary: m0) (auto dest: map_of_carried_apxy)

lemma implicit_keys:
  "map_of (BuildImplicitResourceLabels i name ns) k = Some v \<Longrightarrow> apxy_key k"
  by (auto simp: BuildImplicitResourceLabels_def BuildImplicitResourceLabelsForToken_def Let_def split: if_splits)

lemma wf_implicit: "wf_map (BuildImplicitResourceLabels i name ns)"
  by (simp add: BuildImplicitResourceLabels_def BuildImplicitResourceLabelsForToken_def Let_def wf_map_def)

lemma map_of_Inject:
  "wf_map existing \<Longrightarrow> map_of (InjectSelfImplicitLabels i name ns existing) =
     map_of existing ++ map_of (BuildImplicitResourceLabels i name ns)"
  by (simp add: InjectSelfImplicitLabels_def Let_def Labels_Copy_def map_of_put_all wf_implicit)

lemma wf_parents: "wf_map out \<Longrightarrow>
   wf_map (fold (\<lambda>p out. put_all (BuildCarriedLabels (pcf_Rt p) (pcf_Labels p)) out) ps out)"
  by (induction ps arbitrary: out) (auto simp: wf_put_all)

lemma wf_ApplyParentCarryForward: "wf_map (ApplyParentCarryForward u ps)"
  by (simp add: ApplyParentCarryForward_def wf_put_all wf_parents)

text \<open>
  Property C14. Precedence of a new resource's labels: its own identity labels win, then the
  labels its creator supplied, then those carried from its parents, a later parent in the list
  overriding an earlier one. A key outside \<^verbatim>\<open>apxy/\<close> is never set by a parent or by the system: it
  has exactly the value the creator supplied.
\<close>

theorem carry_forward_precedence:
  assumes "wf_map user"
  shows "map_of (InjectSelfImplicitLabels i name ns (ApplyParentCarryForward user parents)) =
           fold (\<lambda>p m. m ++ map_of (BuildCarriedLabels (pcf_Rt p) (pcf_Labels p))) parents Map.empty
             ++ map_of user ++ map_of (BuildImplicitResourceLabels i name ns) \<and>
         (\<not> apxy_key k \<longrightarrow>
           map_of (InjectSelfImplicitLabels i name ns (ApplyParentCarryForward user parents)) k = map_of user k)"
proof -
  have eq: "map_of (InjectSelfImplicitLabels i name ns (ApplyParentCarryForward user parents)) =
           fold (\<lambda>p m. m ++ map_of (BuildCarriedLabels (pcf_Rt p) (pcf_Labels p))) parents Map.empty
             ++ map_of user ++ map_of (BuildImplicitResourceLabels i name ns)"
    using assms
    by (simp add: map_of_Inject wf_ApplyParentCarryForward)
       (simp add: ApplyParentCarryForward_def map_of_put_all map_of_parents)
  have "fold (\<lambda>p m. m ++ map_of (BuildCarriedLabels (pcf_Rt p) (pcf_Labels p))) parents Map.empty k = None"
    if "\<not> apxy_key k"
    using parents_apxy [of parents Map.empty k] that by fastforce
  moreover have "map_of (BuildImplicitResourceLabels i name ns) k = None" if "\<not> apxy_key k"
    using implicit_keys [of i name ns k] that by fastforce
  ultimately show ?thesis unfolding eq by (auto simp: map_add_def split: option.splits)
qed

subsection \<open>The grammars\<close>

lemma alnum_sub: "is_alnum c \<Longrightarrow> label_char c" "is_alnum c \<Longrightarrow> alnum_dash c"
  by (auto simp: label_char_def alnum_dash_def)

lemma is_alnum_special [simp]: "\<not> is_alnum CHR ''/''" "\<not> is_alnum CHR ''.''" "\<not> is_alnum CHR ''-''"
  "\<not> is_alnum CHR ''_''"
  by code_simp+

lemma alnum_dash_special [simp]: "\<not> alnum_dash CHR ''/''" "\<not> alnum_dash CHR ''.''"
  by (simp_all add: alnum_dash_def)

lemma label_char_slash [simp]: "\<not> label_char CHR ''/''"
  by (simp add: label_char_def)

definition valid_name :: "string \<Rightarrow> bool" where
  "valid_name s \<longleftrightarrow> s \<noteq> [] \<and> is_alnum (hd s) \<and> is_alnum (last s) \<and> (\<forall>c \<in> set s. label_char c) \<and> length s \<le> 63"

definition dns_label :: "string \<Rightarrow> bool" where
  "dns_label s \<longleftrightarrow> s \<noteq> [] \<and> is_alnum (hd s) \<and> is_alnum (last s) \<and> (\<forall>c \<in> set s. alnum_dash c) \<and> length s \<le> 63"

lemma dns_label_chars: "dns_label s \<Longrightarrow> CHR ''.'' \<notin> set s" "dns_label s \<Longrightarrow> CHR ''/'' \<notin> set s"
  unfolding dns_label_def using alnum_dash_special by blast+

lemma valid_name_no_slash: "valid_name s \<Longrightarrow> CHR ''/'' \<notin> set s"
  unfolding valid_name_def using label_char_slash by blast

lemma rmatch_name: "rmatch (RBounded is_alnum label_char 61) s \<longleftrightarrow> valid_name s"
  by (simp add: rmatch_Bounded alnum_sub valid_name_def)

lemma rmatch_dns: "rmatch (RBounded is_alnum alnum_dash 61) s \<longleftrightarrow> dns_label s"
  by (simp add: rmatch_Bounded alnum_sub dns_label_def)

lemma validate_name_part_iff: "validate_name_part s = None \<longleftrightarrow> valid_name s"
  by (auto simp: validate_name_part_def labelKeyNameRegex_def rmatch_name LabelKeyNameMaxLength_def
      valid_name_def alnum_sub)

lemma rmatch_segment_iff: "rmatch apxyPathSegmentRegex s \<longleftrightarrow> dns_label s \<or> s = ''-''"
  by (simp add: apxyPathSegmentRegex_def rmatch_dns)

lemma validate_segments_iff: "validate_segments segs = None \<longleftrightarrow> (\<forall>s \<in> set segs. dns_label s \<or> s = ''-'')"
  by (induction segs) (auto simp: rmatch_segment_iff dns_label_def)

lemma concat_dots: "concat (map (\<lambda>x. x @ ''.'') xs) @ y = Join ''.'' (xs @ [y])"
  by (induction xs) (simp_all add: Join_Cons)

lemma rmatch_prefix_iff:
  "rmatch labelKeyPrefixRegex s \<longleftrightarrow> (\<forall>x \<in> set (Split CHR ''.'' s). dns_label x)"
proof
  assume "rmatch labelKeyPrefixRegex s"
  then obtain us y where s: "s = concat us @ y" "\<forall>u \<in> set us. \<exists>x. u = x @ ''.'' \<and> dns_label x" "dns_label y"
    unfolding labelKeyPrefixRegex_def rmatch_Seq rmatch_Star by (auto simp: rmatch_dns)
  then obtain f where f: "\<forall>u \<in> set us. u = f u @ ''.'' \<and> dns_label (f u)" by metis
  then have "us = map (\<lambda>x. x @ ''.'') (map f us)" by (auto simp: map_idI [symmetric] intro: map_idI [symmetric])
  then have "s = Join ''.'' (map f us @ [y])" using s(1) concat_dots by metis
  moreover have "\<forall>x \<in> set (map f us @ [y]). dns_label x" using f s(3) by auto
  then have "\<forall>x \<in> set (map f us @ [y]). CHR ''.'' \<notin> set x" using dns_label_chars by blast
  ultimately show "\<forall>x \<in> set (Split CHR ''.'' s). dns_label x"
    using \<open>\<forall>x \<in> set (map f us @ [y]). dns_label x\<close> by (simp add: Split_Join)
next
  assume a: "\<forall>x \<in> set (Split CHR ''.'' s). dns_label x"
  define xs where "xs = butlast (Split CHR ''.'' s)"
  define y where "y = last (Split CHR ''.'' s)"
  have sp: "Split CHR ''.'' s = xs @ [y]" by (simp add: xs_def y_def)
  then have "s = concat (map (\<lambda>x. x @ ''.'') xs) @ y" using Join_Split [of "CHR ''.''" s] concat_dots by simp
  moreover have "rmatch (RStar (RSeq (RBounded is_alnum alnum_dash 61) (RLit ''.''))) (concat (map (\<lambda>x. x @ ''.'') xs))"
    unfolding rmatch_Star using a sp
    by (intro exI [of _ "map (\<lambda>x. x @ ''.'') xs"]) (auto simp: rmatch_Seq rmatch_dns)
  moreover have "dns_label y" using a sp by simp
  ultimately show "rmatch labelKeyPrefixRegex s"
    unfolding labelKeyPrefixRegex_def rmatch_Seq [of _ "RBounded is_alnum alnum_dash 61"] rmatch_dns by blast
qed

text \<open>A key outside \<^verbatim>\<open>apxy/\<close> is a name, or a DNS prefix, a slash and a name.\<close>

lemma ValidateLabelKey_plain:
  assumes "\<not> apxy_key k"
  shows "ValidateLabelKey k = None \<longleftrightarrow>
    (CHR ''/'' \<notin> set k \<and> valid_name k) \<or>
    (\<exists>p n. k = p @ ''/'' @ n \<and> valid_name n \<and> length p \<le> 253 \<and> (\<forall>x \<in> set (Split CHR ''.'' p). dns_label x))"
proof (cases "LastIndex k CHR ''/''")
  case None
  then have "ValidateLabelKey k = None \<longleftrightarrow> k \<noteq> [] \<and> valid_name k"
    unfolding ValidateLabelKey_def None using assms by (simp add: validate_name_part_iff del: LastIndex_None)
  moreover have "CHR ''/'' \<notin> set k" using None by simp
  ultimately show ?thesis by (auto simp: valid_name_def)
next
  case (Some idx)
  let ?p = "take idx k" let ?n = "drop (Suc idx) k"
  have k: "k = ?p @ ''/'' @ ?n" "CHR ''/'' \<notin> set ?n" using LastIndex_Some [OF Some] by auto
  have uniq: "p = ?p \<and> n = ?n" if "k = p @ ''/'' @ n" "valid_name n" for p n
  proof -
    have "CHR ''/'' \<notin> set n" using that(2) by (rule valid_name_no_slash)
    then have "idx = length p" using LastIndex_append [of "CHR ''/''" n p] Some that(1) by simp
    then show ?thesis using that(1) by simp
  qed
  have ne: "\<not> (\<forall>x \<in> set (Split CHR ''.'' '''' ). dns_label x)" by (simp add: dns_label_def)
  have "k \<noteq> []" using k by auto
  then have "ValidateLabelKey k = None \<longleftrightarrow>
     ?p \<noteq> [] \<and> length ?p \<le> 253 \<and> (\<forall>x \<in> set (Split CHR ''.'' ?p). dns_label x) \<and> valid_name ?n"
    using assms Some
    by (auto simp: ValidateLabelKey_def validate_name_part_iff rmatch_prefix_iff LabelKeyPrefixMaxLength_def)
  moreover have "CHR ''/'' \<in> set k" using k by (metis in_set_conv_decomp append_Cons append_Nil)
  ultimately show ?thesis using k uniq ne by metis
qed

text \<open>A key under \<^verbatim>\<open>apxy/\<close> is a path of segments and a name.\<close>

lemma ValidateLabelKey_apxy:
  assumes "segs \<noteq> []" "\<forall>s \<in> set segs. CHR ''/'' \<notin> set s" "CHR ''/'' \<notin> set n"
    and "length (''apxy/'' @ Join ''/'' segs) \<le> 253"
  shows "ValidateLabelKey (''apxy/'' @ Join ''/'' segs @ ''/'' @ n) = None \<longleftrightarrow>
    (\<forall>s \<in> set segs. dns_label s \<or> s = ''-'') \<and> valid_name n"
proof -
  let ?k = "''apxy/'' @ Join ''/'' segs @ ''/'' @ n"
  have "LastIndex ?k CHR ''/'' = Some (length (''apxy/'' @ Join ''/'' segs))"
    using LastIndex_append [OF assms(3), of "''apxy/'' @ Join ''/'' segs"] by simp
  moreover have "TrimPrefix (''apxy/'' @ Join ''/'' segs) ''apxy'' = ''/'' @ Join ''/'' segs"
    using TrimPrefix_append [of "''apxy''" "''/'' @ Join ''/'' segs"] by simp
  moreover have "Split CHR ''/'' (Join ''/'' segs) = segs" using assms(1,2) by (simp add: Split_Join)
  moreover have "apxy_key ?k" by (simp add: ApxyReservedPrefix_def HasPrefix_def)
  ultimately have "ValidateLabelKey ?k =
      (case validate_segments segs of Some e \<Rightarrow> Some e | None \<Rightarrow> validate_name_part n)"
    using assms(4) by (simp add: ValidateLabelKey_def validateApxyLabelKey_def LabelKeyPrefixMaxLength_def)
  then show ?thesis
    using validate_segments_iff [of segs] validate_name_part_iff [of n] by (cases "validate_segments segs") auto
qed

subsection \<open>Validity of carried and implicit labels\<close>

lemma dns_prefix_no_slash: "\<forall>x \<in> set (Split CHR ''.'' p). dns_label x \<Longrightarrow> CHR ''/'' \<notin> set p"
proof
  assume a: "\<forall>x \<in> set (Split CHR ''.'' p). dns_label x" and s: "CHR ''/'' \<in> set p"
  have "c \<in> set (Join ''.'' xs) \<Longrightarrow> c = CHR ''.'' \<or> (\<exists>x \<in> set xs. c \<in> set x)" for c xs
    by (induction xs rule: induct_list012) auto
  from this [of "CHR ''/''" "Split CHR ''.'' p"] s have "\<exists>x \<in> set (Split CHR ''.'' p). CHR ''/'' \<in> set x" by simp
  with a dns_label_chars(2) show False by blast
qed

lemma ValidateUserLabelKey_iff: "ValidateUserLabelKey k = None \<longleftrightarrow> \<not> apxy_key k \<and> ValidateLabelKey k = None"
  by (auto simp: ValidateUserLabelKey_def)

text \<open>
  When the carried form of a valid user label key is itself a valid key: exactly
  when the user key has no prefix or its DNS prefix is a single label. A user key such as
  \<^verbatim>\<open>example.com/team\<close> is accepted on a parent, but the key under which its children store it is
  rejected by \<^verbatim>\<open>ValidateLabelKey\<close>.
\<close>

theorem carried_key_valid:
  assumes "ValidateUserLabelKey k = None" "dns_label rt" "length (carried_key rt k) \<le> 253"
  shows "ValidateLabelKey (carried_key rt k) = None \<longleftrightarrow>
         (\<forall>p n. k = p @ ''/'' @ n \<longrightarrow> CHR ''.'' \<notin> set p)"
proof -
  have nk: "\<not> apxy_key k" and vk: "ValidateLabelKey k = None" using assms(1) by (simp_all add: ValidateUserLabelKey_iff)
  have ck: "carried_key rt k = ''apxy/'' @ rt @ ''/'' @ k" using nk by (simp add: carried_key_def ApxyReservedPrefix_def)
  have len: "length (''apxy/'' @ rt @ ''/'' @ k) \<le> 253" using assms(3) ck by simp
  consider "CHR ''/'' \<notin> set k" "valid_name k"
    | p n where "k = p @ ''/'' @ n" "valid_name n" "\<forall>x \<in> set (Split CHR ''.'' p). dns_label x"
    using ValidateLabelKey_plain [OF nk] vk by blast
  then show ?thesis
  proof cases
    case 1
    have "ValidateLabelKey (''apxy/'' @ Join ''/'' [rt] @ ''/'' @ k) = None"
      using 1 assms(2) len dns_label_chars(2) [OF assms(2)] by (subst ValidateLabelKey_apxy) auto
    with 1 show ?thesis by (auto simp: ck)
  next
    case 2
    have ns: "CHR ''/'' \<notin> set p" "CHR ''/'' \<notin> set n"
      using 2 dns_prefix_no_slash valid_name_no_slash by auto
    have "ValidateLabelKey (''apxy/'' @ Join ''/'' [rt, p] @ ''/'' @ n) = None \<longleftrightarrow> dns_label p \<or> p = ''-''"
      using 2 ns assms(2) len dns_label_chars(2) [OF assms(2)] by (subst ValidateLabelKey_apxy) auto
    then have "ValidateLabelKey (carried_key rt k) = None \<longleftrightarrow> dns_label p \<or> p = ''-''"
      unfolding ck by (simp add: 2(1))
    also have "\<dots> \<longleftrightarrow> CHR ''.'' \<notin> set p"
      using 2(3) dns_label_chars(1) [of p] Split_plain [of "CHR ''.''" p] by auto
    also have "\<dots> \<longleftrightarrow> (\<forall>p' n'. k = p' @ ''/'' @ n' \<longrightarrow> CHR ''.'' \<notin> set p')"
    proof -
      have "p' = p" if "p @ ''/'' @ n = p' @ ''/'' @ n'" for p' n'
        using that ns by (auto simp: append_eq_append_conv2 append_eq_Cons_conv Cons_eq_append_conv)
      with 2(1) show ?thesis by auto
    qed
    finally show ?thesis .
  qed
qed

lemma set_update_entry: "set (AList.update k v m) \<subseteq> insert (k, v) (set m)"
  by (induction m) auto

lemma set_put_all: "set (put_all kvs out) \<subseteq> set out \<union> set kvs"
proof (induction kvs arbitrary: out)
  case (Cons kv kvs)
  obtain k v where "kv = (k, v)" by fastforce
  with Cons.IH [of "AList.update k v out"] set_update_entry [of k v out] show ?case
    by (auto simp: put_all_def)
qed simp

lemma entry_errors_Nil: "entry_errors k e1 e2 = [] \<longleftrightarrow> e1 = None \<and> e2 = None"
  by (auto simp: entry_errors_def split: option.splits)

lemma ValidateLabels_iff:
  "ValidateLabels l = None \<longleftrightarrow> (\<forall>(k, v) \<in> set l. ValidateLabelKey k = None \<and> validateValueForKey k v = None)"
  by (auto simp: ValidateLabels_def entry_errors_Nil)

lemma ValidateUserLabels_iff:
  "ValidateUserLabels l = None \<longleftrightarrow> (\<forall>(k, v) \<in> set l. ValidateUserLabelKey k = None \<and> ValidateLabelValue v = None)"
  by (auto simp: ValidateUserLabels_def entry_errors_Nil)

text \<open>
  Labels a user may supply are valid stored labels and never touch the system
  namespace; the same labels extended by the identity labels of a namespace whose path is at most
  253 bytes long are still valid.
\<close>

theorem user_and_implicit_labels_valid:
  assumes "ValidateUserLabels l = None" "wf_map l" "valid_path path" "length path \<le> 253"
  shows "ValidateLabels l = None \<and> (\<forall>k \<in> set (keys l). \<not> apxy_key k) \<and>
         ValidateLabels (InjectNamespaceSelfImplicitLabels path l) = None"
proof -
  have u: "\<forall>(k, v) \<in> set l. \<not> apxy_key k \<and> ValidateLabelKey k = None \<and> validateValueForKey k v = None"
    using assms(1) by (auto simp: ValidateUserLabels_iff ValidateUserLabelKey_iff validateValueForKey_def)
  have k: "ValidateLabelKey (''apxy/'' @ Join ''/'' [''ns'', ''-''] @ ''/'' @ x) = None" if "x \<in> {''id'', ''name'', ''ns''}" for x
  proof -
    have "valid_name x" "CHR ''/'' \<notin> set x" "dns_label ''ns''" using that by (auto simp: valid_name_def dns_label_def) code_simp+
    then show ?thesis by (subst ValidateLabelKey_apxy) auto
  qed
  have pc: "\<forall>c \<in> set path. label_char c"
    using valid_path_chars [OF assms(3)] by (auto simp: label_char_def seg_char_def)
  have "set (NameFromPath path) \<subseteq> set path" "length (NameFromPath path) \<le> length path"
    by (auto simp: NameFromPath_def split: option.splits dest: in_set_dropD)
  then have nm: "\<forall>c \<in> set (NameFromPath path). label_char c" "length (NameFromPath path) \<le> 253"
    using pc assms(4) by auto
  have av: "ValidateApxyLabelValue v = None" if "\<forall>c \<in> set v. label_char c" "length v \<le> 253" for v
    using that by (simp add: ValidateApxyLabelValue_def ApxyLabelValueMaxLength_def apxyLabelValueRegex_def)
  let ?imp = "BuildNamespaceImplicitResourceLabels path"
  have imp: "\<forall>(k, v) \<in> set ?imp. ValidateLabelKey k = None \<and> validateValueForKey k v = None"
    using k av [OF pc assms(4)] av [OF nm] valid_path_not_Nil [OF assms(3)]
    by (auto simp: BuildNamespaceImplicitResourceLabels_def BuildImplicitResourceLabelsForToken_def Let_def
        NamespaceLabelToken_def ApxyReservedPrefix_def ApxyImplicitSegment_def validateValueForKey_def HasPrefix_def)
  have "set (InjectNamespaceSelfImplicitLabels path l) \<subseteq> set l \<union> set ?imp"
    using set_put_all [of l "[]"] set_put_all [of ?imp "put_all l []"]
    by (auto simp: InjectNamespaceSelfImplicitLabels_def Let_def Labels_Copy_def)
  then have "ValidateLabels (InjectNamespaceSelfImplicitLabels path l) = None"
    using u imp unfolding ValidateLabels_iff by blast
  then show ?thesis using u by (auto simp: ValidateLabels_iff keys_def)
qed

subsection \<open>Concrete labels\<close>

theorem Labels_split_merge_witness:
  "map_of (MergeApxyAndUserLabels [(''team'', ''a'')] [(''apxy/cxr/-/id'', ''cxr_1'')]) =
   map_of [(''apxy/cxr/-/id'', ''cxr_1''), (''team'', ''a'')]"
proof -
  have h: "wf_map [(''apxy/cxr/-/id'', ''cxr_1''), (''team'', ''a'')]"
    "SplitUserAndApxyLabels [(''apxy/cxr/-/id'', ''cxr_1''), (''team'', ''a'')] =
      ([(''team'', ''a'')], [(''apxy/cxr/-/id'', ''cxr_1'')])"
    by code_simp+
  from Labels_split_merge [OF h] show ?thesis by blast
qed

theorem MergeUpsertLabels_lookup_witness:
  "map_of (MergeUpsertLabels [(''a'', ''1'')] [(''apxy/x/y'', ''2''), (''b'', ''3'')]) ''apxy/x/y'' = Some ''2'' \<and>
   map_of (MergeUpsertLabels [(''a'', ''1'')] [(''apxy/x/y'', ''2''), (''b'', ''3'')]) ''b'' = None"
proof -
  have h: "wf_map [(''a'', ''1'')]" "wf_map [(''apxy/x/y'', ''2''), (''b'', ''3'')]" by code_simp+
  have k: "apxy_key ''apxy/x/y''" "\<not> apxy_key ''b''" by code_simp+
  show ?thesis
    using MergeUpsertLabels_lookup [OF h, of "''apxy/x/y''"] MergeUpsertLabels_lookup [OF h, of "''b''"] k by simp
qed

theorem carry_forward_precedence_witness:
  "map_of (InjectSelfImplicitLabels ''cxn_1'' ''n'' ''root'' (ApplyParentCarryForward [(''team'', ''a'')]
     [\<lparr>pcf_Rt = ''ns'', pcf_Labels = [(''team'', ''b'')]\<rparr>])) ''team'' = Some ''a''"
proof -
  have h: "wf_map [(''team'', ''a'')]" "\<not> apxy_key ''team''" by code_simp+
  have "map_of [(''team'', ''a'')] ''team'' = Some ''a''" by simp
  with carry_forward_precedence [OF h(1), of "''cxn_1''" "''n''" "''root''"
      "[\<lparr>pcf_Rt = ''ns'', pcf_Labels = [(''team'', ''b'')]\<rparr>]" "''team''"] h(2)
  show ?thesis by metis
qed

theorem carried_key_valid_witness:
  "ValidateUserLabelKey ''example.com/team'' = None \<and> ValidateLabelKey (carried_key ''cxr'' ''example.com/team'') \<noteq> None"
proof -
  have h: "ValidateUserLabelKey ''example.com/team'' = None" "dns_label ''cxr''"
    "length (carried_key ''cxr'' ''example.com/team'') \<le> 253"
    by code_simp+
  have "''example.com/team'' = ''example.com'' @ ''/'' @ ''team''" "CHR ''.'' \<in> set ''example.com''" by simp_all
  with carried_key_valid [OF h] h(1) show ?thesis by blast
qed

theorem user_and_implicit_labels_valid_witness:
  "ValidateLabels (InjectNamespaceSelfImplicitLabels ''root.team'' [(''example.com/team'', ''a'')]) = None"
proof -
  have h: "ValidateUserLabels [(''example.com/team'', ''a'')] = None" "wf_map [(''example.com/team'', ''a'')]"
    "valid_path ''root.team''" "length ''root.team'' \<le> 253"
    by code_simp+
  from user_and_implicit_labels_valid [OF h] show ?thesis by blast
qed

end
