(* ===== verification/Label_Selector.thy ===== *)
theory Label_Selector
  imports Labels
begin

text \<open>
  Label selectors (\<^verbatim>\<open>internal/database/label_selector.go\<close>): parsing and printing, evaluation
  against a label map in memory, and the SQL conditions built for each database. The JSON
  functions of the databases are parameters with their documented behaviour in the locale
  \<open>json_functions\<close>. The lemmas show the parse and print round trips and compare the two
  evaluations.
\<close>

subsection \<open>Trimming white space\<close>

text \<open>\<^verbatim>\<open>strings.TrimSpace\<close> on bytes: the UTF-8 encodings of the Unicode white space characters.\<close>

definition space_seqs :: "string list" where
  "space_seqs =
     [[CHR 0x09], [CHR 0x0A], [CHR 0x0B], [CHR 0x0C], [CHR 0x0D], [CHR 0x20],
      [CHR 0xC2, CHR 0x85], [CHR 0xC2, CHR 0xA0], [CHR 0xE1, CHR 0x9A, CHR 0x80],
      [CHR 0xE2, CHR 0x80, CHR 0x80], [CHR 0xE2, CHR 0x80, CHR 0x81], [CHR 0xE2, CHR 0x80, CHR 0x82],
      [CHR 0xE2, CHR 0x80, CHR 0x83], [CHR 0xE2, CHR 0x80, CHR 0x84], [CHR 0xE2, CHR 0x80, CHR 0x85],
      [CHR 0xE2, CHR 0x80, CHR 0x86], [CHR 0xE2, CHR 0x80, CHR 0x87], [CHR 0xE2, CHR 0x80, CHR 0x88],
      [CHR 0xE2, CHR 0x80, CHR 0x89], [CHR 0xE2, CHR 0x80, CHR 0x8A], [CHR 0xE2, CHR 0x80, CHR 0xA8],
      [CHR 0xE2, CHR 0x80, CHR 0xA9], [CHR 0xE2, CHR 0x80, CHR 0xAF], [CHR 0xE2, CHR 0x81, CHR 0x9F],
      [CHR 0xE3, CHR 0x80, CHR 0x80]]"

lemma space_seqs_not_Nil: "w \<in> set space_seqs \<Longrightarrow> 0 < length w"
  by (auto simp: space_seqs_def)

lemma find_space: "find (\<lambda>w. P w) space_seqs = Some w \<Longrightarrow> 0 < length w \<and> P w"
  using space_seqs_not_Nil by (auto simp: find_Some_iff)

lemma length_diff_less: "w \<noteq> [] \<Longrightarrow> length w \<le> length s \<Longrightarrow> length s - length w < length s"
  by (cases w) auto

function TrimLeftSpace :: "string \<Rightarrow> string" where
  "TrimLeftSpace s =
     (case find (\<lambda>w. HasPrefix s w) space_seqs of None \<Rightarrow> s | Some w \<Rightarrow> TrimLeftSpace (drop (length w) s))"
  by pat_completeness auto
termination
  by (relation "measure length") (auto dest!: find_space simp: HasPrefix_def length_diff_less)

function TrimRightSpace :: "string \<Rightarrow> string" where
  "TrimRightSpace s =
     (case find (\<lambda>w. HasSuffix s w) space_seqs of
        None \<Rightarrow> s | Some w \<Rightarrow> TrimRightSpace (take (length s - length w) s))"
  by pat_completeness auto
termination
  by (relation "measure length") (auto dest!: find_space simp: HasSuffix_def length_diff_less)

declare TrimLeftSpace.simps [simp del] TrimRightSpace.simps [simp del]

definition TrimSpace :: "string \<Rightarrow> string" where
  "TrimSpace s = TrimRightSpace (TrimLeftSpace s)"

subsection \<open>Selectors\<close>

datatype label_operator = OpEqual | OpNotEqual | OpExists | OpNotExists

record label_requirement =
  lr_Key :: string
  lr_Operator :: label_operator
  lr_Value :: string

type_synonym label_selector = "label_requirement list"

text \<open>The three operators with a value share their code: split at the operator, trim and validate
  both sides.\<close>

definition parse_binary :: "string \<Rightarrow> string \<Rightarrow> label_operator \<Rightarrow> gerror + label_requirement" where
  "parse_binary part sep operator =
     (case SplitN2 part sep of
        None \<Rightarrow> Inl (Err ''unreachable: separator not found'')
      | Some (l, r) \<Rightarrow>
          let key = TrimSpace l; val = TrimSpace r in
          (case ValidateLabelKey key of
             Some e \<Rightarrow> Inl (Wrapf ''invalid label key in selector %q: %w'' [part] e)
           | None \<Rightarrow>
               (case validateValueForKey key val of
                  Some e \<Rightarrow> Inl (Wrapf ''invalid label value in selector %q: %w'' [part] e)
                | None \<Rightarrow> Inr \<lparr>lr_Key = key, lr_Operator = operator, lr_Value = val\<rparr>)))"

definition parse_unary :: "string \<Rightarrow> string \<Rightarrow> label_operator \<Rightarrow> gerror + label_requirement" where
  "parse_unary part rest operator =
     (let key = TrimSpace rest in
      case ValidateLabelKey key of
        Some e \<Rightarrow> Inl (Wrapf ''invalid label key in selector %q: %w'' [part] e)
      | None \<Rightarrow> Inr \<lparr>lr_Key = key, lr_Operator = operator, lr_Value = ''''\<rparr>)"

definition parse_requirement :: "string \<Rightarrow> gerror + label_requirement" where
  "parse_requirement part0 =
     (let part = TrimSpace part0 in
      if part = '''' then Inl (Err ''label selector contains an empty requirement'')
      else if Contains part ''!='' then parse_binary part ''!='' OpNotEqual
      else if Contains part ''=='' then parse_binary part ''=='' OpEqual
      else if Contains part ''='' then parse_binary part ''='' OpEqual
      else if HasPrefix part ''!'' then parse_unary part (drop 1 part) OpNotExists
      else parse_unary part part OpExists)"

fun parse_parts :: "string list \<Rightarrow> gerror + label_selector" where
  "parse_parts [] = Inr []"
| "parse_parts (part # parts) =
     (case parse_requirement part of
        Inl e \<Rightarrow> Inl e
      | Inr r \<Rightarrow> (case parse_parts parts of Inl e \<Rightarrow> Inl e | Inr rs \<Rightarrow> Inr (r # rs)))"

definition ParseLabelSelector :: "string \<Rightarrow> gerror + label_selector" where
  "ParseLabelSelector selector =
     (if selector = '''' then Inr [] else parse_parts (Split CHR '','' selector))"

fun requirement_string :: "label_operator \<Rightarrow> string \<Rightarrow> string \<Rightarrow> string" where
  "requirement_string OpEqual key value = key @ ''='' @ value"
| "requirement_string OpNotEqual key value = key @ ''!='' @ value"
| "requirement_string OpExists key value = key"
| "requirement_string OpNotExists key value = ''!'' @ key"

definition Selector_String :: "label_selector \<Rightarrow> string" where
  "Selector_String s = Join '','' (map (\<lambda>r. requirement_string (lr_Operator r) (lr_Key r) (lr_Value r)) s)"

definition requirement_matches :: "smap \<Rightarrow> label_requirement \<Rightarrow> bool" where
  "requirement_matches labels r =
     (let present = (map_of labels (lr_Key r) \<noteq> None);
          v = (case map_of labels (lr_Key r) of Some x \<Rightarrow> x | None \<Rightarrow> '''')
      in case lr_Operator r of
           OpEqual \<Rightarrow> \<not> (\<not> present \<or> v \<noteq> lr_Value r)
         | OpNotEqual \<Rightarrow> \<not> (present \<and> v = lr_Value r)
         | OpExists \<Rightarrow> \<not> \<not> present
         | OpNotExists \<Rightarrow> \<not> present)"

definition Selector_Matches :: "label_selector \<Rightarrow> smap \<Rightarrow> bool" where
  "Selector_Matches s labels = list_all (requirement_matches labels) s"

definition BuildLabelSelectorFromMap :: "smap \<Rightarrow> string" where
  "BuildLabelSelectorFromMap labels =
     (if length labels = 0 then ''''
      else Join '','' (map (\<lambda>k. k @ ''='' @ (case map_of labels k of Some v \<Rightarrow> v | None \<Rightarrow> ''''))
             (sort (keys labels))))"

subsection \<open>SQL conditions\<close>

datatype provider = Postgres | Clickhouse | Sqlite

text \<open>The scalar expressions over the labels column and the conditions the code writes with them;
  the strings are the bound arguments.\<close>

datatype json_scalar = JArrow string | JExtractString string | JExtract string

datatype json_cond =
    JEq json_scalar string
  | JNeq json_scalar string
  | JIsNull json_scalar
  | JIsNotNull json_scalar
  | JExists string
  | JNot json_cond
  | JOr json_cond json_cond

fun requirement_cond :: "provider \<Rightarrow> label_operator \<Rightarrow> string \<Rightarrow> string \<Rightarrow> json_cond" where
  "requirement_cond Postgres OpEqual k v = JEq (JArrow k) v"
| "requirement_cond Clickhouse OpEqual k v = JEq (JExtractString k) v"
| "requirement_cond Sqlite OpEqual k v = JEq (JExtract k) v"
| "requirement_cond Postgres OpNotEqual k v = JOr (JNot (JExists k)) (JNeq (JArrow k) v)"
| "requirement_cond Clickhouse OpNotEqual k v = JOr (JEq (JExtractString k) '''') (JNeq (JExtractString k) v)"
| "requirement_cond Sqlite OpNotEqual k v = JOr (JIsNull (JExtract k)) (JNeq (JExtract k) v)"
| "requirement_cond Postgres OpExists k v = JExists k"
| "requirement_cond Clickhouse OpExists k v = JNeq (JExtractString k) ''''"
| "requirement_cond Sqlite OpExists k v = JIsNotNull (JExtract k)"
| "requirement_cond Postgres OpNotExists k v = JNot (JExists k)"
| "requirement_cond Clickhouse OpNotExists k v = JEq (JExtractString k) ''''"
| "requirement_cond Sqlite OpNotExists k v = JIsNull (JExtract k)"

definition ApplyToSqlBuilderWithProvider :: "label_selector \<Rightarrow> json_cond list \<Rightarrow> provider \<Rightarrow> json_cond list" where
  "ApplyToSqlBuilderWithProvider s q provider =
     fold (\<lambda>r q. q @ [requirement_cond provider (lr_Operator r) (lr_Key r) (lr_Value r)]) s q"

subsection \<open>Parsing and printing\<close>

text \<open>Strings of printable characters are left alone by trimming.\<close>

definition printable :: "char \<Rightarrow> bool" where
  "printable c \<longleftrightarrow> CHR ''!'' \<le> c \<and> c \<le> CHR ''~''"

lemma space_seqs_ends: "w \<in> set space_seqs \<Longrightarrow> \<not> printable (hd w) \<and> \<not> printable (last w)"
  by (auto simp: space_seqs_def printable_def less_eq_char_def)

lemma TrimSpace_printable:
  assumes "\<forall>c \<in> set s. printable c"
  shows "TrimSpace s = s"
proof -
  have "\<not> HasPrefix s w \<and> \<not> HasSuffix s w" if "w \<in> set space_seqs" for w
  proof -
    have "w \<noteq> []" using space_seqs_not_Nil [OF that] by auto
    then show ?thesis
      using space_seqs_ends [OF that] assms
      by (auto simp: HasPrefix_iff HasSuffix_iff)
  qed
  then have "find (\<lambda>w. HasPrefix s w) space_seqs = None" "find (\<lambda>w. HasSuffix s w) space_seqs = None"
    by (auto simp: find_None_iff)
  then show ?thesis
    unfolding TrimSpace_def by (simp add: TrimLeftSpace.simps [of s] TrimRightSpace.simps [of s])
qed

text \<open>Characters of keys and values.\<close>

definition key_char :: "char \<Rightarrow> bool" where
  "key_char c \<longleftrightarrow> label_char c \<or> c = CHR ''/''"

lemma key_char_printable: "key_char c \<Longrightarrow> printable c"
  by (auto simp: key_char_def label_char_def is_alnum_def printable_def less_eq_char_def)

lemma key_char_special [simp]: "\<not> key_char CHR ''!''" "\<not> key_char CHR ''=''" "\<not> key_char CHR '',''"
  by (auto simp: key_char_def label_char_def is_alnum_def less_eq_char_def)

lemma printable_ops [simp]: "printable CHR ''!''" "printable CHR ''=''"
  by (simp_all add: printable_def less_eq_char_def)

lemma dns_label_key_char: "dns_label x \<Longrightarrow> c \<in> set x \<Longrightarrow> key_char c"
  unfolding dns_label_def key_char_def alnum_dash_def label_char_def by blast

lemma valid_name_key_char: "valid_name x \<Longrightarrow> c \<in> set x \<Longrightarrow> key_char c"
  unfolding valid_name_def key_char_def by blast

lemma Join_chars: "c \<in> set (Join sep xs) \<Longrightarrow> c \<in> set sep \<or> (\<exists>x \<in> set xs. c \<in> set x)"
  by (induction xs rule: induct_list012) auto

lemma key_char_dot: "key_char CHR ''.''" "key_char CHR ''/''" "key_char CHR ''-''"
  by (simp_all add: key_char_def label_char_def)

lemma Split_chars: "c \<in> set s \<Longrightarrow> c = d \<or> (\<exists>x \<in> set (Split d s). c \<in> set x)"
  using Join_chars [of c "[d]" "Split d s"] by auto

lemma apxy_key_decompose:
  assumes "validateApxyLabelKey k = None" "apxy_key k"
  obtains l n where "k = ''apxy/'' @ l @ ''/'' @ n" "valid_name n"
    "\<forall>s \<in> set (Split CHR ''/'' l). dns_label s \<or> s = ''-''"
proof -
  obtain r where r: "k = ''apxy'' @ CHR ''/'' # r" using assms(2) by (auto simp: HasPrefix_iff ApxyReservedPrefix_def)
  show ?thesis
  proof (cases "LastIndex r CHR ''/''")
    case None
    then have li: "LastIndex k CHR ''/'' = Some (length ''apxy'')" unfolding r by (intro LastIndex_append) simp
    have "validateApxyLabelKey k \<noteq> None"
      unfolding validateApxyLabelKey_def li using TrimPrefix_append [of "''apxy''" "''''"]
      by (simp add: r Let_def)
    with assms(1) show ?thesis by simp
  next
    case (Some i)
    define l where "l = take i r"
    define n where "n = drop (Suc i) r"
    have r': "r = l @ CHR ''/'' # n" "CHR ''/'' \<notin> set n" using LastIndex_Some [OF Some] by (auto simp: l_def n_def)
    have k: "k = (''apxy'' @ ''/'' @ l) @ CHR ''/'' # n" by (simp add: r r')
    have li: "LastIndex k CHR ''/'' = Some (length (''apxy'' @ ''/'' @ l))"
      unfolding k using r'(2) by (rule LastIndex_append)
    have "take (length (''apxy'' @ ''/'' @ l)) k = ''apxy'' @ ''/'' @ l"
      "drop (length (''apxy'' @ ''/'' @ l) + 1) k = n" by (simp_all add: k)
    moreover have "TrimPrefix (''apxy'' @ ''/'' @ l) ''apxy'' = ''/'' @ l" by (rule TrimPrefix_append)
    ultimately have "validate_segments (Split CHR ''/'' l) = None \<and> validate_name_part n = None"
      using assms(1) unfolding validateApxyLabelKey_def li option.case Let_def
      by (auto split: if_splits option.splits)
    then show ?thesis
      using that [of l n] by (simp add: k validate_segments_iff validate_name_part_iff)
  qed
qed

lemma apxy_chars: "\<forall>c \<in> set ''apxy/''. key_char c"
  by code_simp

lemma ValidateLabelKey_chars:
  assumes "ValidateLabelKey k = None"
  shows "k \<noteq> [] \<and> (\<forall>c \<in> set k. key_char c)"
proof (cases "apxy_key k")
  case True
  then have "validateApxyLabelKey k = None" using assms by (simp add: ValidateLabelKey_def split: if_splits)
  then obtain l n where k: "k = ''apxy/'' @ l @ ''/'' @ n" "valid_name n"
    "\<forall>s \<in> set (Split CHR ''/'' l). dns_label s \<or> s = ''-''"
    using True by (rule apxy_key_decompose)
  have "key_char c" if "c \<in> set l" for c
    using Split_chars [OF that, of "CHR ''/''"] k(3) dns_label_key_char key_char_dot by fastforce
  then show ?thesis using k(2) valid_name_key_char key_char_dot apxy_chars unfolding k(1) by auto
next
  case False
  then consider "valid_name k"
    | p n where "k = p @ ''/'' @ n" "valid_name n" "\<forall>x \<in> set (Split CHR ''.'' p). dns_label x"
    using ValidateLabelKey_plain [OF False] assms by blast
  then show ?thesis
  proof cases
    case 1
    then show ?thesis using valid_name_key_char by (auto simp: valid_name_def)
  next
    case 2
    have "key_char c" if "c \<in> set p" for c
      using Split_chars [OF that, of "CHR ''.''"] 2(3) dns_label_key_char key_char_dot by fastforce
    with 2 valid_name_key_char key_char_dot show ?thesis by auto
  qed
qed

lemma validateValueForKey_chars: "validateValueForKey k v = None \<Longrightarrow> \<forall>c \<in> set v. key_char c"
  by (auto simp: validateValueForKey_def ValidateApxyLabelValue_def ValidateLabelValue_def apxyLabelValueRegex_def
      labelValueRegex_def rmatch_name valid_name_def key_char_def alnum_sub split: if_splits)

text \<open>Selectors whose keys and values are valid, with no value for the existence operators.\<close>

definition valid_requirement :: "label_requirement \<Rightarrow> bool" where
  "valid_requirement r \<longleftrightarrow>
     ValidateLabelKey (lr_Key r) = None \<and>
     (if lr_Operator r \<in> {OpEqual, OpNotEqual} then validateValueForKey (lr_Key r) (lr_Value r) = None
      else lr_Value r = '''')"

lemma Contains_absent: "c \<in> set sub \<Longrightarrow> c \<notin> set s \<Longrightarrow> \<not> Contains s sub"
proof -
  assume c: "c \<in> set sub" "c \<notin> set s"
  then have "sub \<noteq> []" by auto
  with c show ?thesis by (auto simp: Contains_iff)
qed

lemma Contains_here: "sub \<noteq> [] \<Longrightarrow> Contains (l @ sub @ r) sub"
  by (auto simp: Contains_iff)

lemma key_chars_absent:
  assumes "\<forall>c \<in> set k. key_char c"
  shows "CHR ''!'' \<notin> set k" "CHR ''='' \<notin> set k" "CHR '','' \<notin> set k"
  using assms key_char_special by blast+

lemma no_double_eq:
  assumes "CHR ''='' \<notin> set k" "CHR ''='' \<notin> set v"
  shows "\<not> Contains (k @ ''='' @ v) ''==''"
proof
  assume "Contains (k @ ''='' @ v) ''==''"
  then obtain l r where e: "k @ ''='' @ v = l @ ''=='' @ r" by (auto simp: Contains_iff)
  then have "k @ CHR ''='' # v = l @ CHR ''='' # (CHR ''='' # r)" by simp
  then have "k = l \<and> v = CHR ''='' # r"
    using assms(1) by (auto simp: append_eq_append_conv2 append_eq_Cons_conv Cons_eq_append_conv)
       (use assms(2) in auto)
  then show False using assms(2) by auto
qed

lemma parse_requirement_string:
  assumes "valid_requirement r"
  shows "parse_requirement (requirement_string (lr_Operator r) (lr_Key r) (lr_Value r)) = Inr r"
proof -
  obtain k op v where r: "r = \<lparr>lr_Key = k, lr_Operator = op, lr_Value = v\<rparr>" by (cases r)
  have vk: "ValidateLabelKey k = None" using assms by (simp add: valid_requirement_def r)
  then have kc: "k \<noteq> []" "\<forall>c \<in> set k. key_char c" using ValidateLabelKey_chars by auto
  note ka = key_chars_absent [OF kc(2)]
  have vc: "\<forall>c \<in> set v. key_char c"
    using assms validateValueForKey_chars by (auto simp: valid_requirement_def r split: if_splits)
  note va = key_chars_absent [OF vc]
  have tk: "TrimSpace k = k" and tv: "TrimSpace v = v"
    using kc(2) vc key_char_printable TrimSpace_printable by auto
  have ts: "TrimSpace (requirement_string op k v) = requirement_string op k v"
    using kc(2) vc key_char_printable by (intro TrimSpace_printable) (cases op; auto)
  have hp: "\<not> HasPrefix k ''!''" using ka(1) by (auto simp: HasPrefix_iff)
  show ?thesis
  proof (cases op)
    case OpEqual
    have "SplitN2 (k @ ''='' @ v) ''='' = Some (k, v)" using ka(2) by (intro SplitN2_first) auto
    with OpEqual ts tk tv vk assms no_double_eq [OF ka(2) va(2)] Contains_here [of "''=''" k v]
      Contains_absent [of "CHR ''!''" "''!=''" "k @ ''='' @ v"] ka va
    show ?thesis by (simp add: r parse_requirement_def parse_binary_def valid_requirement_def)
  next
    case OpNotEqual
    have "SplitN2 (k @ ''!='' @ v) ''!='' = Some (k, v)" using ka(1) by (intro SplitN2_first) auto
    with OpNotEqual ts tk tv vk assms Contains_here [of "''!=''" k v]
    show ?thesis by (simp add: r parse_requirement_def parse_binary_def valid_requirement_def)
  next
    case OpExists
    with ts tk vk assms kc(1) ka hp Contains_absent [of "CHR ''=''" _ k]
    show ?thesis by (simp add: r parse_requirement_def parse_unary_def valid_requirement_def)
  next
    case OpNotExists
    with ts tk vk assms ka Contains_absent [of "CHR ''=''" _ "''!'' @ k"]
    show ?thesis by (simp add: r parse_requirement_def parse_unary_def valid_requirement_def HasPrefix_def)
  qed
qed

lemma requirement_string_no_comma:
  assumes "valid_requirement r"
  shows "CHR '','' \<notin> set (requirement_string (lr_Operator r) (lr_Key r) (lr_Value r))"
    and "requirement_string (lr_Operator r) (lr_Key r) (lr_Value r) \<noteq> []"
proof -
  have k: "lr_Key r \<noteq> []" "CHR '','' \<notin> set (lr_Key r)"
    using assms ValidateLabelKey_chars key_chars_absent(3) by (auto simp: valid_requirement_def)
  moreover have "CHR '','' \<notin> set (lr_Value r)"
    using assms validateValueForKey_chars key_chars_absent(3)
    by (cases "lr_Operator r") (auto simp: valid_requirement_def)
  ultimately show "CHR '','' \<notin> set (requirement_string (lr_Operator r) (lr_Key r) (lr_Value r))"
    "requirement_string (lr_Operator r) (lr_Key r) (lr_Value r) \<noteq> []"
    by (cases "lr_Operator r"; simp)+
qed

lemma parse_parts_strings:
  "\<forall>r \<in> set s. valid_requirement r \<Longrightarrow>
   parse_parts (map (\<lambda>r. requirement_string (lr_Operator r) (lr_Key r) (lr_Value r)) s) = Inr s"
  by (induction s) (auto simp: parse_requirement_string)

lemma ParseLabelSelector_String:
  assumes "\<forall>r \<in> set s. valid_requirement r"
  shows "ParseLabelSelector (Selector_String s) = Inr s"
proof (cases "s = []")
  case False
  let ?xs = "map (\<lambda>r. requirement_string (lr_Operator r) (lr_Key r) (lr_Value r)) s"
  have "Split CHR '','' (Join '','' ?xs) = ?xs"
    using False assms requirement_string_no_comma(1) by (intro Split_Join) auto
  moreover have "Join '','' ?xs \<noteq> []"
    using False assms requirement_string_no_comma(2) by (cases s; cases "tl s") auto
  ultimately show ?thesis
    using parse_parts_strings [OF assms] by (simp add: ParseLabelSelector_def Selector_String_def)
qed (simp add: ParseLabelSelector_def Selector_String_def)

lemma parse_requirement_valid: "parse_requirement p = Inr r \<Longrightarrow> valid_requirement r"
  by (auto simp: parse_requirement_def parse_binary_def parse_unary_def valid_requirement_def Let_def
      split: if_splits option.splits)

lemma ParseLabelSelector_valid: "ParseLabelSelector t = Inr s \<Longrightarrow> r \<in> set s \<Longrightarrow> valid_requirement r"
proof -
  have "parse_parts ps = Inr s \<Longrightarrow> r \<in> set s \<Longrightarrow> valid_requirement r" for ps
    by (induction ps arbitrary: s) (auto simp: parse_requirement_valid split: sum.splits)
  then show "ParseLabelSelector t = Inr s \<Longrightarrow> r \<in> set s \<Longrightarrow> valid_requirement r"
    by (auto simp: ParseLabelSelector_def split: if_splits)
qed

text \<open>
  Property C15. Parsing accepts only valid requirements, and printing is inverse to it: every
  selector with valid requirements is recovered from its printed form, so re-parsing the printed
  form of any successfully parsed selector gives the same selector.
\<close>

theorem ParseLabelSelector_roundtrip:
  "((\<forall>r \<in> set s. valid_requirement r) \<longrightarrow> ParseLabelSelector (Selector_String s) = Inr s) \<and>
   (ParseLabelSelector t = Inr s \<longrightarrow>
      (\<forall>r \<in> set s. valid_requirement r) \<and> ParseLabelSelector (Selector_String s) = Inr s)"
  using ParseLabelSelector_String [of s] ParseLabelSelector_valid [of t s] by blast

theorem ParseLabelSelector_roundtrip_witness:
  "ParseLabelSelector '' a = b , !c'' =
     Inr [\<lparr>lr_Key = ''a'', lr_Operator = OpEqual, lr_Value = ''b''\<rparr>, \<lparr>lr_Key = ''c'', lr_Operator = OpNotExists, lr_Value = ''''\<rparr>] \<and>
   ParseLabelSelector (Selector_String [\<lparr>lr_Key = ''a'', lr_Operator = OpEqual, lr_Value = ''b''\<rparr>,
       \<lparr>lr_Key = ''c'', lr_Operator = OpNotExists, lr_Value = ''''\<rparr>]) =
     Inr [\<lparr>lr_Key = ''a'', lr_Operator = OpEqual, lr_Value = ''b''\<rparr>, \<lparr>lr_Key = ''c'', lr_Operator = OpNotExists, lr_Value = ''''\<rparr>]"
proof -
  have "ParseLabelSelector '' a = b , !c'' =
     Inr [\<lparr>lr_Key = ''a'', lr_Operator = OpEqual, lr_Value = ''b''\<rparr>, \<lparr>lr_Key = ''c'', lr_Operator = OpNotExists, lr_Value = ''''\<rparr>]"
    by code_simp
  with ParseLabelSelector_roundtrip show ?thesis by blast
qed

lemma requirement_matches_iff:
  "requirement_matches labels r \<longleftrightarrow>
     (case lr_Operator r of
        OpEqual \<Rightarrow> map_of labels (lr_Key r) = Some (lr_Value r)
      | OpNotEqual \<Rightarrow> map_of labels (lr_Key r) \<noteq> Some (lr_Value r)
      | OpExists \<Rightarrow> map_of labels (lr_Key r) \<noteq> None
      | OpNotExists \<Rightarrow> map_of labels (lr_Key r) = None)"
  by (auto simp: requirement_matches_def Let_def split: label_operator.splits option.splits)

text \<open>
  The selector built from a map of valid labels parses, and it matches exactly the
  label maps that contain every entry of the map.
\<close>

theorem BuildLabelSelectorFromMap_matches:
  assumes "wf_map m" "ValidateLabels m = None"
  shows "\<exists>s. ParseLabelSelector (BuildLabelSelectorFromMap m) = Inr s \<and>
           (\<forall>labels. Selector_Matches s labels \<longleftrightarrow> map_of m \<subseteq>\<^sub>m map_of labels)"
proof -
  define f where "f = (\<lambda>k. \<lparr>lr_Key = k, lr_Operator = OpEqual, lr_Value = the (map_of m k)\<rparr>)"
  let ?s = "map f (sort (keys m))"
  have dom: "k \<in> set (keys m) \<longleftrightarrow> map_of m k \<noteq> None" for k by (simp add: keys_def map_of_eq_None_iff)
  have "valid_requirement (f k)" if k: "k \<in> set (keys m)" for k
  proof -
    obtain v where "map_of m k = Some v" using k dom by auto
    moreover from this have "(k, v) \<in> set m" by (rule map_of_SomeD)
    ultimately show ?thesis using assms(2) by (auto simp: f_def valid_requirement_def ValidateLabels_iff)
  qed
  then have p: "ParseLabelSelector (Selector_String ?s) = Inr ?s" by (intro ParseLabelSelector_String) auto
  have "Selector_String ?s = BuildLabelSelectorFromMap m"
  proof (cases "m = []")
    case False
    have "requirement_string (lr_Operator (f k)) (lr_Key (f k)) (lr_Value (f k)) =
        k @ ''='' @ (case map_of m k of Some v \<Rightarrow> v | None \<Rightarrow> [])" if "k \<in> set (keys m)" for k
      using that dom by (auto simp: f_def)
    then have "map (\<lambda>k. requirement_string (lr_Operator (f k)) (lr_Key (f k)) (lr_Value (f k))) (sort (keys m)) =
        map (\<lambda>k. k @ ''='' @ (case map_of m k of Some v \<Rightarrow> v | None \<Rightarrow> [])) (sort (keys m))"
      by (intro map_cong) auto
    with False show ?thesis
      by (simp add: Selector_String_def BuildLabelSelectorFromMap_def comp_def del: map_eq_conv)
  qed (simp add: Selector_String_def BuildLabelSelectorFromMap_def keys_def)
  moreover have "Selector_Matches ?s labels \<longleftrightarrow> map_of m \<subseteq>\<^sub>m map_of labels" for labels
    using dom by (auto simp: Selector_Matches_def list_all_iff requirement_matches_iff f_def map_le_def dom_def)
  ultimately show ?thesis using p by auto
qed

theorem BuildLabelSelectorFromMap_matches_witness:
  "\<exists>s. ParseLabelSelector (BuildLabelSelectorFromMap [(''type'', ''crm''), (''env'', ''prod'')]) = Inr s \<and>
       Selector_Matches s [(''env'', ''prod''), (''x'', ''y''), (''type'', ''crm'')]"
proof -
  have h: "wf_map [(''type'', ''crm''), (''env'', ''prod'')]" "ValidateLabels [(''type'', ''crm''), (''env'', ''prod'')] = None"
    by code_simp+
  have "map_of [(''type'', ''crm''), (''env'', ''prod'')] \<subseteq>\<^sub>m map_of [(''env'', ''prod''), (''x'', ''y''), (''type'', ''crm'')]"
    by (auto simp: map_le_def)
  with BuildLabelSelectorFromMap_matches [OF h] show ?thesis by blast
qed

subsection \<open>Evaluation by the databases\<close>

text \<open>The JSON functions over a labels column, NULL when the row has no labels. SQL conditions
  have three truth values, with \<^term>\<open>None\<close> for unknown; a row is selected when every condition is
  true.\<close>

record json_fns =
  jf_arrow :: "smap option \<Rightarrow> string \<Rightarrow> string option"
  jf_exists :: "smap option \<Rightarrow> string \<Rightarrow> bool option"
  jf_extract_string :: "smap option \<Rightarrow> string \<Rightarrow> string option"
  jf_extract :: "smap option \<Rightarrow> string \<Rightarrow> string option"

fun scalar_value :: "json_fns \<Rightarrow> smap option \<Rightarrow> json_scalar \<Rightarrow> string option" where
  "scalar_value jf col (JArrow k) = jf_arrow jf col k"
| "scalar_value jf col (JExtractString k) = jf_extract_string jf col k"
| "scalar_value jf col (JExtract k) = jf_extract jf col k"

definition sql_not :: "bool option \<Rightarrow> bool option" where
  "sql_not a = map_option Not a"

fun sql_or :: "bool option \<Rightarrow> bool option \<Rightarrow> bool option" where
  "sql_or (Some True) b = Some True"
| "sql_or a (Some True) = Some True"
| "sql_or (Some False) (Some False) = Some False"
| "sql_or a b = None"

fun cond_value :: "json_fns \<Rightarrow> smap option \<Rightarrow> json_cond \<Rightarrow> bool option" where
  "cond_value jf col (JEq e v) = map_option (\<lambda>x. x = v) (scalar_value jf col e)"
| "cond_value jf col (JNeq e v) = map_option (\<lambda>x. x \<noteq> v) (scalar_value jf col e)"
| "cond_value jf col (JIsNull e) = Some (scalar_value jf col e = None)"
| "cond_value jf col (JIsNotNull e) = Some (scalar_value jf col e \<noteq> None)"
| "cond_value jf col (JExists k) = jf_exists jf col k"
| "cond_value jf col (JNot c) = sql_not (cond_value jf col c)"
| "cond_value jf col (JOr a b) = sql_or (cond_value jf col a) (cond_value jf col b)"

definition row_selected :: "json_fns \<Rightarrow> json_cond list \<Rightarrow> smap option \<Rightarrow> bool" where
  "row_selected jf q col = list_all (\<lambda>c. cond_value jf col c = Some True) q"

text \<open>Documented behaviour: every function is NULL on NULL; on an object, \<^verbatim>\<open>->>\<close> and
  \<^verbatim>\<open>json_extract\<close> give the value of a key or NULL, and \<^verbatim>\<open>jsonb_exists\<close> tells whether it is there.
  (The SQLite path quotes the key, so the law is stated for keys without a double quote.)\<close>

locale json_functions =
  fixes jf :: json_fns
  assumes arrow_null: "jf_arrow jf None k = None"
    and arrow_obj: "jf_arrow jf (Some m) k = map_of m k"
    and exists_null: "jf_exists jf None k = None"
    and exists_obj: "jf_exists jf (Some m) k = Some (map_of m k \<noteq> None)"
    and extract_null: "jf_extract jf None k = None"
    and extract_obj: "CHR 0x22 \<notin> set k \<Longrightarrow> jf_extract jf (Some m) k = map_of m k"
begin

lemma requirement_postgres:
  "cond_value jf (Some m) (requirement_cond Postgres (lr_Operator r) (lr_Key r) (lr_Value r)) = Some True \<longleftrightarrow>
   requirement_matches m r"
  by (cases "lr_Operator r"; cases "map_of m (lr_Key r)")
     (auto simp: requirement_matches_iff arrow_obj exists_obj sql_not_def)

lemma requirement_sqlite:
  "CHR 0x22 \<notin> set (lr_Key r) \<Longrightarrow>
   cond_value jf col (requirement_cond Sqlite (lr_Operator r) (lr_Key r) (lr_Value r)) = Some True \<longleftrightarrow>
   requirement_matches (case col of None \<Rightarrow> [] | Some m \<Rightarrow> m) r"
  by (cases col; cases "lr_Operator r"; cases "map_of (case col of None \<Rightarrow> [] | Some m \<Rightarrow> m) (lr_Key r)")
     (auto simp: requirement_matches_iff extract_obj extract_null)

end

definition sample_json :: json_fns where
  "sample_json = \<lparr>jf_arrow = (\<lambda>col k. case col of None \<Rightarrow> None | Some m \<Rightarrow> map_of m k),
     jf_exists = (\<lambda>col k. case col of None \<Rightarrow> None | Some m \<Rightarrow> Some (map_of m k \<noteq> None)),
     jf_extract_string = (\<lambda>col k. case col of None \<Rightarrow> None
        | Some m \<Rightarrow> Some (case map_of m k of Some v \<Rightarrow> v | None \<Rightarrow> '''')),
     jf_extract = (\<lambda>col k. case col of None \<Rightarrow> None | Some m \<Rightarrow> map_of m k)\<rparr>"

interpretation db_json: json_functions sample_json
  by unfold_locales (auto simp: sample_json_def)

lemma ApplyToSqlBuilder_map:
  "ApplyToSqlBuilderWithProvider s q p =
   q @ map (\<lambda>r. requirement_cond p (lr_Operator r) (lr_Key r) (lr_Value r)) s"
  unfolding ApplyToSqlBuilderWithProvider_def by (induction s arbitrary: q) auto



text \<open>
  Where the two evaluations part: on PostgreSQL a row without labels (a NULL column)
  is never selected by a selector with a requirement, although in memory an empty label map
  satisfies the requirements \<^verbatim>\<open>!key\<close> and \<^verbatim>\<open>key!=value\<close>.
\<close>

theorem postgres_null_labels:
  assumes "json_functions jf" "s \<noteq> []" "\<forall>r \<in> set s. lr_Operator r \<in> {OpNotEqual, OpNotExists}"
  shows "Selector_Matches s [] \<and> \<not> row_selected jf (ApplyToSqlBuilderWithProvider s [] Postgres) None \<and>
         ((\<forall>r \<in> set s. CHR 0x22 \<notin> set (lr_Key r)) \<longrightarrow>
            row_selected jf (ApplyToSqlBuilderWithProvider s [] Sqlite) None)"
proof -
  have m: "Selector_Matches s []"
    using assms(3) by (auto simp: Selector_Matches_def list_all_iff requirement_matches_iff split: label_operator.splits)
  obtain r where r: "r \<in> set s" using assms(2) by (cases s) auto
  have "cond_value jf None (requirement_cond Postgres (lr_Operator r) (lr_Key r) (lr_Value r)) = None"
    using assms(3) r json_functions.arrow_null [OF assms(1)] json_functions.exists_null [OF assms(1)]
    by (auto simp: sql_not_def)
  then have "\<not> row_selected jf (ApplyToSqlBuilderWithProvider s [] Postgres) None"
    using r by (auto simp: row_selected_def ApplyToSqlBuilder_map list_all_iff intro!: bexI [of _ r])
  with m show ?thesis
    using json_functions.requirement_sqlite [OF assms(1), of _ None]
    by (auto simp: row_selected_def ApplyToSqlBuilder_map list_all_iff Selector_Matches_def)
qed

theorem postgres_null_labels_witness:
  "Selector_Matches [\<lparr>lr_Key = ''a'', lr_Operator = OpNotExists, lr_Value = ''''\<rparr>] [] \<and>
   \<not> row_selected sample_json (ApplyToSqlBuilderWithProvider
      [\<lparr>lr_Key = ''a'', lr_Operator = OpNotExists, lr_Value = ''''\<rparr>] [] Postgres) None"
  using postgres_null_labels [OF db_json.json_functions_axioms, of "[\<lparr>lr_Key = ''a'', lr_Operator = OpNotExists, lr_Value = ''''\<rparr>]"]
  by simp

end
