(* ===== verification/Go_Text.thy ===== *)
theory Go_Text
  imports Prelude
begin

text \<open>
  The parts of Go's \<^verbatim>\<open>strconv\<close> and \<^verbatim>\<open>unicode/utf8\<close> packages, and the integer arithmetic, that the
  rate limiting sources use: decimal formatting and parsing, the length of the UTF-8 sequence at
  the head of a string, signed 64-bit wrap-around and division that truncates towards zero. The
  lemmas show that formatting is injective and parsed back.
\<close>

subsection \<open>64-bit integers\<close>

definition wrap64 :: "int \<Rightarrow> int" where
  "wrap64 i = (i + 2 ^ 63) mod 2 ^ 64 - 2 ^ 63"

definition quot :: "int \<Rightarrow> int \<Rightarrow> int" where
  "quot a b = sgn a * sgn b * (\<bar>a\<bar> div \<bar>b\<bar>)"

definition remt :: "int \<Rightarrow> int \<Rightarrow> int" where
  "remt a b = a - b * quot a b"

lemma wrap64_id: "- (2 ^ 63) \<le> i \<Longrightarrow> i < 2 ^ 63 \<Longrightarrow> wrap64 i = i"
  by (simp add: wrap64_def)

lemma quot_pos: "0 \<le> a \<Longrightarrow> 0 < b \<Longrightarrow> quot a b = a div b"
  by (cases "a = 0") (auto simp: quot_def)

lemma remt_pos: "0 \<le> a \<Longrightarrow> 0 < b \<Longrightarrow> remt a b = a mod b"
  by (simp add: remt_def quot_pos minus_mult_div_eq_mod)

subsection \<open>Decimal numbers\<close>

definition digit :: "nat \<Rightarrow> char" where
  "digit n = char_of (48 + n)"

fun FormatUint :: "nat \<Rightarrow> string" where
  "FormatUint n = (if n < 10 then [digit n] else FormatUint (n div 10) @ [digit (n mod 10)])"

declare FormatUint.simps [simp del]

definition FormatInt :: "int \<Rightarrow> string" where
  "FormatInt i = (if i < 0 then CHR ''-'' # FormatUint (nat (- i)) else FormatUint (nat i))"

definition digit_value :: "char \<Rightarrow> nat option" where
  "digit_value c = (let n = of_char c in if 48 \<le> n \<and> n \<le> (57 :: nat) then Some (n - 48) else None)"

fun parse_digits :: "nat \<Rightarrow> string \<Rightarrow> nat option" where
  "parse_digits acc [] = Some acc"
| "parse_digits acc (c # cs) =
     (case digit_value c of None \<Rightarrow> None | Some d \<Rightarrow> parse_digits (10 * acc + d) cs)"

text \<open>\<^verbatim>\<open>strconv.ParseInt(s, 10, 64)\<close>: an optional sign, at least one digit, and the range check.\<close>

definition ParseInt64 :: "string \<Rightarrow> gerror + int" where
  "ParseInt64 s =
     (let neg = HasPrefix s ''-'';
          body = (if neg \<or> HasPrefix s ''+'' then tl s else s)
      in if body = [] then Inl (Sentinel ''strconv.ErrSyntax'')
         else case parse_digits 0 body of
           None \<Rightarrow> Inl (Sentinel ''strconv.ErrSyntax'')
         | Some n \<Rightarrow>
             let i = (if neg then - int n else int n)
             in if - (2 ^ 63) \<le> i \<and> i < 2 ^ 63 then Inr i
                else Inl (Sentinel ''strconv.ErrRange''))"

lemma digit_value_digit: "n < 10 \<Longrightarrow> digit_value (digit n) = Some n"
  by (simp add: digit_value_def digit_def of_char_of take_bit_eq_mod)

lemma FormatUint_not_Nil [simp]: "FormatUint n \<noteq> []"
  by (subst FormatUint.simps) simp

lemma parse_digits_append:
  "parse_digits acc (xs @ ys) = (case parse_digits acc xs of None \<Rightarrow> None | Some n \<Rightarrow> parse_digits n ys)"
  by (induction xs arbitrary: acc) (auto split: option.splits)

lemma parse_FormatUint: "parse_digits 0 (FormatUint n) = Some n"
proof (induction n rule: FormatUint.induct)
  case (1 n)
  show ?case
  proof (cases "n < 10")
    case True
    then show ?thesis by (simp add: FormatUint.simps digit_value_digit)
  next
    case False
    with 1 show ?thesis
      by (simp add: FormatUint.simps [of n] parse_digits_append digit_value_digit mod_less)
  qed
qed

lemma FormatUint_digits: "c \<in> set (FormatUint n) \<Longrightarrow> digit_value c \<noteq> None"
proof (induction n rule: FormatUint.induct)
  case (1 n)
  then show ?case
    by (subst (asm) (2) FormatUint.simps) (auto simp: digit_value_digit split: if_splits)
qed

lemma FormatUint_inj: "FormatUint m = FormatUint n \<longleftrightarrow> m = n"
  by (metis option.inject parse_FormatUint)

lemma FormatInt_chars: "c \<in> set (FormatInt i) \<Longrightarrow> c = CHR ''-'' \<or> digit_value c \<noteq> None"
  by (auto simp: FormatInt_def dest: FormatUint_digits split: if_splits)

lemma FormatInt_no_colon: "CHR '':'' \<notin> set (FormatInt i)"
  using FormatInt_chars [of "CHR '':''" i] by (auto simp: digit_value_def)

lemma minus_not_digit: "FormatUint n \<noteq> CHR ''-'' # xs"
proof
  assume "FormatUint n = CHR ''-'' # xs"
  then have "digit_value (CHR ''-'') \<noteq> None"
    using FormatUint_digits [of "CHR ''-''" n] by simp
  then show False by (simp add: digit_value_def)
qed

lemma FormatInt_inj: "FormatInt i = FormatInt j \<longleftrightarrow> i = j"
  by (auto simp: FormatInt_def FormatUint_inj minus_not_digit minus_not_digit [symmetric])

lemma ParseInt64_FormatInt:
  assumes "- (2 ^ 63) \<le> i" "i < 2 ^ 63"
  shows "ParseInt64 (FormatInt i) = Inr i"
proof (cases "i < 0")
  case True
  with assms show ?thesis
    by (simp add: ParseInt64_def FormatInt_def HasPrefix_def parse_FormatUint)
next
  case False
  have no_sign: "\<not> HasPrefix (FormatUint n) [c]" if "digit_value c = None" for n c
    using that FormatUint_digits [of c n] by (cases "FormatUint n") (auto simp: HasPrefix_def)
  have "\<not> HasPrefix (FormatUint (nat i)) ''-''" "\<not> HasPrefix (FormatUint (nat i)) ''+''"
    by (rule no_sign, simp add: digit_value_def)+
  with False assms show ?thesis
    by (simp add: ParseInt64_def FormatInt_def parse_FormatUint)
qed

subsection \<open>UTF-8\<close>

text \<open>
  The number of bytes of the well-formed UTF-8 sequence at the head of a string, 0 when there is
  none; Go decodes one byte as \<^verbatim>\<open>utf8.RuneError\<close> in that case.
\<close>

definition byte_in :: "nat \<Rightarrow> nat \<Rightarrow> string \<Rightarrow> nat \<Rightarrow> bool" where
  "byte_in lo hi s i \<longleftrightarrow> i < length s \<and> lo \<le> of_char (s ! i) \<and> of_char (s ! i) \<le> hi"

definition utf8_len :: "string \<Rightarrow> nat" where
  "utf8_len s =
     (if byte_in 0 0x7F s 0 then 1
      else if byte_in 0xC2 0xDF s 0 \<and> byte_in 0x80 0xBF s 1 then 2
      else if (byte_in 0xE0 0xE0 s 0 \<and> byte_in 0xA0 0xBF s 1
               \<or> (byte_in 0xE1 0xEC s 0 \<or> byte_in 0xEE 0xEF s 0) \<and> byte_in 0x80 0xBF s 1
               \<or> byte_in 0xED 0xED s 0 \<and> byte_in 0x80 0x9F s 1)
              \<and> byte_in 0x80 0xBF s 2 then 3
      else if (byte_in 0xF0 0xF0 s 0 \<and> byte_in 0x90 0xBF s 1
               \<or> byte_in 0xF1 0xF3 s 0 \<and> byte_in 0x80 0xBF s 1
               \<or> byte_in 0xF4 0xF4 s 0 \<and> byte_in 0x80 0x8F s 1)
              \<and> byte_in 0x80 0xBF s 2 \<and> byte_in 0x80 0xBF s 3 then 4
      else 0)"

definition RuneError :: string where
  "RuneError = [CHR 0xEF, CHR 0xBF, CHR 0xBD]"

text \<open>The runes of a string, each as its UTF-8 encoding, in the order of a \<^verbatim>\<open>range\<close> loop.\<close>

function runes :: "string \<Rightarrow> string list" where
  "runes s =
     (if s = [] then []
      else let n = utf8_len s
           in if n = 0 then RuneError # runes (tl s) else take n s # runes (drop n s))"
  by pat_completeness auto
termination
  by (relation "measure length") auto

declare runes.simps [simp del]

text \<open>Well-formed UTF-8.\<close>

function utf8_valid :: "string \<Rightarrow> bool" where
  "utf8_valid s =
     (if s = [] then True else if utf8_len s = 0 then False else utf8_valid (drop (utf8_len s) s))"
  by pat_completeness auto
termination
  by (relation "measure length") auto

declare utf8_valid.simps [simp del]

lemma byte_in_length: "byte_in lo hi s i \<Longrightarrow> i < length s"
  by (simp add: byte_in_def)

lemma byte_in_high: "byte_in lo hi s i \<Longrightarrow> 128 \<le> lo \<Longrightarrow> 128 \<le> (of_char (s ! i) :: nat)"
  by (simp add: byte_in_def)

lemma utf8_len_cases:
  "utf8_len s = 0 \<or>
   utf8_len s = 1 \<and> byte_in 0 0x7F s 0 \<or>
   utf8_len s = 2 \<and> byte_in 0xC2 0xDF s 0 \<and> byte_in 0x80 0xBF s 1 \<or>
   utf8_len s = 3 \<and> byte_in 0x80 0xFF s 0 \<and> byte_in 0x80 0xBF s 1 \<and> byte_in 0x80 0xBF s 2 \<or>
   utf8_len s = 4 \<and> byte_in 0x80 0xFF s 0 \<and> byte_in 0x80 0xBF s 1 \<and> byte_in 0x80 0xBF s 2
     \<and> byte_in 0x80 0xBF s 3"
proof -
  have mono: "byte_in lo hi s i \<Longrightarrow> lo' \<le> lo \<Longrightarrow> hi \<le> hi' \<Longrightarrow> byte_in lo' hi' s i" for lo hi lo' hi' i
    by (simp add: byte_in_def)
  consider "utf8_len s = 0" | "utf8_len s = 1" "byte_in 0 0x7F s 0"
    | "utf8_len s = 2" "byte_in 0xC2 0xDF s 0 \<and> byte_in 0x80 0xBF s 1"
    | "utf8_len s = 3" "(byte_in 0xE0 0xE0 s 0 \<and> byte_in 0xA0 0xBF s 1
               \<or> (byte_in 0xE1 0xEC s 0 \<or> byte_in 0xEE 0xEF s 0) \<and> byte_in 0x80 0xBF s 1
               \<or> byte_in 0xED 0xED s 0 \<and> byte_in 0x80 0x9F s 1)
              \<and> byte_in 0x80 0xBF s 2"
    | "utf8_len s = 4" "(byte_in 0xF0 0xF0 s 0 \<and> byte_in 0x90 0xBF s 1
               \<or> byte_in 0xF1 0xF3 s 0 \<and> byte_in 0x80 0xBF s 1
               \<or> byte_in 0xF4 0xF4 s 0 \<and> byte_in 0x80 0x8F s 1)
              \<and> byte_in 0x80 0xBF s 2 \<and> byte_in 0x80 0xBF s 3"
    unfolding utf8_len_def by presburger
  then show ?thesis
  proof cases
    case 4
    then have "byte_in 0x80 0xFF s 0" "byte_in 0x80 0xBF s 1" "byte_in 0x80 0xBF s 2"
      by (elim conjE disjE; simp add: byte_in_def)+
    with 4 show ?thesis by simp
  next
    case 5
    then have "byte_in 0x80 0xFF s 0" "byte_in 0x80 0xBF s 1" "byte_in 0x80 0xBF s 2"
      "byte_in 0x80 0xBF s 3"
      by (elim conjE disjE; simp add: byte_in_def)+
    with 5 show ?thesis by simp
  qed simp_all
qed

lemma utf8_len_le: "utf8_len s \<le> length s"
  using utf8_len_cases [of s] by (elim disjE conjE) (auto simp: byte_in_def Suc_le_eq)

lemma utf8_len_ascii: "of_char c < (128 :: nat) \<Longrightarrow> utf8_len (c # s) = 1"
  by (simp add: utf8_len_def byte_in_def)

lemma utf8_len_multi:
  assumes "utf8_len s \<noteq> 0" "utf8_len s \<noteq> 1" "i < utf8_len s"
  shows "128 \<le> (of_char (s ! i) :: nat)"
proof -
  have four: "i < 4 \<Longrightarrow> i = 0 \<or> i = 1 \<or> i = 2 \<or> i = 3" by linarith
  show ?thesis
    using utf8_len_cases [of s] assms four
    by (elim disjE conjE) (auto dest: byte_in_high simp: less_Suc_eq numeral_eq_Suc)
qed

lemma utf8_len_one: "utf8_len s = 1 \<Longrightarrow> \<exists>c t. s = c # t \<and> of_char c < (128 :: nat)"
  using utf8_len_cases [of s] by (cases s) (auto simp: byte_in_def)

lemma utf8_valid_Nil [simp]: "utf8_valid []"
  by (simp add: utf8_valid.simps)

lemma runes_Nil [simp]: "runes [] = []"
  by (simp add: runes.simps)

lemma concat_runes: "utf8_valid s \<Longrightarrow> concat (runes s) = s"
proof (induction s rule: runes.induct)
  case (1 s)
  show ?case
  proof (cases "s = []")
    case False
    with "1.prems" have "utf8_len s \<noteq> 0" "utf8_valid (drop (utf8_len s) s)"
      by (auto simp: utf8_valid.simps [of s] split: if_splits)
    with 1 False show ?thesis by (simp add: runes.simps [of s] Let_def)
  qed simp
qed

lemma utf8_valid_ascii: "\<forall>c \<in> set s. of_char c < (128 :: nat) \<Longrightarrow> utf8_valid s"
  by (induction s) (auto simp: utf8_valid.simps utf8_len_ascii)

end
