(* ===== verification/Go_Float.thy ===== *)
theory Go_Float
  imports Complex_Main Go_Text
begin

text \<open>
  Floating point numbers, as Go's \<^verbatim>\<open>float64\<close> and Lua's numbers compute with them: the exact result
  of an operation rounded to \<open>p\<close> significant digits of base \<open>b\<close>, ties to even. \<open>f64\<close> is rounding to
  the 53 binary digits of a double. The lemmas show that rounding is monotone, keeps the integers
  it can represent and is off by at most half a unit of the last digit. Magnitudes below the
  smallest normal double are kept at full precision, where Go rounds them more coarsely or to zero.
\<close>

subsection \<open>Rounding to an integer, ties to even\<close>

definition rne :: "rat \<Rightarrow> int" where
  "rne x = (let f = \<lfloor>x\<rfloor>; d = x - of_int f
            in if d < 1 / 2 then f else if 1 / 2 < d then f + 1 else if even f then f else f + 1)"

lemma rne_int [simp]: "rne (of_int n) = n"
  by (simp add: rne_def)

lemma rne_cases: "rne x = \<lfloor>x\<rfloor> \<and> x - of_int \<lfloor>x\<rfloor> \<le> 1 / 2 \<or> rne x = \<lfloor>x\<rfloor> + 1 \<and> 1 / 2 \<le> x - of_int \<lfloor>x\<rfloor>"
  by (auto simp: rne_def Let_def)

lemma rne_error: "\<bar>of_int (rne x) - x\<bar> \<le> 1 / 2"
proof -
  have "of_int \<lfloor>x\<rfloor> \<le> x" "x < of_int \<lfloor>x\<rfloor> + 1" by linarith+
  with rne_cases [of x] show ?thesis by (auto simp: abs_le_iff)
qed

lemma rne_mono:
  assumes "x \<le> y"
  shows "rne x \<le> rne y"
proof (cases "\<lfloor>x\<rfloor> = \<lfloor>y\<rfloor>")
  case True
  with assms show ?thesis by (auto simp: rne_def Let_def)
next
  case False
  with floor_mono [OF assms] have "\<lfloor>x\<rfloor> + 1 \<le> \<lfloor>y\<rfloor>" by simp
  with rne_cases [of x] rne_cases [of y] show ?thesis by auto
qed

lemma rne_ge: "of_int n \<le> x \<Longrightarrow> n \<le> rne x"
  using rne_mono [of "of_int n" x] by simp

lemma rne_le: "x \<le> of_int n \<Longrightarrow> rne x \<le> n"
  using rne_mono [of x "of_int n"] by simp

subsection \<open>Exponents\<close>

fun digit_count :: "nat \<Rightarrow> nat \<Rightarrow> nat" where
  "digit_count b n = (if n = 0 \<or> b < 2 then 0 else Suc (digit_count b (n div b)))"

declare digit_count.simps [simp del]

lemma digit_count_bounds:
  "2 \<le> b \<Longrightarrow> 0 < n \<Longrightarrow> 0 < digit_count b n \<and> b ^ (digit_count b n - 1) \<le> n \<and> n < b ^ digit_count b n"
proof (induction b n rule: digit_count.induct)
  case (1 b n)
  show ?case
  proof (cases "n div b = 0")
    case True
    with 1 have "digit_count b n = 1" by (simp add: digit_count.simps [of b n] digit_count.simps [of b 0])
    moreover have "n < b" using True 1 by (simp add: div_eq_0_iff)
    ultimately show ?thesis using 1 by simp
  next
    case False
    with 1 have ih: "0 < digit_count b (n div b)" "b ^ (digit_count b (n div b) - 1) \<le> n div b"
      "n div b < b ^ digit_count b (n div b)" by auto
    have c: "digit_count b n = Suc (digit_count b (n div b))" using 1 by (simp add: digit_count.simps [of b n])
    have "b ^ digit_count b (n div b) = b * b ^ (digit_count b (n div b) - 1)"
      using ih(1) by (simp flip: power_Suc)
    also have "\<dots> \<le> b * (n div b)" using ih(2) by simp
    also have "\<dots> \<le> n" by simp
    finally have "b ^ digit_count b (n div b) \<le> n" .
    moreover have "n < b * b ^ digit_count b (n div b)"
      using ih(3) 1 by (metis div_less_iff_less_mult mult.commute zero_less_iff_neq_zero not_numeral_le_zero)
    ultimately show ?thesis using c by simp
  qed
qed

text \<open>The exponent of a number: that of the largest power of the base that is not above it.\<close>

definition fexp :: "nat \<Rightarrow> rat \<Rightarrow> int" where
  "fexp b x =
     (case quotient_of \<bar>x\<bar> of
        (p, q) \<Rightarrow> let k = int (digit_count b (nat p)) - int (digit_count b (nat q))
                  in if of_nat b powi k \<le> \<bar>x\<bar> then k else k - 1)"

lemma powi_mono: "2 \<le> b \<Longrightarrow> i \<le> j \<Longrightarrow> (of_nat b :: rat) powi i \<le> of_nat b powi j"
  by (rule power_int_increasing) simp_all

lemma powi_pos [simp]: "2 \<le> b \<Longrightarrow> 0 < (of_nat b :: rat) powi i"
  by (simp add: zero_less_power_int)

lemma digit_count_rat:
  assumes "2 \<le> b" "0 < p"
  shows "(of_nat b :: rat) powi (int (digit_count b (nat p)) - 1) \<le> of_int p
    \<and> of_int p < (of_nat b :: rat) powi int (digit_count b (nat p))"
proof -
  let ?n = "digit_count b (nat p)"
  have d: "0 < ?n" "b ^ (?n - 1) \<le> nat p" "nat p < b ^ ?n"
    using digit_count_bounds [OF assms(1), of "nat p"] assms(2) by simp_all
  have "(of_nat (b ^ (?n - 1)) :: rat) \<le> of_nat (nat p)" using d(2) by (simp only: of_nat_le_iff)
  moreover have "(of_nat (nat p) :: rat) < of_nat (b ^ ?n)" using d(3) by (simp only: of_nat_less_iff)
  moreover have "(of_nat (nat p) :: rat) = of_int p" using assms(2) by (simp add: of_nat_nat)
  moreover have "int ?n - 1 = int (?n - 1)" using d(1) by simp
  ultimately show ?thesis by (simp only: power_int_of_nat of_nat_power)
qed

lemma fexp_bounds:
  assumes "2 \<le> b" "x \<noteq> 0"
  shows "of_nat b powi fexp b x \<le> \<bar>x\<bar>" "\<bar>x\<bar> < of_nat b powi (fexp b x + 1)"
proof -
  obtain p q where pq: "quotient_of \<bar>x\<bar> = (p, q)" by fastforce
  have q: "0 < q" using pq by (rule quotient_of_denom_pos)
  have x: "\<bar>x\<bar> = of_int p / of_int q" using pq by (rule quotient_of_div)
  have p: "0 < p"
  proof (rule ccontr)
    assume "\<not> 0 < p"
    then have "of_int p / of_int q \<le> (0 :: rat)" using q by (simp add: divide_nonpos_pos)
    with x assms(2) show False by simp
  qed
  let ?n = "digit_count b (nat p)" and ?m = "digit_count b (nat q)"
  let ?B = "of_nat b :: rat"
  have B: "1 < ?B" "?B \<noteq> 0" using assms(1) by simp_all

  have rp: "?B powi (int ?n - 1) \<le> of_int p" "of_int p < ?B powi int ?n"
    and rq: "?B powi (int ?m - 1) \<le> of_int q" "of_int q < ?B powi int ?m"
    using digit_count_rat [OF assms(1) p] digit_count_rat [OF assms(1) q] by blast+
  have "\<bar>x\<bar> < ?B powi int ?n / of_int q" using x rp(2) q by (simp add: divide_strict_right_mono)
  also have "\<dots> \<le> ?B powi int ?n / ?B powi (int ?m - 1)"
    using rq(1) assms(1) q by (intro divide_left_mono) simp_all
  also have "\<dots> = ?B powi (int ?n - int ?m + 1)" using B by (simp add: power_int_diff power_int_add)
  finally have hi: "\<bar>x\<bar> < ?B powi (int ?n - int ?m + 1)" .
  have "?B powi (int ?n - int ?m - 1) = ?B powi (int ?n - 1) / ?B powi int ?m"
    using B by (simp add: power_int_diff)
  also have "\<dots> \<le> ?B powi (int ?n - 1) / of_int q"
    using rq(2) assms(1) q by (intro divide_left_mono) simp_all
  also have "\<dots> \<le> \<bar>x\<bar>" using x rp(1) q by (simp add: divide_right_mono)
  finally have lo: "?B powi (int ?n - int ?m - 1) \<le> \<bar>x\<bar>" .
  from hi lo pq show "of_nat b powi fexp b x \<le> \<bar>x\<bar>" "\<bar>x\<bar> < of_nat b powi (fexp b x + 1)"
    by (auto simp: fexp_def Let_def)
qed

lemma fexp_unique:
  assumes b: "2 \<le> b" and x: "of_nat b powi e \<le> \<bar>x\<bar>" "\<bar>x\<bar> < of_nat b powi (e + 1)"
  shows "fexp b x = e"
proof -
  have nz: "x \<noteq> 0" using x(1) powi_pos [OF b, of e] by auto
  note f = fexp_bounds [OF b nz]
  have "\<not> fexp b x + 1 \<le> e" using f(2) x(1) powi_mono [OF b, of "fexp b x + 1" e] by linarith
  moreover have "\<not> e + 1 \<le> fexp b x" using f(1) x(2) powi_mono [OF b, of "e + 1" "fexp b x"] by linarith
  ultimately show ?thesis by linarith
qed

lemma fexp_mono:
  assumes b: "2 \<le> b" and x: "x \<noteq> 0" "\<bar>x\<bar> \<le> \<bar>y\<bar>"
  shows "fexp b x \<le> fexp b y"
proof (rule ccontr)
  assume "\<not> fexp b x \<le> fexp b y"
  then have "of_nat b powi (fexp b y + 1) \<le> (of_nat b :: rat) powi fexp b x" by (intro powi_mono b) simp
  moreover have "y \<noteq> 0" using x by auto
  ultimately show False using fexp_bounds(1) [OF b x(1)] fexp_bounds(2) [OF b, of y] x(2) by linarith
qed

lemma fexp_minus [simp]: "fexp b (- x) = fexp b x"
  by (simp add: fexp_def)

subsection \<open>Rounding to a number of digits\<close>

definition ulp :: "nat \<Rightarrow> nat \<Rightarrow> rat \<Rightarrow> rat" where
  "ulp b p x = of_nat b powi (fexp b x - (int p - 1))"

definition round_to :: "nat \<Rightarrow> nat \<Rightarrow> rat \<Rightarrow> rat" where
  "round_to b p x = (if x = 0 then 0 else of_int (rne (x / ulp b p x)) * ulp b p x)"

lemma ulp_pos [simp]: "2 \<le> b \<Longrightarrow> 0 < ulp b p x"
  by (simp add: ulp_def)

lemma ulp_minus [simp]: "ulp b p (- x) = ulp b p x"
  by (simp add: ulp_def)

lemma rne_minus: "rne (- x) = - rne x"
proof (cases "x \<in> \<int>")
  case True
  then obtain n where "x = of_int n" by (auto elim: Ints_cases)
  then show ?thesis using rne_int [of "- n"] by simp
next
  case False
  then have "of_int \<lfloor>x\<rfloor> \<noteq> x" by (metis Ints_of_int)
  then have f: "\<lfloor>- x\<rfloor> = - \<lfloor>x\<rfloor> - 1" by linarith
  show ?thesis unfolding rne_def Let_def f by auto
qed

lemma round_to_minus: "round_to b p (- x) = - round_to b p x"
  by (simp add: round_to_def rne_minus)

lemma round_to_zero [simp]: "round_to b p 0 = 0"
  by (simp add: round_to_def)

lemma round_to_exact:
  assumes "2 \<le> b" "x = of_int n * ulp b p x"
  shows "round_to b p x = x"
proof -
  have "x / ulp b p x = of_int n" using ulp_pos [OF assms(1), of p x] assms(2) by (simp add: divide_eq_eq)
  with assms(2) show ?thesis by (simp add: round_to_def)
qed

lemma round_to_error:
  assumes "2 \<le> b"
  shows "\<bar>round_to b p x - x\<bar> \<le> ulp b p x / 2"
proof (cases "x = 0")
  case False
  let ?u = "ulp b p x"
  have u: "0 < ?u" using assms by simp
  have "round_to b p x - x = (of_int (rne (x / ?u)) - x / ?u) * ?u" using False u by (simp add: round_to_def field_simps)
  then have "\<bar>round_to b p x - x\<bar> = \<bar>of_int (rne (x / ?u)) - x / ?u\<bar> * ?u" using u by (simp add: abs_mult)
  also have "\<dots> \<le> 1 / 2 * ?u" using rne_error u by (intro mult_right_mono) simp_all
  finally show ?thesis by simp
qed (use assms in \<open>simp add: less_imp_le\<close>)

lemma ulp_le:
  assumes "2 \<le> b" "x \<noteq> 0"
  shows "ulp b p x \<le> \<bar>x\<bar> * of_nat b powi (1 - int p)"
proof -
  have e: "fexp b x - (int p - 1) = fexp b x + (1 - int p)" by simp
  have "ulp b p x = of_nat b powi fexp b x * of_nat b powi (1 - int p)"
    unfolding ulp_def e by (rule power_int_add) (use assms(1) in simp)
  also have "\<dots> \<le> \<bar>x\<bar> * of_nat b powi (1 - int p)"
    using fexp_bounds(1) [OF assms] assms(1) by (intro mult_right_mono) (simp_all add: less_imp_le)
  finally show ?thesis .
qed

lemma round_to_nonneg: "2 \<le> b \<Longrightarrow> 0 \<le> x \<Longrightarrow> 0 \<le> round_to b p x"
  using rne_ge [of 0 "x / ulp b p x"] ulp_pos [of b p x] by (simp add: round_to_def less_imp_le)

text \<open>Rounding stays within the powers of the base around a number.\<close>

lemma round_to_power_bounds:
  assumes b: "2 \<le> b" and p: "0 < p" and x: "0 < x"
  shows "of_nat b powi fexp b x \<le> round_to b p x" "round_to b p x \<le> of_nat b powi (fexp b x + 1)"
proof -
  let ?u = "ulp b p x" and ?B = "of_nat b :: rat"
  have u: "0 < ?u" using b by simp
  have f: "?B powi fexp b x \<le> x" "x < ?B powi (fexp b x + 1)" using fexp_bounds [OF b, of x] x by simp_all
  have scale: "?B powi (fexp b x - (int p - 1) + int k) = of_int (int b ^ k) * ?u" for k
    using b by (simp add: ulp_def power_int_add power_int_of_nat)
  have lo: "?B powi fexp b x = of_int (int b ^ (p - 1)) * ?u" using scale [of "p - 1"] p by (simp add: of_nat_diff)
  have hi: "?B powi (fexp b x + 1) = of_int (int b ^ p) * ?u" using scale [of p] by (simp add: algebra_simps)
  have "int b ^ (p - 1) \<le> rne (x / ?u)" using f(1) u lo by (intro rne_ge) (simp add: pos_le_divide_eq)
  then have "of_int (int b ^ (p - 1)) \<le> (of_int (rne (x / ?u)) :: rat)" by (simp only: of_int_le_iff)
  then show "?B powi fexp b x \<le> round_to b p x" using u x lo by (simp add: round_to_def mult_right_mono)
  have "rne (x / ?u) \<le> int b ^ p" using f(2) u hi by (intro rne_le) (simp add: pos_divide_le_eq less_imp_le)
  then have "(of_int (rne (x / ?u)) :: rat) \<le> of_int (int b ^ p)" by (simp only: of_int_le_iff)
  then show "round_to b p x \<le> ?B powi (fexp b x + 1)" using u x hi by (simp add: round_to_def mult_right_mono)
qed

lemma round_to_mono_pos:
  assumes b: "2 \<le> b" and p: "0 < p" and x: "0 < x" "x \<le> y"
  shows "round_to b p x \<le> round_to b p y"
proof (cases "fexp b x = fexp b y")
  case True
  then have u: "ulp b p y = ulp b p x" by (simp add: ulp_def)
  have "x / ulp b p x \<le> y / ulp b p x" using x b by (simp add: divide_right_mono less_imp_le)
  then have "rne (x / ulp b p x) \<le> rne (y / ulp b p x)" by (rule rne_mono)
  then have "of_int (rne (x / ulp b p x)) * ulp b p x \<le> of_int (rne (y / ulp b p x)) * ulp b p x"
    using b by (simp add: mult_right_mono less_imp_le)
  with x u show ?thesis by (simp add: round_to_def)
next
  case False
  with fexp_mono [OF b, of x y] x have "fexp b x + 1 \<le> fexp b y" by simp
  then have "(of_nat b :: rat) powi (fexp b x + 1) \<le> of_nat b powi fexp b y" by (rule powi_mono [OF b])
  with round_to_power_bounds(2) [OF b p x(1)] round_to_power_bounds(1) [OF b p, of y] x show ?thesis by linarith
qed

lemma round_to_mono:
  assumes b: "2 \<le> b" and p: "0 < p" and "x \<le> y"
  shows "round_to b p x \<le> round_to b p y"
proof -
  consider "0 < x" | "x \<le> 0" "0 \<le> y" | "y < 0" using assms(3) by linarith
  then show ?thesis
  proof cases
    case 1
    then show ?thesis by (rule round_to_mono_pos [OF b p _ assms(3)])
  next
    case 2
    with round_to_nonneg [OF b, of y] round_to_nonneg [OF b, of "- x"] show ?thesis
      by (simp add: round_to_minus) (meson order_trans)
  next
    case 3
    with round_to_mono_pos [OF b p, of "- y" "- x"] assms(3) show ?thesis by (simp add: round_to_minus)
  qed
qed

lemma round_to_int_less:
  assumes b: "2 \<le> b" and p: "0 < p" and n: "\<bar>n\<bar> < int b ^ p"
  shows "round_to b p (of_int n) = of_int n"
proof (cases "n = 0")
  case False
  let ?x = "of_int n :: rat"
  have x: "?x \<noteq> 0" using False by simp
  have "\<bar>?x\<bar> < of_nat b powi int p"
  proof -
    have "(of_int \<bar>n\<bar> :: rat) < of_int (int b ^ p)" using n by (simp only: of_int_less_iff)
    then show ?thesis by (simp add: power_int_of_nat)
  qed
  with fexp_bounds(1) [OF b x] have "\<not> int p \<le> fexp b ?x" using powi_mono [OF b, of "int p" "fexp b ?x"] by linarith
  then obtain k where k: "int p - 1 - fexp b ?x = int k" using zero_le_imp_eq_int [of "int p - 1 - fexp b ?x"] by auto
  then have "fexp b ?x - (int p - 1) = - int k" by simp
  then have "ulp b p ?x = inverse (of_nat b ^ k)" by (simp add: ulp_def power_int_minus power_int_of_nat)
  then have "?x = of_int (n * int b ^ k) * ulp b p ?x" using b by simp
  then show ?thesis by (rule round_to_exact [OF b])
qed simp

lemma round_to_int:
  assumes b: "2 \<le> b" and p: "0 < p" and n: "\<bar>n\<bar> \<le> int b ^ p"
  shows "round_to b p (of_int n) = of_int n"
proof (cases "\<bar>n\<bar> < int b ^ p")
  case True
  then show ?thesis by (rule round_to_int_less [OF b p])
next
  case False
  let ?x = "of_int (int b ^ p) :: rat"
  have x: "?x = of_nat b powi int p" by (simp add: power_int_of_nat)
  have e: "fexp b ?x = int p"
    by (rule fexp_unique [OF b]) (use b in \<open>simp_all add: x power_int_add less_imp_le\<close>)
  have "ulp b p ?x = of_nat b" unfolding ulp_def e by simp
  moreover have "int b ^ p = int b ^ (p - 1) * int b" using p by (simp flip: power_Suc2)
  ultimately have "?x = of_int (int b ^ (p - 1)) * ulp b p ?x" by (simp only: of_int_mult of_int_of_nat_eq)
  then have "round_to b p ?x = ?x" by (rule round_to_exact [OF b])
  moreover have "n = int b ^ p \<or> n = - (int b ^ p)" using False n by linarith
  ultimately show ?thesis using round_to_minus [of b p ?x] by auto
qed

lemma fexp_scale:
  assumes b: "2 \<le> b" and x: "x \<noteq> 0"
  shows "fexp b (x * of_nat b powi k) = fexp b x + k"
proof -
  let ?B = "of_nat b :: rat"
  have k: "0 < ?B powi k" using b by simp
  have m: "\<bar>x * ?B powi k\<bar> = \<bar>x\<bar> * ?B powi k" using k by (simp add: abs_mult)
  have add: "?B powi (i + k) = ?B powi i * ?B powi k" for i by (rule power_int_add) (use b in simp)
  show ?thesis
  proof (rule fexp_unique [OF b])
    show "?B powi (fexp b x + k) \<le> \<bar>x * ?B powi k\<bar>"
      unfolding m add using fexp_bounds(1) [OF b x] k by (simp add: mult_right_mono)
    have "fexp b x + k + 1 = (fexp b x + 1) + k" by simp
    then show "\<bar>x * ?B powi k\<bar> < ?B powi (fexp b x + k + 1)"
      using fexp_bounds(2) [OF b x] k by (simp only: m add mult_strict_right_mono)
  qed
qed

lemma round_to_scale:
  assumes b: "2 \<le> b"
  shows "round_to b p (x * of_nat b powi k) = round_to b p x * of_nat b powi k"
proof (cases "x = 0")
  case False
  let ?B = "of_nat b :: rat"
  have k: "0 < ?B powi k" using b by simp
  have e: "fexp b x + k - (int p - 1) = (fexp b x - (int p - 1)) + k" by simp
  have u: "ulp b p (x * ?B powi k) = ulp b p x * ?B powi k"
    unfolding ulp_def fexp_scale [OF b False] e by (rule power_int_add) (use b in simp)
  show ?thesis using k False by (simp add: round_to_def u)
qed simp

subsection \<open>Go's \<^verbatim>\<open>float64\<close>\<close>

definition f64 :: "rat \<Rightarrow> rat" where
  "f64 x = round_to 2 53 x"

datatype float64 = Fin rat | PInf | NInf | NaN

definition to_f64 :: "rat \<Rightarrow> float64" where
  "to_f64 x = (let y = f64 x in if 2 ^ 1024 \<le> y then PInf else if y \<le> - (2 ^ 1024) then NInf else Fin y)"

fun f_neg :: "float64 \<Rightarrow> float64" where
  "f_neg (Fin x) = Fin (- x)"
| "f_neg PInf = NInf"
| "f_neg NInf = PInf"
| "f_neg NaN = NaN"

fun f_add :: "float64 \<Rightarrow> float64 \<Rightarrow> float64" where
  "f_add (Fin x) (Fin y) = to_f64 (x + y)"
| "f_add PInf NInf = NaN"
| "f_add NInf PInf = NaN"
| "f_add NaN _ = NaN"
| "f_add _ NaN = NaN"
| "f_add (Fin _) y = y"
| "f_add x _ = x"

definition f_sub :: "float64 \<Rightarrow> float64 \<Rightarrow> float64" where
  "f_sub x y = f_add x (f_neg y)"

definition inf_times :: "rat \<Rightarrow> float64" where
  "inf_times s = (if 0 < s then PInf else if s < 0 then NInf else NaN)"

fun f_mul :: "float64 \<Rightarrow> float64 \<Rightarrow> float64" where
  "f_mul (Fin x) (Fin y) = to_f64 (x * y)"
| "f_mul NaN _ = NaN"
| "f_mul _ NaN = NaN"
| "f_mul (Fin x) PInf = inf_times x"
| "f_mul (Fin x) NInf = inf_times (- x)"
| "f_mul PInf (Fin y) = inf_times y"
| "f_mul NInf (Fin y) = inf_times (- y)"
| "f_mul PInf PInf = PInf"
| "f_mul NInf NInf = PInf"
| "f_mul _ _ = NInf"

definition of_int64 :: "int \<Rightarrow> float64" where
  "of_int64 n = Fin (f64 (of_int n))"

text \<open>Conversion to an integer truncates; the result for a value out of range depends on the
  implementation.\<close>

definition trunc :: "rat \<Rightarrow> int" where
  "trunc x = (if 0 \<le> x then \<lfloor>x\<rfloor> else \<lceil>x\<rceil>)"

definition to_int64 :: "(float64 \<Rightarrow> int) \<Rightarrow> float64 \<Rightarrow> int" where
  "to_int64 out_of_range f =
     (case f of
        Fin x \<Rightarrow> if - (2 ^ 63) \<le> trunc x \<and> trunc x < 2 ^ 63 then trunc x else out_of_range f
      | _ \<Rightarrow> out_of_range f)"

lemma f64_mono: "x \<le> y \<Longrightarrow> f64 x \<le> f64 y"
  unfolding f64_def by (rule round_to_mono) simp_all

lemma f64_int: "\<bar>n\<bar> \<le> 2 ^ 53 \<Longrightarrow> f64 (of_int n) = of_int n"
  unfolding f64_def by (rule round_to_int) simp_all

lemma f64_scale: "f64 (x * 2 powi k) = f64 x * 2 powi k"
  using round_to_scale [of 2 53 x k] by (simp add: f64_def)

lemma f64_nonneg: "0 \<le> x \<Longrightarrow> 0 \<le> f64 x"
  unfolding f64_def by (rule round_to_nonneg) simp_all

lemma f64_error: "\<bar>f64 x - x\<bar> \<le> \<bar>x\<bar> / 2 ^ 53"
proof (cases "x = 0")
  case False
  have "\<bar>f64 x - x\<bar> \<le> ulp 2 53 x / 2" unfolding f64_def by (rule round_to_error) simp
  also have "\<dots> \<le> \<bar>x\<bar> * 2 powi (1 - int 53) / 2"
    using ulp_le [of 2 x 53] False by (intro divide_right_mono) simp_all
  also have "\<dots> = \<bar>x\<bar> / 2 ^ 53" by (simp add: power_int_def power_one_over)
  finally show ?thesis .
qed (simp add: f64_def)

subsection \<open>\<^verbatim>\<open>Duration.Seconds\<close> and \<^verbatim>\<open>math.Ceil\<close>\<close>

text \<open>A duration is a number of nanoseconds.\<close>

definition Seconds :: "int \<Rightarrow> rat" where
  "Seconds d = f64 (of_int (quot d 1000000000) + f64 (of_int (remt d 1000000000) / 1000000000))"

definition ceil_seconds :: "int \<Rightarrow> int" where
  "ceil_seconds d = \<lceil>Seconds d\<rceil>"

lemma f64_dyadic: "\<bar>n\<bar> \<le> 2 ^ 53 \<Longrightarrow> f64 (of_int n * 2 powi k) = of_int n * 2 powi k"
  by (simp add: f64_scale f64_int)

lemma ceil_div_billion:
  "(d + 999999999) div 1000000000 = d div 1000000000 + (if d mod 1000000000 = 0 then 0 else 1)" for d :: int
proof -
  let ?s = "d div 1000000000" and ?n = "d mod 1000000000"
  have "d + 999999999 = (?n + 999999999) + 1000000000 * ?s" by simp
  then have "(d + 999999999) div 1000000000 = (?n + 999999999) div 1000000000 + ?s"
    by (simp only: div_mult_self2 [of "1000000000 :: int"])
  moreover have "(?n + 999999999) div 1000000000 = (if ?n = 0 then 0 else 1)"
  proof (cases "?n = 0")
    case False
    then have "1 \<le> ?n" "?n < 1000000000" using pos_mod_sign [of 1000000000 d] by simp_all
    then show ?thesis by (simp add: div_pos_geq div_pos_pos_trivial)
  qed simp
  ultimately show ?thesis by simp
qed

text \<open>Rounding the seconds up to a whole number is exact for durations below 97 days.\<close>

lemma ceil_seconds_bounds:
  assumes "0 \<le> d" "d < 2 ^ 63"
  shows "d div 1000000000 \<le> ceil_seconds d" "ceil_seconds d \<le> (d + 999999999) div 1000000000"
proof -
  let ?s = "d div 1000000000" and ?n = "d mod 1000000000"
  have q: "quot d 1000000000 = ?s" "remt d 1000000000 = ?n" using assms by (simp_all add: quot_pos remt_pos)
  have s: "\<bar>?s\<bar> \<le> 2 ^ 53" "\<bar>?s + 1\<bar> \<le> 2 ^ 53" using assms by simp_all
  have n: "0 \<le> (of_int ?n / 1000000000 :: rat)" "(of_int ?n / 1000000000 :: rat) \<le> 1"
  proof -
    have "of_int ?n \<le> (of_int 1000000000 :: rat)" by (simp only: of_int_le_iff)
    then show "(of_int ?n / 1000000000 :: rat) \<le> 1" by simp
  qed simp
  have f: "0 \<le> f64 (of_int ?n / 1000000000)" "f64 (of_int ?n / 1000000000) \<le> 1"
    using f64_nonneg [OF n(1)] f64_mono [OF n(2)] f64_int [of 1] by simp_all
  have "f64 (of_int ?s) \<le> Seconds d" unfolding Seconds_def q using f(1) by (intro f64_mono) simp
  then have "of_int ?s \<le> Seconds d" using f64_int [OF s(1)] by simp
  then show "?s \<le> ceil_seconds d" unfolding ceil_seconds_def by (metis ceiling_mono ceiling_of_int)
  show "ceil_seconds d \<le> (d + 999999999) div 1000000000"
  proof (cases "?n = 0")
    case True
    then have "Seconds d = of_int ?s" unfolding Seconds_def q using f64_int [OF s(1)] f64_int [of 0] by simp
    then show ?thesis by (simp add: ceil_seconds_def)
  next
    case False
    then have "?s + 1 \<le> (d + 999999999) div 1000000000" by (simp add: ceil_div_billion)
    moreover have "Seconds d \<le> of_int (?s + 1)"
    proof -
      have "Seconds d \<le> f64 (of_int (?s + 1))" unfolding Seconds_def q using f(2) by (intro f64_mono) simp
      then show ?thesis using f64_int [OF s(2)] by simp
    qed
    ultimately show ?thesis unfolding ceil_seconds_def by (meson ceiling_le order_trans)
  qed
qed

lemma ceil_seconds_exact:
  assumes "0 \<le> d" "d < 2 ^ 23 * 1000000000"
  shows "ceil_seconds d = (d + 999999999) div 1000000000"
proof (rule antisym)
  have d: "d < 2 ^ 63" using assms(2) by simp
  show "ceil_seconds d \<le> (d + 999999999) div 1000000000" by (rule ceil_seconds_bounds(2) [OF assms(1) d])
  let ?s = "d div 1000000000" and ?n = "d mod 1000000000"
  have q: "quot d 1000000000 = ?s" "remt d 1000000000 = ?n" using assms by (simp_all add: quot_pos remt_pos)
  show "(d + 999999999) div 1000000000 \<le> ceil_seconds d"
  proof (cases "?n = 0")
    case True
    then have "(d + 999999999) div 1000000000 = ?s" by (simp add: ceil_div_billion)
    with ceil_seconds_bounds(1) [OF assms(1) d] show ?thesis by simp
  next
    case False
    then have "1 \<le> ?n" using pos_mod_sign [of 1000000000 d] by simp
    then have "(of_int 1 :: rat) \<le> of_int ?n" by (simp only: of_int_le_iff)
    then have "of_int 1 * 2 powi (- 30) \<le> (of_int ?n / 1000000000 :: rat)"
      by (simp add: power_int_def power_one_over)
    from f64_mono [OF this] have "2 powi (- 30) \<le> f64 (of_int ?n / 1000000000)"
      using f64_dyadic [of 1 "- 30"] by simp
    then have "of_int (?s * 2 ^ 30 + 1) * 2 powi (- 30) \<le> of_int ?s + f64 (of_int ?n / 1000000000)"
      by (simp add: power_int_def power_one_over)
    note low = f64_mono [OF this]
    have exact: "f64 (of_int (?s * 2 ^ 30 + 1) * 2 powi (- 30)) = of_int (?s * 2 ^ 30 + 1) * 2 powi (- 30)"
      by (rule f64_dyadic) (use assms in simp)
    have "of_int (?s * 2 ^ 30 + 1) * 2 powi (- 30) \<le> Seconds d"
      using low unfolding exact by (simp only: Seconds_def q)
    then have "of_int ?s < Seconds d" by (simp add: power_int_def power_one_over)
    then have "?s < ceil_seconds d" unfolding ceil_seconds_def by (simp only: less_ceiling_iff)
    then have "?s + 1 \<le> ceil_seconds d" by (simp only: add1_zle_eq)
    moreover have "(d + 999999999) div 1000000000 \<le> ?s + 1" by (simp add: ceil_div_billion)
    ultimately show ?thesis by (rule order_trans [rotated])
  qed
qed

end
