(* ===== verification/Human_Duration.thy ===== *)
theory Human_Duration
  imports Regex Go_Float
begin

text \<open>
  Durations in configuration and stored definitions (\<^verbatim>\<open>internal/schema/common/human_duration.go\<close>),
  with Go's \<^verbatim>\<open>time.Duration.String\<close> and \<^verbatim>\<open>time.ParseDuration\<close>, which it calls. A duration is a signed
  number of nanoseconds. The lemmas determine exactly which durations survive being written to JSON
  and read back.
\<close>

subsection \<open>Formatting\<close>

text \<open>The buffer is filled from its end, so it is the text that follows what is written next.\<close>

fun frac_loop :: "nat \<Rightarrow> bool \<Rightarrow> string \<Rightarrow> nat \<Rightarrow> bool \<times> string \<times> nat" where
  "frac_loop 0 print buf v = (print, buf, v)"
| "frac_loop (Suc n) print buf v =
     (let dig = v mod 10; print' = (print \<or> dig \<noteq> 0)
      in frac_loop n print' (if print' then digit dig # buf else buf) (v div 10))"

definition fmtFrac :: "string \<Rightarrow> nat \<Rightarrow> nat \<Rightarrow> string \<times> nat" where
  "fmtFrac buf v prec =
     (case frac_loop prec False buf v of (print, buf', v') \<Rightarrow> (if print then CHR ''.'' # buf' else buf', v'))"

definition fmtInt :: "string \<Rightarrow> nat \<Rightarrow> string" where
  "fmtInt buf v = FormatUint v @ buf"

definition micro_sign :: string where "micro_sign = [CHR 0xC2, CHR 0xB5]"

definition Duration_String :: "int \<Rightarrow> string" where
  "Duration_String d =
     (let u = nat \<bar>d\<bar>;
          body =
            (if u < 1000000000 then
               (if u = 0 then ''0s''
                else let (unit, prec) = (if u < 1000 then (''ns'', 0) else if u < 1000000 then (micro_sign @ ''s'', 3) else (''ms'', 6));
                         (buf, v) = fmtFrac unit u prec
                     in fmtInt buf v)
             else
               let (buf, v) = fmtFrac ''s'' u 9;
                   seconds = fmtInt buf (v mod 60);
                   minutes = v div 60
               in if minutes > 0 then
                    let buf2 = fmtInt (CHR ''m'' # seconds) (minutes mod 60);
                        hours = minutes div 60
                    in if hours > 0 then fmtInt (CHR ''h'' # buf2) hours else buf2
                  else seconds)
      in if d < 0 then CHR ''-'' # body else body)"

subsection \<open>Parsing\<close>

fun leadingInt :: "nat \<Rightarrow> string \<Rightarrow> (nat \<times> string) option" where
  "leadingInt x [] = Some (x, [])"
| "leadingInt x (c # s) =
     (case digit_value c of
        None \<Rightarrow> Some (x, c # s)
      | Some v \<Rightarrow>
          if x > 2 ^ 63 div 10 then None
          else if x * 10 + v > 2 ^ 63 then None
          else leadingInt (x * 10 + v) s)"

fun leadingFraction :: "bool \<Rightarrow> nat \<Rightarrow> nat \<Rightarrow> string \<Rightarrow> nat \<times> nat \<times> string" where
  "leadingFraction overflow x scale [] = (x, scale, [])"
| "leadingFraction overflow x scale (c # s) =
     (case digit_value c of
        None \<Rightarrow> (x, scale, c # s)
      | Some v \<Rightarrow>
          if overflow then leadingFraction True x scale s
          else if x > (2 ^ 63 - 1) div 10 then leadingFraction True x scale s
          else if x * 10 + v > 2 ^ 63 then leadingFraction True x scale s
          else leadingFraction False (x * 10 + v) (scale * 10) s)"

definition unitMap :: "(string \<times> nat) list" where
  "unitMap = [(''ns'', 1), (''us'', 1000), (micro_sign @ ''s'', 1000), ([CHR 0xCE, CHR 0xBC] @ ''s'', 1000),
     (''ms'', 1000000), (''s'', 1000000000), (''m'', 60000000000), (''h'', 3600000000000)]"

definition digit_or_dot :: "char \<Rightarrow> bool" where
  "digit_or_dot c \<longleftrightarrow> c = CHR ''.'' \<or> digit_value c \<noteq> None"

text \<open>One number with its unit, and what follows it. The result is a 64-bit unsigned number.\<close>

definition duration_component :: "string \<Rightarrow> string \<Rightarrow> gerror + nat \<times> string" where
  "duration_component orig s =
     (let invalid = Errf ''time: invalid duration %q'' [orig] in
      if s = [] \<or> \<not> digit_or_dot (hd s) then Inl invalid
      else case leadingInt 0 s of
        None \<Rightarrow> Inl invalid
      | Some (v, s1) \<Rightarrow>
          let pre = (length s \<noteq> length s1);
              (f, scale, s2, post) =
                (if s1 \<noteq> [] \<and> hd s1 = CHR ''.'' then
                   let (f, scale, s2) = leadingFraction False 0 1 (tl s1) in (f, scale, s2, length (tl s1) \<noteq> length s2)
                 else (0, 1, s1, False))
          in if \<not> pre \<and> \<not> post then Inl invalid
             else let u = takeWhile (\<lambda>c. \<not> digit_or_dot c) s2; s3 = dropWhile (\<lambda>c. \<not> digit_or_dot c) s2
             in if u = [] then Inl (Errf ''time: missing unit in duration %q'' [orig])
                else case map_of unitMap u of
                  None \<Rightarrow> Inl (Errf ''time: unknown unit %q in duration %q'' [u, orig])
                | Some unit \<Rightarrow>
                    if v > 2 ^ 63 div unit then Inl invalid
                    else let v1 = v * unit;
                             v2 = (if f > 0 then v1 + nat (trunc (f64 (f64 (of_nat f) * f64 (of_nat unit / of_nat scale)))) else v1)
                         in if f > 0 \<and> v2 > 2 ^ 63 then Inl invalid else Inr (v2, s3))"

lemma leadingInt_shorter: "leadingInt x s = Some (v, s') \<Longrightarrow> length s' \<le> length s"
  by (induction x s rule: leadingInt.induct) (auto split: option.splits if_splits)

lemma leadingFraction_shorter: "leadingFraction b x k s = (f, k', s') \<Longrightarrow> length s' \<le> length s"
  by (induction b x k s rule: leadingFraction.induct) (auto split: option.splits if_splits)

lemma dropWhile_shorter: "takeWhile P s \<noteq> [] \<Longrightarrow> length (dropWhile P s) < length s"
proof -
  assume "takeWhile P s \<noteq> []"
  moreover have "length (takeWhile P s @ dropWhile P s) = length s" by simp
  ultimately show ?thesis by (cases "takeWhile P s") simp_all
qed

lemma duration_component_shorter:
  assumes "duration_component orig s = Inr (v, s')"
  shows "length s' < length s"
proof -
  obtain v0 s1 where l: "leadingInt 0 s = Some (v0, s1)"
    using assms by (auto simp: duration_component_def Let_def split: if_splits option.splits)
  define s2 where "s2 = (if s1 \<noteq> [] \<and> hd s1 = CHR ''.'' then snd (snd (leadingFraction False 0 1 (tl s1))) else s1)"
  have "length s2 \<le> length s1"
    using leadingFraction_shorter [of False 0 1 "tl s1"] by (simp add: s2_def prod_eq_iff) (metis diff_le_self le_trans)
  moreover have "s' = dropWhile (\<lambda>c. \<not> digit_or_dot c) s2 \<and> takeWhile (\<lambda>c. \<not> digit_or_dot c) s2 \<noteq> []"
    using assms l by (auto simp: duration_component_def Let_def s2_def case_prod_unfold split: if_splits option.splits)
  ultimately show ?thesis
    using dropWhile_shorter [of "\<lambda>c. \<not> digit_or_dot c" s2] leadingInt_shorter [OF l] by simp
qed

function duration_loop :: "string \<Rightarrow> nat \<Rightarrow> string \<Rightarrow> gerror + nat" where
  "duration_loop orig d s =
     (if s = [] then Inr d
      else case duration_component orig s of
        Inl e \<Rightarrow> Inl e
      | Inr (v, s') \<Rightarrow>
          let d' = (d + v) mod 2 ^ 64
          in if d' > 2 ^ 63 then Inl (Errf ''time: invalid duration %q'' [orig]) else duration_loop orig d' s')"
  by pat_completeness auto
termination
  by (relation "measure (\<lambda>(orig, d, s). length s)") (auto dest: duration_component_shorter)

declare duration_loop.simps [simp del]

definition ParseDuration :: "string \<Rightarrow> gerror + int" where
  "ParseDuration orig =
     (let neg = HasPrefix orig ''-'';
          s = (if neg \<or> HasPrefix orig ''+'' then tl orig else orig);
          invalid = Errf ''time: invalid duration %q'' [orig]
      in if s = ''0'' then Inr 0
         else if s = [] then Inl invalid
         else case duration_loop orig 0 s of
           Inl e \<Rightarrow> Inl e
         | Inr d \<Rightarrow>
             if neg then Inr (wrap64 (- wrap64 (int d)))
             else if d > 2 ^ 63 - 1 then Inl invalid
             else Inr (int d))"

subsection \<open>Human durations\<close>

definition digits_unit :: "string \<Rightarrow> rx" where
  "digits_unit unit = RSeq (RPlus (RCh is_digit)) (RLit unit)"

definition HumanDurationRegex :: rx where
  "HumanDurationRegex =
     RSeq (ROpt (digits_unit ''d'')) (RSeq (ROpt (digits_unit ''h'')) (RSeq (ROpt (digits_unit ''m''))
       (RSeq (ROpt (digits_unit ''s'')) (ROpt (digits_unit ''ms'')))))"

definition onlyDayRegex :: rx where
  "onlyDayRegex = RPlus (digits_unit ''d'')"

text \<open>The submatches of \<^verbatim>\<open>^(\d+d)(.+)\<close>: the days without their unit, and the rest.\<close>

definition split_days :: "string \<Rightarrow> (string \<times> string) option" where
  "split_days s =
     (let ds = takeWhile is_digit s; r = dropWhile is_digit s
      in if ds \<noteq> [] \<and> r \<noteq> [] \<and> hd r = CHR ''d'' \<and> tl r \<noteq> [] then Some (ds, tl r) else None)"

definition days_duration :: "int \<Rightarrow> int" where
  "days_duration days = wrap64 (wrap64 (days * 24) * 3600000000000)"

definition parseHumanDuration :: "string \<Rightarrow> gerror + int" where
  "parseHumanDuration s =
     (if \<not> rmatch HumanDurationRegex s then Inl (Errf ''human duration string does not match required pattern: %s'' [s])
      else if rmatch onlyDayRegex s then
        (case ParseInt64 (butlast s) of
           Inl e \<Rightarrow> Inl (Wrapf ''failed to parse days: %w'' [] e)
         | Inr days \<Rightarrow> Inr (days_duration days))
      else case split_days s of
        Some (ds, rest) \<Rightarrow>
          (case ParseInt64 ds of
             Inl e \<Rightarrow> Inl (Wrapf ''failed to parse days: %w'' [] e)
           | Inr days \<Rightarrow>
               (case ParseDuration rest of
                  Inl e \<Rightarrow> Inl (Wrapf ''failed to parse duration: %w'' [] e)
                | Inr parsed \<Rightarrow> Inr (wrap64 (parsed + days_duration days))))
      | None \<Rightarrow>
          (case ParseDuration s of
             Inl e \<Rightarrow> Inl (Wrapf ''failed to parse duration: %w'' [] e)
           | Inr parsed \<Rightarrow> Inr parsed))"

definition HumanDuration_MarshalJSON :: "int \<Rightarrow> string" where
  "HumanDuration_MarshalJSON d = CHR 0x22 # Duration_String d @ [CHR 0x22]"

definition HumanDuration_UnmarshalJSON :: "string \<Rightarrow> gerror + int" where
  "HumanDuration_UnmarshalJSON s =
     (if length s < 2 \<or> hd s \<noteq> CHR 0x22 \<or> last s \<noteq> CHR 0x22 then Inl (Errf ''invalid duration format: %s'' [s])
      else case parseHumanDuration (butlast (tl s)) of
        Inl e \<Rightarrow> Inl (Wrapf ''failed to parse duration: %w'' [] e)
      | Inr d \<Rightarrow> Inr d)"

definition HumanDuration_MarshalYAML :: "int \<Rightarrow> string" where
  "HumanDuration_MarshalYAML d = Duration_String d"

definition HumanDuration_UnmarshalYAML :: "gerror + string \<Rightarrow> gerror + int" where
  "HumanDuration_UnmarshalYAML unmarshalled =
     (case unmarshalled of
        Inl e \<Rightarrow> Inl e
      | Inr s \<Rightarrow>
          (case ParseDuration s of
             Inl e \<Rightarrow> Inl (Wrapf ''failed to parse duration: %w'' [] e)
           | Inr d \<Rightarrow> Inr d))"

subsection \<open>Formatted numbers\<close>

lemma is_digit_iff: "is_digit c \<longleftrightarrow> digit_value c \<noteq> None"
  by (simp add: is_digit_def digit_value_def Let_def less_eq_char_def)

lemma frac_loop_spec:
  "frac_loop n p buf v = (p', buf', v') \<Longrightarrow>
     p' = (p \<or> \<not> 10 ^ n dvd v) \<and> v' = v div 10 ^ n \<and> (\<not> p' \<longrightarrow> buf' = buf)"
proof (induction n p buf v rule: frac_loop.induct)
  case (2 n print buf v)
  have "10 ^ Suc n dvd v \<longleftrightarrow> v mod 10 = 0 \<and> 10 ^ n dvd v div 10"
  proof (cases "v mod 10 = 0")
    case True
    then have "v = 10 * (v div 10)" by presburger
    then have "10 ^ Suc n dvd v \<longleftrightarrow> 10 * 10 ^ n dvd 10 * (v div 10)" by simp
    then show ?thesis using True by (simp del: mult_numeral_1)
  next
    case False
    then have "\<not> 10 dvd v" by presburger
    then show ?thesis using False by (metis dvd_mult_left power_Suc)
  qed
  moreover define b where "b = (if print \<or> v mod 10 \<noteq> 0 then digit (v mod 10) # buf else buf)"
  have "frac_loop n (print \<or> v mod 10 \<noteq> 0) b (v div 10) = (p', buf', v')" using 2(2) by (simp add: Let_def b_def)
  then have "p' = ((print \<or> v mod 10 \<noteq> 0) \<or> \<not> 10 ^ n dvd v div 10) \<and> v' = v div 10 div 10 ^ n \<and> (\<not> p' \<longrightarrow> buf' = b)"
    using 2(1) [OF refl refl] by (simp add: b_def)
  ultimately show ?case by (auto simp: b_def div_mult2_eq)
qed auto

lemma fmtFrac_whole: "10 ^ n dvd v \<Longrightarrow> fmtFrac buf v n = (buf, v div 10 ^ n)"
  using frac_loop_spec [of n False buf v] by (cases "frac_loop n False buf v") (auto simp: fmtFrac_def)

lemma fmtFrac_dot: "\<not> 10 ^ n dvd v \<Longrightarrow> CHR ''.'' \<in> set (fst (fmtFrac buf v n))"
  using frac_loop_spec [of n False buf v] by (cases "frac_loop n False buf v") (auto simp: fmtFrac_def)

lemma parse_digits_ge: "parse_digits x ds = Some n \<Longrightarrow> x \<le> n"
proof (induction x ds rule: parse_digits.induct)
  case (2 acc c cs)
  then obtain d where "digit_value c = Some d" "parse_digits (10 * acc + d) cs = Some n" by (auto split: option.splits)
  with 2 have "10 * acc + d \<le> n" by simp
  then show ?case by linarith
qed simp

lemma leadingInt_digits:
  "parse_digits x ds = Some n \<Longrightarrow> n \<le> 2 ^ 63 \<Longrightarrow> rest = [] \<or> digit_value (hd rest) = None \<Longrightarrow>
   leadingInt x (ds @ rest) = Some (n, rest)"
proof (induction x ds rule: parse_digits.induct)
  case (1 acc)
  then show ?case by (cases rest) auto
next
  case (2 acc c cs)
  then obtain d where d: "digit_value c = Some d" "parse_digits (10 * acc + d) cs = Some n" by (auto split: option.splits)
  have "10 * acc + d \<le> n" by (rule parse_digits_ge [OF d(2)])
  with 2(3) have "acc * 10 + d \<le> 2 ^ 63" "acc \<le> 2 ^ 63 div 10" by linarith+
  with 2 d show ?case by (simp add: mult.commute)
qed

lemma takeWhile_stop:
  assumes "\<forall>c \<in> set u. P c" "rest = [] \<or> \<not> P (hd rest)"
  shows "takeWhile P (u @ rest) = u" "dropWhile P (u @ rest) = rest"
  using assms by (cases rest; simp add: takeWhile_append2 dropWhile_append2)+

definition unit_text :: "string \<Rightarrow> nat \<Rightarrow> bool" where
  "unit_text u k \<longleftrightarrow> map_of unitMap u = Some k \<and> u \<noteq> [] \<and> (\<forall>c \<in> set u. \<not> digit_or_dot c)"

lemma units:
  "unit_text ''ms'' 1000000" "unit_text ''s'' 1000000000" "unit_text ''m'' 60000000000" "unit_text ''h'' 3600000000000"
  by (simp_all add: unit_text_def unitMap_def micro_sign_def digit_or_dot_def digit_value_def)

lemma FormatUint_hd: "digit_value (hd (FormatUint n @ xs)) \<noteq> None"
proof -
  have "hd (FormatUint n) \<in> set (FormatUint n)" by simp
  from FormatUint_digits [OF this] show ?thesis by simp
qed

lemma component_unit:
  assumes u: "unit_text u k" and rest: "rest = [] \<or> digit_or_dot (hd rest)" and n: "n \<le> 2 ^ 63" "n * k \<le> 2 ^ 63"
  shows "duration_component orig (FormatUint n @ u @ rest) = Inr (n * k, rest)"
proof -
  have hd_u: "\<not> digit_or_dot (hd u)" "u \<noteq> []" using u by (auto simp: unit_text_def)
  have l: "leadingInt 0 (FormatUint n @ u @ rest) = Some (n, u @ rest)"
    by (rule leadingInt_digits) (use parse_FormatUint n hd_u in \<open>auto simp: digit_or_dot_def\<close>)
  have w: "takeWhile (\<lambda>c. \<not> digit_or_dot c) (u @ rest) = u" "dropWhile (\<lambda>c. \<not> digit_or_dot c) (u @ rest) = rest"
    using takeWhile_stop [of u "\<lambda>c. \<not> digit_or_dot c" rest] u rest by (auto simp: unit_text_def)
  have k: "k \<noteq> 0" using u by (auto simp: unit_text_def unitMap_def split: if_splits)
  have "\<not> n > 2 ^ 63 div k" using n(2) k by (simp add: less_eq_div_iff_mult_less_eq not_less)
  moreover have "digit_or_dot (hd (FormatUint n @ u @ rest))" using FormatUint_hd [of n] by (simp add: digit_or_dot_def)
  moreover have "hd (u @ rest) \<noteq> CHR ''.''" using hd_u by (auto simp: digit_or_dot_def)
  ultimately show ?thesis
    using l w hd_u u by (simp add: duration_component_def Let_def unit_text_def)
qed

lemma loop_unit:
  assumes "unit_text u k" "rest = [] \<or> digit_or_dot (hd rest)" "n \<le> 2 ^ 63" "d + n * k \<le> 2 ^ 63"
  shows "duration_loop orig d (FormatUint n @ u @ rest) = duration_loop orig (d + n * k) rest"
proof -
  have "n * k \<le> 2 ^ 63" using assms(4) by linarith
  from component_unit [OF assms(1-3) this] assms(4) show ?thesis
    by (subst duration_loop.simps) (simp add: Let_def)
qed

lemma loop_done: "duration_loop orig d [] = Inr d"
  by (simp add: duration_loop.simps)

lemma ParseDuration_unsigned:
  assumes "u \<noteq> []" "duration_loop (FormatUint n @ u) 0 (FormatUint n @ u) = Inr d" "d < 2 ^ 63"
  shows "ParseDuration (FormatUint n @ u) = Inr (int d)"
proof -
  obtain c cs where c: "FormatUint n = c # cs" by (cases "FormatUint n") auto
  have "digit_value c \<noteq> None" using FormatUint_hd [of n "[]"] c by simp
  then have "c \<noteq> CHR ''-''" "c \<noteq> CHR ''+''" by (auto simp: digit_value_def)
  moreover have "FormatUint n @ u \<noteq> ''0''" using assms(1) c by (cases cs) auto
  ultimately show ?thesis using assms c by (simp add: ParseDuration_def Let_def HasPrefix_def del: append_eq_Cons_conv)
qed

subsection \<open>What survives JSON\<close>

text \<open>Durations whose text has no fraction: whole seconds, or whole milliseconds below a second.\<close>

definition whole :: "int \<Rightarrow> bool" where
  "whole d \<longleftrightarrow> 0 \<le> d \<and> (if d < 1000000000 then 1000000 dvd d else 1000000000 dvd d)"

definition clock_text :: "nat \<Rightarrow> string" where
  "clock_text v =
     (if v div 60 = 0 then FormatUint (v mod 60) @ ''s''
      else if v div 60 div 60 = 0 then FormatUint (v div 60 mod 60) @ ''m'' @ FormatUint (v mod 60) @ ''s''
      else FormatUint (v div 60 div 60) @ ''h'' @ FormatUint (v div 60 mod 60) @ ''m'' @ FormatUint (v mod 60) @ ''s'')"

lemma Duration_String_whole:
  assumes "whole d"
  shows "Duration_String d =
    (if d = 0 then ''0s'' else if d < 1000000000 then FormatUint (nat d div 1000000) @ ''ms'' else clock_text (nat d div 1000000000))"
proof -
  have d: "0 \<le> d" using assms by (simp add: whole_def)
  show ?thesis
  proof (cases "d < 1000000000")
    case True
    then have "1000000 dvd d" using assms by (simp add: whole_def)
    then have "int (10 ^ 6) dvd int (nat d)" using d by simp
    then have dv: "10 ^ 6 dvd nat d" unfolding int_dvd_int_iff .
    then have "nat d = 0 \<or> 1000000 \<le> nat d" using dvd_imp_le [of "10 ^ 6" "nat d"] by auto
    with True d fmtFrac_whole [OF dv, of "''ms''"] show ?thesis
      by (auto simp: Duration_String_def Let_def fmtInt_def)
  next
    case False
    then have "1000000000 dvd d" using assms by (simp add: whole_def)
    then have "int (10 ^ 9) dvd int (nat d)" using d by simp
    then have "10 ^ 9 dvd nat d" unfolding int_dvd_int_iff .
    moreover define v where "v = nat d div 1000000000"
    ultimately have f: "fmtFrac ''s'' (nat d) 9 = (''s'', v)" using fmtFrac_whole [of 9 "nat d" "''s''"] by simp
    have "\<not> nat d < 1000000000" using False d by linarith
    then have "Duration_String d = clock_text v"
      using d f by (simp add: Duration_String_def Let_def fmtInt_def clock_text_def del: div_mult_self1 div_mult2_eq div_eq_0_iff)
    with False d show ?thesis by (simp add: v_def)
  qed
qed

lemma hd_FormatUint_dot: "digit_or_dot (hd (FormatUint n @ xs))"
  using FormatUint_hd [of n xs] by (simp add: digit_or_dot_def)

lemma ParseDuration_clock:
  assumes "v * 1000000000 < 2 ^ 63"
  shows "ParseDuration (clock_text v) = Inr (int (v * 1000000000))"
proof -
  define w s m h where "w = v div 60" and "s = v mod 60" and "m = w mod 60" and "h = w div 60"
  have "v = w * 60 + s" "w = h * 60 + m" by (simp_all add: w_def s_def m_def h_def)
  then have sum: "h * 3600000000000 + m * 60000000000 + s * 1000000000 = v * 1000000000" by linarith
  then have small: "s \<le> 2 ^ 63" "m \<le> 2 ^ 63" "h \<le> 2 ^ 63" "v * 1000000000 \<le> 2 ^ 63" using assms by linarith+
  have clk: "clock_text v =
      (if w = 0 then FormatUint s @ ''s'' else if h = 0 then FormatUint m @ ''m'' @ FormatUint s @ ''s''
       else FormatUint h @ ''h'' @ FormatUint m @ ''m'' @ FormatUint s @ ''s'')"
    by (simp add: clock_text_def w_def s_def m_def h_def)
  have seconds: "duration_loop orig d (FormatUint s @ ''s'') = Inr (d + s * 1000000000)"
    if "d + s * 1000000000 \<le> 2 ^ 63" for orig d
    using loop_unit [OF units(2) _ small(1) that, of "[]"] by (simp add: loop_done)
  have minutes: "duration_loop orig d (FormatUint m @ ''m'' @ FormatUint s @ ''s'') = Inr (d + m * 60000000000 + s * 1000000000)"
    if "d + m * 60000000000 + s * 1000000000 \<le> 2 ^ 63" for orig d
  proof -
    have "d + m * 60000000000 \<le> 2 ^ 63" using that by linarith
    from loop_unit [OF units(3) disjI2 [OF hd_FormatUint_dot [of s "''s''"]] small(2) this, of orig] seconds [OF that, of orig]
    show ?thesis by simp
  qed
  consider "w = 0" | "w \<noteq> 0" "h = 0" | "w \<noteq> 0" "h \<noteq> 0" by blast
  then show ?thesis
  proof cases
    case 1
    have "duration_loop (FormatUint s @ ''s'') 0 (FormatUint s @ ''s'') = Inr (v * 1000000000)"
      using seconds [of 0] 1 \<open>v = w * 60 + s\<close> sum small(4) by simp
    from ParseDuration_unsigned [OF _ this assms] 1 show ?thesis by (simp add: clk)
  next
    case 2
    let ?t = "FormatUint m @ ''m'' @ FormatUint s @ ''s''"
    have "duration_loop ?t 0 ?t = Inr (v * 1000000000)" using minutes [of 0] 2 sum small(4) by simp
    from ParseDuration_unsigned [OF _ this assms] 2 show ?thesis by (simp add: clk)
  next
    case 3
    let ?t = "FormatUint h @ ''h'' @ FormatUint m @ ''m'' @ FormatUint s @ ''s''"
    have "h * 3600000000000 \<le> 2 ^ 63" using sum small(4) by linarith
    then have "duration_loop ?t 0 ?t = Inr (v * 1000000000)"
      using loop_unit [OF units(4) disjI2 [OF hd_FormatUint_dot [of m "''m'' @ FormatUint s @ ''s''"]] small(3), of 0 ?t]
        minutes [of "h * 3600000000000" ?t] sum small(4) by simp
    from ParseDuration_unsigned [OF _ this assms] 3 show ?thesis by (simp add: clk)
  qed
qed

lemma rmatch_digits_unit: "rmatch (digits_unit u) s \<longleftrightarrow> (\<exists>ds. s = ds @ u \<and> ds \<noteq> [] \<and> (\<forall>c \<in> set ds. is_digit c))"
  by (simp add: digits_unit_def rmatch_Seq)

lemma rmatch_number: "rmatch (ROpt (digits_unit u)) (FormatUint n @ u)"
proof -
  have "\<forall>c \<in> set (FormatUint n). is_digit c" using FormatUint_digits by (auto simp: is_digit_iff)
  then have "rmatch (digits_unit u) (FormatUint n @ u)" unfolding rmatch_digits_unit by (intro exI [of _ "FormatUint n"]) simp
  then show ?thesis by simp
qed

lemma rmatch_parts:
  assumes "rmatch (ROpt (digits_unit ''h'')) h" "rmatch (ROpt (digits_unit ''m'')) m"
    "rmatch (ROpt (digits_unit ''s'')) s" "rmatch (ROpt (digits_unit ''ms'')) ms"
  shows "rmatch HumanDurationRegex (h @ m @ s @ ms)"
proof -
  have "rmatch (RSeq (ROpt (digits_unit ''s'')) (ROpt (digits_unit ''ms''))) (s @ ms)"
    unfolding rmatch_Seq using assms(3,4) by blast
  then have "rmatch (RSeq (ROpt (digits_unit ''m'')) (RSeq (ROpt (digits_unit ''s'')) (ROpt (digits_unit ''ms'')))) (m @ s @ ms)"
    unfolding rmatch_Seq [of "ROpt (digits_unit ''m'')"] using assms(2) by blast
  then have "rmatch (RSeq (ROpt (digits_unit ''h'')) (RSeq (ROpt (digits_unit ''m''))
      (RSeq (ROpt (digits_unit ''s'')) (ROpt (digits_unit ''ms''))))) (h @ m @ s @ ms)"
    unfolding rmatch_Seq [of "ROpt (digits_unit ''h'')"] using assms(1) by blast
  moreover have "rmatch (ROpt (digits_unit ''d'')) []" by simp
  ultimately show ?thesis
    unfolding HumanDurationRegex_def rmatch_Seq [of "ROpt (digits_unit ''d'')"] by (metis append_Nil)
qed

lemma rmatch_whole: "whole d \<Longrightarrow> rmatch HumanDurationRegex (Duration_String d)"
proof -
  assume "whole d"
  have o: "rmatch (ROpt (digits_unit u)) []" for u by simp
  have ms: "rmatch HumanDurationRegex (FormatUint n @ ''ms'')" for n using rmatch_parts [OF o o o rmatch_number, of n] by simp
  have s: "rmatch HumanDurationRegex (FormatUint n @ ''s'')" for n using rmatch_parts [OF o o rmatch_number o, of n] by simp
  have m: "rmatch HumanDurationRegex (FormatUint m @ ''m'' @ FormatUint n @ ''s'')" for n m
    using rmatch_parts [OF o rmatch_number rmatch_number o, of m n] by simp
  have h: "rmatch HumanDurationRegex (FormatUint h @ ''h'' @ FormatUint m @ ''m'' @ FormatUint n @ ''s'')" for n m h
    using rmatch_parts [OF rmatch_number rmatch_number rmatch_number o, of h m n] by simp
  have z: "''0s'' = FormatUint 0 @ ''s''" by code_simp
  have "rmatch HumanDurationRegex ''0s''" unfolding z by (rule s)
  then show ?thesis
    unfolding Duration_String_whole [OF \<open>whole d\<close>] clock_text_def using ms s m h by simp
qed

lemma rmatch_chars: "rmatch HumanDurationRegex s \<Longrightarrow> c \<in> set s \<Longrightarrow> is_digit c \<or> c \<in> set ''dhms''"
  unfolding HumanDurationRegex_def rmatch_Seq rmatch_Opt rmatch_digits_unit
  by (elim exE conjE disjE) auto

lemma no_days: "CHR ''d'' \<notin> set s \<Longrightarrow> \<not> rmatch onlyDayRegex s \<and> split_days s = None"
proof -
  assume d: "CHR ''d'' \<notin> set s"
  have "\<not> rmatch onlyDayRegex s" using d by (auto simp: onlyDayRegex_def RPlus_def rmatch_Seq rmatch_digits_unit)
  moreover have "hd (dropWhile is_digit s) \<in> set s" if "dropWhile is_digit s \<noteq> []"
    using set_dropWhileD [OF hd_in_set [OF that]] by simp
  then have "split_days s = None" using d unfolding split_days_def Let_def by (metis (no_types, lifting))
  ultimately show ?thesis by simp
qed

lemma FormatUint_no_letter: "\<not> is_digit c \<Longrightarrow> c \<notin> set (FormatUint n)"
  using FormatUint_digits [of c n] by (simp add: is_digit_iff) blast

lemma whole_text_no_d: "whole d \<Longrightarrow> CHR ''d'' \<notin> set (Duration_String d)"
  using FormatUint_no_letter [of "CHR ''d''"]
  by (auto simp: Duration_String_whole clock_text_def is_digit_def)

lemma ParseDuration_whole:
  assumes "whole d" "d < 2 ^ 63"
  shows "ParseDuration (Duration_String d) = Inr d"
proof -
  have d: "0 \<le> d" using assms(1) by (simp add: whole_def)
  consider "d = 0" | "d \<noteq> 0" "d < 1000000000" | "\<not> d < 1000000000" by blast
  then show ?thesis
  proof cases
    case 1
    have z: "''0s'' = clock_text 0" by code_simp
    show ?thesis unfolding Duration_String_whole [OF assms(1)] using 1 ParseDuration_clock [of 0] by (simp add: z)
  next
    case 2
    define n where "n = nat d div 1000000"
    have "1000000 dvd d" using assms(1) 2 by (simp add: whole_def)
    then have nd: "int (n * 1000000) = d" using d by (simp add: n_def zdiv_int)
    then have b: "n * 1000000 < 2 ^ 63" using assms(2) by simp
    have l: "duration_loop (FormatUint n @ ''ms'') 0 (FormatUint n @ ''ms'') = Inr (n * 1000000)"
      using loop_unit [OF units(1), of "[]" n 0 "FormatUint n @ ''ms''"] b by (simp add: loop_done)
    show ?thesis
      unfolding Duration_String_whole [OF assms(1)] using 2 ParseDuration_unsigned [OF _ l b] nd by (simp add: n_def [symmetric])
  next
    case 3
    define v where "v = nat d div 1000000000"
    have "1000000000 dvd d" using assms(1) 3 by (simp add: whole_def)
    then have vd: "int (v * 1000000000) = d" using d by (simp add: v_def zdiv_int)
    then have b: "v * 1000000000 < 2 ^ 63" using assms(2) by simp
    show ?thesis
      unfolding Duration_String_whole [OF assms(1)] using 3 ParseDuration_clock [OF b] vd by (simp add: v_def [symmetric])
  qed
qed

lemma fmtFrac_keeps: "set buf \<subseteq> set (fst (fmtFrac buf v n))"
proof -
  have "frac_loop n p buf v = (p', buf', v') \<Longrightarrow> set buf \<subseteq> set buf'" for p p' buf' v'
    by (induction n p buf v rule: frac_loop.induct) (auto simp: Let_def split: if_splits)
  note keeps = this
  obtain p' buf' v' where f: "frac_loop n False buf v = (p', buf', v')" by (metis prod_cases3)
  from keeps [OF f] show ?thesis by (auto simp: fmtFrac_def f)
qed

lemma broken_text:
  assumes "\<not> whole d"
  shows "\<exists>c \<in> set (Duration_String d). \<not> is_digit c \<and> c \<notin> set ''dhms''"
proof -
  have bad: "\<not> is_digit CHR ''.'' \<and> CHR ''.'' \<notin> set ''dhms''" "\<not> is_digit CHR ''-'' \<and> CHR ''-'' \<notin> set ''dhms''"
    "\<not> is_digit CHR ''n'' \<and> CHR ''n'' \<notin> set ''dhms''" "\<not> is_digit CHR 0xC2 \<and> CHR 0xC2 \<notin> set ''dhms''"
    by (simp_all add: is_digit_def less_eq_char_def)
  consider "d < 0" | "0 \<le> d" "d < 1000" "d \<noteq> 0" | "1000 \<le> d" "d < 1000000" | "1000000 \<le> d" "d < 1000000000" "\<not> 1000000 dvd d"
    | "1000000000 \<le> d" "\<not> 1000000000 dvd d" 
    by (cases "d < 0"; cases "d < 1000"; cases "d < 1000000"; cases "d < 1000000000"; cases "d = 0"; use assms in \<open>simp add: whole_def\<close>)
  then show ?thesis
  proof cases
    case 1
    then have "CHR ''-'' \<in> set (Duration_String d)" by (simp add: Duration_String_def Let_def)
    with bad(2) show ?thesis by blast
  next
    case 2
    then have "nat d < 1000" "nat d < 1000000000" "nat d \<noteq> 0" by linarith+
    with 2 have "CHR ''n'' \<in> set (Duration_String d)" by (simp add: Duration_String_def Let_def fmtFrac_def fmtInt_def)
    with bad(3) show ?thesis by blast
  next
    case 3
    then have "\<not> nat d < 1000" "nat d < 1000000" "nat d < 1000000000" "nat d \<noteq> 0" by linarith+
    with 3 have "CHR 0xC2 \<in> set (Duration_String d)"
      using fmtFrac_keeps [of "micro_sign @ ''s''" "nat d" 3]
      by (simp add: Duration_String_def Let_def fmtInt_def case_prod_unfold micro_sign_def)
    with bad(4) show ?thesis by blast
  next
    case 4
    have "\<not> int (10 ^ 6) dvd int (nat d)" using 4 by simp
    then have "\<not> 10 ^ 6 dvd nat d" unfolding int_dvd_int_iff .
    moreover have "\<not> nat d < 1000" "\<not> nat d < 1000000" "nat d < 1000000000" "nat d \<noteq> 0" using 4 by linarith+
    ultimately have "CHR ''.'' \<in> set (Duration_String d)"
      using fmtFrac_dot [of 6 "nat d" "''ms''"] 4 by (simp add: Duration_String_def Let_def fmtInt_def case_prod_unfold)
    with bad(1) show ?thesis by blast
  next
    case 5
    have "\<not> int (10 ^ 9) dvd int (nat d)" using 5 by simp
    then have "\<not> 10 ^ 9 dvd nat d" unfolding int_dvd_int_iff .
    moreover have "\<not> nat d < 1000000000" using 5 by linarith
    ultimately have "CHR ''.'' \<in> set (Duration_String d)"
      using fmtFrac_dot [of 9 "nat d" "''s''"] 5 by (simp add: Duration_String_def Let_def fmtInt_def case_prod_unfold)
    with bad(1) show ?thesis by blast
  qed
qed

lemma HumanDuration_reread:
  assumes "- (2 ^ 63) \<le> d" "d < 2 ^ 63"
  shows "HumanDuration_UnmarshalJSON (HumanDuration_MarshalJSON d) =
    (if whole d then Inr d
     else Inl (Wrapf ''failed to parse duration: %w'' []
       (Errf ''human duration string does not match required pattern: %s'' [Duration_String d])))"
proof (cases "whole d")
  case True
  from rmatch_whole [OF this] no_days [OF whole_text_no_d [OF this]] ParseDuration_whole [OF this assms(2)] True show ?thesis
    by (simp add: HumanDuration_MarshalJSON_def HumanDuration_UnmarshalJSON_def parseHumanDuration_def)
next
  case False
  have "\<not> rmatch HumanDurationRegex (Duration_String d)"
    using broken_text [OF False] rmatch_chars [of "Duration_String d"] by blast
  with False show ?thesis
    by (simp add: HumanDuration_MarshalJSON_def HumanDuration_UnmarshalJSON_def parseHumanDuration_def)
qed

text \<open>
  Exactly the durations whose text has no fraction survive JSON: a duration of 64 bits
  that is written by \<^verbatim>\<open>MarshalJSON\<close> is read back as itself when it is a whole number of seconds, or
  of milliseconds below one second, and otherwise \<^verbatim>\<open>UnmarshalJSON\<close> rejects the text that
  \<^verbatim>\<open>MarshalJSON\<close> wrote.
\<close>

theorem HumanDuration_roundtrip:
  assumes "- (2 ^ 63) \<le> d" "d < 2 ^ 63"
  shows "HumanDuration_UnmarshalJSON (HumanDuration_MarshalJSON d) =
    (if whole d then Inr d
     else Inl (Wrapf ''failed to parse duration: %w'' []
       (Errf ''human duration string does not match required pattern: %s'' [Duration_String d])))"
  using assms by (rule HumanDuration_reread)

theorem HumanDuration_roundtrip_witness:
  "HumanDuration_UnmarshalJSON (HumanDuration_MarshalJSON 5400000000000) = Inr 5400000000000
   \<and> (\<exists>e. HumanDuration_UnmarshalJSON (HumanDuration_MarshalJSON 1500000000) = Inl e)"
  using HumanDuration_roundtrip [of 5400000000000] HumanDuration_roundtrip [of 1500000000]
  by (simp add: whole_def)

text \<open>A duration that is read from JSON may be one that cannot be read again after it was written.\<close>

lemma one_and_a_half_seconds: "parseHumanDuration ''1s500ms'' = Inr 1500000000"
proof -
  have t: "FormatUint (Suc 0) @ CHR ''s'' # FormatUint 500 @ ''ms'' = ''1s500ms''" by code_simp
  have "duration_loop ''1s500ms'' 0 ''1s500ms'' = Inr 1500000000"
    using loop_unit [OF units(2) disjI2 [OF hd_FormatUint_dot [of 500 "''ms''"]], of 1 0 "''1s500ms''"]
      loop_unit [OF units(1) disjI1 [OF refl], of 500 1000000000 "''1s500ms''"]
    by (simp add: t loop_done)
  then have "ParseDuration ''1s500ms'' = Inr 1500000000"
    using ParseDuration_unsigned [of "''s'' @ FormatUint 500 @ ''ms''" 1 1500000000] by (simp add: t)
  moreover have "rmatch HumanDurationRegex ''1s500ms''" by code_simp
  moreover have "\<not> rmatch onlyDayRegex ''1s500ms'' \<and> split_days ''1s500ms'' = None" by (rule no_days) simp
  ultimately show ?thesis by (simp add: parseHumanDuration_def)
qed

end
