(* ===== verification/Json.thy ===== *)
theory Json
  imports Human_Duration
begin

text \<open>
  JSON documents, as \<^verbatim>\<open>encoding/json\<close> writes and reads them for the stored definitions. A document is
  a tree; its text is not modelled. Decoders take the value of a field, or \<^term>\<open>None\<close> when the field
  is absent. As in Go, an absent field and \<^verbatim>\<open>null\<close> leave the zero value, a later field of the same
  name wins, unknown fields are ignored, and a value of the wrong kind is an error.
\<close>

datatype json = JNull | JBool bool | JNum rat | JStr string | JArr "json list" | JObj "(string \<times> json) list"

definition result_bind :: "gerror + 'a \<Rightarrow> ('a \<Rightarrow> gerror + 'b) \<Rightarrow> gerror + 'b" where
  "result_bind x f = (case x of Inl e \<Rightarrow> Inl e | Inr v \<Rightarrow> f v)"

lemma result_bind_simps [simp]: "result_bind (Inl e) f = Inl e" "result_bind (Inr v) f = f v"
  by (simp_all add: result_bind_def)

definition json_field :: "json \<Rightarrow> string \<Rightarrow> json option" where
  "json_field j k = (case j of JObj kvs \<Rightarrow> map_of (rev kvs) k | _ \<Rightarrow> None)"

definition type_error :: "string \<Rightarrow> gerror" where
  "type_error t = Errf ''json: cannot unmarshal value into Go value of type %s'' [t]"

definition json_string :: "json option \<Rightarrow> gerror + string" where
  "json_string v =
     (case v of None \<Rightarrow> Inr [] | Some JNull \<Rightarrow> Inr [] | Some (JStr s) \<Rightarrow> Inr s | _ \<Rightarrow> Inl (type_error ''string''))"

definition json_int :: "json option \<Rightarrow> gerror + int" where
  "json_int v =
     (case v of
        None \<Rightarrow> Inr 0
      | Some JNull \<Rightarrow> Inr 0
      | Some (JNum r) \<Rightarrow>
          if of_int \<lfloor>r\<rfloor> = r \<and> - (2 ^ 63) \<le> \<lfloor>r\<rfloor> \<and> \<lfloor>r\<rfloor> < 2 ^ 63 then Inr \<lfloor>r\<rfloor> else Inl (type_error ''int'')
      | _ \<Rightarrow> Inl (type_error ''int''))"

definition json_float :: "json option \<Rightarrow> gerror + rat" where
  "json_float v =
     (case v of
        None \<Rightarrow> Inr 0
      | Some JNull \<Rightarrow> Inr 0
      | Some (JNum r) \<Rightarrow> (case to_f64 r of Fin x \<Rightarrow> Inr x | _ \<Rightarrow> Inl (type_error ''float64''))
      | _ \<Rightarrow> Inl (type_error ''float64''))"

text \<open>A field with its own \<^verbatim>\<open>UnmarshalJSON\<close> is handed every value that is present, \<^verbatim>\<open>null\<close> included.\<close>

definition json_duration :: "json option \<Rightarrow> gerror + int" where
  "json_duration v =
     (case v of
        None \<Rightarrow> Inr 0
      | Some (JStr s) \<Rightarrow> HumanDuration_UnmarshalJSON (CHR 0x22 # s @ [CHR 0x22])
      | Some _ \<Rightarrow> Inl (Errf ''invalid duration format: %s'' []))"

fun json_items :: "json list \<Rightarrow> gerror + string list" where
  "json_items [] = Inr []"
| "json_items (j # js) = result_bind (json_string (Some j)) (\<lambda>s. result_bind (json_items js) (\<lambda>ss. Inr (s # ss)))"

text \<open>A slice: absent and \<^verbatim>\<open>null\<close> are nil.\<close>

definition json_strings :: "json option \<Rightarrow> gerror + string list option" where
  "json_strings v =
     (case v of
        None \<Rightarrow> Inr None
      | Some JNull \<Rightarrow> Inr None
      | Some (JArr js) \<Rightarrow> result_bind (json_items js) (\<lambda>ss. Inr (Some ss))
      | _ \<Rightarrow> Inl (type_error ''[]string''))"

text \<open>A struct, given its decoder over the fields of an object.\<close>

definition json_struct :: "(json \<Rightarrow> gerror + 'a) \<Rightarrow> json option \<Rightarrow> gerror + 'a" where
  "json_struct dec v =
     (case v of
        None \<Rightarrow> dec (JObj [])
      | Some JNull \<Rightarrow> dec (JObj [])
      | Some (JObj kvs) \<Rightarrow> dec (JObj kvs)
      | _ \<Rightarrow> Inl (type_error ''struct''))"

definition json_pointer :: "(json \<Rightarrow> gerror + 'a) \<Rightarrow> json option \<Rightarrow> gerror + 'a option" where
  "json_pointer dec v =
     (case v of
        None \<Rightarrow> Inr None
      | Some JNull \<Rightarrow> Inr None
      | Some j \<Rightarrow> result_bind (json_struct dec (Some j)) (\<lambda>x. Inr (Some x)))"

text \<open>Writing, with \<^verbatim>\<open>omitempty\<close> for strings, slices and pointers.\<close>

definition omit_string :: "string \<Rightarrow> string \<Rightarrow> (string \<times> json) list" where
  "omit_string k s = (if s = [] then [] else [(k, JStr s)])"

definition omit_strings :: "string \<Rightarrow> string list \<Rightarrow> (string \<times> json) list" where
  "omit_strings k ss = (if ss = [] then [] else [(k, JArr (map JStr ss))])"

definition omit_pointer :: "string \<Rightarrow> ('a \<Rightarrow> json) \<Rightarrow> 'a option \<Rightarrow> (string \<times> json) list" where
  "omit_pointer k enc p = (case p of None \<Rightarrow> [] | Some x \<Rightarrow> [(k, enc x)])"

lemma json_items_map [simp]: "json_items (map JStr ss) = Inr ss"
  by (induction ss) (simp_all add: json_string_def)

lemma json_int_of_int: "- (2 ^ 63) \<le> i \<Longrightarrow> i < 2 ^ 63 \<Longrightarrow> json_int (Some (JNum (of_int i))) = Inr i"
  by (simp add: json_int_def)

end
