(* ===== verification/Sql_Store.thy ===== *)
theory Sql_Store
  imports Labels Namespace_Filter Json
begin

text \<open>
  The database as the code sees it: the statements it runs through \<^verbatim>\<open>database/sql\<close> and the query
  builder, as a record of operations over an opaque database value, with the behaviour the code
  relies on in the locale \<open>sql_db\<close>, an in-memory instance of it, and the transaction wrapper of
  \<^verbatim>\<open>internal/database/util.go\<close>. Every operation may fail with a driver error.
\<close>

subsection \<open>Rows, conditions and operations\<close>

text \<open>Columns hold NULL, text, a map of strings (a JSON object), a JSON document, a timestamp or an integer.\<close>

datatype sql_value = VNull | VText string | VMap smap | VDoc json | VTime int | VInt int

type_synonym row = "string \<Rightarrow> sql_value"

text \<open>A condition is a conjunction; equality with NULL is \<^verbatim>\<open>IS NULL\<close>, as the builder renders it, and
  equality with a list is \<^verbatim>\<open>IN\<close>, which NULL never satisfies.\<close>

datatype sql_cond =
    WEq string sql_value
  | WLike string string
  | WIn string "sql_value list"
  | WNotNull string
  | WBefore string int

record 'db sql_ops =
  sql_begin :: "'db \<Rightarrow> err"
  sql_query :: "'db \<Rightarrow> string \<Rightarrow> sql_cond list \<Rightarrow> gerror + row list"
  sql_query_row :: "'db \<Rightarrow> string \<Rightarrow> sql_cond list \<Rightarrow> gerror + row option"
  sql_update :: "'db \<Rightarrow> string \<Rightarrow> (string \<times> sql_value) list \<Rightarrow> sql_cond list \<Rightarrow> 'db \<times> (gerror + (gerror + nat))"
  sql_commit :: "'db \<Rightarrow> 'db \<Rightarrow> 'db \<times> err"
  sql_rollback :: "'db \<Rightarrow> 'db \<Rightarrow> 'db"

text \<open>
  \<^verbatim>\<open>sql_query_row\<close> answers \<^term>\<open>Inr None\<close> for \<^verbatim>\<open>sql.ErrNoRows\<close>; \<^verbatim>\<open>sql_update\<close> answers \<^term>\<open>Inl\<close> when
  executing fails and otherwise the result of \<^verbatim>\<open>RowsAffected\<close>. \<^verbatim>\<open>sql_commit before after\<close> and
  \<^verbatim>\<open>sql_rollback before after\<close> end a transaction that began in \<open>before\<close> and reached \<open>after\<close>.
\<close>

fun cond_matches :: "(string \<Rightarrow> string \<Rightarrow> bool) \<Rightarrow> row \<Rightarrow> sql_cond \<Rightarrow> bool" where
  "cond_matches like r (WEq c v) = (r c = v)"
| "cond_matches like r (WLike c pat) = (case r c of VText s \<Rightarrow> like pat s | _ \<Rightarrow> False)"
| "cond_matches like r (WIn c vs) = (r c \<noteq> VNull \<and> r c \<in> set vs)"
| "cond_matches like r (WNotNull c) = (r c \<noteq> VNull)"
| "cond_matches like r (WBefore c t) = (case r c of VTime u \<Rightarrow> u < t | _ \<Rightarrow> False)"

definition row_matches :: "(string \<Rightarrow> string \<Rightarrow> bool) \<Rightarrow> sql_cond list \<Rightarrow> row \<Rightarrow> bool" where
  "row_matches like w r = list_all (cond_matches like r) w"

definition assign :: "(string \<times> sql_value) list \<Rightarrow> row \<Rightarrow> row" where
  "assign as r = fold (\<lambda>(c, v) r. r(c := v)) as r"

definition update_rows ::
  "(string \<Rightarrow> string \<Rightarrow> bool) \<Rightarrow> sql_cond list \<Rightarrow> (string \<times> sql_value) list \<Rightarrow> row list \<Rightarrow> row list" where
  "update_rows like w as rs = map (\<lambda>r. if row_matches like w r then assign as r else r) rs"

locale sql_db = sql_like like for like :: "string \<Rightarrow> string \<Rightarrow> bool" +
  fixes ops :: "('db, 'm) sql_ops_scheme" and rows :: "'db \<Rightarrow> string \<Rightarrow> row list"
  assumes query_ok: "sql_query ops db t w = Inr rs \<Longrightarrow> set rs = set (filter (row_matches like w) (rows db t))"
    and query_row_none: "sql_query_row ops db t w = Inr None \<Longrightarrow> filter (row_matches like w) (rows db t) = []"
    and query_row_some: "sql_query_row ops db t w = Inr (Some r) \<Longrightarrow> r \<in> set (rows db t) \<and> row_matches like w r"
    and update_ok: "sql_update ops db t as w = (db', Inr a) \<Longrightarrow>
      rows db' = (rows db)(t := update_rows like w as (rows db t)) \<and>
      (\<forall>n. a = Inr n \<longrightarrow> n = length (filter (row_matches like w) (rows db t)))"
    and update_err: "sql_update ops db t as w = (db', Inl e) \<Longrightarrow> rows db' = rows db"
    and commit_ok: "sql_commit ops db0 db1 = (db', None) \<Longrightarrow> rows db' = rows db1"
    and commit_err: "sql_commit ops db0 db1 = (db', Some e) \<Longrightarrow> rows db' = rows db0 \<or> rows db' = rows db1"
    and rollback: "rows (sql_rollback ops db0 db1) = rows db0"

subsection \<open>An in-memory database\<close>

text \<open>Tables are lists of rows; \<open>fail_commit\<close> makes every commit fail and roll back.\<close>

record mem_db =
  tables :: "string \<Rightarrow> row list"
  fail_commit :: bool

definition mem_ops :: "mem_db sql_ops" where
  "mem_ops = \<lparr>sql_begin = (\<lambda>db. None),
     sql_query = (\<lambda>db t w. Inr (filter (row_matches like_exec w) (tables db t))),
     sql_query_row = (\<lambda>db t w. Inr (List.find (row_matches like_exec w) (tables db t))),
     sql_update = (\<lambda>db t as w. (db\<lparr>tables := (tables db)(t := update_rows like_exec w as (tables db t))\<rparr>,
        Inr (Inr (length (filter (row_matches like_exec w) (tables db t)))))),
     sql_commit = (\<lambda>db0 db1. if fail_commit db0 then (db0, Some (Err ''commit failed'')) else (db1, None)),
     sql_rollback = (\<lambda>db0 db1. db0)\<rparr>"

interpretation mem: sql_db like_exec mem_ops tables
  by unfold_locales
     (auto simp: mem_ops_def find_None_iff find_Some_iff filter_empty_conv split: if_splits)

subsection \<open>Transactions\<close>

text \<open>
  \<^verbatim>\<open>transaction\<close> runs the function between \<^verbatim>\<open>Begin\<close> and \<^verbatim>\<open>Commit\<close> or \<^verbatim>\<open>Rollback\<close>. Its result is not
  named, so the value it returns is fixed when the function returns: the error of \<^verbatim>\<open>Commit\<close> is
  assigned afterwards, in the deferred closure, and reaches no caller. The function also hands
  back the variables its closure captured.
\<close>

definition transaction :: "('db, 'm) sql_ops_scheme \<Rightarrow> 'db \<Rightarrow> 'a \<Rightarrow> ('db \<Rightarrow> 'db \<times> 'a \<times> err) \<Rightarrow> 'db \<times> 'a \<times> err" where
  "transaction ops db captured0 fn =
     (case sql_begin ops db of
        Some e \<Rightarrow> (db, captured0, Some e)
      | None \<Rightarrow>
          let (db1, captured, e) = fn db in
          (case e of
             Some x \<Rightarrow> (sql_rollback ops db db1, captured, Some x)
           | None \<Rightarrow> (fst (sql_commit ops db db1), captured, None)))"

context sql_db
begin

lemma transaction_error:
  "transaction ops db c0 fn = (db', c, Some e) \<Longrightarrow> rows db' = rows db"
  by (auto simp: transaction_def rollback split: option.splits prod.splits)

lemma transaction_result:
  assumes "transaction ops db c0 fn = (db', c, None)"
  obtains db1 where "fn db = (db1, c, None)" "rows db' = rows db1 \<or> rows db' = rows db"
proof -
  obtain db1 where f: "fn db = (db1, c, None)" "db' = fst (sql_commit ops db db1)"
    using assms by (auto simp: transaction_def split: option.splits prod.splits)
  obtain e where "sql_commit ops db db1 = (db', e)" using f(2) by (cases "sql_commit ops db db1") auto
  then have "rows db' = rows db1 \<or> rows db' = rows db"
    using commit_ok [of db db1 db'] commit_err [of db db1 db'] by (cases e) auto
  with f(1) that show ?thesis by blast
qed

lemma transaction_commit:
  assumes "transaction ops db c0 fn = (db', c, None)" "\<And>db1. snd (sql_commit ops db db1) = None"
  obtains db1 where "fn db = (db1, c, None)" "rows db' = rows db1"
proof -
  obtain db1 where f: "fn db = (db1, c, None)" "db' = fst (sql_commit ops db db1)"
    using assms(1) by (auto simp: transaction_def split: option.splits prod.splits)
  have "sql_commit ops db db1 = (db', None)" using f(2) assms(2) [of db1] by (simp add: prod_eq_iff)
  from commit_ok [OF this] f(1) that show ?thesis by blast
qed

end

text \<open>
  A failed commit is reported as success: whenever the function given to
  \<^verbatim>\<open>transaction\<close> succeeds, \<^verbatim>\<open>transaction\<close> returns no error, whatever the commit answers; with a
  database whose commit fails by rolling back, the caller is told of success and nothing changed.
\<close>

theorem transaction_hides_commit_error:
  assumes "sql_begin ops db = None" "fn db = (db1, c, None)"
    and "sql_commit ops db db1 = (db, Some e)"
  shows "transaction ops db c0 fn = (db, c, None)"
  using assms by (simp add: transaction_def)

theorem transaction_hides_commit_error_witness:
  "transaction mem_ops \<lparr>tables = (\<lambda>t. []), fail_commit = True\<rparr> () (\<lambda>db. (db\<lparr>tables := (\<lambda>t. [\<lambda>c. VNull])\<rparr>, (), None))
     = (\<lparr>tables = (\<lambda>t. []), fail_commit = True\<rparr>, (), None)"
proof -
  let ?db = "\<lparr>tables = (\<lambda>t. []), fail_commit = True\<rparr>"
  show ?thesis
    by (rule transaction_hides_commit_error [of mem_ops ?db _ "?db\<lparr>tables := (\<lambda>t. [\<lambda>c. VNull])\<rparr>" "()" "Err ''commit failed''"])
       (simp_all add: mem_ops_def)
qed

end
