(* ===== verification/Label_Store.thy ===== *)
theory Label_Store
  imports Sql_Store
begin

text \<open>
  Stored labels and annotations: the read-modify-write operations of
  \<^verbatim>\<open>internal/database/labels.go\<close> and \<^verbatim>\<open>internal/database/annotations.go\<close>, and the propagation of
  parent labels in \<^verbatim>\<open>internal/database/labels_propagate.go\<close>. All of them run against the database
  operations of \<open>Sql_Store\<close>; the current time is an argument. An operation returns the new
  database and either its error or its result. The lemmas say what a row holds afterwards.
\<close>

subsection \<open>Columns\<close>

definition ErrNotFound :: gerror where "ErrNotFound = Sentinel ''record not found''"
definition ErrDuplicate :: gerror where "ErrDuplicate = Sentinel ''duplicate record''"
definition ErrViolation :: gerror where "ErrViolation = Sentinel ''database constraint violation''"

text \<open>A map column: an empty map is written as NULL and NULL is read as the empty map.\<close>

definition map_value :: "smap \<Rightarrow> sql_value" where
  "map_value m = (if m = [] then VNull else VMap m)"

definition col_map :: "row \<Rightarrow> string \<Rightarrow> smap" where
  "col_map r c = (case r c of VMap m \<Rightarrow> m | _ \<Rightarrow> [])"

definition col_text :: "row \<Rightarrow> string \<Rightarrow> string" where
  "col_text r c = (case r c of VText s \<Rightarrow> s | _ \<Rightarrow> '''')"

lemma col_map_value [simp]: "r c = map_value m \<Longrightarrow> col_map r c = m"
  by (simp add: col_map_def map_value_def split: if_splits)

text \<open>An update followed by the check of the number of affected rows.\<close>

definition update_checked ::
  "('db, 'm) sql_ops_scheme \<Rightarrow> 'db \<Rightarrow> string \<Rightarrow> (string \<times> sql_value) list \<Rightarrow> sql_cond list \<Rightarrow>
   string \<Rightarrow> gerror \<Rightarrow> 'db \<times> err" where
  "update_checked ops db table as wh msg noRows =
     (case sql_update ops db table as wh of
        (db', Inl e) \<Rightarrow> (db', Some (Wrapf msg [table] e))
      | (db', Inr (Inl e)) \<Rightarrow> (db', Some (Wrapf msg [table] e))
      | (db', Inr (Inr affected)) \<Rightarrow> (db', if affected = 0 then Some noRows else None))"

subsection \<open>Labels\<close>

definition putLabelsInTableTx ::
  "('db, 'm) sql_ops_scheme \<Rightarrow> int \<Rightarrow> 'db \<Rightarrow> string \<Rightarrow> sql_cond list \<Rightarrow> smap \<Rightarrow> 'db \<times> (gerror + smap \<times> int)" where
  "putLabelsInTableTx ops now db table wh newLabels =
     (case sql_query_row ops db table wh of
        Inl e \<Rightarrow> (db, Inl e)
      | Inr None \<Rightarrow> (db, Inl ErrNotFound)
      | Inr (Some r) \<Rightarrow>
          let currentLabels = put_all newLabels (col_map r ''labels'');
              (db', e) = update_checked ops db table
                [(''labels'', map_value currentLabels), (''updated_at'', VTime now)] wh
                ''failed to put labels in %s: %w'' (Errf ''failed to put labels in %s; no rows updated'' [table])
          in (db', case e of Some x \<Rightarrow> Inl x | None \<Rightarrow> Inr (currentLabels, now)))"

definition deleteLabelsInTableTx ::
  "('db, 'm) sql_ops_scheme \<Rightarrow> int \<Rightarrow> 'db \<Rightarrow> string \<Rightarrow> sql_cond list \<Rightarrow> string list \<Rightarrow> 'db \<times> (gerror + smap \<times> int)" where
  "deleteLabelsInTableTx ops now db table wh ks =
     (case sql_query_row ops db table wh of
        Inl e \<Rightarrow> (db, Inl e)
      | Inr None \<Rightarrow> (db, Inl ErrNotFound)
      | Inr (Some r) \<Rightarrow>
          let currentLabels = fold AList.delete ks (col_map r ''labels'');
              (db', e) = update_checked ops db table
                [(''labels'', map_value currentLabels), (''updated_at'', VTime now)] wh
                ''failed to delete labels in %s: %w'' (Errf ''failed to delete labels in %s; no rows updated'' [table])
          in (db', case e of Some x \<Rightarrow> Inl x | None \<Rightarrow> Inr (currentLabels, now)))"

definition replaceUserLabelsInTableTx ::
  "('db, 'm) sql_ops_scheme \<Rightarrow> int \<Rightarrow> 'db \<Rightarrow> string \<Rightarrow> sql_cond list \<Rightarrow> smap \<Rightarrow> 'db \<times> (gerror + smap \<times> int)" where
  "replaceUserLabelsInTableTx ops now db table wh newUserLabels =
     (case sql_query_row ops db table wh of
        Inl e \<Rightarrow> (db, Inl e)
      | Inr None \<Rightarrow> (db, Inl ErrNotFound)
      | Inr (Some r) \<Rightarrow>
          let (_, apxy) = SplitUserAndApxyLabels (col_map r ''labels'');
              merged = MergeApxyAndUserLabels newUserLabels apxy;
              (db', e) = update_checked ops db table
                [(''labels'', map_value merged), (''updated_at'', VTime now)] wh
                ''failed to replace user labels in %s: %w'' ErrNotFound
          in (db', case e of Some x \<Rightarrow> Inl x | None \<Rightarrow> Inr (merged, now)))"

definition updateLabelsInTableTx ::
  "('db, 'm) sql_ops_scheme \<Rightarrow> int \<Rightarrow> 'db \<Rightarrow> string \<Rightarrow> sql_cond list \<Rightarrow> smap \<Rightarrow> 'db \<times> (gerror + int)" where
  "updateLabelsInTableTx ops now db table wh labels =
     (let (db', e) = update_checked ops db table
            [(''labels'', map_value labels), (''updated_at'', VTime now)] wh
            ''failed to update labels in %s: %w'' ErrNotFound
      in (db', case e of Some x \<Rightarrow> Inl x | None \<Rightarrow> Inr now))"

subsection \<open>Annotations\<close>

definition putAnnotationsInTableTx ::
  "('db, 'm) sql_ops_scheme \<Rightarrow> int \<Rightarrow> 'db \<Rightarrow> string \<Rightarrow> sql_cond list \<Rightarrow> smap \<Rightarrow> 'db \<times> (gerror + smap \<times> int)" where
  "putAnnotationsInTableTx ops now db table wh newAnnotations =
     (case sql_query_row ops db table wh of
        Inl e \<Rightarrow> (db, Inl e)
      | Inr None \<Rightarrow> (db, Inl ErrNotFound)
      | Inr (Some r) \<Rightarrow>
          let currentAnnotations = put_all newAnnotations (col_map r ''annotations'');
              (db', e) = update_checked ops db table
                [(''annotations'', map_value currentAnnotations), (''updated_at'', VTime now)] wh
                ''failed to put annotations in %s: %w'' (Errf ''failed to put annotations in %s; no rows updated'' [table])
          in (db', case e of Some x \<Rightarrow> Inl x | None \<Rightarrow> Inr (currentAnnotations, now)))"

definition deleteAnnotationsInTableTx ::
  "('db, 'm) sql_ops_scheme \<Rightarrow> int \<Rightarrow> 'db \<Rightarrow> string \<Rightarrow> sql_cond list \<Rightarrow> string list \<Rightarrow> 'db \<times> (gerror + smap \<times> int)" where
  "deleteAnnotationsInTableTx ops now db table wh ks =
     (case sql_query_row ops db table wh of
        Inl e \<Rightarrow> (db, Inl e)
      | Inr None \<Rightarrow> (db, Inl ErrNotFound)
      | Inr (Some r) \<Rightarrow>
          let currentAnnotations = fold AList.delete ks (col_map r ''annotations'');
              (db', e) = update_checked ops db table
                [(''annotations'', map_value currentAnnotations), (''updated_at'', VTime now)] wh
                ''failed to delete annotations in %s: %w''
                (Errf ''failed to delete annotations in %s; no rows updated'' [table])
          in (db', case e of Some x \<Rightarrow> Inl x | None \<Rightarrow> Inr (currentAnnotations, now)))"

definition updateAnnotationsInTableTx ::
  "('db, 'm) sql_ops_scheme \<Rightarrow> int \<Rightarrow> 'db \<Rightarrow> string \<Rightarrow> sql_cond list \<Rightarrow> smap \<Rightarrow> 'db \<times> (gerror + int)" where
  "updateAnnotationsInTableTx ops now db table wh annotations =
     (let (db', e) = update_checked ops db table
            [(''annotations'', map_value annotations), (''updated_at'', VTime now)] wh
            ''failed to update annotations in %s: %w'' ErrNotFound
      in (db', case e of Some x \<Rightarrow> Inl x | None \<Rightarrow> Inr now))"

subsection \<open>Renaming a resource\<close>

text \<open>The kinds of driver error that mean a uniqueness violation belong to the drivers; they are the
  argument \<open>unique\<close>.\<close>

definition wrapDatabaseMutationError :: "(gerror \<Rightarrow> bool) \<Rightarrow> string \<Rightarrow> err \<Rightarrow> err" where
  "wrapDatabaseMutationError unique operation e =
     (case e of
        None \<Rightarrow> None
      | Some x \<Rightarrow> Some (Wrapf ''%s: %w'' [operation] (if unique x then ErrDuplicate else x)))"

abbreviation live_id :: "string \<Rightarrow> sql_cond list" where
  "live_id i \<equiv> [WEq ''id'' (VText i), WEq ''deleted_at'' VNull]"

abbreviation live_path :: "string \<Rightarrow> sql_cond list" where
  "live_path p \<equiv> [WEq ''path'' (VText p), WEq ''deleted_at'' VNull]"

definition updateResourceNameAndSelfLabels ::
  "('db, 'm) sql_ops_scheme \<Rightarrow> (gerror \<Rightarrow> bool) \<Rightarrow> int \<Rightarrow> 'db \<Rightarrow> string \<Rightarrow> string \<Rightarrow> string \<Rightarrow> 'db \<times> err" where
  "updateResourceNameAndSelfLabels ops unique now db table i name =
     (let (db', _, e) = transaction ops db () (\<lambda>db.
        case sql_query_row ops db table (live_id i) of
          Inl e \<Rightarrow> (db, (), Some (Wrapf ''failed to read %s before rename: %w'' [table] e))
        | Inr None \<Rightarrow> (db, (), Some ErrNotFound)
        | Inr (Some r) \<Rightarrow>
            let labels = InjectSelfImplicitLabels i name (col_text r ''namespace'') (col_map r ''labels'') in
            (case sql_update ops db table
                [(''name'', VText name), (''labels'', map_value labels), (''updated_at'', VTime now)] (live_id i) of
               (db', Inl e) \<Rightarrow> (db', (), wrapDatabaseMutationError unique (''failed to update '' @ table @ '' name'') (Some e))
             | (db', Inr (Inl e)) \<Rightarrow> (db', (), Some (Wrapf ''failed to update %s name: %w'' [table] e))
             | (db', Inr (Inr affected)) \<Rightarrow>
                 (db', (), if affected = 0 then Some ErrNotFound
                           else if affected > 1 then Some (Wrapf ''multiple %s rows were renamed: %w'' [table] ErrViolation)
                           else None)))
      in (db', e))"

subsection \<open>Carry-forward of parent labels\<close>

definition ConnectionsTable :: string where "ConnectionsTable = ''connections''"
definition ConnectorsTable :: string where "ConnectorsTable = ''connectors''"
definition NamespacesTable :: string where "NamespacesTable = ''namespaces''"
definition ActorTable :: string where "ActorTable = ''actors''"
definition KeysTable :: string where "KeysTable = ''keys''"
definition RateLimitsTable :: string where "RateLimitsTable = ''rate_limits''"

definition fetchLabelsForCarryForward ::
  "('db, 'm) sql_ops_scheme \<Rightarrow> 'db \<Rightarrow> string \<Rightarrow> sql_cond list \<Rightarrow> gerror + smap" where
  "fetchLabelsForCarryForward ops db table wh =
     (case sql_query_row ops db table wh of
        Inl e \<Rightarrow> Inl e
      | Inr None \<Rightarrow> Inr []
      | Inr (Some r) \<Rightarrow> Inr (col_map r ''labels''))"

definition labelsEqual :: "smap \<Rightarrow> smap \<Rightarrow> bool" where
  "labelsEqual a b \<longleftrightarrow>
     (if length a \<noteq> length b then False else list_all (\<lambda>(k, v). map_of b k = Some v) a)"

definition writeRecomputedLabels ::
  "('db, 'm) sql_ops_scheme \<Rightarrow> int \<Rightarrow> 'db \<Rightarrow> string \<Rightarrow> sql_cond list \<Rightarrow> smap \<Rightarrow> smap \<Rightarrow> 'db \<times> bool \<times> err" where
  "writeRecomputedLabels ops now db table wh current newLabels =
     (if labelsEqual current newLabels then (db, False, None)
      else case sql_update ops db table [(''labels'', map_value newLabels), (''updated_at'', VTime now)] wh of
             (db', Inl e) \<Rightarrow> (db', False, Some (Wrapf ''failed to write recomputed labels in %s: %w'' [table] e))
           | (db', Inr _) \<Rightarrow> (db', True, None))"

definition recomputeConnectionLabelsTx ::
  "('db, 'm) sql_ops_scheme \<Rightarrow> int \<Rightarrow> 'db \<Rightarrow> string \<Rightarrow> 'db \<times> bool \<times> err" where
  "recomputeConnectionLabelsTx ops now db0 i =
     transaction ops db0 False (\<lambda>db.
       case sql_query_row ops db ConnectionsTable (live_id i) of
         Inl e \<Rightarrow> (db, False, Some e)
       | Inr None \<Rightarrow> (db, False, None)
       | Inr (Some conn) \<Rightarrow>
           let (userLabels, _) = SplitUserAndApxyLabels (col_map conn ''labels'') in
           (case fetchLabelsForCarryForward ops db ConnectorsTable (live_id (col_text conn ''connector_id'')) of
              Inl e \<Rightarrow> (db, False, Some e)
            | Inr cvLabels \<Rightarrow>
           (case fetchLabelsForCarryForward ops db NamespacesTable (live_path (col_text conn ''namespace'')) of
              Inl e \<Rightarrow> (db, False, Some e)
            | Inr nsLabels \<Rightarrow>
                let newLabels = ApplyParentCarryForward userLabels
                      [\<lparr>pcf_Rt = ApidPrefixToLabelToken ''cxr_'', pcf_Labels = cvLabels\<rparr>,
                       \<lparr>pcf_Rt = NamespaceLabelToken, pcf_Labels = nsLabels\<rparr>];
                    newLabels' = InjectSelfImplicitLabels (col_text conn ''id'') (col_text conn ''name'')
                      (col_text conn ''namespace'') newLabels
                in writeRecomputedLabels ops now db ConnectionsTable (live_id i) (col_map conn ''labels'') newLabels')))"

text \<open>Actors, keys, rate limits and connectors inherit from their namespace only; their four
  functions have the same text up to the table.\<close>

definition recompute_namespaced ::
  "('db, 'm) sql_ops_scheme \<Rightarrow> int \<Rightarrow> string \<Rightarrow> 'db \<Rightarrow> string \<Rightarrow> 'db \<times> bool \<times> err" where
  "recompute_namespaced ops now table db0 i =
     transaction ops db0 False (\<lambda>db.
       case sql_query_row ops db table (live_id i) of
         Inl e \<Rightarrow> (db, False, Some e)
       | Inr None \<Rightarrow> (db, False, None)
       | Inr (Some r) \<Rightarrow>
           let (userLabels, _) = SplitUserAndApxyLabels (col_map r ''labels'') in
           (case fetchLabelsForCarryForward ops db NamespacesTable (live_path (col_text r ''namespace'')) of
              Inl e \<Rightarrow> (db, False, Some e)
            | Inr nsLabels \<Rightarrow>
                let newLabels = ApplyParentCarryForward userLabels
                      [\<lparr>pcf_Rt = NamespaceLabelToken, pcf_Labels = nsLabels\<rparr>];
                    newLabels' = InjectSelfImplicitLabels (col_text r ''id'') (col_text r ''name'')
                      (col_text r ''namespace'') newLabels
                in writeRecomputedLabels ops now db table (live_id i) (col_map r ''labels'') newLabels'))"

definition recomputeActorLabelsTx ::
  "('db, 'm) sql_ops_scheme \<Rightarrow> int \<Rightarrow> 'db \<Rightarrow> string \<Rightarrow> 'db \<times> bool \<times> err" where
  "recomputeActorLabelsTx ops now = recompute_namespaced ops now ActorTable"

definition recomputeEncryptionKeyLabelsTx ::
  "('db, 'm) sql_ops_scheme \<Rightarrow> int \<Rightarrow> 'db \<Rightarrow> string \<Rightarrow> 'db \<times> bool \<times> err" where
  "recomputeEncryptionKeyLabelsTx ops now = recompute_namespaced ops now KeysTable"

definition recomputeRateLimitLabelsTx ::
  "('db, 'm) sql_ops_scheme \<Rightarrow> int \<Rightarrow> 'db \<Rightarrow> string \<Rightarrow> 'db \<times> bool \<times> err" where
  "recomputeRateLimitLabelsTx ops now = recompute_namespaced ops now RateLimitsTable"

definition recomputeConnectorLabelsTx ::
  "('db, 'm) sql_ops_scheme \<Rightarrow> int \<Rightarrow> 'db \<Rightarrow> string \<Rightarrow> 'db \<times> bool \<times> err" where
  "recomputeConnectorLabelsTx ops now = recompute_namespaced ops now ConnectorsTable"

definition recomputeNamespaceLabelsTx ::
  "('db, 'm) sql_ops_scheme \<Rightarrow> int \<Rightarrow> 'db \<Rightarrow> string \<Rightarrow> 'db \<times> bool \<times> err" where
  "recomputeNamespaceLabelsTx ops now db0 path =
     transaction ops db0 False (\<lambda>db.
       case sql_query_row ops db NamespacesTable (live_path path) of
         Inl e \<Rightarrow> (db, False, Some e)
       | Inr None \<Rightarrow> (db, False, None)
       | Inr (Some ns) \<Rightarrow>
           let (userLabels, _) = SplitUserAndApxyLabels (col_map ns ''labels'');
               prefixes = SplitPathToPrefixes (col_text ns ''path'') in
           (case (if length prefixes > 1
                  then fetchLabelsForCarryForward ops db NamespacesTable (live_path (prefixes ! (length prefixes - 2)))
                  else Inr []) of
              Inl e \<Rightarrow> (db, False, Some e)
            | Inr parentLabels \<Rightarrow>
                let newLabels = ApplyParentCarryForward userLabels
                      [\<lparr>pcf_Rt = NamespaceLabelToken, pcf_Labels = parentLabels\<rparr>];
                    newLabels' = InjectNamespaceSelfImplicitLabels (col_text ns ''path'') newLabels
                in writeRecomputedLabels ops now db NamespacesTable (live_path path) (col_map ns ''labels'') newLabels'))"

definition directChildNamespacePaths :: "('db, 'm) sql_ops_scheme \<Rightarrow> 'db \<Rightarrow> string \<Rightarrow> gerror + string list" where
  "directChildNamespacePaths ops db nsPath =
     (case sql_query ops db NamespacesTable
        [WLike ''path'' (nsPath @ PathSeparator @ ''%''),
         WEq ''depth'' (VInt (int (DepthOfPath nsPath + 1))), WEq ''deleted_at'' VNull] of
        Inl e \<Rightarrow> Inl e
      | Inr rs \<Rightarrow> Inr (map (\<lambda>r. col_text r ''path'') rs))"

definition scanIdsByNamespace :: "('db, 'm) sql_ops_scheme \<Rightarrow> 'db \<Rightarrow> string \<Rightarrow> string \<Rightarrow> gerror + string list" where
  "scanIdsByNamespace ops db table nsPath =
     (case sql_query ops db table [WEq ''namespace'' (VText nsPath), WEq ''deleted_at'' VNull] of
        Inl e \<Rightarrow> Inl e
      | Inr rs \<Rightarrow> Inr (map (\<lambda>r. col_text r ''id'') rs))"

text \<open>A loop that recomputes one row after another and stops at the first error.\<close>

fun recompute_each :: "('db \<Rightarrow> string \<Rightarrow> 'db \<times> bool \<times> err) \<Rightarrow> 'db \<Rightarrow> string list \<Rightarrow> 'db \<times> err" where
  "recompute_each f db [] = (db, None)"
| "recompute_each f db (i # is) =
     (case f db i of
        (db', _, Some e) \<Rightarrow> (db', Some e)
      | (db', _, None) \<Rightarrow> recompute_each f db' is)"

definition refresh_in_namespace ::
  "('db, 'm) sql_ops_scheme \<Rightarrow> ('db \<Rightarrow> string \<Rightarrow> 'db \<times> bool \<times> err) \<Rightarrow> string \<Rightarrow> 'db \<Rightarrow> string \<Rightarrow> 'db \<times> err" where
  "refresh_in_namespace ops f table db nsPath =
     (case scanIdsByNamespace ops db table nsPath of
        Inl e \<Rightarrow> (db, Some e)
      | Inr ids \<Rightarrow> recompute_each f db ids)"

definition refreshConnectionsInNamespace :: "('db, 'm) sql_ops_scheme \<Rightarrow> int \<Rightarrow> 'db \<Rightarrow> string \<Rightarrow> 'db \<times> err" where
  "refreshConnectionsInNamespace ops now =
     refresh_in_namespace ops (recomputeConnectionLabelsTx ops now) ConnectionsTable"
definition refreshActorsInNamespace :: "('db, 'm) sql_ops_scheme \<Rightarrow> int \<Rightarrow> 'db \<Rightarrow> string \<Rightarrow> 'db \<times> err" where
  "refreshActorsInNamespace ops now = refresh_in_namespace ops (recomputeActorLabelsTx ops now) ActorTable"
definition refreshEncryptionKeysInNamespace :: "('db, 'm) sql_ops_scheme \<Rightarrow> int \<Rightarrow> 'db \<Rightarrow> string \<Rightarrow> 'db \<times> err" where
  "refreshEncryptionKeysInNamespace ops now =
     refresh_in_namespace ops (recomputeEncryptionKeyLabelsTx ops now) KeysTable"
definition refreshRateLimitsInNamespace :: "('db, 'm) sql_ops_scheme \<Rightarrow> int \<Rightarrow> 'db \<Rightarrow> string \<Rightarrow> 'db \<times> err" where
  "refreshRateLimitsInNamespace ops now =
     refresh_in_namespace ops (recomputeRateLimitLabelsTx ops now) RateLimitsTable"
definition refreshConnectorsInNamespace :: "('db, 'm) sql_ops_scheme \<Rightarrow> int \<Rightarrow> 'db \<Rightarrow> string \<Rightarrow> 'db \<times> err" where
  "refreshConnectorsInNamespace ops now =
     refresh_in_namespace ops (recomputeConnectorLabelsTx ops now) ConnectorsTable"

definition RefreshConnectionsForConnector ::
  "('db, 'm) sql_ops_scheme \<Rightarrow> int \<Rightarrow> 'db \<Rightarrow> string \<Rightarrow> 'db \<times> err" where
  "RefreshConnectionsForConnector ops now db i =
     (case sql_query ops db ConnectionsTable [WEq ''connector_id'' (VText i), WEq ''deleted_at'' VNull] of
        Inl e \<Rightarrow> (db, Some e)
      | Inr rs \<Rightarrow> recompute_each (recomputeConnectionLabelsTx ops now) db (map (\<lambda>r. col_text r ''id'') rs))"

text \<open>Sequencing of steps that stop at the first error.\<close>

definition and_then :: "'db \<times> err \<Rightarrow> ('db \<Rightarrow> 'db \<times> err) \<Rightarrow> 'db \<times> err" where
  "and_then r f = (case r of (db, Some e) \<Rightarrow> (db, Some e) | (db, None) \<Rightarrow> f db)"

text \<open>The recursion over child namespaces, with fuel for its depth; \<^term>\<open>None\<close> is running out of it.\<close>

fun refresh_children ::
  "('db \<Rightarrow> string \<Rightarrow> 'db \<times> bool \<times> err) \<Rightarrow> ('db \<Rightarrow> string \<Rightarrow> ('db \<times> err) option) \<Rightarrow>
   'db \<Rightarrow> string list \<Rightarrow> ('db \<times> err) option" where
  "refresh_children recompute recur db [] = Some (db, None)"
| "refresh_children recompute recur db (childPath # childPaths) =
     (case recompute db childPath of
        (db1, _, Some e) \<Rightarrow> Some (db1, Some e)
      | (db1, _, None) \<Rightarrow>
          (case recur db1 childPath of
             None \<Rightarrow> None
           | Some (db2, Some e) \<Rightarrow> Some (db2, Some e)
           | Some (db2, None) \<Rightarrow> refresh_children recompute recur db2 childPaths))"

fun RefreshNamespaceLabelsCarryForward ::
  "nat \<Rightarrow> ('db, 'm) sql_ops_scheme \<Rightarrow> int \<Rightarrow> 'db \<Rightarrow> string \<Rightarrow> ('db \<times> err) option" where
  "RefreshNamespaceLabelsCarryForward 0 ops now db nsPath = None"
| "RefreshNamespaceLabelsCarryForward (Suc fuel) ops now db nsPath =
     (case and_then (and_then (and_then (and_then
            (refreshConnectionsInNamespace ops now db nsPath)
            (\<lambda>db. refreshActorsInNamespace ops now db nsPath))
            (\<lambda>db. refreshEncryptionKeysInNamespace ops now db nsPath))
            (\<lambda>db. refreshConnectorsInNamespace ops now db nsPath))
            (\<lambda>db. refreshRateLimitsInNamespace ops now db nsPath) of
        (db', Some e) \<Rightarrow> Some (db', Some e)
      | (db', None) \<Rightarrow>
          (case directChildNamespacePaths ops db' nsPath of
             Inl e \<Rightarrow> Some (db', Some e)
           | Inr childPaths \<Rightarrow>
               refresh_children (recomputeNamespaceLabelsTx ops now)
                 (RefreshNamespaceLabelsCarryForward fuel ops now) db' childPaths))"

subsection \<open>What the operations store\<close>

lemma SplitUserAndApxy_snd:
  "wf_map l \<Longrightarrow> map_of (snd (SplitUserAndApxyLabels l)) k = (if apxy_key k then map_of l k else None)"
  using Split_lookup(2) [of l "fst (SplitUserAndApxyLabels l)" "snd (SplitUserAndApxyLabels l)"] by simp

lemma SplitUserAndApxy_fst:
  "wf_map l \<Longrightarrow> map_of (fst (SplitUserAndApxyLabels l)) k = (if apxy_key k then None else map_of l k)"
  using Split_lookup(1) [of l "fst (SplitUserAndApxyLabels l)" "snd (SplitUserAndApxyLabels l)"] by simp

lemma wf_SplitUserAndApxy: "wf_map (fst (SplitUserAndApxyLabels l))" "wf_map (snd (SplitUserAndApxyLabels l))"
  by (simp_all add: SplitUserAndApxyLabels_def Split_fold wf_put_all)

context sql_db
begin

lemma update_checked_ok:
  assumes "update_checked ops db t as wh msg nr = (db', None)"
  shows "rows db' = (rows db)(t := update_rows like wh as (rows db t))"
    and "filter (row_matches like wh) (rows db t) \<noteq> []"
proof -
  obtain n where n: "sql_update ops db t as wh = (db', Inr (Inr n))" "n \<noteq> 0"
    using assms by (auto simp: update_checked_def split: prod.splits sum.splits if_splits)
  with update_ok [OF n(1)] show "rows db' = (rows db)(t := update_rows like wh as (rows db t))"
    "filter (row_matches like wh) (rows db t) \<noteq> []" by auto
qed

lemma query_row_cases:
  assumes "sql_query_row ops db t wh = Inr (Some r)"
  shows "r \<in> set (rows db t)" "row_matches like wh r"
  using query_row_some [OF assms] by auto

lemma replaceUserLabels_ok:
  assumes "replaceUserLabelsInTableTx ops now db t wh new = (db', Inr (merged, ts))"
  obtains r where "r \<in> set (rows db t)" "row_matches like wh r"
    "merged = MergeApxyAndUserLabels new (snd (SplitUserAndApxyLabels (col_map r ''labels'')))"
    "rows db' = (rows db)(t := update_rows like wh [(''labels'', map_value merged), (''updated_at'', VTime now)] (rows db t))"
proof -
  obtain r where r: "sql_query_row ops db t wh = Inr (Some r)"
    using assms by (auto simp: replaceUserLabelsInTableTx_def split: sum.splits option.splits)
  let ?m = "MergeApxyAndUserLabels new (snd (SplitUserAndApxyLabels (col_map r ''labels'')))"
  obtain d e where u: "update_checked ops db t [(''labels'', map_value ?m), (''updated_at'', VTime now)] wh
      ''failed to replace user labels in %s: %w'' ErrNotFound = (d, e)" by fastforce
  have "e = None \<and> d = db' \<and> merged = ?m"
    using assms r u
    by (auto simp: replaceUserLabelsInTableTx_def Let_def case_prod_unfold split: option.splits)
  with update_checked_ok(1) [of db t _ wh _ _ db'] u query_row_cases [OF r] that [of r] show ?thesis by simp
qed

lemma putLabels_ok:
  assumes "putLabelsInTableTx ops now db t wh new = (db', Inr (merged, ts))"
  obtains r where "r \<in> set (rows db t)" "row_matches like wh r" "merged = put_all new (col_map r ''labels'')"
    "rows db' = (rows db)(t := update_rows like wh [(''labels'', map_value merged), (''updated_at'', VTime now)] (rows db t))"
proof -
  obtain r where r: "sql_query_row ops db t wh = Inr (Some r)"
    using assms by (auto simp: putLabelsInTableTx_def split: sum.splits option.splits)
  let ?m = "put_all new (col_map r ''labels'')"
  obtain d e where u: "update_checked ops db t [(''labels'', map_value ?m), (''updated_at'', VTime now)] wh
      ''failed to put labels in %s: %w'' (Errf ''failed to put labels in %s; no rows updated'' [t]) = (d, e)" by fastforce
  have "e = None \<and> d = db' \<and> merged = ?m"
    using assms r u by (auto simp: putLabelsInTableTx_def Let_def case_prod_unfold split: option.splits)
  with update_checked_ok(1) [of db t _ wh _ _ db'] u query_row_cases [OF r] that [of r] show ?thesis by simp
qed

lemma deleteLabels_ok:
  assumes "deleteLabelsInTableTx ops now db t wh ks = (db', Inr (remaining, ts))"
  obtains r where "r \<in> set (rows db t)" "row_matches like wh r" "remaining = fold AList.delete ks (col_map r ''labels'')"
    "rows db' = (rows db)(t := update_rows like wh [(''labels'', map_value remaining), (''updated_at'', VTime now)] (rows db t))"
proof -
  obtain r where r: "sql_query_row ops db t wh = Inr (Some r)"
    using assms by (auto simp: deleteLabelsInTableTx_def split: sum.splits option.splits)
  let ?m = "fold AList.delete ks (col_map r ''labels'')"
  obtain d e where u: "update_checked ops db t [(''labels'', map_value ?m), (''updated_at'', VTime now)] wh
      ''failed to delete labels in %s: %w'' (Errf ''failed to delete labels in %s; no rows updated'' [t]) = (d, e)" by fastforce
  have "e = None \<and> d = db' \<and> remaining = ?m"
    using assms r u by (auto simp: deleteLabelsInTableTx_def Let_def case_prod_unfold split: option.splits)
  with update_checked_ok(1) [of db t _ wh _ _ db'] u query_row_cases [OF r] that [of r] show ?thesis by simp
qed

end

lemma assign_labels [simp]:
  "col_map (assign [(''labels'', map_value m), (''updated_at'', VTime now)] r) ''labels'' = m"
  "c \<noteq> ''labels'' \<Longrightarrow> c \<noteq> ''updated_at'' \<Longrightarrow>
     assign [(''labels'', map_value m), (''updated_at'', VTime now)] r c = r c"
  by (simp_all add: assign_def)

lemma map_of_fold_delete: "map_of (fold AList.delete ks m) k = (if k \<in> set ks then None else map_of m k)"
  by (induction ks arbitrary: m) (auto simp: delete_conv')

text \<open>
  Property C17. User edits of stored labels leave system labels alone. On success, replacing the
  user labels of a row stores the new user labels together with exactly the system labels the row
  had; adding user labels overwrites those keys only; deleting user keys removes those keys only.
  The rows the condition does not select are untouched, and only the labels and the update time of
  the selected row change.
\<close>

theorem user_label_edits_keep_system_labels:
  assumes "sql_db like ops rows" "\<forall>r \<in> set (rows db t). wf_map (col_map r ''labels'')"
    and "wf_map new" "\<forall>k \<in> set (keys new). \<not> apxy_key k" "\<forall>k \<in> set ks. \<not> apxy_key k"
    and "(edit = replaceUserLabelsInTableTx ops now db t wh new \<and>
            spec = (\<lambda>r k. if apxy_key k then map_of (col_map r ''labels'') k else map_of new k)) \<or>
         (edit = putLabelsInTableTx ops now db t wh new \<and>
            spec = (\<lambda>r k. case map_of new k of Some v \<Rightarrow> Some v | None \<Rightarrow> map_of (col_map r ''labels'') k)) \<or>
         (edit = deleteLabelsInTableTx ops now db t wh ks \<and>
            spec = (\<lambda>r k. if k \<in> set ks then None else map_of (col_map r ''labels'') k))"
    and "edit = (db', Inr (result, ts))"
  shows "\<exists>r \<in> set (rows db t). row_matches like wh r \<and> map_of result = spec r \<and>
     (\<forall>k. apxy_key k \<longrightarrow> map_of result k = map_of (col_map r ''labels'') k) \<and>
     rows db' = (rows db)(t := map (\<lambda>r. if row_matches like wh r
        then assign [(''labels'', map_value result), (''updated_at'', VTime now)] r else r) (rows db t))"
proof -
  have nk: "map_of new k = None" if "apxy_key k" for k
    using assms(4) that by (auto simp: keys_def map_of_eq_None_iff)
  consider "edit = replaceUserLabelsInTableTx ops now db t wh new"
      "spec = (\<lambda>r k. if apxy_key k then map_of (col_map r ''labels'') k else map_of new k)"
    | "edit = putLabelsInTableTx ops now db t wh new"
      "spec = (\<lambda>r k. case map_of new k of Some v \<Rightarrow> Some v | None \<Rightarrow> map_of (col_map r ''labels'') k)"
    | "edit = deleteLabelsInTableTx ops now db t wh ks"
      "spec = (\<lambda>r k. if k \<in> set ks then None else map_of (col_map r ''labels'') k)"
    using assms(6) by blast
  then show ?thesis
  proof cases
    case 1
    obtain r where r: "r \<in> set (rows db t)" "row_matches like wh r"
      "result = MergeApxyAndUserLabels new (snd (SplitUserAndApxyLabels (col_map r ''labels'')))"
      "rows db' = (rows db)(t := update_rows like wh [(''labels'', map_value result), (''updated_at'', VTime now)] (rows db t))"
      using sql_db.replaceUserLabels_ok [OF assms(1)] 1(1) assms(7) by metis
    have "map_of result = spec r"
      using assms(2,3) r(1) nk
      by (auto simp: 1(2) r(3) fun_eq_iff map_of_Merge wf_SplitUserAndApxy SplitUserAndApxy_snd map_add_def split: option.splits)
    with r 1(2) show ?thesis by (intro bexI [of _ r]) (auto simp: update_rows_def)
  next
    case 2
    obtain r where r: "r \<in> set (rows db t)" "row_matches like wh r" "result = put_all new (col_map r ''labels'')"
      "rows db' = (rows db)(t := update_rows like wh [(''labels'', map_value result), (''updated_at'', VTime now)] (rows db t))"
      using sql_db.putLabels_ok [OF assms(1)] 2(1) assms(7) by metis
    have "map_of result = spec r"
      using assms(3) by (auto simp: 2(2) r(3) fun_eq_iff map_of_put_all map_add_def)
    with r 2(2) nk show ?thesis by (intro bexI [of _ r]) (auto simp: update_rows_def)
  next
    case 3
    obtain r where r: "r \<in> set (rows db t)" "row_matches like wh r" "result = fold AList.delete ks (col_map r ''labels'')"
      "rows db' = (rows db)(t := update_rows like wh [(''labels'', map_value result), (''updated_at'', VTime now)] (rows db t))"
      using sql_db.deleteLabels_ok [OF assms(1)] 3(1) assms(7) by metis
    have "map_of result = spec r" by (auto simp: 3(2) r(3) fun_eq_iff map_of_fold_delete)
    with r 3(2) assms(5) show ?thesis by (intro bexI [of _ r]) (auto simp: update_rows_def)
  qed
qed

subsection \<open>Re-derived labels\<close>

lemma labelsEqual_iff:
  assumes "wf_map a" "wf_map b"
  shows "labelsEqual a b \<longleftrightarrow> map_of a = map_of b"
proof
  have dom: "dom (map_of m) = fst ` set m" for m :: smap by (simp add: dom_map_of_conv_image_fst)
  have card: "card (dom (map_of m)) = length m" if "wf_map m" for m
    using that distinct_card [of "map fst m"] by (simp add: dom wf_map_def)
  {
    assume e: "labelsEqual a b"
    then have sub: "map_of b k = Some v" if "map_of a k = Some v" for k v
      using map_of_SomeD [OF that] by (auto simp: labelsEqual_def list_all_iff split: if_splits)
    then have "dom (map_of a) \<subseteq> dom (map_of b)" by auto
    moreover have "card (dom (map_of a)) = card (dom (map_of b))"
      using e card [OF assms(1)] card [OF assms(2)] by (simp add: labelsEqual_def split: if_splits)
    ultimately have "dom (map_of a) = dom (map_of b)" by (intro card_subset_eq) (auto simp: dom)
    then show "map_of a = map_of b" using sub by (metis (no_types, lifting) domIff ext not_None_eq)
  }
  {
    assume e: "map_of a = map_of b"
    then have "length a = length b" using card [OF assms(1)] card [OF assms(2)] by simp
    moreover have "map_of b k = Some v" if "(k, v) \<in> set a" for k v
      using that assms(1) e by (metis map_of_eq_Some_iff wf_map_def)
    ultimately show "labelsEqual a b" by (auto simp: labelsEqual_def list_all_iff)
  }
qed

definition derived_labels :: "row \<Rightarrow> smap \<Rightarrow> smap" where
  "derived_labels r nsLabels =
     InjectSelfImplicitLabels (col_text r ''id'') (col_text r ''name'') (col_text r ''namespace'')
       (ApplyParentCarryForward (fst (SplitUserAndApxyLabels (col_map r ''labels'')))
         [\<lparr>pcf_Rt = NamespaceLabelToken, pcf_Labels = nsLabels\<rparr>])"

lemma wf_Inject: "wf_map e \<Longrightarrow> wf_map (InjectSelfImplicitLabels i n ns e)"
  by (simp add: InjectSelfImplicitLabels_def Let_def Labels_Copy_def wf_put_all)

lemma wf_derived_labels: "wf_map (derived_labels r l)"
  by (simp add: derived_labels_def wf_Inject wf_ApplyParentCarryForward)

lemma map_of_derived:
  "wf_map (col_map r ''labels'') \<Longrightarrow> map_of (derived_labels r l) =
     map_of (BuildCarriedLabels NamespaceLabelToken l) ++ map_of (fst (SplitUserAndApxyLabels (col_map r ''labels''))) ++
     map_of (BuildImplicitResourceLabels (col_text r ''id'') (col_text r ''name'') (col_text r ''namespace''))"
  by (simp add: derived_labels_def map_of_Inject wf_ApplyParentCarryForward)
     (simp add: ApplyParentCarryForward_def map_of_put_all wf_SplitUserAndApxy wf_BuildCarriedLabels)

lemma carried_user_None: "\<not> apxy_key k \<Longrightarrow> map_of (BuildCarriedLabels rt l) k = None"
  using map_of_carried_apxy [of rt l k] by fastforce

lemma implicit_user_None: "\<not> apxy_key k \<Longrightarrow> map_of (BuildImplicitResourceLabels i n ns) k = None"
  using implicit_keys [of i n ns k] by fastforce

lemma map_of_derived_user:
  assumes "wf_map (col_map r ''labels'')" "\<not> apxy_key k"
  shows "map_of (derived_labels r l) k = map_of (col_map r ''labels'') k"
  using assms carried_user_None [OF assms(2)] implicit_user_None [OF assms(2)]
  by (simp add: map_of_derived map_add_def SplitUserAndApxy_fst split: option.splits)

context sql_db
begin

lemma recompute_namespaced_steps:
  assumes "recompute_namespaced ops now t db i = (db', corrected, None)"
    and "sql_query_row ops db t (live_id i) = Inr (Some r)"
    and "\<And>db1. snd (sql_commit ops db db1) = None"
  obtains nsLabels where
    "fetchLabelsForCarryForward ops db NamespacesTable (live_path (col_text r ''namespace'')) = Inr nsLabels"
    "labelsEqual (col_map r ''labels'') (derived_labels r nsLabels) \<Longrightarrow> rows db' = rows db \<and> \<not> corrected"
    "\<not> labelsEqual (col_map r ''labels'') (derived_labels r nsLabels) \<Longrightarrow> corrected \<and>
       rows db' = (rows db)(t := update_rows like (live_id i)
         [(''labels'', map_value (derived_labels r nsLabels)), (''updated_at'', VTime now)] (rows db t))"
proof -
  obtain db1 where d: "rows db' = rows db1" and f: "(case fetchLabelsForCarryForward ops db NamespacesTable
        (live_path (col_text r ''namespace'')) of
      Inl e \<Rightarrow> (db, False, Some e)
    | Inr l \<Rightarrow> writeRecomputedLabels ops now db t (live_id i) (col_map r ''labels'') (derived_labels r l)) =
    (db1, corrected, None)"
    using assms(1) unfolding recompute_namespaced_def derived_labels_def Let_def case_prod_unfold
    by (elim transaction_commit [OF _ assms(3)]) (simp add: assms(2))
  then obtain l where l: "fetchLabelsForCarryForward ops db NamespacesTable (live_path (col_text r ''namespace'')) = Inr l"
    and w: "writeRecomputedLabels ops now db t (live_id i) (col_map r ''labels'') (derived_labels r l) = (db1, corrected, None)"
    by (cases "fetchLabelsForCarryForward ops db NamespacesTable (live_path (col_text r ''namespace''))") auto
  show ?thesis
    using l d w update_ok [of db t _ "live_id i" db1]
    by (intro that [of l])
       (auto simp: writeRecomputedLabels_def split: if_splits prod.splits sum.splits)
qed

end

lemma filter_update_rows:
  assumes "filter (row_matches like w) rs = [r]" "\<And>x. row_matches like w (assign as x) = row_matches like w x"
  shows "filter (row_matches like w) (update_rows like w as rs) = [assign as r]"
proof -
  have "filter (row_matches like w) (update_rows like w as rs) = map (assign as) (filter (row_matches like w) rs)"
    unfolding update_rows_def by (induction rs) (auto simp: assms(2))
  with assms(1) show ?thesis by simp
qed

lemma live_id_assign: "row_matches like (live_id i) (assign [(''labels'', v), (''updated_at'', u)] x) = row_matches like (live_id i) x"
  by (simp add: row_matches_def assign_def)

text \<open>
  Property C18. Re-deriving the labels of an actor, key, rate limit or connector: when it succeeds
  and commits, the row holds the labels carried from its namespace, its own user labels and its
  identity labels, in this order of precedence. Its user labels are unchanged, a second derivation
  finds nothing to correct, and every other system label the row had is gone, among them the
  provenance label \<^verbatim>\<open>apxy/cxr/source\<close> by which the config migration finds its connectors.
\<close>

theorem recompute_derives_labels:
  assumes "sql_db like ops rows" "recompute_namespaced ops now t db i = (db', corrected, None)"
    and "\<And>db1. snd (sql_commit ops db db1) = None"
    and "filter (row_matches like (live_id i)) (rows db t) = [r]" "wf_map (col_map r ''labels'')"
    and "sql_query_row ops db t (live_id i) = Inr (Some r)"
  shows "\<exists>r' l. fetchLabelsForCarryForward ops db NamespacesTable (live_path (col_text r ''namespace'')) = Inr l \<and>
     filter (row_matches like (live_id i)) (rows db' t) = [r'] \<and>
     map_of (col_map r' ''labels'') =
       map_of (BuildCarriedLabels NamespaceLabelToken l) ++ map_of (fst (SplitUserAndApxyLabels (col_map r ''labels''))) ++
       map_of (BuildImplicitResourceLabels (col_text r ''id'') (col_text r ''name'') (col_text r ''namespace'')) \<and>
     (\<forall>k. \<not> apxy_key k \<longrightarrow> map_of (col_map r' ''labels'') k = map_of (col_map r ''labels'') k) \<and>
     labelsEqual (col_map r' ''labels'') (derived_labels r' l)"
proof -
  obtain l where l: "fetchLabelsForCarryForward ops db NamespacesTable (live_path (col_text r ''namespace'')) = Inr l"
    and eq: "labelsEqual (col_map r ''labels'') (derived_labels r l) \<Longrightarrow> rows db' = rows db \<and> \<not> corrected"
    and neq: "\<not> labelsEqual (col_map r ''labels'') (derived_labels r l) \<Longrightarrow> corrected \<and>
       rows db' = (rows db)(t := update_rows like (live_id i)
         [(''labels'', map_value (derived_labels r l)), (''updated_at'', VTime now)] (rows db t))"
    using sql_db.recompute_namespaced_steps [OF assms(1,2,6,3)] by blast
  define r' where "r' = (if labelsEqual (col_map r ''labels'') (derived_labels r l) then r
    else assign [(''labels'', map_value (derived_labels r l)), (''updated_at'', VTime now)] r)"
  have f: "filter (row_matches like (live_id i)) (rows db' t) = [r']"
    using eq neq assms(4) filter_update_rows [OF assms(4) live_id_assign, of "map_value (derived_labels r l)" "VTime now"]
    by (auto simp: r'_def)
  have m: "map_of (col_map r' ''labels'') = map_of (derived_labels r l)" and wf': "wf_map (col_map r' ''labels'')"
    using assms(5) wf_derived_labels [of r l] by (auto simp: r'_def labelsEqual_iff)
  have t: "col_text r' c = col_text r c" if "c \<in> {''id'', ''name'', ''namespace''}" for c
    using that by (auto simp: r'_def col_text_def)
  have u: "map_of (col_map r' ''labels'') k = map_of (col_map r ''labels'') k" if "\<not> apxy_key k" for k
    using map_of_derived_user [OF assms(5) that] m by simp
  have "map_of (fst (SplitUserAndApxyLabels (col_map r' ''labels''))) = map_of (fst (SplitUserAndApxyLabels (col_map r ''labels'')))"
    using u by (auto simp: fun_eq_iff SplitUserAndApxy_fst wf' assms(5))
  then have "map_of (derived_labels r' l) = map_of (derived_labels r l)"
    by (simp add: map_of_derived wf' assms(5) t)
  then have "labelsEqual (col_map r' ''labels'') (derived_labels r' l)"
    using m wf' wf_derived_labels by (simp add: labelsEqual_iff)
  with l f m u show ?thesis by (auto simp: map_of_derived [OF assms(5)])
qed

subsection \<open>Termination of the propagation\<close>

definition path_cols :: "row list \<Rightarrow> sql_value list" where
  "path_cols rs = map (\<lambda>r. r ''path'') rs"

lemma path_cols_update:
  "path_cols (update_rows like w [(''labels'', v), (''updated_at'', u)] rs) = path_cols rs"
  by (simp add: path_cols_def update_rows_def assign_def)

context sql_db
begin

lemma like_length:
  "\<forall>c \<in> set p. c \<noteq> CHR ''%'' \<and> c \<noteq> CHR 0x5C \<Longrightarrow> like (p @ pat) s \<Longrightarrow> \<exists>t. like pat t \<and> length s = length p + length t"
proof (induction p arbitrary: s)
  case (Cons c p)
  then obtain d t where "s = d # t" "like (p @ pat) t"
    using like_underscore [of "p @ pat" s] like_char [of c "p @ pat" s] by (cases "c = CHR ''_''") auto
  with Cons show ?case by auto
qed auto

lemma transaction_invariant:
  assumes "transaction ops db c0 fn = (db', c, e)" "P (rows db)"
    and "\<And>d x y. fn db = (d, x, y) \<Longrightarrow> P (rows d)"
  shows "P (rows db')"
proof (cases e)
  case (Some x)
  then show ?thesis using transaction_error [of db c0 fn db' c x] assms(1,2) by simp
next
  case None
  then have "transaction ops db c0 fn = (db', c, None)" using assms(1) by simp
  then obtain db1 where "fn db = (db1, c, None)" "rows db' = rows db1 \<or> rows db' = rows db"
    by (rule transaction_result)
  then show ?thesis using assms(2,3) by auto
qed

lemma write_keeps_paths:
  "writeRecomputedLabels ops now db t wh cur new = (db', c, e) \<Longrightarrow>
   path_cols (rows db' t') = path_cols (rows db t')"
  using update_ok [of db t _ wh db'] update_err [of db t _ wh db']
  by (auto simp: writeRecomputedLabels_def path_cols_update split: if_splits prod.splits sum.splits)

lemma recompute_namespaced_keeps_paths:
  assumes "recompute_namespaced ops now t db i = (db', c, e)"
  shows "path_cols (rows db' t') = path_cols (rows db t')"
  by (rule transaction_invariant [OF assms [unfolded recompute_namespaced_def],
        where P = "\<lambda>R. path_cols (R t') = path_cols (rows db t')"])
     (auto simp: Let_def dest: write_keeps_paths split: sum.splits option.splits prod.splits)

lemma recomputeConnection_keeps_paths:
  assumes "recomputeConnectionLabelsTx ops now db i = (db', c, e)"
  shows "path_cols (rows db' t') = path_cols (rows db t')"
  by (rule transaction_invariant [OF assms [unfolded recomputeConnectionLabelsTx_def],
        where P = "\<lambda>R. path_cols (R t') = path_cols (rows db t')"])
     (auto simp: Let_def dest: write_keeps_paths split: sum.splits option.splits prod.splits)

lemma recomputeNamespace_keeps_paths:
  assumes "recomputeNamespaceLabelsTx ops now db i = (db', c, e)"
  shows "path_cols (rows db' t') = path_cols (rows db t')"
  by (rule transaction_invariant [OF assms [unfolded recomputeNamespaceLabelsTx_def],
        where P = "\<lambda>R. path_cols (R t') = path_cols (rows db t')"])
     (auto simp: Let_def dest: write_keeps_paths split: sum.splits option.splits prod.splits if_splits)

lemma recompute_each_keeps_paths:
  assumes "\<And>db i db' c e. f db i = (db', c, e) \<Longrightarrow> path_cols (rows db' t') = path_cols (rows db t')"
  shows "recompute_each f db is = (db', e) \<Longrightarrow> path_cols (rows db' t') = path_cols (rows db t')"
proof (induction "is" arbitrary: db)
  case (Cons i "is")
  obtain d c x where d: "f db i = (d, c, x)" by (metis prod_cases3)
  with Cons assms [OF d] show ?case by (cases x) auto
qed simp

lemma refresh_in_namespace_keeps_paths:
  assumes "\<And>db i db' c e. f db i = (db', c, e) \<Longrightarrow> path_cols (rows db' t') = path_cols (rows db t')"
    and "refresh_in_namespace ops f t db ns = (db', e)"
  shows "path_cols (rows db' t') = path_cols (rows db t')"
  using assms(2) recompute_each_keeps_paths [of f t'] assms(1)
  by (auto simp: refresh_in_namespace_def split: sum.splits)

lemma refresh_namespaced_keeps_paths:
  "refresh_in_namespace ops (recompute_namespaced ops now tb) t db ns = (db', e) \<Longrightarrow>
   path_cols (rows db' t') = path_cols (rows db t')"
  by (rule refresh_in_namespace_keeps_paths) (rule recompute_namespaced_keeps_paths)

lemma refresh_connections_keeps_paths:
  "refreshConnectionsInNamespace ops now db ns = (db', e) \<Longrightarrow> path_cols (rows db' t') = path_cols (rows db t')"
  unfolding refreshConnectionsInNamespace_def
  by (rule refresh_in_namespace_keeps_paths) (rule recomputeConnection_keeps_paths)

lemma and_then_keeps_paths:
  assumes "and_then r f = (db', e)" "path_cols (rows (fst r) t') = path_cols (rows db t')"
    and "\<And>d d' e. f d = (d', e) \<Longrightarrow> path_cols (rows d' t') = path_cols (rows d t')"
  shows "path_cols (rows db' t') = path_cols (rows db t')"
  using assms by (cases r; cases "snd r") (auto simp: and_then_def)

lemma refresh_all_keeps_paths:
  assumes "and_then (and_then (and_then (and_then
            (refreshConnectionsInNamespace ops now db nsPath)
            (\<lambda>db. refreshActorsInNamespace ops now db nsPath))
            (\<lambda>db. refreshEncryptionKeysInNamespace ops now db nsPath))
            (\<lambda>db. refreshConnectorsInNamespace ops now db nsPath))
            (\<lambda>db. refreshRateLimitsInNamespace ops now db nsPath) = (db', e)"
  shows "path_cols (rows db' t') = path_cols (rows db t')"
proof -
  have a: "path_cols (rows (fst (and_then r f)) t') = path_cols (rows db t')"
    if "path_cols (rows (fst r) t') = path_cols (rows db t')"
      "\<And>d d' e. f d = (d', e) \<Longrightarrow> path_cols (rows d' t') = path_cols (rows d t')" for r f
    using and_then_keeps_paths [of r f "fst (and_then r f)" "snd (and_then r f)" t' db] that by simp
  have c: "path_cols (rows (fst (refreshConnectionsInNamespace ops now db nsPath)) t') = path_cols (rows db t')"
    using refresh_connections_keeps_paths by (metis prod.collapse)
  have n: "path_cols (rows d' t') = path_cols (rows d t')"
    if "refresh_in_namespace ops (recompute_namespaced ops now tb) tb d nsPath = (d', e)" for tb d d' e
    using refresh_namespaced_keeps_paths that .
  have "path_cols (rows (fst (db', e)) t') = path_cols (rows db t')"
    unfolding assms [symmetric] refreshActorsInNamespace_def refreshEncryptionKeysInNamespace_def
      refreshConnectorsInNamespace_def refreshRateLimitsInNamespace_def recomputeActorLabelsTx_def
      recomputeEncryptionKeyLabelsTx_def recomputeConnectorLabelsTx_def recomputeRateLimitLabelsTx_def
    by (intro a c; erule n)
  then show ?thesis by simp
qed

end

text \<open>The namespaces table holds valid paths of bounded length.\<close>

definition bounded_paths :: "nat \<Rightarrow> row list \<Rightarrow> bool" where
  "bounded_paths L rs \<longleftrightarrow> (\<forall>v \<in> set (path_cols rs). \<exists>p. v = VText p \<and> valid_path p \<and> length p \<le> L)"

lemma bounded_paths_cong: "path_cols rs = path_cols rs' \<Longrightarrow> bounded_paths L rs = bounded_paths L rs'"
  by (simp add: bounded_paths_def)

context sql_db
begin

lemma directChild_longer:
  assumes "directChildNamespacePaths ops db nsPath = Inr ps" "valid_path nsPath" "bounded_paths L (rows db NamespacesTable)"
    and "p \<in> set ps"
  shows "valid_path p \<and> length p \<le> L \<and> length nsPath < length p"
proof -
  obtain rs where rs: "sql_query ops db NamespacesTable
        [WLike ''path'' (nsPath @ PathSeparator @ ''%''),
         WEq ''depth'' (VInt (int (DepthOfPath nsPath + 1))), WEq ''deleted_at'' VNull] = Inr rs"
    "ps = map (\<lambda>r. col_text r ''path'') rs"
    using assms(1) by (auto simp: directChildNamespacePaths_def split: sum.splits)
  then obtain r where r: "r \<in> set rs" "p = col_text r ''path''" using assms(4) by auto
  then have m: "r \<in> set (rows db NamespacesTable)" "cond_matches like r (WLike ''path'' (nsPath @ PathSeparator @ ''%''))"
    using query_ok [OF rs(1)] by (auto simp: row_matches_def)
  then have "r ''path'' \<in> set (path_cols (rows db NamespacesTable))" by (auto simp: path_cols_def)
  then obtain q where q: "r ''path'' = VText q" "valid_path q" "length q \<le> L"
    using assms(3) by (auto simp: bounded_paths_def)
  then have "like ((nsPath @ ''.'') @ ''%'') q" using m(2) by (simp add: PathSeparator_def)
  then have "length nsPath < length q"
    using like_length [of "nsPath @ ''.''" "''%''" q] valid_path_like_chars [OF assms(2)] by auto
  with q r(2) show ?thesis by (simp add: col_text_def)
qed

lemma refresh_children_total:
  assumes "\<And>db i db' c e. rec db i = (db', c, e) \<Longrightarrow> bounded_paths L (rows db NamespacesTable) \<Longrightarrow>
      bounded_paths L (rows db' NamespacesTable)"
    and "\<And>db p. p \<in> set ps \<Longrightarrow> bounded_paths L (rows db NamespacesTable) \<Longrightarrow>
      \<exists>db' e. recur db p = Some (db', e) \<and> bounded_paths L (rows db' NamespacesTable)"
    and "bounded_paths L (rows db NamespacesTable)"
  shows "\<exists>db' e. refresh_children rec recur db ps = Some (db', e) \<and> bounded_paths L (rows db' NamespacesTable)"
  using assms(2,3)
proof (induction ps arbitrary: db)
  case (Cons p ps)
  obtain d c x where d: "rec db p = (d, c, x)" by (metis prod_cases3)
  with assms(1) Cons.prems(2) have b: "bounded_paths L (rows d NamespacesTable)" by blast
  show ?case
  proof (cases x)
    case None
    obtain d2 y where d2: "recur d p = Some (d2, y)" "bounded_paths L (rows d2 NamespacesTable)"
      using Cons.prems(1) [of p d] b by auto
    with Cons.IH [of d2] Cons.prems(1) d None show ?thesis by (cases y) auto
  qed (use d b in auto)
qed simp

lemma Refresh_total:
  "bounded_paths L (rows db NamespacesTable) \<Longrightarrow> valid_path nsPath \<Longrightarrow> L - length nsPath < fuel \<Longrightarrow>
   \<exists>db' e. RefreshNamespaceLabelsCarryForward fuel ops now db nsPath = Some (db', e) \<and>
     bounded_paths L (rows db' NamespacesTable)"
proof (induction fuel arbitrary: db nsPath)
  case (Suc fuel)
  obtain d x where d: "and_then (and_then (and_then (and_then
            (refreshConnectionsInNamespace ops now db nsPath)
            (\<lambda>db. refreshActorsInNamespace ops now db nsPath))
            (\<lambda>db. refreshEncryptionKeysInNamespace ops now db nsPath))
            (\<lambda>db. refreshConnectorsInNamespace ops now db nsPath))
            (\<lambda>db. refreshRateLimitsInNamespace ops now db nsPath) = (d, x)" by fastforce
  have b: "bounded_paths L (rows d NamespacesTable)"
    using bounded_paths_cong [OF refresh_all_keeps_paths [OF d]] Suc.prems(1) by simp
  show ?case
  proof (cases x)
    case None
    show ?thesis
    proof (cases "directChildNamespacePaths ops d nsPath")
      case (Inr ps)
      have "\<exists>db' e. refresh_children (recomputeNamespaceLabelsTx ops now)
          (RefreshNamespaceLabelsCarryForward fuel ops now) d ps = Some (db', e) \<and>
          bounded_paths L (rows db' NamespacesTable)"
      proof (rule refresh_children_total [OF _ _ b])
        show "bounded_paths L (rows db' NamespacesTable)"
          if "recomputeNamespaceLabelsTx ops now db i = (db', c, e)" "bounded_paths L (rows db NamespacesTable)"
          for db i db' c e
          using bounded_paths_cong [OF recomputeNamespace_keeps_paths [OF that(1)]] that(2) by simp
        show "\<exists>db' e. RefreshNamespaceLabelsCarryForward fuel ops now db p = Some (db', e) \<and>
            bounded_paths L (rows db' NamespacesTable)"
          if "p \<in> set ps" "bounded_paths L (rows db NamespacesTable)" for db p
          using directChild_longer [OF Inr Suc.prems(2) b that(1)] Suc.prems(3) Suc.IH [OF that(2)] by auto
      qed
      with d None Inr show ?thesis by simp
    qed (use d None b in simp)
  qed (use d b in simp)
qed simp

end

text \<open>
  Property C19. The propagation of a namespace's labels ends: when the namespaces table holds valid
  paths of length at most \<open>L\<close>, a recursion depth of \<open>L - length nsPath + 1\<close> is enough, because a
  direct child has a strictly longer path and no step changes a path.
\<close>

theorem RefreshNamespace_terminates:
  assumes "sql_db like ops rows" "bounded_paths L (rows db NamespacesTable)" "valid_path nsPath"
  shows "\<exists>db' e. RefreshNamespaceLabelsCarryForward (L - length nsPath + 1) ops now db nsPath = Some (db', e)"
  using sql_db.Refresh_total [OF assms, of "L - length nsPath + 1" now] by auto

subsection \<open>A concrete database\<close>

definition mk_row :: "(string \<times> sql_value) list \<Rightarrow> row" where
  "mk_row cols c = (case map_of cols c of Some v \<Rightarrow> v | None \<Rightarrow> VNull)"

text \<open>The root namespace after its label \<^verbatim>\<open>team\<close> was removed; a connector and a connection that still
  carry it, and the connector's provenance label.\<close>

definition sample_db :: mem_db where
  "sample_db = \<lparr>tables = (\<lambda>t.
       if t = NamespacesTable then
         [mk_row [(''path'', VText ''root''), (''depth'', VInt 0), (''labels'', VMap [(''apxy/ns/-/id'', ''root'')])]]
       else if t = ConnectorsTable then
         [mk_row [(''id'', VText ''cxr_1''), (''name'', VText ''crm''), (''namespace'', VText ''root''),
            (''labels'', VMap [(''type'', ''crm''), (''apxy/ns/team'', ''blue''), (''apxy/cxr/source'', ''config'')])]]
       else if t = ConnectionsTable then
         [mk_row [(''id'', VText ''cxn_1''), (''name'', VText ''c''), (''namespace'', VText ''root''),
            (''connector_id'', VText ''cxr_1''), (''labels'', VMap [(''apxy/ns/team'', ''blue'')])]]
       else []), fail_commit = False\<rparr>"

definition table_labels :: "mem_db \<Rightarrow> string \<Rightarrow> smap list" where
  "table_labels db t = map (\<lambda>r. col_map r ''labels'') (tables db t)"

theorem user_label_edits_keep_system_labels_witness:
  "\<exists>db' result ts. replaceUserLabelsInTableTx mem_ops 5 sample_db ConnectorsTable (live_id ''cxr_1'') [(''tier'', ''gold'')] =
       (db', Inr (result, ts)) \<and> map_of result ''apxy/ns/team'' = Some ''blue''"
proof -
  obtain db' x where e: "replaceUserLabelsInTableTx mem_ops 5 sample_db ConnectorsTable (live_id ''cxr_1'') [(''tier'', ''gold'')] =
      (db', x)" by fastforce
  have "snd (replaceUserLabelsInTableTx mem_ops 5 sample_db ConnectorsTable (live_id ''cxr_1'') [(''tier'', ''gold'')]) =
      Inr ([(''tier'', ''gold''), (''apxy/ns/team'', ''blue''), (''apxy/cxr/source'', ''config'')], 5)" by code_simp
  then obtain result ts where e: "replaceUserLabelsInTableTx mem_ops 5 sample_db ConnectorsTable (live_id ''cxr_1'')
      [(''tier'', ''gold'')] = (db', Inr (result, ts))" using e by auto
  have h: "\<forall>r \<in> set (tables sample_db ConnectorsTable). wf_map (col_map r ''labels'')" "wf_map [(''tier'', ''gold'')]"
    "\<forall>k \<in> set (keys [(''tier'', ''gold'')]). \<not> apxy_key k" "apxy_key ''apxy/ns/team''"
    "\<forall>r \<in> set (tables sample_db ConnectorsTable). map_of (col_map r ''labels'') ''apxy/ns/team'' = Some ''blue''"
    by code_simp+
  from user_label_edits_keep_system_labels [OF mem.sql_db_axioms h(1-3) _ disjI1 [OF conjI [OF refl refl]] e, of "[]"] h(4,5) e
  show ?thesis by auto
qed

theorem recompute_derives_labels_witness:
  "\<exists>db' r'. fst (recompute_namespaced mem_ops 5 ConnectorsTable sample_db ''cxr_1'') = db' \<and>
     filter (row_matches like_exec (live_id ''cxr_1'')) (tables db' ConnectorsTable) = [r'] \<and>
     map_of (col_map r' ''labels'') ''type'' = Some ''crm'' \<and>
     map_of (col_map r' ''labels'') ''apxy/cxr/source'' = None"
proof -
  let ?r = "hd (tables sample_db ConnectorsTable)"
  have "map_option (\<lambda>x. ()) (snd (snd (recompute_namespaced mem_ops 5 ConnectorsTable sample_db ''cxr_1''))) = None"
    by code_simp
  then obtain db' c where e: "recompute_namespaced mem_ops 5 ConnectorsTable sample_db ''cxr_1'' = (db', c, None)"
    by (metis map_option_is_None prod.collapse)
  have q: "sql_query_row mem_ops sample_db ConnectorsTable (live_id ''cxr_1'') = Inr (Some ?r)"
    "filter (row_matches like_exec (live_id ''cxr_1'')) (tables sample_db ConnectorsTable) = [?r]"
    by (simp_all add: sample_db_def mem_ops_def row_matches_def mk_row_def ConnectorsTable_def NamespacesTable_def)
  have h: "wf_map (col_map ?r ''labels'')"
    "fetchLabelsForCarryForward mem_ops sample_db NamespacesTable (live_path (col_text ?r ''namespace'')) =
       Inr [(''apxy/ns/-/id'', ''root'')]"
    "\<not> apxy_key ''type''" "map_of (col_map ?r ''labels'') ''type'' = Some ''crm''"
    "(map_of (BuildCarriedLabels NamespaceLabelToken [(''apxy/ns/-/id'', ''root'')]) ++
       map_of (fst (SplitUserAndApxyLabels (col_map ?r ''labels''))) ++
       map_of (BuildImplicitResourceLabels (col_text ?r ''id'') (col_text ?r ''name'') (col_text ?r ''namespace'')))
       ''apxy/cxr/source'' = None"
    by code_simp+
  have c: "\<And>db1. snd (sql_commit mem_ops sample_db db1) = None" by (simp add: mem_ops_def sample_db_def)
  from recompute_derives_labels [OF mem.sql_db_axioms e c q(2) h(1) q(1)] h(2-5) e show ?thesis by auto
qed

theorem RefreshNamespace_terminates_witness:
  "\<exists>db' e. RefreshNamespaceLabelsCarryForward 1 mem_ops 5 sample_db ''root'' = Some (db', e)"
proof -
  have h: "bounded_paths 4 (tables sample_db NamespacesTable)" "valid_path ''root''"
    by (auto simp: bounded_paths_def path_cols_def sample_db_def mk_row_def) code_simp+
  from RefreshNamespace_terminates [OF mem.sql_db_axioms h, of 5] show ?thesis by simp
qed

text \<open>
  The order of the propagation leaves stale labels behind: connections are re-derived
  before the connectors they inherit from. In the database above, where the root namespace has
  lost its label \<^verbatim>\<open>team\<close>, propagating from the root removes the carried label from the connector
  but the connection keeps it, copied from the connector's labels of before.
\<close>

theorem refresh_keeps_stale_label:
  "map_option (\<lambda>(db', e). (e, map (\<lambda>m. map_of m ''apxy/ns/team'') (table_labels db' ConnectorsTable),
       map (\<lambda>m. map_of m ''apxy/ns/team'') (table_labels db' ConnectionsTable)))
     (RefreshNamespaceLabelsCarryForward 1 mem_ops 5 sample_db ''root'') =
   Some (None, [None], [Some ''blue''])"
  by code_simp

end
