(* ===== verification/Pagination.thy ===== *)
theory Pagination
  imports Prelude "HOL-Library.Word"
begin

text \<open>
  Paged listing: the page fetching and enumeration loop that the list builders of
  \<^verbatim>\<open>internal/database\<close> share, here as \<^verbatim>\<open>listRateLimitsFilters\<close> of \<^verbatim>\<open>rate_limit.go\<close> has it, and
  \<^verbatim>\<open>internal/util/pagination\<close>. The query behind the builder and the
  encryption of a cursor are parameters. Counters are 64-bit words. The lemmas show that the loop
  ends for every callback and visits every row once when the database keeps its order between
  queries, and that it misses rows when it does not.
\<close>

subsection \<open>Pages\<close>

record 'a page_result =
  Results :: "'a list"
  HasMore :: bool
  Cursor :: string
  Error :: err

record list_filters =
  LimitVal :: "64 word"
  Offset :: "64 word"
  Errors :: "gerror list"

definition error_page :: "gerror \<Rightarrow> 'a page_result" where
  "error_page e = \<lparr>Results = [], HasMore = False, Cursor = [], Error = Some e\<rparr>"

text \<open>
  \<open>run l\<close> applies the restrictions of the builder \<open>l\<close>, which may change the builder, and runs the
  query; \<open>cursor l\<close> encrypts the builder's state.
\<close>

definition fetchPage ::
  "('m list_filters_scheme \<Rightarrow> 'm list_filters_scheme \<times> (gerror + 'a list)) \<Rightarrow> ('m list_filters_scheme \<Rightarrow> gerror + string) \<Rightarrow>
   'm list_filters_scheme \<Rightarrow> 'm list_filters_scheme \<times> 'a page_result" where
  "fetchPage run cursor l0 =
     (case ErrorOrNil (Errors l0) of
        Some e \<Rightarrow> (l0, error_page e)
      | None \<Rightarrow>
          (case run l0 of
             (l1, Inl e) \<Rightarrow> (l1, error_page e)
           | (l1, Inr results) \<Rightarrow>
               let n = of_nat (length results);
                   l2 = l1\<lparr>Offset := Offset l1 + n - 1\<rparr>;
                   hasMore = (n > LimitVal l2)
               in if hasMore then
                    (case cursor l2 of
                       Inl e \<Rightarrow> (l2, error_page e)
                     | Inr c \<Rightarrow> (l2, \<lparr>Results = take (unat (min (LimitVal l2) n)) results, HasMore = True, Cursor = c, Error = None\<rparr>))
                  else (l2, \<lparr>Results = take (unat (min (LimitVal l2) n)) results, HasMore = False, Cursor = [], Error = None\<rparr>)))"

text \<open>
  The enumeration loop. A callback sees a page and its own state and answers whether to continue,
  an error, and its new state. The loop may not end, so its value is an option.
\<close>

partial_function (option) Enumerate ::
  "('l \<Rightarrow> 'l \<times> 'a page_result) \<Rightarrow> ('a page_result \<Rightarrow> 's \<Rightarrow> (bool \<times> err) \<times> 's) \<Rightarrow> 'l \<Rightarrow> 's \<Rightarrow> (err \<times> 's) option" where
  "Enumerate fetch cb l s =
     (case fetch l of
        (l', page) \<Rightarrow>
          (case Error page of
             Some e \<Rightarrow> Some (Some e, s)
           | None \<Rightarrow>
               (case cb page s of
                  ((keepGoing, e), s') \<Rightarrow>
                    if e = None \<and> HasMore page \<and> keepGoing then Enumerate fetch cb l' s' else Some (e, s'))))"

text \<open>\<^verbatim>\<open>EnumerateThrottled\<close>: a callback per item, behind the wait of a limiter.\<close>

fun throttled_items :: "('s \<Rightarrow> err) option \<Rightarrow> ('a \<Rightarrow> 's \<Rightarrow> err \<times> 's) \<Rightarrow> 'a list \<Rightarrow> 's \<Rightarrow> (bool \<times> err) \<times> 's" where
  "throttled_items limiter cb [] s = ((True, None), s)"
| "throttled_items limiter cb (x # xs) s =
     (case (case limiter of None \<Rightarrow> None | Some wait \<Rightarrow> wait s) of
        Some e \<Rightarrow> ((False, Some e), s)
      | None \<Rightarrow>
          (case cb x s of
             (Some e, s') \<Rightarrow> ((False, Some e), s')
           | (None, s') \<Rightarrow> throttled_items limiter cb xs s'))"

definition EnumerateThrottled ::
  "(('a page_result \<Rightarrow> 's \<Rightarrow> (bool \<times> err) \<times> 's) \<Rightarrow> 's \<Rightarrow> (err \<times> 's) option) \<Rightarrow> ('s \<Rightarrow> err) option \<Rightarrow>
   ('a \<Rightarrow> 's \<Rightarrow> err \<times> 's) \<Rightarrow> 's \<Rightarrow> (err \<times> 's) option" where
  "EnumerateThrottled enum limiter cb s = enum (\<lambda>pr. throttled_items limiter cb (Results pr)) s"

subsection \<open>A database that keeps its order\<close>

definition stable_query :: "'a list \<Rightarrow> ('m list_filters_scheme \<Rightarrow> 'm list_filters_scheme \<times> (gerror + 'a list)) \<Rightarrow> bool" where
  "stable_query xs run \<longleftrightarrow>
     (\<forall>l. LimitVal l \<noteq> 0 \<longrightarrow> run l = (l, Inr (take (unat (LimitVal l + 1)) (drop (unat (Offset l)) xs))))"

definition collect :: "'a page_result \<Rightarrow> 'a list \<Rightarrow> (bool \<times> err) \<times> 'a list" where
  "collect page acc = ((True, None), acc @ Results page)"

lemma unat_Suc64: "unat x < 2 ^ 64 - 1 \<Longrightarrow> unat (x + 1 :: 64 word) = unat x + 1"
  by (simp add: unat_word_ariths unsigned_1 take_bit_eq_mod)

lemma of_nat_less64: "n < 2 ^ 64 \<Longrightarrow> unat (of_nat n :: 64 word) = n"
  by (simp add: unsigned_of_nat take_bit_nat_eq_self)

lemma fetchPage_stable:
  assumes q: "stable_query xs query" and len: "length xs < 2 ^ 64 - 1"
    and l: "LimitVal l = lim" "lim \<noteq> 0" "unat lim < 2 ^ 64 - 1" "Offset l = of_nat off" "off < 2 ^ 64" "Errors l = []"
    and cur: "\<forall>l. \<exists>c. cursor l = Inr c"
  shows "\<exists>l' c. fetchPage query cursor l =
      (l', \<lparr>Results = take (unat lim) (drop off xs), HasMore = (off + unat lim < length xs), Cursor = c, Error = None\<rparr>)
    \<and> LimitVal l' = lim \<and> Errors l' = []
    \<and> (off + unat lim < length xs \<longrightarrow> Offset l' = of_nat (off + unat lim))"
proof -
  define rs where "rs = take (unat lim + 1) (drop off xs)"
  define n where "n = (of_nat (length rs) :: 64 word)"
  let ?L = "unat lim"
  have q': "query l = (l, Inr rs)"
    using q unat_Suc64 [OF l(3)] of_nat_less64 [OF l(5)] l(1,2,4) by (simp add: stable_query_def rs_def)
  have len_rs: "length rs = min (?L + 1) (length xs - off)" by (simp add: rs_def)
  have n: "unat n = length rs" unfolding n_def by (rule of_nat_less64) (use len len_rs in simp)
  have more: "lim < n \<longleftrightarrow> off + ?L < length xs"
    unfolding word_less_nat_alt n len_rs by linarith
  have res: "take (unat (min lim n)) rs = take ?L (drop off xs)"
  proof (cases "lim < n")
    case True
    then show ?thesis by (simp add: min_def less_imp_le rs_def)
  next
    case False
    then have "min lim n = n" by (simp add: min_def)
    moreover have "length xs - off \<le> ?L" using False more by simp
    ultimately show ?thesis using n by (simp add: rs_def)
  qed
  have off: "Offset l + n - 1 = of_nat (off + ?L)" if "off + ?L < length xs"
  proof -
    have "length rs = ?L + 1" using that len_rs by linarith
    then show ?thesis using l(4) by (simp add: n_def algebra_simps)
  qed
  show ?thesis
  proof (cases "lim < n")
    case True
    obtain c where "cursor (l\<lparr>Offset := Offset l + n - 1\<rparr>) = Inr c" using cur by blast
    with True q' l res more off show ?thesis
      by (simp add: fetchPage_def Let_def ErrorOrNil_def n_def [symmetric])
  next
    case False
    with q' l res more show ?thesis by (simp add: fetchPage_def Let_def ErrorOrNil_def n_def [symmetric])
  qed
qed

lemma Enumerate_page:
  assumes "fetch l = (l', page)" "Error page = None"
  shows "Enumerate fetch cb l s =
    (case cb page s of
       ((keepGoing, e), s') \<Rightarrow>
         if e = None \<and> HasMore page \<and> keepGoing then Enumerate fetch cb l' s' else Some (e, s'))"
  using assms by (subst Enumerate.simps) simp

text \<open>The loop ends, whatever the callback does.\<close>

lemma Enumerate_returns:
  assumes q: "stable_query xs query" and len: "length xs < 2 ^ 64 - 1" and lim: "lim \<noteq> 0" "unat lim < 2 ^ 64 - 1"
    and cur: "\<forall>l. \<exists>c. cursor l = Inr c"
  shows "LimitVal l = lim \<Longrightarrow> Offset l = of_nat off \<Longrightarrow> off \<le> length xs \<Longrightarrow> Errors l = [] \<Longrightarrow>
    \<exists>r. Enumerate (fetchPage query cursor) cb l s = Some r"
proof (induction "length xs - off" arbitrary: l off s rule: less_induct)
  case less
  have "off < 2 ^ 64" using less.prems(3) len by simp
  from fetchPage_stable [OF q len less.prems(1) lim less.prems(2) this less.prems(4) cur]
  obtain l' c where f: "fetchPage query cursor l =
      (l', \<lparr>Results = take (unat lim) (drop off xs), HasMore = (off + unat lim < length xs), Cursor = c, Error = None\<rparr>)"
    "LimitVal l' = lim" "Errors l' = []" "off + unat lim < length xs \<longrightarrow> Offset l' = of_nat (off + unat lim)"
    by (elim exE conjE) (rule that)
  obtain k e s' where cb: "cb \<lparr>Results = take (unat lim) (drop off xs), HasMore = (off + unat lim < length xs), Cursor = c, Error = None\<rparr> s =
      ((k, e), s')" by (metis surj_pair)
  show ?case
  proof (cases "e = None \<and> off + unat lim < length xs \<and> k")
    case True
    have "0 < unat lim" using lim(1) by (simp add: unat_gt_0)
    with True have "length xs - (off + unat lim) < length xs - off" by linarith
    then have "\<exists>r. Enumerate (fetchPage query cursor) cb l' s' = Some r"
      using less.hyps [of "off + unat lim" l' s'] True f by simp
    with True cb show ?thesis by (simp add: Enumerate_page [where fetch = "fetchPage query cursor", OF f(1)])
  next
    case False
    with cb show ?thesis by (auto simp: Enumerate_page [where fetch = "fetchPage query cursor", OF f(1)])
  qed
qed

text \<open>A callback that appends the items of its page to its state ends with all of them.\<close>

definition appends :: "('a \<Rightarrow> 'b) \<Rightarrow> ('a page_result \<Rightarrow> 'b list \<Rightarrow> (bool \<times> err) \<times> 'b list) \<Rightarrow> bool" where
  "appends f cb \<longleftrightarrow> (\<forall>page acc. Error page = None \<longrightarrow> cb page acc = ((True, None), acc @ map f (Results page)))"

lemma Enumerate_appends:
  assumes q: "stable_query xs query" and len: "length xs < 2 ^ 64 - 1" and lim: "lim \<noteq> 0" "unat lim < 2 ^ 64 - 1"
    and cur: "\<forall>l. \<exists>c. cursor l = Inr c" and cb: "appends f cb"
  shows "LimitVal l = lim \<Longrightarrow> Offset l = of_nat off \<Longrightarrow> off \<le> length xs \<Longrightarrow> Errors l = [] \<Longrightarrow>
    Enumerate (fetchPage query cursor) cb l acc = Some (None, acc @ map f (drop off xs))"
proof (induction "length xs - off" arbitrary: l off acc rule: less_induct)
  case less
  have "off < 2 ^ 64" using less.prems(3) len by simp
  from fetchPage_stable [OF q len less.prems(1) lim less.prems(2) this less.prems(4) cur]
  obtain l' c where f: "fetchPage query cursor l =
      (l', \<lparr>Results = take (unat lim) (drop off xs), HasMore = (off + unat lim < length xs), Cursor = c, Error = None\<rparr>)"
    "LimitVal l' = lim" "Errors l' = []" "off + unat lim < length xs \<longrightarrow> Offset l' = of_nat (off + unat lim)"
    by (elim exE conjE) (rule that)
  have cb': "cb \<lparr>Results = rs, HasMore = h, Cursor = c, Error = None\<rparr> acc = ((True, None), acc @ map f rs)" for rs h c acc
    using cb by (simp add: appends_def)
  show ?case
  proof (cases "off + unat lim < length xs")
    case True
    have "0 < unat lim" using lim(1) by (simp add: unat_gt_0)
    with True have "length xs - (off + unat lim) < length xs - off" by linarith
    then have "Enumerate (fetchPage query cursor) cb l' (acc @ map f (take (unat lim) (drop off xs))) =
        Some (None, (acc @ map f (take (unat lim) (drop off xs))) @ map f (drop (off + unat lim) xs))"
      using less.hyps [of "off + unat lim" l'] True f by simp
    moreover have "take (unat lim) (drop off xs) @ drop (off + unat lim) xs = drop off xs"
      by (metis append_take_drop_id drop_drop add.commute)
    then have "map f (take (unat lim) (drop off xs)) @ map f (drop (off + unat lim) xs) = map f (drop off xs)"
      by (metis map_append)
    ultimately show ?thesis
      using True by (simp add: cb' Enumerate_page [where fetch = "fetchPage query cursor", OF f(1)] del: drop_map take_map)
  next
    case False
    then show ?thesis by (simp add: cb' Enumerate_page [where fetch = "fetchPage query cursor", OF f(1)])
  qed
qed

lemma appends_collect: "appends (\<lambda>x. x) collect"
  by (simp add: appends_def collect_def)

text \<open>
  A query without an order may list its rows differently each time. Here the second page is cut
  from another order than the first, and one of the three rows is never seen.
\<close>

lemma Enumerate_unordered_misses:
  "Enumerate (fetchPage (\<lambda>l. (l, Inr (take 3 (drop (unat (Offset l)) (if Offset l = 0 then ''abc'' else ''cab''))))) (\<lambda>_. Inr ''c''))
     collect (\<lparr>LimitVal = 2, Offset = 0, Errors = []\<rparr> :: list_filters) [] = Some (None, ''abb'')"
  by (simp add: Enumerate.simps fetchPage_def collect_def Let_def ErrorOrNil_def)

end
