(* ===== verification/Sql_Tables.thy ===== *)
theory Sql_Tables
  imports Label_Store Label_Selector Pagination "HOL-Library.Multiset"
begin

text \<open>
  Whole tables: inserting rows and listing them with the restrictions, the order and the page that
  the list builders of \<^verbatim>\<open>internal/database\<close> ask for, on top of the operations of \<open>Sql_Store\<close>; reading
  the columns of a row as \<^verbatim>\<open>database/sql\<close> scans them; and the lemmas by which an invariant on the rows
  of a table is kept by the operations of \<open>Label_Store\<close>.
\<close>

subsection \<open>Operations\<close>

record list_query =
  lq_where :: "sql_cond list"
  lq_namespaces :: "sq_cond list"
  lq_labels :: "json_cond list"
  lq_order :: "(string \<times> string) list"
  lq_limit :: nat
  lq_offset :: nat

record 'db sql_table_ops = "'db sql_ops" +
  sql_insert :: "'db \<Rightarrow> string \<Rightarrow> (string \<times> sql_value) list \<Rightarrow> 'db \<times> (gerror + (gerror + nat))"
  sql_select :: "'db \<Rightarrow> string \<Rightarrow> list_query \<Rightarrow> gerror + row list"

definition label_col :: "row \<Rightarrow> smap option" where
  "label_col r = (case r ''labels'' of VMap m \<Rightarrow> Some m | _ \<Rightarrow> None)"

definition row_selects :: "(string \<Rightarrow> string \<Rightarrow> bool) \<Rightarrow> json_fns \<Rightarrow> list_query \<Rightarrow> row \<Rightarrow> bool" where
  "row_selects like jf q r \<longleftrightarrow>
     row_matches like (lq_where q) r \<and> query_selects like (lq_namespaces q) (col_text r ''namespace'') \<and>
     row_selected jf (lq_labels q) (label_col r)"

text \<open>
  An insert that succeeds adds one row, whose other columns are NULL, and reports one row. A query
  answers with a page of the selected rows in some order, which may differ from query to query.
\<close>

locale sql_tables = sql_db like ops rows + json_functions jf
  for like :: "string \<Rightarrow> string \<Rightarrow> bool" and ops :: "('db, 'm) sql_table_ops_scheme" and rows :: "'db \<Rightarrow> string \<Rightarrow> row list" and jf :: json_fns +
  assumes insert_ok: "sql_insert ops db t cols = (db', Inr a) \<Longrightarrow>
      rows db' = (rows db)(t := rows db t @ [assign cols (\<lambda>_. VNull)]) \<and> (\<forall>n. a = Inr n \<longrightarrow> n = 1)"
    and insert_err: "sql_insert ops db t cols = (db', Inl e) \<Longrightarrow> rows db' = rows db"
    and select_ok: "sql_select ops db t q = Inr rs \<Longrightarrow>
      \<exists>p. mset p = mset (filter (row_selects like jf q) (rows db t)) \<and> rs = take (lq_limit q) (drop (lq_offset q) p)"

text \<open>The in-memory database.\<close>

definition mem_table_ops :: "mem_db sql_table_ops" where
  "mem_table_ops = sql_ops.extend mem_ops
     \<lparr>sql_insert = (\<lambda>db t cols. (db\<lparr>tables := (tables db)(t := tables db t @ [assign cols (\<lambda>_. VNull)])\<rparr>, Inr (Inr 1))),
      sql_select = (\<lambda>db t q. Inr (take (lq_limit q) (drop (lq_offset q) (filter (row_selects like_exec sample_json q) (tables db t)))))\<rparr>"

lemma mem_table_ops_simps [simp]:
  "sql_begin mem_table_ops = sql_begin mem_ops" "sql_query mem_table_ops = sql_query mem_ops"
  "sql_query_row mem_table_ops = sql_query_row mem_ops" "sql_update mem_table_ops = sql_update mem_ops"
  "sql_commit mem_table_ops = sql_commit mem_ops" "sql_rollback mem_table_ops = sql_rollback mem_ops"
  by (simp_all add: mem_table_ops_def sql_ops.defs)

lemma mem_table_ops_sql_db: "sql_db like_exec mem_table_ops tables"
  by unfold_locales
     (simp_all only: mem_table_ops_simps mem.query_ok mem.query_row_none mem.commit_ok mem.rollback mem.update_err,
      (erule mem.query_row_some mem.update_ok mem.commit_err)+)

lemma mem_insert:
  "sql_insert mem_table_ops db t cols = (db\<lparr>tables := (tables db)(t := tables db t @ [assign cols (\<lambda>_. VNull)])\<rparr>, Inr (Inr 1))"
  by (simp add: mem_table_ops_def sql_ops.defs)

lemma mem_select:
  "sql_select mem_table_ops db t q =
     Inr (take (lq_limit q) (drop (lq_offset q) (filter (row_selects like_exec sample_json q) (tables db t))))"
  by (simp add: mem_table_ops_def sql_ops.defs)

interpretation mem_tables: sql_tables like_exec mem_table_ops tables sample_json
proof -
  have "sql_tables_axioms like_exec mem_table_ops tables sample_json"
  proof
    fix db :: mem_db and t q rs
    assume "sql_select mem_table_ops db t q = Inr rs"
    then show "\<exists>p. mset p = mset (filter (row_selects like_exec sample_json q) (tables db t)) \<and> rs = take (lq_limit q) (drop (lq_offset q) p)"
      by (intro exI [of _ "filter (row_selects like_exec sample_json q) (tables db t)"]) (simp add: mem_select)
  qed (auto simp: mem_insert)
  then show "sql_tables like_exec mem_table_ops tables sample_json"
    by (intro sql_tables.intro mem_table_ops_sql_db db_json.json_functions_axioms)
qed

subsection \<open>Scanning columns\<close>

definition scan_text :: "sql_value \<Rightarrow> gerror + string" where
  "scan_text v = (case v of VText s \<Rightarrow> Inr s | _ \<Rightarrow> Inl (Err ''sql: Scan error: unsupported Scan into string''))"

definition scan_id :: "sql_value \<Rightarrow> gerror + string" where
  "scan_id v =
     (case v of VNull \<Rightarrow> Inr [] | VText s \<Rightarrow> Inr s | _ \<Rightarrow> Inl (Errf ''apid: cannot scan %T into ID'' []))"

definition scan_map :: "string \<Rightarrow> sql_value \<Rightarrow> gerror + smap" where
  "scan_map t v = (case v of VNull \<Rightarrow> Inr [] | VMap m \<Rightarrow> Inr m | _ \<Rightarrow> Inl (Errf ''cannot convert %T to %s'' [t]))"

definition scan_time :: "sql_value \<Rightarrow> gerror + int" where
  "scan_time v = (case v of VTime t \<Rightarrow> Inr t | _ \<Rightarrow> Inl (Err ''sql: Scan error: unsupported Scan into time.Time''))"

definition scan_time_ptr :: "sql_value \<Rightarrow> gerror + int option" where
  "scan_time_ptr v = (case v of VNull \<Rightarrow> Inr None | _ \<Rightarrow> result_bind (scan_time v) (\<lambda>t. Inr (Some t)))"

definition id_value :: "string \<Rightarrow> sql_value" where
  "id_value i = (if i = [] then VNull else VText i)"

definition time_ptr_value :: "int option \<Rightarrow> sql_value" where
  "time_ptr_value t = (case t of None \<Rightarrow> VNull | Some t \<Rightarrow> VTime t)"

fun scan_all :: "(row \<Rightarrow> gerror + 'a) \<Rightarrow> row list \<Rightarrow> gerror + 'a list" where
  "scan_all scan [] = Inr []"
| "scan_all scan (r # rs) = result_bind (scan r) (\<lambda>x. result_bind (scan_all scan rs) (\<lambda>xs. Inr (x # xs)))"

lemma scan_all_Inr: "scan_all scan rs = Inr xs \<longleftrightarrow> list_all2 (\<lambda>r x. scan r = Inr x) rs xs"
proof (induction rs arbitrary: xs)
  case (Cons r rs)
  show ?case
  proof (cases "scan r")
    case (Inr x)
    show ?thesis
    proof (cases "scan_all scan rs")
      case (Inl e)
      then show ?thesis using Cons [symmetric] \<open>scan r = Inr x\<close> by (simp add: list_all2_Cons1)
    next
      case (Inr ys)
      then show ?thesis using Cons [symmetric] \<open>scan r = Inr x\<close> by (cases xs) (auto simp: Cons [symmetric])
    qed
  qed (simp add: list_all2_Cons1)
qed auto

lemma scan_all_error: "r \<in> set rs \<Longrightarrow> scan r = Inl e \<Longrightarrow> \<exists>e'. scan_all scan rs = Inl e'"
proof (induction rs)
  case (Cons a rs)
  then show ?case by (cases "scan a"; cases "scan_all scan rs") auto
qed simp

lemma scan_all_total:
  "\<not> (\<exists>r \<in> set rs. isl (scan r)) \<Longrightarrow> \<exists>xs. scan_all scan rs = Inr xs \<and> map Inr xs = map scan rs"
proof (induction rs)
  case (Cons r rs)
  then obtain x xs where "scan r = Inr x" "scan_all scan rs = Inr xs" "map Inr xs = map scan rs"
    by (cases "scan r") auto
  then show ?case by (intro exI [of _ "x # xs"]) simp
qed simp

lemma scan_columns [simp]:
  "scan_id (id_value i) = Inr i" "scan_map t (map_value m) = Inr m" "scan_time_ptr (time_ptr_value d) = Inr d"
proof -
  show "scan_id (id_value i) = Inr i" by (simp add: scan_id_def id_value_def)
  show "scan_map t (map_value m) = Inr m" by (simp add: scan_map_def map_value_def)
  show "scan_time_ptr (time_ptr_value d) = Inr d" by (cases d) (simp_all add: scan_time_ptr_def time_ptr_value_def scan_time_def)
qed

subsection \<open>Invariants of rows\<close>

definition table_all :: "(row \<Rightarrow> bool) \<Rightarrow> string \<Rightarrow> (string \<Rightarrow> row list) \<Rightarrow> bool" where
  "table_all P t R \<longleftrightarrow> (\<forall>r \<in> set (R t). P r)"

definition reads_only :: "string set \<Rightarrow> (row \<Rightarrow> bool) \<Rightarrow> bool" where
  "reads_only C P \<longleftrightarrow> (\<forall>r r'. (\<forall>c \<in> C. r c = r' c) \<longrightarrow> P r = P r')"

definition keeps :: "(row \<Rightarrow> bool) \<Rightarrow> (string \<times> sql_value) list \<Rightarrow> bool" where
  "keeps P as \<longleftrightarrow> (\<forall>r. P r \<longrightarrow> P (assign as r))"

lemma assign_other: "c \<notin> fst ` set as \<Longrightarrow> assign as r c = r c"
  by (induction as arbitrary: r) (auto simp: assign_def)

lemma keeps_other: "reads_only C P \<Longrightarrow> C \<inter> fst ` set as = {} \<Longrightarrow> keeps P as"
proof -
  assume P: "reads_only C P" and disj: "C \<inter> fst ` set as = {}"
  have "\<forall>c \<in> C. r c = assign as r c" for r using disj assign_other [of _ as r] by fastforce
  then have "P r = P (assign as r)" for r using P unfolding reads_only_def by blast
  then show ?thesis by (simp add: keeps_def)
qed

lemma table_all_upd [simp]: "table_all P t (R(t' := rs)) = (if t = t' then (\<forall>r \<in> set rs. P r) else table_all P t R)"
  by (simp add: table_all_def)

context sql_db
begin

lemma update_table_all:
  assumes "table_all P t (rows db)" "t = t' \<Longrightarrow> keeps P as" "sql_update ops db t' as w = (db', x)"
  shows "table_all P t (rows db')"
proof (cases x)
  case (Inl e)
  with assms show ?thesis using update_err by simp
next
  case (Inr a)
  have "\<forall>r \<in> set (update_rows like w as (rows db t)). P r" if "t = t'"
    using assms(1,2) that by (auto simp: table_all_def update_rows_def keeps_def)
  with update_ok [OF assms(3) [unfolded Inr]] assms(1) show ?thesis by auto
qed

lemma update_checked_table_all:
  assumes "table_all P t (rows db)" "t = t' \<Longrightarrow> keeps P as" "update_checked ops db t' as w msg nr = (db', x)"
  shows "table_all P t (rows db')"
  using assms(3) update_table_all [OF assms(1,2)]
  by (auto simp: update_checked_def split: prod.splits sum.splits)

lemma update_checked_fst:
  assumes "table_all P t (rows db)" "t = t' \<Longrightarrow> keeps P as"
  shows "table_all P t (rows (fst (update_checked ops db t' as w msg nr)))"
  by (rule update_checked_table_all [OF assms]) (auto simp: prod_eq_iff)

text \<open>An invariant that reads neither labels nor annotations nor the time of the last update.\<close>

lemma edits_table_all:
  assumes inv: "table_all P t (rows db)" and P: "reads_only C P" "C \<inter> {''labels'', ''annotations'', ''updated_at''} = {}"
  shows "table_all P t (rows (fst (putLabelsInTableTx ops now db t' w m)))"
    and "table_all P t (rows (fst (deleteLabelsInTableTx ops now db t' w ks)))"
    and "table_all P t (rows (fst (replaceUserLabelsInTableTx ops now db t' w m)))"
    and "table_all P t (rows (fst (putAnnotationsInTableTx ops now db t' w m)))"
    and "table_all P t (rows (fst (deleteAnnotationsInTableTx ops now db t' w ks)))"
    and "table_all P t (rows (fst (updateAnnotationsInTableTx ops now db t' w m)))"
proof -
  have l: "keeps P [(''labels'', v), (''updated_at'', u)]" and a: "keeps P [(''annotations'', v), (''updated_at'', u)]" for v u
    by (rule keeps_other [OF P(1)]; use P(2) in auto)+
  note step = update_checked_fst [OF inv l] update_checked_fst [OF inv a]
  note defs = putLabelsInTableTx_def deleteLabelsInTableTx_def replaceUserLabelsInTableTx_def putAnnotationsInTableTx_def
    deleteAnnotationsInTableTx_def updateAnnotationsInTableTx_def
  show "table_all P t (rows (fst (putLabelsInTableTx ops now db t' w m)))"
    "table_all P t (rows (fst (deleteLabelsInTableTx ops now db t' w ks)))"
    "table_all P t (rows (fst (replaceUserLabelsInTableTx ops now db t' w m)))"
    "table_all P t (rows (fst (putAnnotationsInTableTx ops now db t' w m)))"
    "table_all P t (rows (fst (deleteAnnotationsInTableTx ops now db t' w ks)))"
    "table_all P t (rows (fst (updateAnnotationsInTableTx ops now db t' w m)))"
    unfolding defs by (simp_all add: Let_def case_prod_unfold inv step split: sum.split option.split)
qed

lemma transaction_table_all:
  assumes "table_all P t (rows db)" "table_all P t (rows (fst (fn db)))"
  shows "table_all P t (rows (fst (transaction ops db c0 fn)))"
proof -
  obtain db' c e where tx: "transaction ops db c0 fn = (db', c, e)" by (metis prod_cases3)
  show ?thesis
    unfolding tx fst_conv
    by (rule transaction_invariant [OF tx, where P = "table_all P t"]) (use assms in auto)
qed

lemma rename_table_all:
  assumes inv: "table_all P t (rows db)"
    and k: "\<And>v u. t = t' \<Longrightarrow> keeps P [(''name'', VText name), (''labels'', v), (''updated_at'', u)]"
  shows "table_all P t (rows (fst (updateResourceNameAndSelfLabels ops unique now db t' i name)))"
proof -
  have fst3: "fst (let (a, b, c) = x in (a, c)) = fst x" for x :: "'x \<times> 'y \<times> 'z" by (simp add: case_prod_unfold Let_def)
  show ?thesis
    unfolding updateResourceNameAndSelfLabels_def fst3
    by (rule transaction_table_all [OF inv])
       (auto simp: Let_def inv intro: update_table_all [OF inv k] split: sum.split option.split prod.split)
qed

end

end
