(* ===== verification/Rate_Schema.thy ===== *)
theory Rate_Schema
  imports Complex_Main Go_Text
begin

text \<open>
  The RateLimit resource definition and its validation
  (\<^verbatim>\<open>internal/schema/resources/rate_limit\<close>), with the validation context and the request types of
  \<^verbatim>\<open>internal/schema/common\<close>. Durations are in nanoseconds. The refill rate, a \<^verbatim>\<open>float64\<close>, is the
  rational number it denotes. \<^verbatim>\<open>regexp.Compile\<close> on an operator's pattern is the parameter
  \<open>compile\<close>, since the whole of Go's regular expression syntax is admitted there. The lemmas
  characterise what validation accepts.
\<close>

subsection \<open>Validation context\<close>

text \<open>
  A context is the path of the field under validation, and a \<^verbatim>\<open>ValidationError\<close> carries the path
  and the message.
\<close>

definition PushField :: "string \<Rightarrow> string \<Rightarrow> string" where
  "PushField vc field = (if length vc = 0 then field else vc @ ''.'' @ field)"

definition PushIndex :: "string \<Rightarrow> nat \<Rightarrow> string" where
  "PushIndex vc i = vc @ ''['' @ FormatUint i @ '']''"

definition NewError :: "string \<Rightarrow> string \<Rightarrow> gerror" where
  "NewError vc message = Errf ''%s: %s'' [vc, message]"

definition NewErrorf :: "string \<Rightarrow> string \<Rightarrow> string list \<Rightarrow> gerror" where
  "NewErrorf vc fmt args = Wrapf ''%s: %s'' [vc] (Errf fmt args)"

definition NewErrorForField :: "string \<Rightarrow> string \<Rightarrow> string \<Rightarrow> gerror" where
  "NewErrorForField vc field message = NewError (PushField vc field) message"

definition NewErrorfForField :: "string \<Rightarrow> string \<Rightarrow> string \<Rightarrow> string list \<Rightarrow> gerror" where
  "NewErrorfForField vc field fmt args = NewErrorf (PushField vc field) fmt args"

subsection \<open>Request types\<close>

definition AllRequestTypes :: "string list" where
  "AllRequestTypes = [''global'', ''proxy'', ''oauth'', ''public'', ''probe'']"

definition IsValidRequestType :: "string \<Rightarrow> bool" where
  "IsValidRequestType t \<longleftrightarrow>
     t = ''global'' \<or> t = ''proxy'' \<or> t = ''oauth'' \<or> t = ''public'' \<or> t = ''probe''"

definition RequestType_Validate :: "string \<Rightarrow> err" where
  "RequestType_Validate r =
     (if \<not> IsValidRequestType r then Some (Errf ''unknown request type %q'' [r]) else None)"

subsection \<open>Algorithms\<close>

definition IsValidSlidingWindowMode :: "string \<Rightarrow> bool" where
  "IsValidSlidingWindowMode m \<longleftrightarrow> m = ''log'' \<or> m = ''counter''"

record fixed_window =
  fw_window :: int
  fw_limit :: int

record sliding_window =
  sw_window :: int
  sw_limit :: int
  sw_mode :: string

record token_bucket =
  tb_capacity :: int
  tb_refill_rate :: rat

record algorithm =
  FixedWindow :: "fixed_window option"
  SlidingWindow :: "sliding_window option"
  TokenBucket :: "token_bucket option"

definition FixedWindow_Validate :: "fixed_window option \<Rightarrow> string \<Rightarrow> err" where
  "FixedWindow_Validate f vc =
     (case f of None \<Rightarrow> None
      | Some f \<Rightarrow> ErrorOrNil
          ((if fw_window f \<le> 0 then [NewErrorForField vc ''window'' ''must be positive''] else [])
           @ (if fw_limit f \<le> 0 then [NewErrorForField vc ''limit'' ''must be positive''] else [])))"

definition SlidingWindow_Validate :: "sliding_window option \<Rightarrow> string \<Rightarrow> err" where
  "SlidingWindow_Validate s vc =
     (case s of None \<Rightarrow> None
      | Some s \<Rightarrow> ErrorOrNil
          ((if sw_window s \<le> 0 then [NewErrorForField vc ''window'' ''must be positive''] else [])
           @ (if sw_limit s \<le> 0 then [NewErrorForField vc ''limit'' ''must be positive''] else [])
           @ (if \<not> IsValidSlidingWindowMode (sw_mode s)
              then [NewErrorfForField vc ''mode'' ''invalid mode %q (expected %q or %q)''
                      [sw_mode s, ''log'', ''counter'']]
              else [])))"

definition TokenBucket_Validate :: "token_bucket option \<Rightarrow> string \<Rightarrow> err" where
  "TokenBucket_Validate t vc =
     (case t of None \<Rightarrow> None
      | Some t \<Rightarrow> ErrorOrNil
          ((if tb_capacity t \<le> 0 then [NewErrorForField vc ''capacity'' ''must be positive''] else [])
           @ (if tb_refill_rate t \<le> 0 then [NewErrorForField vc ''refill_rate'' ''must be positive''] else [])))"

definition Algorithm_Validate :: "algorithm \<Rightarrow> string \<Rightarrow> err" where
  "Algorithm_Validate a vc =
     (let count = (if FixedWindow a \<noteq> None then 1 else 0)
                  + (if SlidingWindow a \<noteq> None then 1 else 0)
                  + (if TokenBucket a \<noteq> None then 1 else (0 :: nat));
          one_of = NewError vc ''exactly one of fixed_window, sliding_window, or token_bucket must be set''
      in ErrorOrNil
           (if count = 0 then [one_of]
            else if count = 1 then
              append_if
                (append_if
                  (append_if [] (FixedWindow_Validate (FixedWindow a) (PushField vc ''fixed_window'')))
                  (SlidingWindow_Validate (SlidingWindow a) (PushField vc ''sliding_window'')))
                (TokenBucket_Validate (TokenBucket a) (PushField vc ''token_bucket''))
            else [one_of]))"

subsection \<open>Buckets\<close>

definition reservedDimensions :: "string list" where
  "reservedDimensions =
     [''actor'', ''connection'', ''connector'', ''connector_version'', ''namespace'', ''method'']"

definition IsReservedDimension :: "string \<Rightarrow> bool" where
  "IsReservedDimension name \<longleftrightarrow> name \<in> set reservedDimensions"

definition LabelDimensionPrefix :: string where
  "LabelDimensionPrefix = ''labels/''"

text \<open>The loop over the dimensions, from index \<open>i\<close>, with the index of each name seen.\<close>

fun dimension_errors :: "string \<Rightarrow> (string \<times> nat) list \<Rightarrow> nat \<Rightarrow> string list \<Rightarrow> gerror list" where
  "dimension_errors vc seen i [] = []"
| "dimension_errors vc seen i (d # ds) =
     (let here = PushIndex (PushField vc ''dimensions'') i
      in if d = [] then NewError here ''must not be empty'' # dimension_errors vc seen (Suc i) ds
         else case map_of seen d of
           Some prev \<Rightarrow>
             NewErrorf here ''duplicate dimension %q (also at index %d)'' [d, FormatUint prev]
               # dimension_errors vc seen (Suc i) ds
         | None \<Rightarrow>
             (if IsReservedDimension d then []
              else if \<not> HasPrefix d LabelDimensionPrefix then
                [NewErrorf here ''must be a reserved name or %q-prefixed label reference, got %q''
                   [LabelDimensionPrefix, d]]
              else if TrimPrefix d LabelDimensionPrefix = [] then
                [NewErrorf here ''missing label key after %q in %q'' [LabelDimensionPrefix, d]]
              else []) @ dimension_errors vc ((d, i) # seen) (Suc i) ds)"

definition Bucket_Validate :: "string list \<Rightarrow> string \<Rightarrow> err" where
  "Bucket_Validate dimensions vc = ErrorOrNil (dimension_errors vc [] 0 dimensions)"

subsection \<open>Selectors\<close>

text \<open>
  A compiled regular expression is the predicate its \<^verbatim>\<open>MatchString\<close> computes.
\<close>

type_synonym compile = "string \<Rightarrow> gerror + (string \<Rightarrow> bool)"

definition DefaultRequestTypes :: "string list" where
  "DefaultRequestTypes = [''proxy'', ''probe'']"

definition IsValidPathMatchKind :: "string \<Rightarrow> bool" where
  "IsValidPathMatchKind k \<longleftrightarrow> k = ''prefix'' \<or> k = ''glob'' \<or> k = ''regex''"

record path_match =
  pm_kind :: string
  pm_value :: string

definition PathMatch_Validate :: "compile \<Rightarrow> path_match option \<Rightarrow> string \<Rightarrow> err" where
  "PathMatch_Validate compile p vc =
     (case p of None \<Rightarrow> None
      | Some p \<Rightarrow> ErrorOrNil
          ((if \<not> IsValidPathMatchKind (pm_kind p)
            then [NewErrorfForField vc ''kind'' ''invalid kind %q'' [pm_kind p]] else [])
           @ (if pm_value p = [] then [NewErrorForField vc ''value'' ''must not be empty'']
              else if pm_kind p = ''regex'' then
                (case compile (pm_value p) of
                   Inl e \<Rightarrow> [Wrapf ''%s: invalid regex: %s'' [PushField vc ''value''] e]
                 | Inr _ \<Rightarrow> [])
              else [])))"

text \<open>A nil list of request types is distinct from the empty list.\<close>

record rl_selector =
  sel_label_selector :: string
  sel_methods :: "string list"
  sel_path_match :: "path_match option"
  sel_request_types :: "string list option"

definition EffectiveRequestTypes :: "rl_selector \<Rightarrow> string list" where
  "EffectiveRequestTypes s =
     (case sel_request_types s of None \<Rightarrow> DefaultRequestTypes | Some ts \<Rightarrow> ts)"

definition validHTTPMethods :: "string list" where
  "validHTTPMethods =
     [''GET'', ''HEAD'', ''POST'', ''PUT'', ''PATCH'', ''DELETE'', ''OPTIONS'', ''CONNECT'', ''TRACE'']"

text \<open>A loop that reports, with its index, every element that fails a check.\<close>

fun index_errors :: "string \<Rightarrow> (string \<Rightarrow> bool) \<Rightarrow> string \<Rightarrow> nat \<Rightarrow> string list \<Rightarrow> gerror list" where
  "index_errors vc ok fmt i [] = []"
| "index_errors vc ok fmt i (x # xs) =
     (if ok x then [] else [NewErrorf (PushIndex vc i) fmt [x]]) @ index_errors vc ok fmt (Suc i) xs"

definition Selector_Validate :: "compile \<Rightarrow> rl_selector \<Rightarrow> string \<Rightarrow> err" where
  "Selector_Validate compile s vc =
     (let r1 = index_errors (PushField vc ''methods'') (\<lambda>m. m \<in> set validHTTPMethods)
                 ''unknown HTTP method %q'' 0 (sel_methods s);
          r2 = append_if r1 (PathMatch_Validate compile (sel_path_match s) (PushField vc ''path_match''));
          r3 = (case sel_request_types s of
                  Some [] \<Rightarrow> r2 @ [NewErrorForField vc ''request_types''
                     ''must not be an empty list; omit the field to use the default'']
                | _ \<Rightarrow> r2);
          r4 = r3 @ index_errors (PushField vc ''request_types'') IsValidRequestType
                 ''unknown request type %q'' 0
                 (case sel_request_types s of None \<Rightarrow> [] | Some ts \<Rightarrow> ts)
      in ErrorOrNil r4)"

subsection \<open>The resource\<close>

definition IsValidMode :: "string \<Rightarrow> bool" where
  "IsValidMode m \<longleftrightarrow> m = ''enforce'' \<or> m = ''observe''"

definition DefaultMode :: string where "DefaultMode = ''enforce''"

record rl_definition =
  rl_mode :: string
  rl_selector :: rl_selector
  rl_dimensions :: "string list"
  rl_algorithm :: algorithm

definition EffectiveMode :: "rl_definition \<Rightarrow> string" where
  "EffectiveMode r = (if rl_mode r = [] then DefaultMode else rl_mode r)"

definition RateLimit_validate :: "compile \<Rightarrow> rl_definition \<Rightarrow> string \<Rightarrow> err" where
  "RateLimit_validate compile r vc =
     (let e1 = (if rl_mode r \<noteq> [] \<and> \<not> IsValidMode (rl_mode r)
                then [NewErrorfForField vc ''mode'' ''invalid mode %q'' [rl_mode r]] else []);
          e2 = append_if e1 (Selector_Validate compile (rl_selector r) (PushField vc ''selector''));
          e3 = append_if e2 (Bucket_Validate (rl_dimensions r) (PushField vc ''bucket''));
          e4 = append_if e3 (Algorithm_Validate (rl_algorithm r) (PushField vc ''algorithm''))
      in ErrorOrNil e4)"

definition RateLimit_Validate :: "compile \<Rightarrow> rl_definition \<Rightarrow> err" where
  "RateLimit_Validate compile r = RateLimit_validate compile r []"

subsection \<open>What validation accepts\<close>

definition valid_dimension :: "string \<Rightarrow> bool" where
  "valid_dimension d \<longleftrightarrow> IsReservedDimension d \<or> (\<exists>k. k \<noteq> [] \<and> d = LabelDimensionPrefix @ k)"

fun valid_algorithm :: "algorithm \<Rightarrow> bool" where
  "valid_algorithm a \<longleftrightarrow>
     (case (FixedWindow a, SlidingWindow a, TokenBucket a) of
        (Some f, None, None) \<Rightarrow> 0 < fw_window f \<and> 0 < fw_limit f
      | (None, Some s, None) \<Rightarrow>
          0 < sw_window s \<and> 0 < sw_limit s \<and> (sw_mode s = ''log'' \<or> sw_mode s = ''counter'')
      | (None, None, Some t) \<Rightarrow> 0 < tb_capacity t \<and> 0 < tb_refill_rate t
      | _ \<Rightarrow> False)"

definition valid_path_match :: "compile \<Rightarrow> path_match \<Rightarrow> bool" where
  "valid_path_match compile p \<longleftrightarrow>
     IsValidPathMatchKind (pm_kind p) \<and> pm_value p \<noteq> []
     \<and> (pm_kind p = ''regex'' \<longrightarrow> \<not> isl (compile (pm_value p)))"

text \<open>Every validator returns \<^verbatim>\<open>nil\<close> or a multierror that is not empty.\<close>

definition multi_or_nil :: "err \<Rightarrow> bool" where
  "multi_or_nil e \<longleftrightarrow> (\<exists>xs. e = ErrorOrNil xs)"

lemma append_if_Nil: "multi_or_nil e \<Longrightarrow> append_if es e = [] \<longleftrightarrow> es = [] \<and> e = None"
  by (auto simp: multi_or_nil_def append_if_ErrorOrNil)

lemma multi_or_nil_simps [simp]: "multi_or_nil None" "multi_or_nil (ErrorOrNil xs)"
  by (auto simp: multi_or_nil_def ErrorOrNil_def intro: exI [of _ "[]"])

lemma index_errors_Nil: "index_errors vc ok fmt i xs = [] \<longleftrightarrow> (\<forall>x \<in> set xs. ok x)"
  by (induction xs arbitrary: i) auto

lemma prefixed_iff: "(\<exists>k. k \<noteq> [] \<and> d = p @ k) \<longleftrightarrow> HasPrefix d p \<and> TrimPrefix d p \<noteq> []"
  by (auto simp: HasPrefix_iff)

lemma valid_dimension_iff:
  "valid_dimension d \<longleftrightarrow>
   d \<noteq> [] \<and> (IsReservedDimension d \<or> HasPrefix d LabelDimensionPrefix \<and> TrimPrefix d LabelDimensionPrefix \<noteq> [])"
proof -
  have "\<not> IsReservedDimension []" by (simp add: IsReservedDimension_def reservedDimensions_def)
  moreover have "\<not> HasPrefix [] LabelDimensionPrefix" by (simp add: HasPrefix_def LabelDimensionPrefix_def)
  ultimately show ?thesis
    unfolding valid_dimension_def prefixed_iff by (cases d) simp_all
qed

lemma dimension_errors_Nil:
  "dimension_errors vc seen i ds = [] \<longleftrightarrow>
   (\<forall>d \<in> set ds. valid_dimension d) \<and> distinct ds \<and> set ds \<inter> fst ` set seen = {}"
proof (induction ds arbitrary: seen i)
  case (Cons d ds)
  show ?case
  proof (cases "map_of seen d")
    case None
    then have "d \<notin> fst ` set seen" by (simp add: map_of_eq_None_iff)
    with None Cons show ?thesis
      by (auto simp: Let_def valid_dimension_iff [of d])
  next
    case (Some prev)
    then have "d \<in> fst ` set seen" by (metis fst_conv image_eqI map_of_SomeD)
    with Some show ?thesis by (auto simp: Let_def)
  qed
qed simp

lemma Bucket_Validate_None:
  "Bucket_Validate ds vc = None \<longleftrightarrow> (\<forall>d \<in> set ds. valid_dimension d) \<and> distinct ds"
  by (simp add: Bucket_Validate_def dimension_errors_Nil)

lemma FixedWindow_Validate_None:
  "FixedWindow_Validate f vc = None \<longleftrightarrow> (\<forall>x. f = Some x \<longrightarrow> 0 < fw_window x \<and> 0 < fw_limit x)"
  by (cases f) (auto simp: FixedWindow_Validate_def)

lemma SlidingWindow_Validate_None:
  "SlidingWindow_Validate s vc = None \<longleftrightarrow>
   (\<forall>x. s = Some x \<longrightarrow> 0 < sw_window x \<and> 0 < sw_limit x \<and> IsValidSlidingWindowMode (sw_mode x))"
  by (cases s) (auto simp: SlidingWindow_Validate_def)

lemma TokenBucket_Validate_None:
  "TokenBucket_Validate t vc = None \<longleftrightarrow> (\<forall>x. t = Some x \<longrightarrow> 0 < tb_capacity x \<and> 0 < tb_refill_rate x)"
  by (cases t) (auto simp: TokenBucket_Validate_def)

lemma validate_multi [simp]:
  "multi_or_nil (FixedWindow_Validate f vc)"
  "multi_or_nil (SlidingWindow_Validate s vc)"
  "multi_or_nil (TokenBucket_Validate t vc)"
  "multi_or_nil (PathMatch_Validate c p vc)"
  by (simp_all add: FixedWindow_Validate_def SlidingWindow_Validate_def TokenBucket_Validate_def
      PathMatch_Validate_def split: option.split)

lemma validate_multi_parts [simp]:
  "multi_or_nil (Algorithm_Validate a vc)"
  "multi_or_nil (Bucket_Validate ds vc)"
  "multi_or_nil (Selector_Validate c sel vc)"
  unfolding Algorithm_Validate_def Bucket_Validate_def Selector_Validate_def Let_def
  by (rule multi_or_nil_simps)+

lemma Algorithm_Validate_None: "Algorithm_Validate a vc = None \<longleftrightarrow> valid_algorithm a"
proof -
  have one: "append_if (append_if (append_if [] (FixedWindow_Validate f v1))
      (SlidingWindow_Validate s v2)) (TokenBucket_Validate t v3) = [] \<longleftrightarrow>
    FixedWindow_Validate f v1 = None \<and> SlidingWindow_Validate s v2 = None \<and> TokenBucket_Validate t v3 = None"
    for f s t v1 v2 v3
    by (simp add: append_if_Nil)
  show ?thesis
    unfolding Algorithm_Validate_def Let_def
    by (cases "FixedWindow a"; cases "SlidingWindow a"; cases "TokenBucket a")
      (simp_all add: one FixedWindow_Validate_None SlidingWindow_Validate_None
        TokenBucket_Validate_None IsValidSlidingWindowMode_def del: append_if_None)
qed

lemma PathMatch_Validate_None:
  "PathMatch_Validate c p vc = None \<longleftrightarrow> (\<forall>x. p = Some x \<longrightarrow> valid_path_match c x)"
  by (cases p) (auto simp: PathMatch_Validate_def valid_path_match_def split: sum.splits)

lemma Selector_Validate_None:
  "Selector_Validate c s vc = None \<longleftrightarrow>
     set (sel_methods s) \<subseteq> set validHTTPMethods
     \<and> (\<forall>p. sel_path_match s = Some p \<longrightarrow> valid_path_match c p)
     \<and> EffectiveRequestTypes s \<noteq> [] \<and> set (EffectiveRequestTypes s) \<subseteq> set AllRequestTypes"
proof -
  have "IsValidRequestType t \<longleftrightarrow> t \<in> set AllRequestTypes" for t
    by (simp add: AllRequestTypes_def IsValidRequestType_def)
  then have types: "set ts \<subseteq> set AllRequestTypes \<longleftrightarrow> (\<forall>t \<in> set ts. IsValidRequestType t)" for ts
    by blast
  have default: "\<forall>t \<in> set DefaultRequestTypes. IsValidRequestType t" "DefaultRequestTypes \<noteq> []"
    by (simp_all add: DefaultRequestTypes_def IsValidRequestType_def)
  have path: "append_if es (PathMatch_Validate c p v) = [] \<longleftrightarrow>
      es = [] \<and> (\<forall>x. p = Some x \<longrightarrow> valid_path_match c x)" for es p v
    by (simp add: append_if_Nil PathMatch_Validate_None)
  have methods: "set (sel_methods s) \<subseteq> set validHTTPMethods \<longleftrightarrow>
      (\<forall>m \<in> set (sel_methods s). m \<in> set validHTTPMethods)" by blast
  consider (none) "sel_request_types s = None" | (empty) "sel_request_types s = Some []"
    | (some) t ts where "sel_request_types s = Some (t # ts)"
    by (metis list.exhaust option.exhaust)
  then show ?thesis
    unfolding Selector_Validate_def Let_def EffectiveRequestTypes_def types methods
    by cases (simp_all add: path index_errors_Nil default)
qed

lemma RateLimit_Validate_None:
  "RateLimit_Validate compile r = None \<longleftrightarrow>
     rl_mode r \<in> {[], ''enforce'', ''observe''}
     \<and> set (sel_methods (rl_selector r)) \<subseteq> set validHTTPMethods
     \<and> (case sel_path_match (rl_selector r) of None \<Rightarrow> True | Some p \<Rightarrow> valid_path_match compile p)
     \<and> EffectiveRequestTypes (rl_selector r) \<noteq> []
     \<and> set (EffectiveRequestTypes (rl_selector r)) \<subseteq> set AllRequestTypes
     \<and> list_all valid_dimension (rl_dimensions r) \<and> distinct (rl_dimensions r)
     \<and> valid_algorithm (rl_algorithm r)"
proof -
  have mode: "(if rl_mode r \<noteq> [] \<and> \<not> IsValidMode (rl_mode r) then [e] else []) = [] \<longleftrightarrow>
      rl_mode r \<in> {[], ''enforce'', ''observe''}" for e :: gerror
    by (simp add: IsValidMode_def)
  have path: "(\<forall>p. sel_path_match (rl_selector r) = Some p \<longrightarrow> valid_path_match compile p) \<longleftrightarrow>
      (case sel_path_match (rl_selector r) of None \<Rightarrow> True | Some p \<Rightarrow> valid_path_match compile p)"
    by (simp split: option.splits)
  show ?thesis
    unfolding RateLimit_Validate_def RateLimit_validate_def Let_def
    by (simp only: ErrorOrNil_None append_if_Nil validate_multi_parts mode
        Selector_Validate_None Bucket_Validate_None Algorithm_Validate_None path list_all_iff conj_assoc)
qed

text \<open>
  Validation of a rate limit accepts exactly the definitions whose mode is unset or
  known, whose methods and request types are known and the latter not an explicit empty list,
  whose path clause has a known kind, a value and, for a regular expression, one that compiles,
  whose bucket dimensions are distinct and each a reserved name or a label reference with a key,
  and that set exactly one algorithm, with positive parameters.
\<close>

theorem RateLimit_Validate_exact:
  "RateLimit_Validate compile r = None \<longleftrightarrow>
     rl_mode r \<in> {[], ''enforce'', ''observe''}
     \<and> set (sel_methods (rl_selector r)) \<subseteq> set validHTTPMethods
     \<and> (case sel_path_match (rl_selector r) of None \<Rightarrow> True | Some p \<Rightarrow> valid_path_match compile p)
     \<and> EffectiveRequestTypes (rl_selector r) \<noteq> []
     \<and> set (EffectiveRequestTypes (rl_selector r)) \<subseteq> set AllRequestTypes
     \<and> list_all valid_dimension (rl_dimensions r) \<and> distinct (rl_dimensions r)
     \<and> valid_algorithm (rl_algorithm r)"
  by (rule RateLimit_Validate_None)

end
