(* ===== verification/Rate_Json.thy ===== *)
theory Rate_Json
  imports Json Rate_Schema
begin

text \<open>
  The JSON form of a rate limit definition: the struct tags of
  \<^verbatim>\<open>internal/schema/resources/rate_limit\<close> and the column codec \<^verbatim>\<open>rateLimitDefDB\<close> of
  \<^verbatim>\<open>internal/database/rate_limit.go\<close>. The lemmas show which definitions are read back as they were
  written.
\<close>

subsection \<open>Writing\<close>

definition duration_json :: "int \<Rightarrow> json" where
  "duration_json d = JStr (Duration_String d)"

definition FixedWindow_json :: "fixed_window \<Rightarrow> json" where
  "FixedWindow_json f = JObj [(''window'', duration_json (fw_window f)), (''limit'', JNum (of_int (fw_limit f)))]"

definition SlidingWindow_json :: "sliding_window \<Rightarrow> json" where
  "SlidingWindow_json s =
     JObj [(''window'', duration_json (sw_window s)), (''limit'', JNum (of_int (sw_limit s))), (''mode'', JStr (sw_mode s))]"

definition TokenBucket_json :: "token_bucket \<Rightarrow> json" where
  "TokenBucket_json t = JObj [(''capacity'', JNum (of_int (tb_capacity t))), (''refillRate'', JNum (tb_refill_rate t))]"

definition Algorithm_json :: "algorithm \<Rightarrow> json" where
  "Algorithm_json a = JObj
     (omit_pointer ''fixedWindow'' FixedWindow_json (FixedWindow a)
      @ omit_pointer ''slidingWindow'' SlidingWindow_json (SlidingWindow a)
      @ omit_pointer ''tokenBucket'' TokenBucket_json (TokenBucket a))"

definition PathMatch_json :: "path_match \<Rightarrow> json" where
  "PathMatch_json p = JObj [(''kind'', JStr (pm_kind p)), (''value'', JStr (pm_value p))]"

definition Selector_json :: "rl_selector \<Rightarrow> json" where
  "Selector_json s = JObj
     (omit_string ''labelSelector'' (sel_label_selector s)
      @ omit_strings ''methods'' (sel_methods s)
      @ omit_pointer ''pathMatch'' PathMatch_json (sel_path_match s)
      @ omit_strings ''requestTypes'' (case sel_request_types s of None \<Rightarrow> [] | Some ts \<Rightarrow> ts))"

definition RateLimit_json :: "rl_definition \<Rightarrow> json" where
  "RateLimit_json r = JObj
     (omit_string ''mode'' (rl_mode r)
      @ [(''selector'', Selector_json (rl_selector r)),
         (''bucket'', JObj (omit_strings ''dimensions'' (rl_dimensions r))),
         (''algorithm'', Algorithm_json (rl_algorithm r))])"

subsection \<open>Reading\<close>

definition FixedWindow_of_json :: "json \<Rightarrow> gerror + fixed_window" where
  "FixedWindow_of_json j =
     result_bind (json_duration (json_field j ''window'')) (\<lambda>w.
     result_bind (json_int (json_field j ''limit'')) (\<lambda>l. Inr \<lparr>fw_window = w, fw_limit = l\<rparr>))"

definition SlidingWindow_of_json :: "json \<Rightarrow> gerror + sliding_window" where
  "SlidingWindow_of_json j =
     result_bind (json_duration (json_field j ''window'')) (\<lambda>w.
     result_bind (json_int (json_field j ''limit'')) (\<lambda>l.
     result_bind (json_string (json_field j ''mode'')) (\<lambda>m. Inr \<lparr>sw_window = w, sw_limit = l, sw_mode = m\<rparr>)))"

definition TokenBucket_of_json :: "json \<Rightarrow> gerror + token_bucket" where
  "TokenBucket_of_json j =
     result_bind (json_int (json_field j ''capacity'')) (\<lambda>c.
     result_bind (json_float (json_field j ''refillRate'')) (\<lambda>r. Inr \<lparr>tb_capacity = c, tb_refill_rate = r\<rparr>))"

definition Algorithm_of_json :: "json \<Rightarrow> gerror + algorithm" where
  "Algorithm_of_json j =
     result_bind (json_pointer FixedWindow_of_json (json_field j ''fixedWindow'')) (\<lambda>f.
     result_bind (json_pointer SlidingWindow_of_json (json_field j ''slidingWindow'')) (\<lambda>s.
     result_bind (json_pointer TokenBucket_of_json (json_field j ''tokenBucket'')) (\<lambda>t.
       Inr \<lparr>FixedWindow = f, SlidingWindow = s, TokenBucket = t\<rparr>)))"

definition PathMatch_of_json :: "json \<Rightarrow> gerror + path_match" where
  "PathMatch_of_json j =
     result_bind (json_string (json_field j ''kind'')) (\<lambda>k.
     result_bind (json_string (json_field j ''value'')) (\<lambda>v. Inr \<lparr>pm_kind = k, pm_value = v\<rparr>))"

definition slice :: "'a list option \<Rightarrow> 'a list" where
  "slice s = (case s of None \<Rightarrow> [] | Some xs \<Rightarrow> xs)"

definition Selector_of_json :: "json \<Rightarrow> gerror + rl_selector" where
  "Selector_of_json j =
     result_bind (json_string (json_field j ''labelSelector'')) (\<lambda>l.
     result_bind (json_strings (json_field j ''methods'')) (\<lambda>ms.
     result_bind (json_pointer PathMatch_of_json (json_field j ''pathMatch'')) (\<lambda>p.
     result_bind (json_strings (json_field j ''requestTypes'')) (\<lambda>ts.
       Inr \<lparr>sel_label_selector = l, sel_methods = slice ms, sel_path_match = p, sel_request_types = ts\<rparr>))))"

definition Bucket_of_json :: "json \<Rightarrow> gerror + string list" where
  "Bucket_of_json j = result_bind (json_strings (json_field j ''dimensions'')) (\<lambda>ds. Inr (slice ds))"

definition RateLimit_of_json :: "json \<Rightarrow> gerror + rl_definition" where
  "RateLimit_of_json j =
     result_bind (json_string (json_field j ''mode'')) (\<lambda>m.
     result_bind (json_struct Selector_of_json (json_field j ''selector'')) (\<lambda>s.
     result_bind (json_struct Bucket_of_json (json_field j ''bucket'')) (\<lambda>b.
     result_bind (json_struct Algorithm_of_json (json_field j ''algorithm'')) (\<lambda>a.
       Inr \<lparr>rl_mode = m, rl_selector = s, rl_dimensions = b, rl_algorithm = a\<rparr>))))"

subsection \<open>Round trip\<close>

text \<open>The values a Go definition can have: 64-bit integers and finite doubles.\<close>

definition int64_range :: "int \<Rightarrow> bool" where
  "int64_range i \<longleftrightarrow> - (2 ^ 63) \<le> i \<and> i < 2 ^ 63"

definition go_algorithm :: "algorithm \<Rightarrow> bool" where
  "go_algorithm a \<longleftrightarrow>
     (case FixedWindow a of None \<Rightarrow> True | Some f \<Rightarrow> int64_range (fw_window f) \<and> int64_range (fw_limit f)) \<and>
     (case SlidingWindow a of None \<Rightarrow> True | Some s \<Rightarrow> int64_range (sw_window s) \<and> int64_range (sw_limit s)) \<and>
     (case TokenBucket a of None \<Rightarrow> True | Some t \<Rightarrow> int64_range (tb_capacity t) \<and> to_f64 (tb_refill_rate t) = Fin (tb_refill_rate t))"

text \<open>The definitions whose windows can be read back.\<close>

definition readable :: "rl_definition \<Rightarrow> bool" where
  "readable d \<longleftrightarrow>
     (case FixedWindow (rl_algorithm d) of None \<Rightarrow> True | Some f \<Rightarrow> whole (fw_window f)) \<and>
     (case SlidingWindow (rl_algorithm d) of None \<Rightarrow> True | Some s \<Rightarrow> whole (sw_window s))"

lemma json_duration_written:
  assumes "int64_range d"
  shows "whole d \<Longrightarrow> json_duration (Some (duration_json d)) = Inr d"
    and "\<not> whole d \<Longrightarrow> \<exists>e. json_duration (Some (duration_json d)) = Inl e"
  using HumanDuration_reread [of d] assms
  by (auto simp: json_duration_def duration_json_def int64_range_def HumanDuration_MarshalJSON_def)

lemma FixedWindow_written:
  assumes "int64_range (fw_window f)" "int64_range (fw_limit f)"
  shows "whole (fw_window f) \<Longrightarrow> json_pointer FixedWindow_of_json (Some (FixedWindow_json f)) = Inr (Some f)"
    and "\<not> whole (fw_window f) \<Longrightarrow> \<exists>e. json_pointer FixedWindow_of_json (Some (FixedWindow_json f)) = Inl e"
  using json_duration_written [OF assms(1)] json_int_of_int [of "fw_limit f"] assms(2)
  by (auto simp: json_pointer_def json_struct_def FixedWindow_json_def FixedWindow_of_json_def json_field_def int64_range_def)

lemma SlidingWindow_written:
  assumes "int64_range (sw_window f)" "int64_range (sw_limit f)"
  shows "whole (sw_window f) \<Longrightarrow> json_pointer SlidingWindow_of_json (Some (SlidingWindow_json f)) = Inr (Some f)"
    and "\<not> whole (sw_window f) \<Longrightarrow> \<exists>e. json_pointer SlidingWindow_of_json (Some (SlidingWindow_json f)) = Inl e"
  using json_duration_written [OF assms(1)] json_int_of_int [of "sw_limit f"] assms(2)
  by (auto simp: json_pointer_def json_struct_def SlidingWindow_json_def SlidingWindow_of_json_def json_field_def int64_range_def json_string_def)

lemma TokenBucket_written:
  assumes "int64_range (tb_capacity t)" "to_f64 (tb_refill_rate t) = Fin (tb_refill_rate t)"
  shows "json_pointer TokenBucket_of_json (Some (TokenBucket_json t)) = Inr (Some t)"
  using json_int_of_int [of "tb_capacity t"] assms
  by (simp add: json_pointer_def json_struct_def TokenBucket_json_def TokenBucket_of_json_def json_field_def int64_range_def json_float_def)

lemma pointer_absent [simp]: "json_pointer dec None = Inr None"
  by (simp add: json_pointer_def)

lemma algorithm_fields:
  "json_field (Algorithm_json a) ''fixedWindow'' = map_option FixedWindow_json (FixedWindow a)"
  "json_field (Algorithm_json a) ''slidingWindow'' = map_option SlidingWindow_json (SlidingWindow a)"
  "json_field (Algorithm_json a) ''tokenBucket'' = map_option TokenBucket_json (TokenBucket a)"
  by (simp_all add: json_field_def Algorithm_json_def omit_pointer_def map_add_def split: option.splits)

lemma Algorithm_written:
  assumes "go_algorithm a"
    and "case FixedWindow a of None \<Rightarrow> True | Some f \<Rightarrow> whole (fw_window f)"
    and "case SlidingWindow a of None \<Rightarrow> True | Some s \<Rightarrow> whole (sw_window s)"
  shows "Algorithm_of_json (Algorithm_json a) = Inr a"
proof -
  have "json_pointer FixedWindow_of_json (map_option FixedWindow_json (FixedWindow a)) = Inr (FixedWindow a)"
    using assms FixedWindow_written(1) by (cases "FixedWindow a") (auto simp: go_algorithm_def)
  moreover have "json_pointer SlidingWindow_of_json (map_option SlidingWindow_json (SlidingWindow a)) = Inr (SlidingWindow a)"
    using assms SlidingWindow_written(1) by (cases "SlidingWindow a") (auto simp: go_algorithm_def)
  moreover have "json_pointer TokenBucket_of_json (map_option TokenBucket_json (TokenBucket a)) = Inr (TokenBucket a)"
    using assms(1) TokenBucket_written by (cases "TokenBucket a") (auto simp: go_algorithm_def)
  ultimately show ?thesis by (simp add: Algorithm_of_json_def algorithm_fields)
qed

lemma Algorithm_unreadable:
  assumes "go_algorithm a"
    and "(\<exists>f. FixedWindow a = Some f \<and> \<not> whole (fw_window f)) \<or> (\<exists>s. SlidingWindow a = Some s \<and> \<not> whole (sw_window s))"
  shows "\<exists>e. Algorithm_of_json (Algorithm_json a) = Inl e"
proof (cases "\<exists>f. FixedWindow a = Some f \<and> \<not> whole (fw_window f)")
  case True
  then obtain f where f: "FixedWindow a = Some f" "\<not> whole (fw_window f)" by blast
  obtain e where "json_pointer FixedWindow_of_json (Some (FixedWindow_json f)) = Inl e"
    using FixedWindow_written(2) [OF _ _ f(2)] assms(1) f(1) by (auto simp: go_algorithm_def)
  then show ?thesis by (simp add: Algorithm_of_json_def algorithm_fields f(1))
next
  case False
  then obtain s where s: "SlidingWindow a = Some s" "\<not> whole (sw_window s)" using assms(2) by blast
  obtain e where "json_pointer SlidingWindow_of_json (Some (SlidingWindow_json s)) = Inl e"
    using SlidingWindow_written(2) [OF _ _ s(2)] assms(1) s(1) by (auto simp: go_algorithm_def)
  then show ?thesis
    by (cases "json_pointer FixedWindow_of_json (map_option FixedWindow_json (FixedWindow a))")
       (simp_all add: Algorithm_of_json_def algorithm_fields s(1))
qed

lemma PathMatch_written: "json_pointer PathMatch_of_json (Some (PathMatch_json p)) = Inr (Some p)"
  by (simp add: json_pointer_def json_struct_def PathMatch_json_def PathMatch_of_json_def json_field_def json_string_def)

lemma selector_fields:
  "json_field (Selector_json s) ''labelSelector'' = (if sel_label_selector s = [] then None else Some (JStr (sel_label_selector s)))"
  "json_field (Selector_json s) ''methods'' = (if sel_methods s = [] then None else Some (JArr (map JStr (sel_methods s))))"
  "json_field (Selector_json s) ''pathMatch'' = map_option PathMatch_json (sel_path_match s)"
  "json_field (Selector_json s) ''requestTypes'' =
     (case sel_request_types s of None \<Rightarrow> None | Some ts \<Rightarrow> if ts = [] then None else Some (JArr (map JStr ts)))"
  by (simp_all add: json_field_def Selector_json_def omit_pointer_def omit_string_def omit_strings_def map_add_def split: option.splits)

lemma Selector_written:
  assumes "sel_request_types s \<noteq> Some []"
  shows "Selector_of_json (Selector_json s) = Inr s"
proof -
  have "json_pointer PathMatch_of_json (map_option PathMatch_json (sel_path_match s)) = Inr (sel_path_match s)"
    by (cases "sel_path_match s") (simp_all add: PathMatch_written)
  moreover have "json_strings (json_field (Selector_json s) ''requestTypes'') = Inr (sel_request_types s)"
    using assms by (cases "sel_request_types s") (auto simp: selector_fields json_strings_def)
  moreover have "json_strings (json_field (Selector_json s) ''methods'') = Inr (if sel_methods s = [] then None else Some (sel_methods s))"
    by (simp add: selector_fields json_strings_def)
  moreover have "json_string (json_field (Selector_json s) ''labelSelector'') = Inr (sel_label_selector s)"
    by (simp add: selector_fields json_string_def)
  ultimately show ?thesis by (simp add: Selector_of_json_def selector_fields(3) slice_def)
qed

lemma definition_fields:
  "json_string (json_field (RateLimit_json d) ''mode'') = Inr (rl_mode d)"
  "json_field (RateLimit_json d) ''selector'' = Some (Selector_json (rl_selector d))"
  "json_field (RateLimit_json d) ''algorithm'' = Some (Algorithm_json (rl_algorithm d))"
  "json_struct Bucket_of_json (json_field (RateLimit_json d) ''bucket'') = Inr (rl_dimensions d)"
  by (simp_all add: json_field_def RateLimit_json_def omit_string_def omit_strings_def json_string_def json_struct_def
      Bucket_of_json_def json_strings_def slice_def)

lemma struct_written:
  "json_struct dec (Some (Selector_json s)) = dec (Selector_json s)"
  "json_struct dec' (Some (Algorithm_json a)) = dec' (Algorithm_json a)"
  by (simp_all add: json_struct_def Selector_json_def Algorithm_json_def)

lemma RateLimit_written:
  assumes "go_algorithm (rl_algorithm d)" "sel_request_types (rl_selector d) \<noteq> Some []"
  shows "readable d \<Longrightarrow> RateLimit_of_json (RateLimit_json d) = Inr d"
    and "\<not> readable d \<Longrightarrow> \<exists>e. RateLimit_of_json (RateLimit_json d) = Inl e"
proof -
  have step: "RateLimit_of_json (RateLimit_json d) =
      result_bind (Algorithm_of_json (Algorithm_json (rl_algorithm d)))
        (\<lambda>a. Inr \<lparr>rl_mode = rl_mode d, rl_selector = rl_selector d, rl_dimensions = rl_dimensions d, rl_algorithm = a\<rparr>)"
    by (simp add: RateLimit_of_json_def definition_fields struct_written Selector_written [OF assms(2)])
  show "RateLimit_of_json (RateLimit_json d) = Inr d" if "readable d"
    using Algorithm_written [OF assms(1)] that by (simp add: step readable_def)
  show "\<exists>e. RateLimit_of_json (RateLimit_json d) = Inl e" if u: "\<not> readable d"
  proof -
    obtain e where "Algorithm_of_json (Algorithm_json (rl_algorithm d)) = Inl e"
      using Algorithm_unreadable [OF assms(1)] u by (auto simp: readable_def split: option.splits)
    then show ?thesis by (simp add: step)
  qed
qed

end
