(* ===== verification/Redis_Store.thy ===== *)
theory Redis_Store
  imports Go_Text Labels
begin

text \<open>
  The Redis server as the rate limiting code uses it. Redis is not part of the repository, so its
  commands are a record of operations \<open>'r redis_ops\<close>, each taking the server's time in
  milliseconds, and the locale \<open>redis_db\<close> states what the command reference documents of them
  over a view \<open>entry\<close> of the live keys: the effect on the key's value and expiry, and that other
  keys are untouched. \<open>mem_redis\<close> is an executable instance, on which the locale is interpreted
  and the witnesses run.
\<close>

subsection \<open>Commands\<close>

text \<open>
  A value is a string, a sorted set listed by score and member, or a hash. A command that is
  applied to a value of another type replies with an error.
\<close>

datatype rval = RString string | RZset "(string \<times> int) list" | RHash smap

record 'r redis_ops =
  INCR :: "'r \<Rightarrow> int \<Rightarrow> string \<Rightarrow> (gerror + int) \<times> 'r"
  PEXPIRE :: "'r \<Rightarrow> int \<Rightarrow> string \<Rightarrow> int \<Rightarrow> 'r"
  PTTL :: "'r \<Rightarrow> int \<Rightarrow> string \<Rightarrow> int"
  TTL :: "'r \<Rightarrow> int \<Rightarrow> string \<Rightarrow> int"
  GET :: "'r \<Rightarrow> int \<Rightarrow> string \<Rightarrow> gerror + string option"
  SETPX :: "'r \<Rightarrow> int \<Rightarrow> string \<Rightarrow> string \<Rightarrow> int \<Rightarrow> 'r"
  DEL :: "'r \<Rightarrow> int \<Rightarrow> string \<Rightarrow> 'r"
  ZREMRANGEBYSCORE :: "'r \<Rightarrow> int \<Rightarrow> string \<Rightarrow> int \<Rightarrow> int \<Rightarrow> (gerror + int) \<times> 'r"
  ZCARD :: "'r \<Rightarrow> int \<Rightarrow> string \<Rightarrow> gerror + int"
  ZRANGE_first :: "'r \<Rightarrow> int \<Rightarrow> string \<Rightarrow> gerror + (string \<times> int) list"
  ZADD :: "'r \<Rightarrow> int \<Rightarrow> string \<Rightarrow> int \<Rightarrow> string \<Rightarrow> (gerror + int) \<times> 'r"
  ZCOUNT_above :: "'r \<Rightarrow> int \<Rightarrow> string \<Rightarrow> int \<Rightarrow> gerror + int"
  ZRANGE_first_above :: "'r \<Rightarrow> int \<Rightarrow> string \<Rightarrow> int \<Rightarrow> gerror + (string \<times> int) list"
  HMGET :: "'r \<Rightarrow> int \<Rightarrow> string \<Rightarrow> string list \<Rightarrow> gerror + string option list"
  HSET :: "'r \<Rightarrow> int \<Rightarrow> string \<Rightarrow> smap \<Rightarrow> (gerror + int) \<times> 'r"

text \<open>Sorted sets are ordered by score, and by member among equal scores.\<close>

fun zins :: "int \<Rightarrow> string \<Rightarrow> (string \<times> int) list \<Rightarrow> (string \<times> int) list" where
  "zins s m [] = [(m, s)]"
| "zins s m ((m', s') # zs) =
     (if s < s' \<or> s = s' \<and> m < m' then (m, s) # (m', s') # zs else (m', s') # zins s m zs)"

definition zadd :: "int \<Rightarrow> string \<Rightarrow> (string \<times> int) list \<Rightarrow> (string \<times> int) list" where
  "zadd s m zs = zins s m (filter (\<lambda>e. fst e \<noteq> m) zs)"

type_synonym rentry = "(rval \<times> int option) option"

subsection \<open>Documented behaviour\<close>

locale redis_db =
  fixes ops :: "'r redis_ops"
    and entry :: "'r \<Rightarrow> int \<Rightarrow> string \<Rightarrow> rentry"
  assumes entry_alive:
      "entry r t k = Some (v, e) \<Longrightarrow> t \<le> t' \<Longrightarrow> (case e of None \<Rightarrow> True | Some x \<Rightarrow> t' < x) \<Longrightarrow>
       entry r t' k = Some (v, e)"
    and entry_dead: "entry r t k = Some (v, Some x) \<Longrightarrow> x < t' \<Longrightarrow> entry r t' k = None"
    and entry_keeps:
      "entry r t k = Some (v, e) \<Longrightarrow> t \<le> t' \<Longrightarrow> entry r t' k = None \<or> entry r t' k = Some (v, e)"
    and entry_none: "entry r t k = None \<Longrightarrow> t \<le> t' \<Longrightarrow> entry r t' k = None"
    and INCR_frame: "k' \<noteq> k \<Longrightarrow> t \<le> t' \<Longrightarrow> entry (snd (INCR ops r t k)) t' k' = entry r t' k'"
    and INCR_absent:
      "entry r t k = None \<Longrightarrow>
       fst (INCR ops r t k) = Inr 1 \<and> entry (snd (INCR ops r t k)) t k = Some (RString (FormatInt 1), None)"
    and INCR_present:
      "entry r t k = Some (RString (FormatInt n), e) \<Longrightarrow> 0 \<le> n \<Longrightarrow> n < 2 ^ 63 - 1 \<Longrightarrow>
       fst (INCR ops r t k) = Inr (n + 1)
       \<and> entry (snd (INCR ops r t k)) t k = Some (RString (FormatInt (n + 1)), e)"
    and PEXPIRE_frame: "k' \<noteq> k \<Longrightarrow> t \<le> t' \<Longrightarrow> entry (PEXPIRE ops r t k ms) t' k' = entry r t' k'"
    and PEXPIRE_sets:
      "entry r t k = Some (v, e) \<Longrightarrow> 0 < ms \<Longrightarrow> entry (PEXPIRE ops r t k ms) t k = Some (v, Some (t + ms))"
    and PTTL_reads:
      "PTTL ops r t k =
       (case entry r t k of None \<Rightarrow> - 2 | Some (v, None) \<Rightarrow> - 1 | Some (v, Some x) \<Rightarrow> x - t)"
    and TTL_reads:
      "entry r t k = None \<Longrightarrow> TTL ops r t k = - 2"
      "entry r t k = Some (v, Some x) \<Longrightarrow>
       0 \<le> TTL ops r t k \<and> x - t - 1000 < 1000 * TTL ops r t k \<and> 1000 * TTL ops r t k < x - t + 1000"
    and GET_absent: "entry r t k = None \<Longrightarrow> GET ops r t k = Inr None"
    and GET_present: "entry r t k = Some (RString s, e) \<Longrightarrow> GET ops r t k = Inr (Some s)"
    and SETPX_frame: "k' \<noteq> k \<Longrightarrow> t \<le> t' \<Longrightarrow> entry (SETPX ops r t k s ms) t' k' = entry r t' k'"
    and SETPX_sets: "0 < ms \<Longrightarrow> entry (SETPX ops r t k s ms) t k = Some (RString s, Some (t + ms))"
    and DEL_frame: "k' \<noteq> k \<Longrightarrow> t \<le> t' \<Longrightarrow> entry (DEL ops r t k) t' k' = entry r t' k'"
    and DEL_removes: "entry (DEL ops r t k) t k = None"
    and ZREM_frame:
      "k' \<noteq> k \<Longrightarrow> t \<le> t' \<Longrightarrow> entry (snd (ZREMRANGEBYSCORE ops r t k lo hi)) t' k' = entry r t' k'"
    and ZREM_absent:
      "entry r t k = None \<Longrightarrow>
       fst (ZREMRANGEBYSCORE ops r t k lo hi) = Inr 0 \<and> entry (snd (ZREMRANGEBYSCORE ops r t k lo hi)) t k = None"
    and ZREM_present:
      "entry r t k = Some (RZset zs, e) \<Longrightarrow> zs' = filter (\<lambda>z. \<not> (lo \<le> snd z \<and> snd z \<le> hi)) zs \<Longrightarrow>
       fst (ZREMRANGEBYSCORE ops r t k lo hi) = Inr (int (length zs) - int (length zs'))
       \<and> entry (snd (ZREMRANGEBYSCORE ops r t k lo hi)) t k =
           (if zs' = [] then None else Some (RZset zs', e))"
    and ZCARD_absent: "entry r t k = None \<Longrightarrow> ZCARD ops r t k = Inr 0"
    and ZCARD_present: "entry r t k = Some (RZset zs, e) \<Longrightarrow> ZCARD ops r t k = Inr (int (length zs))"
    and ZRANGE_first_absent: "entry r t k = None \<Longrightarrow> ZRANGE_first ops r t k = Inr []"
    and ZRANGE_first_present:
      "entry r t k = Some (RZset zs, e) \<Longrightarrow> ZRANGE_first ops r t k = Inr (take 1 zs)"
    and ZADD_frame: "k' \<noteq> k \<Longrightarrow> t \<le> t' \<Longrightarrow> entry (snd (ZADD ops r t k sc m)) t' k' = entry r t' k'"
    and ZADD_absent:
      "entry r t k = None \<Longrightarrow>
       fst (ZADD ops r t k sc m) = Inr 1 \<and> entry (snd (ZADD ops r t k sc m)) t k = Some (RZset [(m, sc)], None)"
    and ZADD_present:
      "entry r t k = Some (RZset zs, e) \<Longrightarrow>
       fst (ZADD ops r t k sc m) = Inr (if m \<in> fst ` set zs then 0 else 1)
       \<and> entry (snd (ZADD ops r t k sc m)) t k = Some (RZset (zadd sc m zs), e)"
    and ZCOUNT_absent: "entry r t k = None \<Longrightarrow> ZCOUNT_above ops r t k lo = Inr 0"
    and ZCOUNT_present:
      "entry r t k = Some (RZset zs, e) \<Longrightarrow>
       ZCOUNT_above ops r t k lo = Inr (int (length (filter (\<lambda>z. lo < snd z) zs)))"
    and ZRANGE_above_absent: "entry r t k = None \<Longrightarrow> ZRANGE_first_above ops r t k lo = Inr []"
    and ZRANGE_above_present:
      "entry r t k = Some (RZset zs, e) \<Longrightarrow>
       ZRANGE_first_above ops r t k lo = Inr (take 1 (filter (\<lambda>z. lo < snd z) zs))"
    and HMGET_absent: "entry r t k = None \<Longrightarrow> HMGET ops r t k fs = Inr (map (\<lambda>_. None) fs)"
    and HMGET_present: "entry r t k = Some (RHash h, e) \<Longrightarrow> HMGET ops r t k fs = Inr (map (map_of h) fs)"
    and HSET_frame: "k' \<noteq> k \<Longrightarrow> t \<le> t' \<Longrightarrow> entry (snd (HSET ops r t k kvs)) t' k' = entry r t' k'"
    and HSET_absent:
      "entry r t k = None \<Longrightarrow>
       \<not> isl (fst (HSET ops r t k kvs))
       \<and> entry (snd (HSET ops r t k kvs)) t k = Some (RHash (put_all kvs []), None)"
    and HSET_present:
      "entry r t k = Some (RHash h, e) \<Longrightarrow>
       \<not> isl (fst (HSET ops r t k kvs))
       \<and> entry (snd (HSET ops r t k kvs)) t k = Some (RHash (put_all kvs h), e)"
begin

lemma entry_later:
  "entry r t k = Some (v, Some x) \<Longrightarrow> t \<le> t' \<Longrightarrow> t' < x \<Longrightarrow> entry r t' k = Some (v, Some x)"
  by (rule entry_alive) auto

end

subsection \<open>An in-memory instance\<close>

type_synonym mem_redis = "(string \<times> rval \<times> int option) list"

definition mem_entry :: "mem_redis \<Rightarrow> int \<Rightarrow> string \<Rightarrow> rentry" where
  "mem_entry r t k =
     (case map_of r k of
        None \<Rightarrow> None
      | Some (v, None) \<Rightarrow> Some (v, None)
      | Some (v, Some x) \<Rightarrow> if t < x then Some (v, Some x) else None)"

definition WRONGTYPE :: gerror where
  "WRONGTYPE = Err ''WRONGTYPE Operation against a key holding the wrong kind of value''"

definition mem_INCR :: "mem_redis \<Rightarrow> int \<Rightarrow> string \<Rightarrow> (gerror + int) \<times> mem_redis" where
  "mem_INCR r t k =
     (case mem_entry r t k of
        None \<Rightarrow> (Inr 1, AList.update k (RString (FormatInt 1), None) r)
      | Some (RString s, e) \<Rightarrow>
          (case ParseInt64 s of
             Inl _ \<Rightarrow> (Inl (Err ''ERR value is not an integer or out of range''), r)
           | Inr n \<Rightarrow>
               if n = 2 ^ 63 - 1 then (Inl (Err ''ERR increment or decrement would overflow''), r)
               else (Inr (n + 1), AList.update k (RString (FormatInt (n + 1)), e) r))
      | Some _ \<Rightarrow> (Inl WRONGTYPE, r))"

definition mem_PEXPIRE :: "mem_redis \<Rightarrow> int \<Rightarrow> string \<Rightarrow> int \<Rightarrow> mem_redis" where
  "mem_PEXPIRE r t k ms =
     (case mem_entry r t k of None \<Rightarrow> r | Some (v, _) \<Rightarrow> AList.update k (v, Some (t + ms)) r)"

definition mem_PTTL :: "mem_redis \<Rightarrow> int \<Rightarrow> string \<Rightarrow> int" where
  "mem_PTTL r t k =
     (case mem_entry r t k of None \<Rightarrow> - 2 | Some (v, None) \<Rightarrow> - 1 | Some (v, Some x) \<Rightarrow> x - t)"

definition mem_TTL :: "mem_redis \<Rightarrow> int \<Rightarrow> string \<Rightarrow> int" where
  "mem_TTL r t k =
     (case mem_entry r t k of
        None \<Rightarrow> - 2 | Some (v, None) \<Rightarrow> - 1 | Some (v, Some x) \<Rightarrow> (x - t + 500) div 1000)"

definition mem_GET :: "mem_redis \<Rightarrow> int \<Rightarrow> string \<Rightarrow> gerror + string option" where
  "mem_GET r t k =
     (case mem_entry r t k of
        None \<Rightarrow> Inr None | Some (RString s, _) \<Rightarrow> Inr (Some s) | Some _ \<Rightarrow> Inl WRONGTYPE)"

definition mem_SETPX :: "mem_redis \<Rightarrow> int \<Rightarrow> string \<Rightarrow> string \<Rightarrow> int \<Rightarrow> mem_redis" where
  "mem_SETPX r t k s ms = AList.update k (RString s, Some (t + ms)) r"

definition mem_DEL :: "mem_redis \<Rightarrow> int \<Rightarrow> string \<Rightarrow> mem_redis" where
  "mem_DEL r t k = AList.delete k r"

definition mem_ZREM :: "mem_redis \<Rightarrow> int \<Rightarrow> string \<Rightarrow> int \<Rightarrow> int \<Rightarrow> (gerror + int) \<times> mem_redis" where
  "mem_ZREM r t k lo hi =
     (case mem_entry r t k of
        None \<Rightarrow> (Inr 0, r)
      | Some (RZset zs, e) \<Rightarrow>
          (let zs' = filter (\<lambda>z. \<not> (lo \<le> snd z \<and> snd z \<le> hi)) zs
           in (Inr (int (length zs) - int (length zs')),
               if zs' = [] then AList.delete k r else AList.update k (RZset zs', e) r))
      | Some _ \<Rightarrow> (Inl WRONGTYPE, r))"

definition mem_zset :: "mem_redis \<Rightarrow> int \<Rightarrow> string \<Rightarrow> gerror + (string \<times> int) list" where
  "mem_zset r t k =
     (case mem_entry r t k of None \<Rightarrow> Inr [] | Some (RZset zs, _) \<Rightarrow> Inr zs | Some _ \<Rightarrow> Inl WRONGTYPE)"

definition mem_ZADD :: "mem_redis \<Rightarrow> int \<Rightarrow> string \<Rightarrow> int \<Rightarrow> string \<Rightarrow> (gerror + int) \<times> mem_redis" where
  "mem_ZADD r t k sc m =
     (case mem_entry r t k of
        None \<Rightarrow> (Inr 1, AList.update k (RZset [(m, sc)], None) r)
      | Some (RZset zs, e) \<Rightarrow>
          (Inr (if m \<in> fst ` set zs then 0 else 1), AList.update k (RZset (zadd sc m zs), e) r)
      | Some _ \<Rightarrow> (Inl WRONGTYPE, r))"

definition mem_HMGET :: "mem_redis \<Rightarrow> int \<Rightarrow> string \<Rightarrow> string list \<Rightarrow> gerror + string option list" where
  "mem_HMGET r t k fs =
     (case mem_entry r t k of
        None \<Rightarrow> Inr (map (\<lambda>_. None) fs) | Some (RHash h, _) \<Rightarrow> Inr (map (map_of h) fs) | Some _ \<Rightarrow> Inl WRONGTYPE)"

definition mem_HSET :: "mem_redis \<Rightarrow> int \<Rightarrow> string \<Rightarrow> smap \<Rightarrow> (gerror + int) \<times> mem_redis" where
  "mem_HSET r t k kvs =
     (case mem_entry r t k of
        None \<Rightarrow> (Inr (int (length kvs)), AList.update k (RHash (put_all kvs []), None) r)
      | Some (RHash h, e) \<Rightarrow>
          (Inr (int (length (put_all kvs h)) - int (length h)), AList.update k (RHash (put_all kvs h), e) r)
      | Some _ \<Rightarrow> (Inl WRONGTYPE, r))"

definition map_reply :: "('a \<Rightarrow> 'b) \<Rightarrow> gerror + 'a \<Rightarrow> gerror + 'b" where
  "map_reply f x = (case x of Inl e \<Rightarrow> Inl e | Inr a \<Rightarrow> Inr (f a))"

definition mem_redis_ops :: "mem_redis redis_ops" where
  "mem_redis_ops =
     \<lparr>INCR = mem_INCR, PEXPIRE = mem_PEXPIRE, PTTL = mem_PTTL, TTL = mem_TTL, GET = mem_GET,
      SETPX = mem_SETPX, DEL = mem_DEL, ZREMRANGEBYSCORE = mem_ZREM,
      ZCARD = (\<lambda>r t k. map_reply (\<lambda>zs. int (length zs)) (mem_zset r t k)),
      ZRANGE_first = (\<lambda>r t k. map_reply (take 1) (mem_zset r t k)),
      ZADD = mem_ZADD,
      ZCOUNT_above = (\<lambda>r t k lo. map_reply (\<lambda>zs. int (length (filter (\<lambda>z. lo < snd z) zs))) (mem_zset r t k)),
      ZRANGE_first_above = (\<lambda>r t k lo. map_reply (\<lambda>zs. take 1 (filter (\<lambda>z. lo < snd z) zs)) (mem_zset r t k)),
      HMGET = mem_HMGET, HSET = mem_HSET\<rparr>"

lemma mem_entry_update [simp]:
  "mem_entry (AList.update k (v, e) r) t k' =
     (if k' = k then (case e of None \<Rightarrow> Some (v, None) | Some x \<Rightarrow> if t < x then Some (v, Some x) else None)
      else mem_entry r t k')"
  by (simp add: mem_entry_def update_conv' split: option.split)

lemma mem_entry_delete [simp]:
  "mem_entry (AList.delete k r) t k' = (if k' = k then None else mem_entry r t k')"
  by (simp add: mem_entry_def delete_conv')

lemma mem_entry_Some:
  "mem_entry r t k = Some (v, e) \<longleftrightarrow>
     map_of r k = Some (v, e) \<and> (case e of None \<Rightarrow> True | Some x \<Rightarrow> t < x)"
  by (auto simp: mem_entry_def split: option.splits if_splits)

lemma mem_entry_None:
  "mem_entry r t k = None \<longleftrightarrow>
     (case map_of r k of None \<Rightarrow> True | Some (v, None) \<Rightarrow> False | Some (v, Some x) \<Rightarrow> x \<le> t)"
  by (auto simp: mem_entry_def split: option.splits)

lemmas mem_defs = mem_INCR_def mem_PEXPIRE_def mem_PTTL_def mem_TTL_def mem_GET_def mem_SETPX_def
  mem_DEL_def mem_ZREM_def mem_zset_def mem_ZADD_def mem_HMGET_def mem_HSET_def map_reply_def

lemma mem_frames:
  "k' \<noteq> k \<Longrightarrow> mem_entry (snd (mem_INCR r t k)) t' k' = mem_entry r t' k'"
  "k' \<noteq> k \<Longrightarrow> mem_entry (mem_PEXPIRE r t k ms) t' k' = mem_entry r t' k'"
  "k' \<noteq> k \<Longrightarrow> mem_entry (snd (mem_ZREM r t k lo hi)) t' k' = mem_entry r t' k'"
  "k' \<noteq> k \<Longrightarrow> mem_entry (snd (mem_ZADD r t k sc m)) t' k' = mem_entry r t' k'"
  "k' \<noteq> k \<Longrightarrow> mem_entry (snd (mem_HSET r t k kvs)) t' k' = mem_entry r t' k'"
  by (simp_all add: mem_defs Let_def split: option.split prod.split rval.split sum.split)

lemma mem_INCR_present:
  assumes "mem_entry r t k = Some (RString (FormatInt n), e)" "0 \<le> n" "n < 2 ^ 63 - 1"
  shows "fst (mem_INCR r t k) = Inr (n + 1)
    \<and> mem_entry (snd (mem_INCR r t k)) t k = Some (RString (FormatInt (n + 1)), e)"
proof -
  have p: "ParseInt64 (FormatInt n) = Inr n" using assms by (intro ParseInt64_FormatInt) auto
  from assms(1) have "case e of None \<Rightarrow> True | Some x \<Rightarrow> t < x" by (simp add: mem_entry_Some)
  then show ?thesis using assms p by (auto simp: mem_INCR_def split: option.splits)
qed

lemma mem_entry_case:
  assumes "mem_entry r t k = Some (v, e)"
  shows "(case e of None \<Rightarrow> Some (w, None) | Some x \<Rightarrow> if t < x then Some (w, Some x) else None) = Some (w, e)"
  using assms by (auto simp: mem_entry_Some split: option.splits)

lemma mem_TTL_bounds:
  assumes "mem_entry r t k = Some (v, Some x)"
  shows "0 \<le> mem_TTL r t k \<and> x - t - 1000 < 1000 * mem_TTL r t k \<and> 1000 * mem_TTL r t k < x - t + 1000"
proof -
  have "t < x" using assms by (simp add: mem_entry_Some)
  moreover have "1000 * ((x - t + 500) div 1000) = (x - t + 500) - (x - t + 500) mod 1000"
    by (simp add: minus_mod_eq_mult_div)
  moreover have "0 \<le> (x - t + 500) mod 1000" "(x - t + 500) mod 1000 < 1000" by simp_all
  ultimately have "0 \<le> (x - t + 500) div 1000 \<and> x - t - 1000 < 1000 * ((x - t + 500) div 1000)
      \<and> 1000 * ((x - t + 500) div 1000) < x - t + 1000"
    by (intro conjI pos_imp_zdiv_nonneg_iff [THEN iffD2]) linarith+
  then show ?thesis using assms by (simp add: mem_TTL_def)
qed

interpretation mredis: redis_db mem_redis_ops mem_entry
proof (unfold_locales, goal_cases)
  case (1 r t k v e t')
  then show ?case by (auto simp: mem_entry_Some split: option.splits)
next
  case (2 r t k v x t')
  then show ?case by (auto simp: mem_entry_Some mem_entry_None)
next
  case (3 r t k v e t')
  then show ?case by (auto simp: mem_entry_def split: option.splits if_splits)
next
  case (4 r t k t')
  then show ?case by (auto simp: mem_entry_None split: option.splits)
next
  case (7 r t k n e)
  then show ?case using mem_INCR_present by (simp add: mem_redis_ops_def)
qed ((simp add: mem_redis_ops_def mem_frames mem_TTL_bounds; fail)
  | (auto simp: mem_redis_ops_def mem_entry_case mem_defs Let_def) [1])+

end
