(* ===== verification/Path_Glob.thy ===== *)
theory Path_Glob
  imports Go_Text
begin

text \<open>
  Go's \<^verbatim>\<open>path.Match\<close>, which the rate limit matcher uses for glob patterns: the scan of a pattern
  into chunks between stars, the match of one chunk with its character classes and escapes, and
  the search over the positions a star may skip. The lemmas show termination and the meaning of
  the literal patterns and of a literal followed by a star.
\<close>

definition ErrBadPattern :: gerror where
  "ErrBadPattern = Sentinel ''path.ErrBadPattern''"

text \<open>The first rune of a string, as its code point, and its width.\<close>

definition byte_at :: "string \<Rightarrow> nat \<Rightarrow> nat" where
  "byte_at s i = of_char (s ! i)"

definition DecodeRune :: "string \<Rightarrow> nat \<times> nat" where
  "DecodeRune s =
     (let n = utf8_len s
      in if s = [] then (0xFFFD, 0)
         else if n = 0 then (0xFFFD, 1)
         else if n = 1 then (byte_at s 0, 1)
         else if n = 2 then ((byte_at s 0 mod 32) * 64 + byte_at s 1 mod 64, 2)
         else if n = 3 then
           ((byte_at s 0 mod 16) * 4096 + (byte_at s 1 mod 64) * 64 + byte_at s 2 mod 64, 3)
         else
           ((byte_at s 0 mod 8) * 262144 + (byte_at s 1 mod 64) * 4096 + (byte_at s 2 mod 64) * 64
              + byte_at s 3 mod 64, 4))"

text \<open>A possibly escaped character of a class; \<^term>\<open>None\<close> is \<^verbatim>\<open>ErrBadPattern\<close>.\<close>

definition getEsc :: "string \<Rightarrow> (nat \<times> string) option" where
  "getEsc chunk =
     (if chunk = [] \<or> hd chunk = CHR ''-'' \<or> hd chunk = CHR '']'' then None
      else
        let c = (if hd chunk = CHR 0x5C then tl chunk else chunk)
        in if c = [] then None
           else case DecodeRune c of
             (r, n) \<Rightarrow>
               if r = 0xFFFD \<and> n = 1 then None
               else if drop n c = [] then None
               else Some (r, drop n c))"

lemma DecodeRune_width: "s \<noteq> [] \<Longrightarrow> 0 < snd (DecodeRune s)"
  by (auto simp: DecodeRune_def Let_def)

lemma getEsc_length: "getEsc chunk = Some (r, rest) \<Longrightarrow> length rest < length chunk"
proof -
  assume a: "getEsc chunk = Some (r, rest)"
  define c where "c = (if hd chunk = CHR 0x5C then tl chunk else chunk)"
  from a have c: "c \<noteq> []" "rest = drop (snd (DecodeRune c)) c"
    by (auto simp: getEsc_def Let_def c_def split: if_splits prod.splits)
  then have "length rest < length c"
    using DecodeRune_width [of c] by (cases c) auto
  moreover have "length c \<le> length chunk"
    by (simp add: c_def)
  ultimately show ?thesis by simp
qed

text \<open>The ranges of a class up to its closing bracket: whether one contains the rune.\<close>

function match_ranges :: "nat \<Rightarrow> bool \<Rightarrow> nat \<Rightarrow> string \<Rightarrow> (bool \<times> string) option" where
  "match_ranges r m nrange chunk =
     (if chunk \<noteq> [] \<and> hd chunk = CHR '']'' \<and> 0 < nrange then Some (m, tl chunk)
      else case getEsc chunk of
        None \<Rightarrow> None
      | Some (lo, c1) \<Rightarrow>
          (case (if hd c1 = CHR ''-'' then getEsc (tl c1) else Some (lo, c1)) of
             None \<Rightarrow> None
           | Some (hi, c2) \<Rightarrow> match_ranges r (m \<or> lo \<le> r \<and> r \<le> hi) (Suc nrange) c2))"
  by pat_completeness auto
termination
proof (relation "measure (\<lambda>(r, m, n, c). length c)")
  fix r m nrange chunk x2 lo c1 x2a hi c2
  assume e: "getEsc chunk = Some x2" "(lo, c1) = x2"
    and f: "(if hd c1 = CHR ''-'' then getEsc (tl c1) else Some (lo, c1)) = Some x2a" "(hi, c2) = x2a"
  have "length c1 < length chunk" using e getEsc_length by blast
  moreover have "length c2 \<le> length c1"
    using f getEsc_length [of "tl c1" hi c2] by (auto split: if_splits)
  ultimately show "((r, m \<or> lo \<le> r \<and> r \<le> hi, Suc nrange, c2), (r, m, nrange, chunk))
      \<in> measure (\<lambda>(r, m, n, c). length c)"
    by simp
qed simp

declare match_ranges.simps [simp del]

lemma match_ranges_length: "match_ranges r m n chunk = Some (b, rest) \<Longrightarrow> length rest < length chunk"
proof (induction r m n chunk rule: match_ranges.induct)
  case (1 r m n chunk)
  show ?case
  proof (cases "chunk \<noteq> [] \<and> hd chunk = CHR '']'' \<and> 0 < n")
    case True
    with "1.prems" show ?thesis by (subst (asm) match_ranges.simps) auto
  next
    case False
    with "1.prems" obtain lo c1 hi c2 where
      e: "getEsc chunk = Some (lo, c1)"
        "(if hd c1 = CHR ''-'' then getEsc (tl c1) else Some (lo, c1)) = Some (hi, c2)"
        "match_ranges r (m \<or> lo \<le> r \<and> r \<le> hi) (Suc n) c2 = Some (b, rest)"
      by (subst (asm) match_ranges.simps) (auto split: option.splits)
    have "length rest < length c2"
      using "1.IH" [OF False e(1) refl e(2) refl e(3)] .
    moreover have "length c2 \<le> length c1"
      using e(2) getEsc_length [of "tl c1" hi c2] by (auto split: if_splits)
    moreover have "length c1 < length chunk" using e(1) getEsc_length by blast
    ultimately show ?thesis by simp
  qed
qed

text \<open>
  Matching one chunk at the head of \<open>s\<close>; \<open>failed\<close> marks a mismatch, after which the rest of the
  chunk is only checked. The result is \<^term>\<open>None\<close> for a bad pattern, and otherwise the remainder of
  \<open>s\<close> when the chunk matched.
\<close>

function matchChunk :: "bool \<Rightarrow> string \<Rightarrow> string \<Rightarrow> string option option" where
  "matchChunk failed0 s chunk =
     (if chunk = [] then Some (if failed0 then None else Some s)
      else
        let failed = (failed0 \<or> s = [])
        in if hd chunk = CHR ''['' then
             (let rn = (if failed then (0, 0) else DecodeRune s);
                  s' = (if failed then s else drop (snd rn) s);
                  negated = (tl chunk \<noteq> [] \<and> hd (tl chunk) = CHR ''^'');
                  body = (if negated then tl (tl chunk) else tl chunk)
              in case match_ranges (fst rn) False 0 body of
                   None \<Rightarrow> None
                 | Some (m, rest) \<Rightarrow> matchChunk (failed \<or> m = negated) s' rest)
           else if hd chunk = CHR ''?'' then
             matchChunk (failed \<or> hd s = CHR ''/'')
               (if failed then s else drop (snd (DecodeRune s)) s) (tl chunk)
           else
             let c = (if hd chunk = CHR 0x5C then tl chunk else chunk)
             in if c = [] then None
                else matchChunk (failed \<or> hd c \<noteq> hd s) (if failed then s else tl s) (tl c))"
  by pat_completeness auto
termination
proof (relation "measure (\<lambda>(f, s, c). length c)", goal_cases)
  case (2 failed0 s chunk failed rn s' negated body x2 m rest)
  then have "length rest < length body" using match_ranges_length by blast
  moreover have "length body \<le> length chunk" using 2 by simp
  ultimately show ?case by simp
next
  case (4 failed0 s chunk failed c)
  then have "length c \<le> length chunk" "0 < length c" by auto
  then show ?case by (cases c) auto
qed auto

declare matchChunk.simps [simp del]

text \<open>The part of a pattern up to the next star outside a class, after its leading stars.\<close>

fun scan :: "bool \<Rightarrow> string \<Rightarrow> string \<times> string" where
  "scan inrange [] = ([], [])"
| "scan inrange (c # cs) =
     (if c = CHR 0x5C then
        (case cs of [] \<Rightarrow> ([c], [])
         | d # ds \<Rightarrow> (let (chunk, rest) = scan inrange ds in (c # d # chunk, rest)))
      else if c = CHR ''*'' \<and> \<not> inrange then ([], c # cs)
      else
        let (chunk, rest) = scan (if c = CHR ''['' then True else if c = CHR '']'' then False else inrange) cs
        in (c # chunk, rest))"

definition scanChunk :: "string \<Rightarrow> bool \<times> string \<times> string" where
  "scanChunk pattern =
     (let p = dropWhile (\<lambda>c. c = CHR ''*'') pattern
      in (p \<noteq> pattern, scan False p))"

lemma scan_append: "scan b p = (chunk, rest) \<Longrightarrow> p = chunk @ rest"
  by (induction b p arbitrary: chunk rest rule: scan.induct)
    (auto split: if_splits list.splits prod.splits simp: Let_def)

lemma scan_Nil: "scan False p = ([], rest) \<Longrightarrow> p = [] \<or> hd p = CHR ''*''"
  by (cases p) (auto split: if_splits list.splits prod.splits simp: Let_def)

lemma scanChunk_length:
  assumes "scanChunk pattern = (star, chunk, rest)" "pattern \<noteq> []"
  shows "length rest < length pattern"
proof -
  define p where "p = dropWhile (\<lambda>c. c = CHR ''*'') pattern"
  have sc: "scan False p = (chunk, rest)" using assms by (simp add: scanChunk_def p_def Let_def)
  have lp: "length p \<le> length pattern" by (simp add: p_def length_dropWhile_le)
  show ?thesis
  proof (cases "chunk = []")
    case False
    with scan_append [OF sc] lp show ?thesis by (cases chunk) auto
  next
    case True
    with sc have "p = [] \<or> hd p = CHR ''*''" using scan_Nil by simp
    moreover have "p = [] \<or> hd p \<noteq> CHR ''*''"
      unfolding p_def by (metis (mono_tags, lifting) hd_dropWhile)
    ultimately have "p = []" by blast
    with scan_append [OF sc] assms(2) show ?thesis by simp
  qed
qed

text \<open>The positions a star may skip to: the first where the chunk matches and, for the last chunk,
  exhausts the name.\<close>

fun skip_search :: "bool \<Rightarrow> string \<Rightarrow> string \<Rightarrow> string option option" where
  "skip_search final chunk [] = Some None"
| "skip_search final chunk (c # cs) =
     (if c = CHR ''/'' then Some None
      else case matchChunk False cs chunk of
        None \<Rightarrow> None
      | Some (Some t) \<Rightarrow> if final \<and> t \<noteq> [] then skip_search final chunk cs else Some (Some t)
      | Some None \<Rightarrow> skip_search final chunk cs)"

text \<open>The check of the rest of the pattern after a mismatch.\<close>

function check_rest :: "string \<Rightarrow> bool" where
  "check_rest pattern =
     (if pattern = [] then True
      else case scanChunk pattern of
        (_, chunk, rest) \<Rightarrow> matchChunk False [] chunk \<noteq> None \<and> check_rest rest)"
  by pat_completeness auto
termination
  by (relation "measure length") (auto dest: scanChunk_length [OF sym])

definition no_match :: "string \<Rightarrow> gerror + bool" where
  "no_match rest = (if check_rest rest then Inr False else Inl ErrBadPattern)"

function path_Match :: "string \<Rightarrow> string \<Rightarrow> gerror + bool" where
  "path_Match pattern name =
     (if pattern = [] then Inr (name = [])
      else case scanChunk pattern of
        (star, chunk, rest) \<Rightarrow>
          if star \<and> chunk = [] then Inr (CHR ''/'' \<notin> set name)
          else case matchChunk False name chunk of
            None \<Rightarrow> Inl ErrBadPattern
          | Some (Some t) \<Rightarrow>
              if t = [] \<or> rest \<noteq> [] then path_Match rest t
              else if star then
                (case skip_search (rest = []) chunk name of
                   None \<Rightarrow> Inl ErrBadPattern
                 | Some (Some u) \<Rightarrow> path_Match rest u
                 | Some None \<Rightarrow> no_match rest)
              else no_match rest
          | Some None \<Rightarrow>
              if star then
                (case skip_search (rest = []) chunk name of
                   None \<Rightarrow> Inl ErrBadPattern
                 | Some (Some u) \<Rightarrow> path_Match rest u
                 | Some None \<Rightarrow> no_match rest)
              else no_match rest)"
  by pat_completeness auto
termination
  by (relation "measure (\<lambda>(p, n). length p)") (auto dest: scanChunk_length [OF sym])

declare path_Match.simps [simp del] check_rest.simps [simp del]

subsection \<open>Literal patterns\<close>

definition literal :: "string \<Rightarrow> bool" where
  "literal p \<longleftrightarrow> set p \<inter> {CHR ''*'', CHR ''?'', CHR ''['', CHR 0x5C} = {}"

lemma literal_Cons: "literal (c # p) \<longleftrightarrow> c \<notin> {CHR ''*'', CHR ''?'', CHR ''['', CHR 0x5C} \<and> literal p"
  by (auto simp: literal_def)

lemma matchChunk_literal:
  "literal p \<Longrightarrow>
   matchChunk f s p = Some (if \<not> f \<and> HasPrefix s p then Some (drop (length p) s) else None)"
proof (induction p arbitrary: f s)
  case Nil
  then show ?case by (simp add: matchChunk.simps HasPrefix_def)
next
  case (Cons c p)
  then have step: "matchChunk f s (c # p) =
      matchChunk ((f \<or> s = []) \<or> c \<noteq> hd s) (if f \<or> s = [] then s else tl s) p"
    by (subst matchChunk.simps) (simp add: literal_Cons Let_def)
  show ?case
  proof (cases s)
    case Nil
    with Cons step show ?thesis by (simp add: literal_Cons HasPrefix_def)
  next
    case (Cons d t)
    with Cons.IH [of "f \<or> c \<noteq> d"] Cons.prems step show ?thesis
      by (auto simp: literal_Cons HasPrefix_def)
  qed
qed

lemma scan_literal: "literal p \<Longrightarrow> q = [] \<or> hd q = CHR ''*'' \<Longrightarrow> scan False (p @ q) = (p, q)"
proof (induction p)
  case Nil
  then show ?case by (cases q) auto
next
  case (Cons c p)
  then show ?case by (auto simp: literal_Cons Let_def)
qed

lemma dropWhile_literal: "literal p \<Longrightarrow> p \<noteq> [] \<Longrightarrow> dropWhile (\<lambda>c. c = CHR ''*'') (p @ q) = p @ q"
  by (cases p) (auto simp: literal_Cons)

lemma scanChunk_literal:
  "literal p \<Longrightarrow> p \<noteq> [] \<Longrightarrow> q = [] \<or> hd q = CHR ''*'' \<Longrightarrow> scanChunk (p @ q) = (False, p, q)"
  by (simp add: scanChunk_def dropWhile_literal scan_literal)

lemma path_Match_Nil: "path_Match [] name = Inr (name = [])"
  by (simp add: path_Match.simps)

lemma check_rest_Nil [simp]: "check_rest []"
  by (simp add: check_rest.simps)

lemma path_Match_literal: "literal p \<Longrightarrow> path_Match p name = Inr (name = p)"
proof (cases "p = []")
  case False
  assume lit: "literal p"
  then have sc: "scanChunk p = (False, p, [])"
    using scanChunk_literal [of p "[]"] False by simp
  show ?thesis
    using lit False
    by (subst path_Match.simps)
      (auto simp: sc matchChunk_literal path_Match_Nil no_match_def HasPrefix_iff)
qed (simp add: path_Match_Nil)

lemma path_Match_star: "path_Match ''*'' name = Inr (CHR ''/'' \<notin> set name)"
  by (subst path_Match.simps) (simp add: scanChunk_def)

lemma check_rest_star: "check_rest ''*''"
  by (subst check_rest.simps) (simp add: scanChunk_def matchChunk.simps)

lemma path_Match_literal_star:
  assumes "literal p"
  shows "path_Match (p @ ''*'') name = Inr (HasPrefix name p \<and> CHR ''/'' \<notin> set (drop (length p) name))"
proof (cases "p = []")
  case True
  then show ?thesis by (simp add: path_Match_star HasPrefix_def)
next
  case False
  have sc: "scanChunk (p @ ''*'') = (False, p, ''*'')"
    using scanChunk_literal [OF assms False, of "''*''"] by simp
  show ?thesis
    using assms False
    by (subst path_Match.simps)
      (simp add: sc matchChunk_literal path_Match_star no_match_def check_rest_star)
qed

end
