(* ===== verification/Rate_Match.thy ===== *)
theory Rate_Match
  imports Rate_Schema Path_Glob Label_Selector
begin

text \<open>
  Rate limit matching (\<^verbatim>\<open>internal/ratelimit/request_context.go\<close>, \<^verbatim>\<open>matcher.go\<close> and
  \<^verbatim>\<open>bucket_key.go\<close>): the request context, the clauses of a selector, and the bucket key a matched
  request is counted under. The lemmas show that the clauses are conjoined and that distinct
  bucket keys have distinct strings.
\<close>

subsection \<open>Requests\<close>

text \<open>The upstream URL is represented by its path, the only part the matcher reads; a nil URL is
  \<^term>\<open>None\<close>.\<close>

record request_context =
  rc_type :: string
  rc_method :: string
  rc_url_path :: "string option"
  rc_namespace :: string
  rc_actor_id :: string
  rc_connection_id :: string
  rc_connector_id :: string
  rc_connector_version :: nat
  rc_labels :: smap

subsection \<open>Bucket keys\<close>

type_synonym bucket_key = "(string \<times> string) list"

definition IsGlobal :: "bucket_key \<Rightarrow> bool" where
  "IsGlobal k \<longleftrightarrow> length k = 0"

definition AsMap :: "bucket_key \<Rightarrow> smap" where
  "AsMap k = (if IsGlobal k then [] else put_all k [])"

definition escape_rune :: "string \<Rightarrow> string" where
  "escape_rune r =
     (if r = ''|'' then ''%7C'' else if r = ''='' then ''%3D'' else if r = ''%'' then ''%25'' else r)"

definition escapeBucketField :: "string \<Rightarrow> string" where
  "escapeBucketField s =
     (if set s \<inter> set ''|=%'' = {} then s else concat (map escape_rune (runes s)))"

definition component_string :: "string \<times> string \<Rightarrow> string" where
  "component_string c = escapeBucketField (fst c) @ ''='' @ escapeBucketField (snd c)"

definition BucketKey_String :: "bucket_key \<Rightarrow> string" where
  "BucketKey_String k = (if IsGlobal k then ''*'' else Join ''|'' (map component_string k))"

definition resolveDimension :: "string \<Rightarrow> request_context option \<Rightarrow> string" where
  "resolveDimension name ctx =
     (case ctx of None \<Rightarrow> []
      | Some c \<Rightarrow>
          if name = ''actor'' then rc_actor_id c
          else if name = ''connection'' then rc_connection_id c
          else if name = ''connector'' then rc_connector_id c
          else if name = ''connector_version'' then
            (if rc_connector_version c = 0 then [] else FormatUint (rc_connector_version c))
          else if name = ''namespace'' then rc_namespace c
          else if name = ''method'' then rc_method c
          else if HasPrefix name LabelDimensionPrefix then
            (case map_of (rc_labels c) (TrimPrefix name LabelDimensionPrefix) of
               Some v \<Rightarrow> v | None \<Rightarrow> [])
          else [])"

definition ResolveBucketKey :: "rl_definition \<Rightarrow> request_context option \<Rightarrow> bucket_key" where
  "ResolveBucketKey rule ctx =
     (if length (rl_dimensions rule) = 0 then []
      else map (\<lambda>d. (d, resolveDimension d ctx)) (rl_dimensions rule))"

subsection \<open>Matching\<close>

definition matchRequestType :: "string list \<Rightarrow> string \<Rightarrow> bool" where
  "matchRequestType allowed ctxType =
     (if length allowed = 0 then False else list_ex (\<lambda>t. t = ctxType) allowed)"

definition matchMethods :: "string list \<Rightarrow> string \<Rightarrow> bool" where
  "matchMethods allowed ctxMethod =
     (if length allowed = 0 then True else list_ex (\<lambda>m. m = ctxMethod) allowed)"

definition matchLabelSelector :: "string \<Rightarrow> smap \<Rightarrow> gerror + bool" where
  "matchLabelSelector selector labels =
     (case ParseLabelSelector selector of
        Inl e \<Rightarrow> Inl e
      | Inr parsed \<Rightarrow> Inr (Selector_Matches parsed labels))"

definition matchPath :: "compile \<Rightarrow> path_match option \<Rightarrow> string \<Rightarrow> bool \<Rightarrow> gerror + bool" where
  "matchPath compile pm p urlPresent =
     (case pm of None \<Rightarrow> Inr True
      | Some pm \<Rightarrow>
          if \<not> urlPresent then Inr False
          else if pm_kind pm = ''prefix'' then Inr (HasPrefix p (pm_value pm))
          else if pm_kind pm = ''glob'' then path_Match (pm_value pm) p
          else if pm_kind pm = ''regex'' then
            (case compile (pm_value pm) of Inl e \<Rightarrow> Inl e | Inr re \<Rightarrow> Inr (re p))
          else Inl (Errf ''unknown path match kind %q'' [pm_kind pm]))"

text \<open>A match result. The reason is kept as its format and arguments.\<close>

record match_result =
  m_matched :: bool
  m_key :: bucket_key
  m_reason :: "string \<times> string list"
  m_err :: err

definition miss :: "string \<Rightarrow> string list \<Rightarrow> match_result" where
  "miss fmt args = \<lparr>m_matched = False, m_key = [], m_reason = (fmt, args), m_err = None\<rparr>"

definition match_error :: "string \<Rightarrow> gerror \<Rightarrow> match_result" where
  "match_error fmt e =
     \<lparr>m_matched = False, m_key = [], m_reason = ([], []), m_err = Some (Wrapf fmt [] e)\<rparr>"

definition match_path_clause :: "compile \<Rightarrow> rl_definition \<Rightarrow> request_context \<Rightarrow> match_result" where
  "match_path_clause compile rule ctx =
     (let hit = \<lparr>m_matched = True, m_key = ResolveBucketKey rule (Some ctx), m_reason = ([], []), m_err = None\<rparr>
      in case sel_path_match (rl_selector rule) of
           None \<Rightarrow> hit
         | Some pm \<Rightarrow>
             let p = (case rc_url_path ctx of None \<Rightarrow> [] | Some p \<Rightarrow> p);
                 present = (rc_url_path ctx \<noteq> None)
             in case matchPath compile (Some pm) p present of
                  Inl e \<Rightarrow> match_error ''path match: %w'' e
                | Inr ok \<Rightarrow>
                    if \<not> ok then
                      (if \<not> present then
                         miss ''rule requires a %s path match but the request carried no URL'' [pm_kind pm]
                       else miss ''path %q does not %s-match %q'' [p, pm_kind pm, pm_value pm])
                    else hit)"

definition MatchExplain :: "compile \<Rightarrow> rl_definition \<Rightarrow> request_context option \<Rightarrow> match_result" where
  "MatchExplain compile rule ctx =
     (case ctx of None \<Rightarrow> miss ''request context not provided'' []
      | Some c \<Rightarrow>
          if \<not> matchRequestType (EffectiveRequestTypes (rl_selector rule)) (rc_type c) then
            miss ''request_type %q is not in the rule's allowed list'' [rc_type c]
          else if \<not> matchMethods (sel_methods (rl_selector rule)) (rc_method c) then
            miss ''method %q does not match the rule's method list'' [rc_method c]
          else if sel_label_selector (rl_selector rule) \<noteq> [] then
            (case matchLabelSelector (sel_label_selector (rl_selector rule)) (rc_labels c) of
               Inl e \<Rightarrow> match_error ''label selector: %w'' e
             | Inr ok \<Rightarrow>
                 if \<not> ok then
                   miss ''request labels do not satisfy %q'' [sel_label_selector (rl_selector rule)]
                 else match_path_clause compile rule c)
          else match_path_clause compile rule c)"

definition Match :: "compile \<Rightarrow> rl_definition \<Rightarrow> request_context option \<Rightarrow> bool \<times> bucket_key \<times> err" where
  "Match compile rule ctx =
     (let r = MatchExplain compile rule ctx in (m_matched r, m_key r, m_err r))"

subsection \<open>Distinct keys have distinct strings\<close>

definition escape_char :: "char \<Rightarrow> string" where
  "escape_char c = escape_rune [c]"

lemma escape_char_plain: "c \<notin> set ''|=%'' \<Longrightarrow> escape_char c = [c]"
  by (simp add: escape_char_def escape_rune_def)

lemma escape_chars_plain: "set s \<inter> set ''|=%'' = {} \<Longrightarrow> concat (map escape_char s) = s"
proof (induction s)
  case (Cons c s)
  then have "escape_char c = [c]" "set s \<inter> set ''|=%'' = {}"
    by (blast intro: escape_char_plain list.set_intros)+
  with Cons.IH show ?case by simp
qed simp

lemma escape_rune_bytes:
  assumes "utf8_len s \<noteq> 0"
  shows "escape_rune (take (utf8_len s) s) = concat (map escape_char (take (utf8_len s) s))"
proof (cases "utf8_len s = 1")
  case True
  then obtain c t where "s = c # t" using utf8_len_one by blast
  with True show ?thesis by (simp add: escape_char_def)
next
  case False
  have high: "128 \<le> (of_char c :: nat)" if "c \<in> set (take (utf8_len s) s)" for c
    using that utf8_len_multi [OF assms False] by (auto simp: in_set_conv_nth)
  moreover have "(of_char c :: nat) < 128" if "c \<in> set ''|=%''" for c
    using that by (simp, elim disjE, simp_all)
  ultimately have plain: "set (take (utf8_len s) s) \<inter> set ''|=%'' = {}"
    using not_less by blast
  have "length (take (utf8_len s) s) \<noteq> 1" using False utf8_len_le [of s] by simp
  then have "take (utf8_len s) s \<noteq> [c]" for c by (metis length_Cons list.size(3) One_nat_def)
  then have "escape_rune (take (utf8_len s) s) = take (utf8_len s) s"
    by (simp add: escape_rune_def)
  with escape_chars_plain [OF plain] show ?thesis by simp
qed

lemma escape_runes: "utf8_valid s \<Longrightarrow> concat (map escape_rune (runes s)) = concat (map escape_char s)"
proof (induction s rule: runes.induct)
  case (1 s)
  show ?case
  proof (cases "s = []")
    case False
    with "1.prems" have n: "utf8_len s \<noteq> 0" "utf8_valid (drop (utf8_len s) s)"
      by (auto simp: utf8_valid.simps [of s] split: if_splits)
    then have "concat (map escape_rune (runes s)) =
        escape_rune (take (utf8_len s) s) @ concat (map escape_rune (runes (drop (utf8_len s) s)))"
      using False by (subst runes.simps) (simp add: Let_def)
    also have "\<dots> = concat (map escape_char (take (utf8_len s) s))
        @ concat (map escape_char (drop (utf8_len s) s))"
      using 1 False n by (simp add: escape_rune_bytes)
    also have "\<dots> = concat (map escape_char (take (utf8_len s) s @ drop (utf8_len s) s))"
      by (simp only: map_append concat_append)
    finally show ?thesis by simp
  qed simp
qed

lemma escapeBucketField_bytes: "utf8_valid s \<Longrightarrow> escapeBucketField s = concat (map escape_char s)"
  by (cases "set s \<inter> set ''|=%'' = {}")
    (simp_all only: escapeBucketField_def escape_runes escape_chars_plain if_True if_False simp_thms)

lemma escape_char_cases: "escape_char c = [c] \<and> c \<noteq> CHR ''%'' \<and> c \<noteq> CHR ''|'' \<and> c \<noteq> CHR ''=''
    \<or> c = CHR ''|'' \<and> escape_char c = ''%7C'' \<or> c = CHR ''='' \<and> escape_char c = ''%3D''
    \<or> c = CHR ''%'' \<and> escape_char c = ''%25''"
  by (simp add: escape_char_def escape_rune_def)

lemma escape_char_not_Nil: "escape_char c \<noteq> []"
  by (simp add: escape_char_def escape_rune_def)

lemma escape_chars_inj: "concat (map escape_char s) = concat (map escape_char t) \<Longrightarrow> s = t"
proof (induction s arbitrary: t)
  case Nil
  then show ?case by (cases t) (simp_all add: escape_char_not_Nil)
next
  case (Cons c s)
  show ?case
  proof (cases t)
    case Nil
    with Cons.prems show ?thesis by (simp add: escape_char_not_Nil)
  next
    case (Cons d u)
    with Cons.prems have "escape_char c @ concat (map escape_char s) = escape_char d @ concat (map escape_char u)"
      by simp
    then have "c = d \<and> concat (map escape_char s) = concat (map escape_char u)"
      using escape_char_cases [of c] escape_char_cases [of d] by (elim disjE conjE) simp_all
    with Cons.IH [of u] Cons show ?thesis by simp
  qed
qed

lemma escape_no_sep: "x \<in> set (concat (map escape_char s)) \<Longrightarrow> x \<noteq> CHR ''|'' \<and> x \<noteq> CHR ''=''"
proof -
  assume "x \<in> set (concat (map escape_char s))"
  then obtain c where "x \<in> set (escape_char c)" by auto
  then show ?thesis using escape_char_cases [of c] by (elim disjE conjE) (simp_all, (elim disjE; simp)+)
qed

definition valid_key :: "bucket_key \<Rightarrow> bool" where
  "valid_key k \<longleftrightarrow> list_all (\<lambda>(n, v). utf8_valid n \<and> utf8_valid v) k"

lemma component_string_inj:
  assumes "utf8_valid n" "utf8_valid v" "utf8_valid n'" "utf8_valid v'"
    and "component_string (n, v) = component_string (n', v')"
  shows "n = n' \<and> v = v'"
proof -
  let ?e = "\<lambda>s. concat (map escape_char s)"
  have no: "CHR ''='' \<notin> set (?e a)" for a
    using escape_no_sep by blast
  have sp: "Split CHR ''='' (?e a @ CHR ''='' # ?e b) = [?e a, ?e b]" for a b
    by (simp only: Split_append_sep [OF no] Split_plain [OF no])
  have "?e n @ CHR ''='' # ?e v = ?e n' @ CHR ''='' # ?e v'"
    using assms by (simp add: component_string_def escapeBucketField_bytes)
  then have "[?e n, ?e v] = [?e n', ?e v']"
    using sp by metis
  then show ?thesis using escape_chars_inj by simp
qed

lemma component_no_bar: "utf8_valid n \<Longrightarrow> utf8_valid v \<Longrightarrow> CHR ''|'' \<notin> set (component_string (n, v))"
  using escape_no_sep [of "CHR ''|''" n] escape_no_sep [of "CHR ''|''" v]
  by (simp only: component_string_def escapeBucketField_bytes fst_conv snd_conv set_append) auto

lemma map_component_inj:
  "valid_key k \<Longrightarrow> valid_key k' \<Longrightarrow> map component_string k = map component_string k' \<Longrightarrow> k = k'"
proof (induction k arbitrary: k')
  case (Cons c k)
  then obtain c' l where "k' = c' # l" by (cases k') auto
  with Cons component_string_inj [of "fst c" "snd c" "fst c'" "snd c'"] show ?case
    by (auto simp: valid_key_def)
qed simp

lemma BucketKey_String_equals: "k \<noteq> [] \<Longrightarrow> CHR ''='' \<in> set (BucketKey_String k)"
  by (induction k rule: induct_list012)
    (simp_all add: BucketKey_String_def IsGlobal_def component_string_def)

lemma BucketKey_String_inj_valid:
  assumes "valid_key k" "valid_key k'" "BucketKey_String k = BucketKey_String k'"
  shows "k = k'"
proof (cases "k = [] \<or> k' = []")
  case True
  have "CHR ''='' \<notin> set (BucketKey_String [])" by (simp add: BucketKey_String_def IsGlobal_def)
  with True assms(3) show ?thesis
    using BucketKey_String_equals [of k] BucketKey_String_equals [of k']
    by (cases "k = []"; cases "k' = []") simp_all
next
  case False
  have bars: "\<forall>x \<in> set (map component_string l). CHR ''|'' \<notin> set x" if "valid_key l" for l
  proof
    fix x assume "x \<in> set (map component_string l)"
    then obtain n v where "(n, v) \<in> set l" "x = component_string (n, v)" by auto
    with that show "CHR ''|'' \<notin> set x"
      using component_no_bar [of n v] by (auto simp: valid_key_def list_all_iff)
  qed
  have split: "Split CHR ''|'' (BucketKey_String l) = map component_string l"
    if "valid_key l" "l \<noteq> []" for l
    using that(2) Split_Join [OF _ bars [OF that(1)]] by (simp only: BucketKey_String_def IsGlobal_def
        length_0_conv if_False map_is_Nil_conv simp_thms not_False_eq_True)
  have "map component_string k = map component_string k'"
    using split [OF assms(1)] split [OF assms(2)] False assms(3) by metis
  then show ?thesis using map_component_inj assms by blast
qed

lemma valid_rule_path:
  "RateLimit_Validate compile rule = None \<Longrightarrow> sel_path_match (rl_selector rule) = Some m \<Longrightarrow>
   valid_path_match compile m"
  by (simp add: RateLimit_Validate_None)

subsection \<open>The clauses are conjoined\<close>

definition path_clause :: "compile \<Rightarrow> path_match option \<Rightarrow> string option \<Rightarrow> bool" where
  "path_clause compile pm path =
     (case pm of None \<Rightarrow> True
      | Some m \<Rightarrow>
          (case path of None \<Rightarrow> False
           | Some p \<Rightarrow>
               if pm_kind m = ''prefix'' then HasPrefix p (pm_value m)
               else if pm_kind m = ''glob'' then path_Match (pm_value m) p = Inr True
               else (case compile (pm_value m) of Inl _ \<Rightarrow> False | Inr re \<Rightarrow> re p)))"

definition label_clause :: "string \<Rightarrow> smap \<Rightarrow> bool" where
  "label_clause sel labels =
     (sel = [] \<or> (case ParseLabelSelector sel of Inl _ \<Rightarrow> False | Inr s \<Rightarrow> Selector_Matches s labels))"

definition selects :: "compile \<Rightarrow> rl_selector \<Rightarrow> request_context \<Rightarrow> bool" where
  "selects compile s c \<longleftrightarrow>
     rc_type c \<in> set (EffectiveRequestTypes s)
     \<and> (sel_methods s = [] \<or> rc_method c \<in> set (sel_methods s))
     \<and> label_clause (sel_label_selector s) (rc_labels c)
     \<and> path_clause compile (sel_path_match s) (rc_url_path c)"

text \<open>A rule whose label selector parses and whose glob is well formed on the path.\<close>

definition evaluable :: "rl_selector \<Rightarrow> request_context \<Rightarrow> bool" where
  "evaluable s c \<longleftrightarrow>
     \<not> isl (ParseLabelSelector (sel_label_selector s))
     \<and> (case (sel_path_match s, rc_url_path c) of
          (Some m, Some p) \<Rightarrow> pm_kind m = ''glob'' \<longrightarrow> \<not> isl (path_Match (pm_value m) p)
        | _ \<Rightarrow> True)"

lemma matchRequestType_iff: "matchRequestType allowed t \<longleftrightarrow> t \<in> set allowed"
  by (auto simp: matchRequestType_def list_ex_iff)

lemma matchMethods_iff: "matchMethods allowed m \<longleftrightarrow> allowed = [] \<or> m \<in> set allowed"
  by (auto simp: matchMethods_def list_ex_iff)

lemma matchPath_kinds:
  "matchPath compile (Some m) p False = Inr False"
  "pm_kind m = ''prefix'' \<Longrightarrow> matchPath compile (Some m) p True = Inr (HasPrefix p (pm_value m))"
  "pm_kind m = ''glob'' \<Longrightarrow> matchPath compile (Some m) p True = path_Match (pm_value m) p"
  "pm_kind m = ''regex'' \<Longrightarrow> compile (pm_value m) = Inr re \<Longrightarrow> matchPath compile (Some m) p True = Inr (re p)"
  by (simp_all add: matchPath_def)

lemma path_clause_kinds:
  "pm_kind m = ''prefix'' \<Longrightarrow> path_clause compile (Some m) (Some p) = HasPrefix p (pm_value m)"
  "pm_kind m = ''glob'' \<Longrightarrow> path_clause compile (Some m) (Some p) = (path_Match (pm_value m) p = Inr True)"
  "pm_kind m = ''regex'' \<Longrightarrow> compile (pm_value m) = Inr re \<Longrightarrow> path_clause compile (Some m) (Some p) = re p"
  by (simp_all add: path_clause_def)

lemma matchPath_valid:
  assumes "valid_path_match compile m"
  shows "matchPath compile (Some m) p True = Inr ok \<Longrightarrow> ok = path_clause compile (Some m) (Some p)"
    and "isl (matchPath compile (Some m) p True) \<longleftrightarrow>
           pm_kind m = ''glob'' \<and> isl (path_Match (pm_value m) p)"
proof -
  consider (prefix) "pm_kind m = ''prefix''" | (glob) "pm_kind m = ''glob''"
    | (regex) re where "pm_kind m = ''regex''" "compile (pm_value m) = Inr re"
    using assms unfolding valid_path_match_def IsValidPathMatchKind_def
    by (cases "compile (pm_value m)") auto
  then have "(matchPath compile (Some m) p True = Inr ok \<longrightarrow> ok = path_clause compile (Some m) (Some p))
    \<and> (isl (matchPath compile (Some m) p True) \<longleftrightarrow> pm_kind m = ''glob'' \<and> isl (path_Match (pm_value m) p))"
  proof cases
    case prefix
    then show ?thesis by (simp add: matchPath_kinds path_clause_kinds)
  next
    case glob
    then show ?thesis by (simp add: matchPath_kinds path_clause_kinds)
  next
    case regex
    then show ?thesis by (simp add: matchPath_kinds path_clause_kinds)
  qed
  then show "matchPath compile (Some m) p True = Inr ok \<Longrightarrow> ok = path_clause compile (Some m) (Some p)"
    and "isl (matchPath compile (Some m) p True) \<longleftrightarrow>
           pm_kind m = ''glob'' \<and> isl (path_Match (pm_value m) p)"
    by blast+
qed

text \<open>The result a rule gives when its request type and method clauses hold.\<close>

definition outcome :: "rl_definition \<Rightarrow> request_context \<Rightarrow> bool \<Rightarrow> match_result \<Rightarrow> bool" where
  "outcome rule c sel r \<longleftrightarrow>
     m_matched r = sel
     \<and> m_key r = (if sel then ResolveBucketKey rule (Some c) else [])
     \<and> (sel \<longrightarrow> m_err r = None)
     \<and> (fst (m_reason r) = [] \<longleftrightarrow> sel \<or> m_err r \<noteq> None)"

lemma outcome_miss: "fmt \<noteq> [] \<Longrightarrow> outcome rule c False (miss fmt args)"
  by (simp add: outcome_def miss_def)

lemma outcome_error: "outcome rule c False (match_error fmt e)"
  by (simp add: outcome_def match_error_def)

lemma match_path_clause_outcome:
  assumes valid: "\<And>m. sel_path_match (rl_selector rule) = Some m \<Longrightarrow> valid_path_match compile m"
  shows "outcome rule c (path_clause compile (sel_path_match (rl_selector rule)) (rc_url_path c))
           (match_path_clause compile rule c)"
    and "evaluable (rl_selector rule) c \<Longrightarrow> m_err (match_path_clause compile rule c) = None"
proof -
  let ?pm = "sel_path_match (rl_selector rule)"
  have "outcome rule c (path_clause compile ?pm (rc_url_path c)) (match_path_clause compile rule c)
    \<and> (evaluable (rl_selector rule) c \<longrightarrow> m_err (match_path_clause compile rule c) = None)"
  proof (cases ?pm)
    case None
    then show ?thesis by (simp add: match_path_clause_def path_clause_def outcome_def)
  next
    case (Some m)
    note v = matchPath_valid [OF valid [OF Some]]
    show ?thesis
    proof (cases "rc_url_path c")
      case None
      with Some show ?thesis
        by (simp add: match_path_clause_def path_clause_def matchPath_kinds outcome_miss) (simp add: miss_def)
    next
      case p: (Some p)
      show ?thesis
      proof (cases "matchPath compile (Some m) p True")
        case (Inl e)
        with v(2) [of p] have bad: "pm_kind m = ''glob''" "isl (path_Match (pm_value m) p)" by auto
        then have "\<not> path_clause compile (Some m) (Some p)" by (auto simp: path_clause_kinds)
        moreover have "\<not> evaluable (rl_selector rule) c" using bad Some p by (simp add: evaluable_def)
        ultimately show ?thesis
          using Some p Inl by (simp add: match_path_clause_def outcome_error)
      next
        case (Inr ok)
        have ok: "ok = path_clause compile (Some m) (Some p)" by (rule v(1) [OF Inr])
        show ?thesis
        proof (cases ok)
          case True
          with ok Some p Inr show ?thesis by (simp add: match_path_clause_def outcome_def)
        next
          case False
          have "match_path_clause compile rule c =
              miss ''path %q does not %s-match %q'' [p, pm_kind m, pm_value m]"
            using False Some p Inr by (simp add: match_path_clause_def)
          with False ok Some p show ?thesis by (simp add: outcome_miss) (simp add: miss_def)
        qed
      qed
    qed
  qed
  then show "outcome rule c (path_clause compile ?pm (rc_url_path c)) (match_path_clause compile rule c)"
    and "evaluable (rl_selector rule) c \<Longrightarrow> m_err (match_path_clause compile rule c) = None"
    by auto
qed

lemma MatchExplain_outcome:
  assumes valid: "\<And>m. sel_path_match (rl_selector rule) = Some m \<Longrightarrow> valid_path_match compile m"
  shows "outcome rule c (selects compile (rl_selector rule) c) (MatchExplain compile rule (Some c))
    \<and> (evaluable (rl_selector rule) c \<longrightarrow> m_err (MatchExplain compile rule (Some c)) = None)"
proof -
  let ?s = "rl_selector rule" and ?p = "match_path_clause compile rule c"
  let ?r = "MatchExplain compile rule (Some c)"
  note path = match_path_clause_outcome [OF valid, where c = c]
  note simps = MatchExplain_def selects_def matchRequestType_iff matchMethods_iff
  consider (type) "rc_type c \<notin> set (EffectiveRequestTypes ?s)"
    | (meth) "rc_type c \<in> set (EffectiveRequestTypes ?s)"
        "\<not> (sel_methods ?s = [] \<or> rc_method c \<in> set (sel_methods ?s))"
    | (lab) "rc_type c \<in> set (EffectiveRequestTypes ?s)"
        "sel_methods ?s = [] \<or> rc_method c \<in> set (sel_methods ?s)"
        "\<not> label_clause (sel_label_selector ?s) (rc_labels c)"
    | (rest) "rc_type c \<in> set (EffectiveRequestTypes ?s)"
        "sel_methods ?s = [] \<or> rc_method c \<in> set (sel_methods ?s)"
        "label_clause (sel_label_selector ?s) (rc_labels c)"
    by blast
  then show ?thesis
  proof cases
    case type
    then have "?r = miss ''request_type %q is not in the rule's allowed list'' [rc_type c]"
      by (simp add: simps)
    moreover have "\<not> selects compile ?s c" using type by (simp add: selects_def)
    ultimately show ?thesis by (simp add: outcome_miss) (simp add: miss_def)
  next
    case meth
    then have "?r = miss ''method %q does not match the rule's method list'' [rc_method c]"
      by (simp add: simps)
    moreover have "\<not> selects compile ?s c" using meth by (simp add: selects_def)
    ultimately show ?thesis by (simp add: outcome_miss) (simp add: miss_def)
  next
    case lab
    then have ne: "sel_label_selector ?s \<noteq> []" and "\<not> selects compile ?s c"
      by (auto simp: label_clause_def selects_def)
    moreover have "(\<exists>e. ?r = match_error ''label selector: %w'' e) \<and> \<not> evaluable ?s c
        \<or> ?r = miss ''request labels do not satisfy %q'' [sel_label_selector ?s]"
      using lab ne
      by (cases "ParseLabelSelector (sel_label_selector ?s)")
        (simp_all add: simps matchLabelSelector_def label_clause_def evaluable_def, blast)
    ultimately show ?thesis
      by (elim disjE conjE exE) (simp_all add: outcome_error outcome_miss, simp add: miss_def)
  next
    case rest
    then have "?r = match_path_clause compile rule c"
      by (cases "ParseLabelSelector (sel_label_selector ?s)")
        (simp_all add: simps matchLabelSelector_def label_clause_def, blast)
    with rest show ?thesis using path by (simp add: selects_def)
  qed
qed

subsection \<open>Properties\<close>

text \<open>
  Property C28. A validated rule applies to a request exactly when all four clauses of its selector
  hold: the request type is one of the effective types, the method is listed or the list empty,
  the labels satisfy the selector, and the path matches in the sense of the clause's kind. A match
  carries the bucket key of the request; a miss carries a reason unless an error is reported, and
  an error is reported only for a label selector that does not parse or a malformed glob, the two
  things validation does not check.
\<close>

theorem Match_exact:
  assumes "RateLimit_Validate compile rule = None"
  shows "let r = MatchExplain compile rule (Some c); hit = selects compile (rl_selector rule) c in
      Match compile rule (Some c) = (hit, if hit then ResolveBucketKey rule (Some c) else [], m_err r)
      \<and> (fst (m_reason r) = [] \<longleftrightarrow> hit \<or> m_err r \<noteq> None)
      \<and> (hit \<or> evaluable (rl_selector rule) c \<longrightarrow> m_err r = None)"
proof -
  have "sel_path_match (rl_selector rule) = Some m \<Longrightarrow> valid_path_match compile m" for m
    using assms by (simp add: valid_rule_path)
  from MatchExplain_outcome [OF this] show ?thesis
    by (simp add: Match_def outcome_def Let_def)
qed

text \<open>
  Property C29. Distinct bucket keys have distinct strings, so two buckets never share a counter:
  the separators are escaped in names and values, and the global key is distinct from all others.
  The names and values are taken to be well-formed UTF-8, as label keys, identifiers and methods
  are.
\<close>

theorem BucketKey_String_injective:
  assumes "valid_key k" "valid_key k'"
  shows "BucketKey_String k = BucketKey_String k' \<longleftrightarrow> k = k'"
  using BucketKey_String_inj_valid [OF assms] by blast

definition sample_compile :: compile where
  "sample_compile p = (if p = ''['' then Inl (Err ''missing closing ]'') else Inr (\<lambda>s. Contains s p))"

definition sample_rule :: rl_definition where
  "sample_rule =
     \<lparr>rl_mode = [],
      rl_selector =
        \<lparr>sel_label_selector = ''team=a'', sel_methods = [''GET''],
         sel_path_match = Some \<lparr>pm_kind = ''glob'', pm_value = ''/v1/*''\<rparr>, sel_request_types = None\<rparr>,
      rl_dimensions = [''actor'', ''labels/team''],
      rl_algorithm =
        \<lparr>FixedWindow = Some \<lparr>fw_window = 60000000000, fw_limit = 2\<rparr>, SlidingWindow = None, TokenBucket = None\<rparr>\<rparr>"

definition sample_ctx :: request_context where
  "sample_ctx =
     \<lparr>rc_type = ''proxy'', rc_method = ''GET'', rc_url_path = Some ''/v1/users'', rc_namespace = ''root'',
      rc_actor_id = ''act_1'', rc_connection_id = ''cxn_1'', rc_connector_id = ''cxr_1'',
      rc_connector_version = 1, rc_labels = [(''team'', ''a'')]\<rparr>"

theorem Match_exact_witness:
  "RateLimit_Validate sample_compile sample_rule = None
   \<and> selects sample_compile (rl_selector sample_rule) sample_ctx
   \<and> Match sample_compile sample_rule (Some sample_ctx) =
       (True, [(''actor'', ''act_1''), (''labels/team'', ''a'')], None)"
proof -
  have v: "RateLimit_Validate sample_compile sample_rule = None" by code_simp
  have s: "selects sample_compile (rl_selector sample_rule) sample_ctx" by code_simp
  have k: "ResolveBucketKey sample_rule (Some sample_ctx) = [(''actor'', ''act_1''), (''labels/team'', ''a'')]"
    by code_simp
  show ?thesis using Match_exact [OF v, of sample_ctx] s v k by (simp add: Let_def)
qed

theorem BucketKey_String_injective_witness:
  "BucketKey_String [(''labels/a'', ''x|labels/b=y'')] \<noteq> BucketKey_String [(''labels/a'', ''x''), (''labels/b'', ''y'')]"
proof -
  have "valid_key [(''labels/a'', ''x|labels/b=y'')]" "valid_key [(''labels/a'', ''x''), (''labels/b'', ''y'')]"
    by code_simp+
  from BucketKey_String_injective [OF this] show ?thesis by simp
qed

end
