(* ===== verification/Limiter.thy ===== *)
theory Limiter
  imports Redis_Store Rate_Match
begin

text \<open>
  What the three rate limiters share (\<^verbatim>\<open>internal/ratelimit/limiter.go\<close> and the result parsing of
  \<^verbatim>\<open>limiter_fixed_window.go\<close>): decisions, Lua script results, the key prefix, and failing open.
  Scripts run on Redis as functions of the store and the server's time; the numbers they exchange
  are integers below 2 to the power 53, which Lua's doubles represent exactly. The lemmas show
  that keys of different rules, buckets and windows differ.
\<close>

subsection \<open>Decisions\<close>

record decision =
  Allowed :: bool
  RetryAfter :: int
  Remaining :: int
  FailedOpen :: bool

definition allow :: "int \<Rightarrow> decision" where
  "allow remaining = \<lparr>Allowed = True, RetryAfter = 0, Remaining = remaining, FailedOpen = False\<rparr>"

text \<open>A rejection, with the wait in milliseconds converted to a \<^verbatim>\<open>time.Duration\<close>.\<close>

definition reject :: "int \<Rightarrow> decision" where
  "reject ms =
     \<lparr>Allowed = False, RetryAfter = wrap64 (ms * 1000000), Remaining = 0, FailedOpen = False\<rparr>"

definition failOpen :: "gerror \<Rightarrow> decision \<times> err" where
  "failOpen e = (\<lparr>Allowed = True, RetryAfter = 0, Remaining = 0, FailedOpen = True\<rparr>, Some e)"

subsection \<open>Script results\<close>

text \<open>The values the driver delivers for a script's result.\<close>

datatype redis_reply = RepInt int | RepBulk string | RepArray "redis_reply list" | RepNil

fun toInt :: "redis_reply \<Rightarrow> gerror + int" where
  "toInt (RepInt x) = Inr x"
| "toInt (RepBulk x) = ParseInt64 x"
| "toInt v = Inl (Errf ''not an int: %T'' [])"

definition parseDecisionResult :: "redis_reply \<Rightarrow> gerror + bool \<times> int" where
  "parseDecisionResult res =
     (case res of
        RepArray [a, b] \<Rightarrow>
          (case toInt a of
             Inl e \<Rightarrow> Inl (Wrapf ''allowed: %w'' [] e)
           | Inr allowed \<Rightarrow>
               (case toInt b of
                  Inl e \<Rightarrow> Inl (Wrapf ''value: %w'' [] e)
                | Inr v \<Rightarrow> Inr (allowed = 1, v)))
      | _ \<Rightarrow> Inl (Errf ''unexpected lua result shape: %#v'' []))"

text \<open>What becomes of a call to Redis: it is served, or it fails before or after being served.\<close>

datatype net = Reached | FailedBefore gerror | FailedAfter gerror

definition run_script ::
  "net \<Rightarrow> ('r \<Rightarrow> int \<Rightarrow> (gerror + redis_reply) \<times> 'r) \<Rightarrow> 'r \<Rightarrow> int \<Rightarrow> (gerror + redis_reply) \<times> 'r" where
  "run_script net script r t =
     (case net of
        Reached \<Rightarrow> script r t
      | FailedBefore e \<Rightarrow> (Inl e, r)
      | FailedAfter e \<Rightarrow> (Inl e, snd (script r t)))"

text \<open>A command inside a script: an error reply aborts the script, which keeps its earlier writes.\<close>

definition call :: "(gerror + 'a) \<times> 'r \<Rightarrow> ('a \<Rightarrow> 'r \<Rightarrow> (gerror + 'b) \<times> 'r) \<Rightarrow> (gerror + 'b) \<times> 'r" where
  "call x f = (case x of (Inl e, r) \<Rightarrow> (Inl e, r) | (Inr a, r) \<Rightarrow> f a r)"

definition lua_pair :: "int \<Rightarrow> int \<Rightarrow> redis_reply" where
  "lua_pair a b = RepArray [RepInt a, RepInt b]"

text \<open>\<^verbatim>\<open>tonumber(redis.call('GET', key) or '0')\<close> in arithmetic, where a value that is not a number
  raises an error.\<close>

definition lua_count :: "gerror + string option \<Rightarrow> gerror + int" where
  "lua_count reply =
     (case reply of
        Inl e \<Rightarrow> Inl e
      | Inr None \<Rightarrow> Inr 0
      | Inr (Some s) \<Rightarrow>
          (case ParseInt64 s of
             Inl _ \<Rightarrow> Inl (Err ''attempt to perform arithmetic on a nil value'')
           | Inr n \<Rightarrow> Inr n))"

text \<open>The end of every \<^verbatim>\<open>Decide\<close> and \<^verbatim>\<open>Peek\<close>: errors fail open, a result becomes a decision.\<close>

definition finish_decision :: "gerror + redis_reply \<Rightarrow> decision \<times> err" where
  "finish_decision res =
     (case res of
        Inl e \<Rightarrow> failOpen e
      | Inr rep \<Rightarrow>
          (case parseDecisionResult rep of
             Inl e \<Rightarrow> failOpen e
           | Inr (allowed, v) \<Rightarrow> if allowed then (allow v, None) else (reject v, None)))"

type_synonym 'r decide = "'r \<Rightarrow> (decision \<times> err) may_panic \<times> 'r"

lemma finish_pair [simp]:
  "finish_decision (Inr (lua_pair 1 v)) = (allow v, None)"
  "finish_decision (Inr (lua_pair 0 v)) = (reject v, None)"
  by (simp_all add: finish_decision_def lua_pair_def parseDecisionResult_def)

lemma call_Inr [simp]: "call (Inr a, r) f = f a r" and call_Inl [simp]: "call (Inl e, r) f = (Inl e, r)"
  by (simp_all add: call_def)

lemma call_pair: "fst x = Inr a \<Longrightarrow> call x f = f a (snd x)"
  by (cases x) (simp add: call_def)

lemma lua_count_int [simp]: "0 \<le> n \<Longrightarrow> n < 2 ^ 63 \<Longrightarrow> lua_count (Inr (Some (FormatInt n))) = Inr n"
  by (simp add: lua_count_def ParseInt64_FormatInt)

lemma lua_count_none [simp]: "lua_count (Inr None) = Inr 0"
  by (simp add: lua_count_def)

subsection \<open>Keys\<close>

definition limiterKeyPrefix :: "string \<Rightarrow> bucket_key \<Rightarrow> string" where
  "limiterKeyPrefix ruleID bucketKey = ''ratelimit:rule:'' @ ruleID @ '':'' @ BucketKey_String bucketKey"

text \<open>A rule identifier has no colon, so a key determines the rule and the bucket.\<close>

lemma colon_split:
  assumes "CHR '':'' \<notin> set a" "CHR '':'' \<notin> set b" "a @ CHR '':'' # x = b @ CHR '':'' # y"
  shows "a = b \<and> x = y"
  using assms
proof (induction a arbitrary: b)
  case Nil
  then show ?case by (cases b) auto
next
  case (Cons c a)
  then show ?case by (cases b) auto
qed

lemma colon_split_last:
  assumes "CHR '':'' \<notin> set a" "CHR '':'' \<notin> set b" "x @ CHR '':'' # a = y @ CHR '':'' # b"
  shows "x = y \<and> a = b"
proof -
  have "rev a @ CHR '':'' # rev x = rev b @ CHR '':'' # rev y"
    using arg_cong [OF assms(3), of rev] by simp
  with colon_split [of "rev a" "rev b" "rev x" "rev y"] assms(1,2) show ?thesis by simp
qed

lemma limiterKeyPrefix_inj:
  assumes "CHR '':'' \<notin> set i" "CHR '':'' \<notin> set j" "valid_key k" "valid_key l"
    and "limiterKeyPrefix i k @ s = limiterKeyPrefix j l @ s"
  shows "i = j \<and> k = l"
proof -
  have "i @ CHR '':'' # BucketKey_String k = j @ CHR '':'' # BucketKey_String l"
    using assms(5) by (simp add: limiterKeyPrefix_def)
  then have "i = j" "BucketKey_String k = BucketKey_String l"
    using colon_split assms by blast+
  with assms show ?thesis using BucketKey_String_inj_valid by blast
qed

text \<open>A key that ends in a window number determines the number as well.\<close>

lemma window_key_inj:
  assumes "limiterKeyPrefix i k @ tag @ '':'' @ FormatInt m = limiterKeyPrefix j l @ tag @ '':'' @ FormatInt n"
    and "CHR '':'' \<notin> set i" "CHR '':'' \<notin> set j" "valid_key k" "valid_key l"
  shows "i = j \<and> k = l \<and> m = n"
proof -
  have eq: "(limiterKeyPrefix i k @ tag) @ CHR '':'' # FormatInt m =
      (limiterKeyPrefix j l @ tag) @ CHR '':'' # FormatInt n" using assms(1) by simp
  have "limiterKeyPrefix i k @ tag = limiterKeyPrefix j l @ tag \<and> FormatInt m = FormatInt n"
    by (rule colon_split_last [OF FormatInt_no_colon FormatInt_no_colon eq])
  with assms limiterKeyPrefix_inj FormatInt_inj show ?thesis by blast
qed

subsection \<open>Sequences of requests\<close>

text \<open>Requests served one after the other, each with its bucket and its time.\<close>

fun run_limiter :: "('b \<Rightarrow> int \<Rightarrow> 'r \<Rightarrow> 'a \<times> 'r) \<Rightarrow> ('b \<times> int) list \<Rightarrow> 'r \<Rightarrow> 'a list \<times> 'r" where
  "run_limiter d [] r = ([], r)"
| "run_limiter d ((b, now) # as) r =
     (case d b now r of
        (x, r1) \<Rightarrow> (case run_limiter d as r1 of (ys, r2) \<Rightarrow> (x # ys, r2)))"

lemma run_limiter_Cons:
  "fst (run_limiter d ((b, now) # as) r) = fst (d b now r) # fst (run_limiter d as (snd (d b now r)))"
  by (simp split: prod.split)

lemma run_limiter_snoc:
  "run_limiter d (as @ [(b, now)]) r =
     (case run_limiter d as r of
        (ys, r1) \<Rightarrow> (case d b now r1 of (x, r2) \<Rightarrow> (ys @ [x], r2)))"
  by (induction as arbitrary: r) (auto split: prod.splits)

end
