(* ===== verification/Fixed_Window.thy ===== *)
theory Fixed_Window
  imports Limiter
begin

text \<open>
  The fixed window limiter (\<^verbatim>\<open>internal/ratelimit/limiter_fixed_window.go\<close>): its two Lua scripts,
  \<^verbatim>\<open>Decide\<close> and \<^verbatim>\<open>Peek\<close>. The lemmas show that over any sequence of requests the limiter
  implements a counter per bucket and window, that \<^verbatim>\<open>Peek\<close> predicts \<^verbatim>\<open>Decide\<close>, and what a
  window shorter than a millisecond does.
\<close>

subsection \<open>Scripts\<close>

definition fixedWindowScript ::
  "'r redis_ops \<Rightarrow> string \<Rightarrow> int \<Rightarrow> int \<Rightarrow> 'r \<Rightarrow> int \<Rightarrow> (gerror + redis_reply) \<times> 'r" where
  "fixedWindowScript ops key limit window_ms r t =
     call (INCR ops r t key) (\<lambda>count r1.
       let r2 = (if count = 1 then PEXPIRE ops r1 t key window_ms else r1)
       in if count > limit then
            let pttl = PTTL ops r2 t key
            in (Inr (lua_pair 0 (if pttl < 0 then window_ms else pttl)), r2)
          else (Inr (lua_pair 1 (limit - count)), r2))"

definition fixedWindowPeekScript ::
  "'r redis_ops \<Rightarrow> string \<Rightarrow> int \<Rightarrow> int \<Rightarrow> 'r \<Rightarrow> int \<Rightarrow> gerror + redis_reply" where
  "fixedWindowPeekScript ops key limit window_ms r t =
     (case lua_count (GET ops r t key) of
        Inl e \<Rightarrow> Inl e
      | Inr count \<Rightarrow>
          if count + 1 > limit then
            let pttl = PTTL ops r t key
            in Inr (lua_pair 0 (if pttl < 0 then window_ms else pttl))
          else Inr (lua_pair 1 (limit - count - 1)))"

subsection \<open>The limiter\<close>

record fixed_window_limiter =
  fwl_rule :: string
  fwl_limit :: int
  fwl_window :: int

definition newFixedWindowLimiter :: "string \<Rightarrow> fixed_window \<Rightarrow> fixed_window_limiter" where
  "newFixedWindowLimiter ruleID params =
     \<lparr>fwl_rule = ruleID, fwl_limit = fw_limit params, fwl_window = fw_window params\<rparr>"

text \<open>\<^verbatim>\<open>Duration.Milliseconds\<close>.\<close>

definition Milliseconds :: "int \<Rightarrow> int" where
  "Milliseconds d = quot d 1000000"

definition fw_key :: "string \<Rightarrow> bucket_key \<Rightarrow> int \<Rightarrow> string" where
  "fw_key ruleID bucketKey windowID = limiterKeyPrefix ruleID bucketKey @ '':fw:'' @ FormatInt windowID"

text \<open>
  \<open>now\<close> is the caller's clock in milliseconds and \<open>srv\<close> the server's when the call is served.
  Division by a zero window panics.
\<close>

definition fixedWindow_Decide ::
  "'r redis_ops \<Rightarrow> net \<Rightarrow> fixed_window_limiter \<Rightarrow> bucket_key \<Rightarrow> int \<Rightarrow> int \<Rightarrow> 'r decide" where
  "fixedWindow_Decide ops net l bucketKey now srv r =
     (let windowMs = Milliseconds (fwl_window l)
      in if windowMs = 0 then (Inl ''integer divide by zero'', r)
         else
           let windowID = quot now windowMs;
               key = fw_key (fwl_rule l) bucketKey windowID
           in case run_script net (fixedWindowScript ops key (fwl_limit l) windowMs) r srv of
                (res, r') \<Rightarrow> (Inr (finish_decision res), r'))"

definition fixedWindow_Peek ::
  "'r redis_ops \<Rightarrow> net \<Rightarrow> fixed_window_limiter \<Rightarrow> bucket_key \<Rightarrow> int \<Rightarrow> int \<Rightarrow> 'r decide" where
  "fixedWindow_Peek ops net l bucketKey now srv r =
     (let windowMs = Milliseconds (fwl_window l)
      in if windowMs = 0 then (Inl ''integer divide by zero'', r)
         else
           let windowID = quot now windowMs;
               key = fw_key (fwl_rule l) bucketKey windowID
           in case run_script net (\<lambda>r t. (fixedWindowPeekScript ops key (fwl_limit l) windowMs r t, r)) r srv of
                (res, r') \<Rightarrow> (Inr (finish_decision res), r'))"

subsection \<open>The counter per bucket and window\<close>

text \<open>The requests of a history that fall in a bucket and window, and the decision they imply.\<close>

definition slot :: "int \<Rightarrow> bucket_key \<Rightarrow> int \<Rightarrow> (bucket_key \<times> int) list \<Rightarrow> (bucket_key \<times> int) list" where
  "slot w b i hist = filter (\<lambda>a. fst a = b \<and> snd a div w = i) hist"

definition fw_spec :: "int \<Rightarrow> int \<Rightarrow> (bucket_key \<times> int) list \<Rightarrow> bucket_key \<times> int \<Rightarrow> decision" where
  "fw_spec limit w hist a =
     (let earlier = slot w (fst a) (snd a div w) hist; n = int (length earlier)
      in if n < limit then allow (limit - n - 1)
         else reject (snd (hd earlier) + w - snd a))"

fun spec_run :: "('a list \<Rightarrow> 'a \<Rightarrow> 'd) \<Rightarrow> 'a list \<Rightarrow> 'a list \<Rightarrow> 'd list" where
  "spec_run f hist [] = []"
| "spec_run f hist (a # as) = f hist a # spec_run f (hist @ [a]) as"

lemma slot_snoc: "slot w b i (hist @ [a]) = slot w b i hist @ (if fst a = b \<and> snd a div w = i then [a] else [])"
  by (simp add: slot_def)

lemma slot_length: "length (slot w b i hist) \<le> length hist"
  by (simp add: slot_def)

lemma slot_hd:
  "slot w b i hist \<noteq> [] \<Longrightarrow> hd (slot w b i hist) \<in> set hist \<and> snd (hd (slot w b i hist)) div w = i"
proof -
  assume "slot w b i hist \<noteq> []"
  then have "hd (slot w b i hist) \<in> set (slot w b i hist)" by simp
  then show ?thesis by (auto simp: slot_def)
qed

lemma same_window: "0 < w \<Longrightarrow> a div w = b div w \<Longrightarrow> b < a + (w :: int)"
proof -
  assume w: "0 < w" and q: "a div w = b div w"
  have "a = w * (b div w) + a mod w" unfolding q [symmetric] by simp
  moreover have "b = w * (b div w) + b mod w" by simp
  moreover have "0 \<le> a mod w" "b mod w < w" using w by simp_all
  ultimately show ?thesis by linarith
qed

text \<open>The entry a history leaves for a bucket and window, and the invariant over the keys of the
  current and later windows.\<close>

definition fw_entry :: "int \<Rightarrow> int \<Rightarrow> (bucket_key \<times> int) list \<Rightarrow> rentry" where
  "fw_entry w skew xs =
     (if xs = [] then None
      else Some (RString (FormatInt (int (length xs))), Some (snd (hd xs) + skew + w)))"

definition fw_inv ::
  "('r \<Rightarrow> int \<Rightarrow> string \<Rightarrow> rentry) \<Rightarrow> string \<Rightarrow> int \<Rightarrow> int \<Rightarrow> (bucket_key \<times> int) list \<Rightarrow> int \<Rightarrow> 'r \<Rightarrow> bool" where
  "fw_inv entry rule w skew hist now r \<longleftrightarrow>
     (\<forall>b i. valid_key b \<and> now div w \<le> i \<longrightarrow>
        entry r (now + skew) (fw_key rule b i) = fw_entry w skew (slot w b i hist))"

lemma fw_key_inj:
  "fw_key rule b i = fw_key rule b' i' \<Longrightarrow> CHR '':'' \<notin> set rule \<Longrightarrow> valid_key b \<Longrightarrow> valid_key b' \<Longrightarrow>
   b = b' \<and> i = i'"
  using window_key_inj [of rule b "'':fw''" i rule b' i'] by (simp add: fw_key_def)

context redis_db
begin

lemma fw_inv_later:
  assumes inv: "fw_inv entry rule w skew hist now r" and "now \<le> now'" "0 < w"
    and past: "\<forall>a \<in> set hist. snd a \<le> now"
  shows "fw_inv entry rule w skew hist now' r"
  unfolding fw_inv_def
proof (intro allI impI, elim conjE)
  fix b i assume b: "valid_key b" and i: "now' div w \<le> i"
  have "now div w \<le> now' div w" using assms by (simp add: zdiv_mono1)
  with inv b i have e: "entry r (now + skew) (fw_key rule b i) = fw_entry w skew (slot w b i hist)"
    by (auto simp: fw_inv_def)
  show "entry r (now' + skew) (fw_key rule b i) = fw_entry w skew (slot w b i hist)"
  proof (cases "slot w b i hist = []")
    case True
    with e have "entry r (now + skew) (fw_key rule b i) = None" by (simp add: fw_entry_def)
    from entry_none [OF this, of "now' + skew"] True assms(2) show ?thesis by (simp add: fw_entry_def)
  next
    case False
    let ?a = "hd (slot w b i hist)"
    have "snd ?a \<le> now'" "snd ?a div w = i"
      using slot_hd [OF False] past assms(2) by auto
    then have "snd ?a div w = now' div w"
      using i zdiv_mono1 [of "snd ?a" now' w] assms(3) by simp
    then have "now' < snd ?a + w" using same_window assms(3) by blast
    then have later: "now' + skew < snd ?a + skew + w" by simp
    from e False have "entry r (now + skew) (fw_key rule b i) =
        Some (RString (FormatInt (int (length (slot w b i hist)))), Some (snd ?a + skew + w))"
      by (simp add: fw_entry_def)
    from entry_later [OF this _ later] False assms(2) show ?thesis by (simp add: fw_entry_def)
  qed
qed

lemma fixedWindowScript_slot:
  assumes e: "entry r t k = fw_entry w skew xs" and "0 < w" "0 < limit" "int (length xs) < 2 ^ 63 - 1"
    and alive: "xs = [] \<Longrightarrow> t = now + skew" "xs \<noteq> [] \<Longrightarrow> t < snd (hd xs) + skew + w"
  shows "fst (fixedWindowScript ops k limit w r t) =
           Inr (if int (length xs) < limit then lua_pair 1 (limit - int (length xs) - 1)
                else lua_pair 0 (snd (hd xs) + skew + w - t))"
    and "entry (snd (fixedWindowScript ops k limit w r t)) t k = fw_entry w skew (xs @ [(b, now)])"
proof -
  let ?n = "int (length xs)"
  have "fst (fixedWindowScript ops k limit w r t) =
           Inr (if ?n < limit then lua_pair 1 (limit - ?n - 1) else lua_pair 0 (snd (hd xs) + skew + w - t))
    \<and> entry (snd (fixedWindowScript ops k limit w r t)) t k = fw_entry w skew (xs @ [(b, now)])"
  proof (cases "xs = []")
    case True
    with e have "entry r t k = None" by (simp add: fw_entry_def)
    note i = INCR_absent [OF this]
    have "entry (PEXPIRE ops (snd (INCR ops r t k)) t k w) t k = Some (RString (FormatInt 1), Some (t + w))"
      using i assms(2) PEXPIRE_sets by blast
    with True i assms(2-4) alive(1) show ?thesis
      by (simp add: fixedWindowScript_def call_pair fw_entry_def Let_def)
  next
    case False
    with e have "entry r t k = Some (RString (FormatInt ?n), Some (snd (hd xs) + skew + w))"
      by (simp add: fw_entry_def)
    note i = INCR_present [OF this _ assms(4)]
    have "0 < ?n" using False by simp
    with False i alive(2) show ?thesis
      by (simp add: fixedWindowScript_def call_pair fw_entry_def Let_def PTTL_reads algebra_simps)
  qed
  note result = this
  show "fst (fixedWindowScript ops k limit w r t) =
           Inr (if int (length xs) < limit then lua_pair 1 (limit - int (length xs) - 1)
                else lua_pair 0 (snd (hd xs) + skew + w - t))"
    by (rule result [THEN conjunct1])
  show "entry (snd (fixedWindowScript ops k limit w r t)) t k = fw_entry w skew (xs @ [(b, now)])"
    by (rule result [THEN conjunct2])
qed

lemma fixedWindowScript_frame:
  assumes "k' \<noteq> k" "t \<le> t'"
  shows "entry (snd (fixedWindowScript ops k limit w r t)) t' k' = entry r t' k'"
proof -
  obtain x r1 where i: "INCR ops r t k = (x, r1)" by fastforce
  have "entry r1 t' k' = entry r t' k'" using INCR_frame [OF assms, of r] i by simp
  with i show ?thesis
    by (cases x) (auto simp: fixedWindowScript_def Let_def PEXPIRE_frame [OF assms])
qed

end

context redis_db
begin

lemma fixedWindow_Decide_step:
  assumes l: "Milliseconds (fwl_window l) = w" "0 < w" "fwl_limit l = limit" "0 < limit" "CHR '':'' \<notin> set (fwl_rule l)"
    and inv: "fw_inv entry (fwl_rule l) w skew hist now r"
    and past: "\<forall>a \<in> set hist. snd a \<le> now" and "0 \<le> now" "valid_key b" "int (length hist) < 2 ^ 63 - 1"
  shows "\<exists>r'. fixedWindow_Decide ops Reached l b now (now + skew) r = (Inr (fw_spec limit w hist (b, now), None), r')
    \<and> fw_inv entry (fwl_rule l) w skew (hist @ [(b, now)]) now r'"
proof -
  let ?i = "now div w"
  let ?k = "fw_key (fwl_rule l) b ?i" and ?xs = "slot w b (now div w) hist" and ?t = "now + skew"
  let ?s = "fixedWindowScript ops ?k limit w r ?t"
  have e: "entry r ?t ?k = fw_entry w skew ?xs" using inv \<open>valid_key b\<close> by (simp add: fw_inv_def)
  have len: "int (length ?xs) < 2 ^ 63 - 1" using slot_length [of w b ?i hist] assms(10) by linarith
  have alive: "now + skew < snd (hd ?xs) + skew + w" if "?xs \<noteq> []"
    using slot_hd [OF that] same_window [of w "snd (hd ?xs)" now] \<open>0 < w\<close> by simp
  have script: "fst ?s = Inr (if int (length ?xs) < limit then lua_pair 1 (limit - int (length ?xs) - 1)
        else lua_pair 0 (snd (hd ?xs) + w - now))"
      "entry (snd ?s) ?t ?k = fw_entry w skew (?xs @ [(b, now)])"
    using fixedWindowScript_slot [OF e \<open>0 < w\<close> \<open>0 < limit\<close> len, of now, OF _ alive] by (simp_all add: algebra_simps)
  have "fixedWindow_Decide ops Reached l b now (now + skew) r = (Inr (finish_decision (fst ?s)), snd ?s)"
    using l \<open>0 \<le> now\<close> by (simp add: fixedWindow_Decide_def Let_def quot_pos run_script_def split: prod.split)
  moreover have "finish_decision (fst ?s) = (fw_spec limit w hist (b, now), None)"
    by (simp add: script(1) fw_spec_def Let_def)
  moreover have "fw_inv entry (fwl_rule l) w skew (hist @ [(b, now)]) now (snd ?s)"
    unfolding fw_inv_def
  proof (intro allI impI, elim conjE)
    fix b' i assume b': "valid_key b'" and i: "now div w \<le> i"
    show "entry (snd ?s) ?t (fw_key (fwl_rule l) b' i) = fw_entry w skew (slot w b' i (hist @ [(b, now)]))"
    proof (cases "b' = b \<and> i = ?i")
      case True
      then show ?thesis using script(2) by (simp add: slot_snoc)
    next
      case False
      then have "fw_key (fwl_rule l) b' i \<noteq> ?k" using fw_key_inj l(5) b' \<open>valid_key b\<close> by blast
      then have "entry (snd ?s) ?t (fw_key (fwl_rule l) b' i) = entry r ?t (fw_key (fwl_rule l) b' i)"
        by (simp add: fixedWindowScript_frame)
      with inv b' i False show ?thesis by (auto simp: fw_inv_def slot_snoc)
    qed
  qed
  ultimately show ?thesis by simp
qed

lemma fixedWindow_run:
  assumes l: "Milliseconds (fwl_window l) = w" "0 < w" "fwl_limit l = limit" "0 < limit" "CHR '':'' \<notin> set (fwl_rule l)"
  shows "fw_inv entry (fwl_rule l) w skew hist now r \<Longrightarrow> \<forall>a \<in> set hist. snd a \<le> now \<Longrightarrow> 0 \<le> now \<Longrightarrow>
    sorted (now # map snd as) \<Longrightarrow> list_all (\<lambda>a. valid_key (fst a)) as \<Longrightarrow>
    int (length hist + length as) < 2 ^ 63 - 1 \<Longrightarrow>
    fst (run_limiter (\<lambda>b now. fixedWindow_Decide ops Reached l b now (now + skew)) as r) =
      map (\<lambda>d. Inr (d, None)) (spec_run (fw_spec limit w) hist as)"
proof (induction as arbitrary: hist now r)
  case (Cons a as)
  obtain b t where a: "a = (b, t)" by fastforce
  have "now \<le> t" using Cons.prems(4) a by simp
  have inv: "fw_inv entry (fwl_rule l) w skew hist t r"
    using fw_inv_later [OF Cons.prems(1) \<open>now \<le> t\<close> l(2) Cons.prems(2)] .
  have past: "\<forall>a \<in> set hist. snd a \<le> t" using Cons.prems(2) \<open>now \<le> t\<close> by auto
  have t: "0 \<le> t" "valid_key b" "int (length hist) < 2 ^ 63 - 1"
    using Cons.prems \<open>now \<le> t\<close> a by auto
  obtain r' where r': "fixedWindow_Decide ops Reached l b t (t + skew) r = (Inr (fw_spec limit w hist (b, t), None), r')"
    "fw_inv entry (fwl_rule l) w skew (hist @ [(b, t)]) t r'"
    using fixedWindow_Decide_step [OF l inv past t] by blast
  have "fst (run_limiter (\<lambda>b now. fixedWindow_Decide ops Reached l b now (now + skew)) as r') =
      map (\<lambda>d. Inr (d, None)) (spec_run (fw_spec limit w) (hist @ [a]) as)"
    by (rule Cons.IH [of _ t]) (use r'(2) past t Cons.prems a in auto)
  with r'(1) a show ?case by (simp add: run_limiter_Cons del: run_limiter.simps)
qed simp

end

subsection \<open>Properties\<close>

text \<open>
  Property C24. Over any sequence of requests in time order, for any mix of buckets, the fixed
  window limiter implements a counter per bucket and window: the decision on a request is
  determined by the number of earlier requests of the same bucket in the same window alone. The
  first \<open>limit\<close> of them are allowed with the number remaining, and every later one is rejected.
  Redis starts with none of the rule's keys, and its clock runs ahead of the caller's by a
  constant.
\<close>

theorem fixedWindow_counts:
  assumes "redis_db ops entry" "0 < Milliseconds (fwl_window l)" "0 < fwl_limit l"
    and "CHR '':'' \<notin> set (fwl_rule l)" "sorted (map snd as)" "list_all (\<lambda>a. valid_key (fst a) \<and> start \<le> snd a) as"
    and "0 \<le> start" "int (length as) < 2 ^ 63 - 1"
    and "\<forall>b i. entry r (start + skew) (fw_key (fwl_rule l) b i) = None"
  shows "fst (run_limiter (\<lambda>b now. fixedWindow_Decide ops Reached l b now (now + skew)) as r) =
     map (\<lambda>d. Inr (d, None)) (spec_run (fw_spec (fwl_limit l) (Milliseconds (fwl_window l))) [] as)"
proof (rule redis_db.fixedWindow_run [OF assms(1) refl assms(2) refl assms(3,4), where now = start])
  show "fw_inv entry (fwl_rule l) (Milliseconds (fwl_window l)) skew [] start r"
    using assms(9) by (simp add: fw_inv_def fw_entry_def slot_def)
qed (use assms in \<open>auto simp: list_all_iff\<close>)

definition sample_fw :: fixed_window_limiter where
  "sample_fw = newFixedWindowLimiter ''rl_1'' \<lparr>fw_window = 60000000000, fw_limit = 2\<rparr>"

definition sample_arrivals :: "(bucket_key \<times> int) list" where
  "sample_arrivals =
     (let a = [(''actor'', ''act_1'')]; b = [(''actor'', ''act_2'')]
      in [(a, 119000), (a, 119500), (b, 119600), (a, 119900), (a, 120000)])"

theorem fixedWindow_counts_witness:
  "map (\<lambda>x. case x of Inr (d, _) \<Rightarrow> Allowed d | Inl _ \<Rightarrow> False)
     (fst (run_limiter (\<lambda>b now. fixedWindow_Decide mem_redis_ops Reached sample_fw b now (now + 7)) sample_arrivals [])) =
   [True, True, True, False, True]"
proof -
  have h: "0 < Milliseconds (fwl_window sample_fw)" "0 < fwl_limit sample_fw"
    "CHR '':'' \<notin> set (fwl_rule sample_fw)" "sorted (map snd sample_arrivals)"
    "list_all (\<lambda>a. valid_key (fst a) \<and> 119000 \<le> snd a) sample_arrivals"
    "(0 :: int) \<le> 119000" "int (length sample_arrivals) < 2 ^ 63 - 1"
    by code_simp+
  have e: "\<forall>b i. mem_entry [] (119000 + 7) (fw_key (fwl_rule sample_fw) b i) = None"
    by (simp add: mem_entry_def)
  have "map Allowed (spec_run (fw_spec (fwl_limit sample_fw) (Milliseconds (fwl_window sample_fw))) [] sample_arrivals) =
      [True, True, True, False, True]" by code_simp
  with fixedWindow_counts [OF mredis.redis_db_axioms h e] show ?thesis by (simp add: comp_def)
qed

subsection \<open>Peek\<close>

text \<open>A key that is absent or holds a counter.\<close>

definition counter_entry :: "rentry \<Rightarrow> bool" where
  "counter_entry x \<longleftrightarrow>
     x = None \<or> (\<exists>n e. x = Some (RString (FormatInt n), e) \<and> 0 \<le> n \<and> n < 2 ^ 63 - 1)"

context redis_db
begin

lemma fixedWindow_scripts_agree:
  assumes "counter_entry (entry r t k)" "0 < limit"
  shows "fst (fixedWindowScript ops k limit w r t) = fixedWindowPeekScript ops k limit w r t"
proof (cases "entry r t k")
  case None
  with INCR_absent [OF None] GET_absent [OF None] assms(2) show ?thesis
    by (simp add: fixedWindowScript_def fixedWindowPeekScript_def call_pair Let_def)
next
  case (Some x)
  with assms(1) obtain n e where x: "entry r t k = Some (RString (FormatInt n), e)" "0 \<le> n" "n < 2 ^ 63 - 1"
    by (auto simp: counter_entry_def)
  have g: "lua_count (GET ops r t k) = Inr n" using GET_present [OF x(1)] x by simp
  note i = INCR_present [OF x]
  have "PTTL ops (snd (INCR ops r t k)) t k = PTTL ops r t k"
    using i x by (simp add: PTTL_reads split: option.split)
  with i g assms(2) x(2) show ?thesis
    by (auto simp: fixedWindowScript_def fixedWindowPeekScript_def call_pair Let_def algebra_simps)
qed

lemma fixedWindow_Peek_predicts:
  assumes "counter_entry (entry r srv (fw_key (fwl_rule l) b (quot now (Milliseconds (fwl_window l)))))" "0 < fwl_limit l"
  shows "fixedWindow_Peek ops Reached l b now srv r = (fst (fixedWindow_Decide ops Reached l b now srv r), r)"
  using fixedWindow_scripts_agree [OF assms]
  by (simp add: fixedWindow_Peek_def fixedWindow_Decide_def Let_def run_script_def case_prod_unfold)

end

text \<open>
  The wait a rejected request is told is counted from the first request of the
  window, not to the end of the window: with a limit of two per minute and requests at 59.90,
  59.91 and 59.95 seconds past the minute, the third is told to wait 59.95 seconds, although the
  window ends 50 milliseconds later and a request is allowed again then.
\<close>

theorem fixedWindow_retry_overestimates:
  "let b = [(''actor'', ''act_1''), (''method'', ''GET'')];
       run = run_limiter (\<lambda>b now. fixedWindow_Decide mem_redis_ops Reached sample_fw b now now)
               [(b, 119900), (b, 119910), (b, 119950), (b, 120000)] []
   in map (\<lambda>x. case x of Inr (d, _) \<Rightarrow> (Allowed d, RetryAfter d) | Inl _ \<Rightarrow> (False, 0)) (fst run) =
        [(True, 0), (True, 0), (False, 59950 * 1000000), (True, 0)]"
  by code_simp

end
