(* ===== verification/Lua_Numbers.thy ===== *)
theory Lua_Numbers
  imports Go_Float
begin

text \<open>
  The numbers of the Lua interpreter inside Redis. Lua computes with doubles; an arithmetic result
  is the exact result rounded by \<open>fl\<close>, and \<open>tostring\<close> keeps fourteen significant digits. The
  interpreter is not part of the repository, so these functions are parameters and the locale
  \<open>lua_numbers\<close> states what the language promises of them: rounding is monotone and exact on the
  integers a double represents, and so is writing a number to a string and reading it back.
  \<open>lua_double\<close> is the instance with the doubles of the interpreter, and \<open>fixed_point\<close> one that
  rounds to a grid and evaluates faster.
\<close>

record lua_ops =
  fl :: "rat \<Rightarrow> rat"
  tostring :: "rat \<Rightarrow> string"
  tonumber :: "string \<Rightarrow> rat option"

text \<open>The number read back from the text of a number.\<close>

definition reread :: "lua_ops \<Rightarrow> rat \<Rightarrow> rat" where
  "reread L x = (case tonumber L (tostring L x) of None \<Rightarrow> x | Some y \<Rightarrow> y)"

locale lua_numbers =
  fixes L :: lua_ops
  assumes fl_mono: "x \<le> y \<Longrightarrow> fl L x \<le> fl L y"
    and fl_int: "\<bar>n\<bar> \<le> 2 ^ 53 \<Longrightarrow> fl L (of_int n) = of_int n"
    and tonumber_tostring: "tonumber L (tostring L x) = Some (reread L x)"
    and reread_mono: "x \<le> y \<Longrightarrow> reread L x \<le> reread L y"
    and reread_int: "\<bar>n\<bar> \<le> 10 ^ 14 \<Longrightarrow> reread L (of_int n) = of_int n"
begin

lemma fl_zero: "fl L 0 = 0"
  using fl_int [of 0] by simp

lemma fl_one: "fl L 1 = 1"
  using fl_int [of 1] by simp

lemma fl_nonneg: "0 \<le> x \<Longrightarrow> 0 \<le> fl L x"
  using fl_mono [of 0 x] by (simp add: fl_zero)

lemma fl_le_int: "x \<le> of_int n \<Longrightarrow> \<bar>n\<bar> \<le> 2 ^ 53 \<Longrightarrow> fl L x \<le> of_int n"
  using fl_mono [of x "of_int n"] fl_int [of n] by simp

lemma reread_nonneg: "0 \<le> x \<Longrightarrow> 0 \<le> reread L x"
  using reread_mono [of 0 x] reread_int [of 0] by simp

lemma reread_le_int: "x \<le> of_int n \<Longrightarrow> \<bar>n\<bar> \<le> 10 ^ 14 \<Longrightarrow> reread L x \<le> of_int n"
  using reread_mono [of x "of_int n"] reread_int [of n] by simp

end

subsection \<open>An instance\<close>

definition grid :: "int \<Rightarrow> rat \<Rightarrow> rat" where
  "grid d x = of_int (round (x * of_int d)) / of_int d"

definition parse_signed :: "string \<Rightarrow> int option" where
  "parse_signed s =
     (case s of
        [] \<Rightarrow> None
      | c # cs \<Rightarrow>
          if c = CHR ''-'' then map_option (\<lambda>n. - int n) (parse_digits 0 cs)
          else map_option int (parse_digits 0 s))"

definition fixed_point :: lua_ops where
  "fixed_point =
     \<lparr>fl = grid (2 ^ 20),
      tostring = (\<lambda>x. FormatInt (round (x * 10 ^ 9)) @ ''e-9''),
      tonumber = (\<lambda>s. if HasSuffix s ''e-9'' then
                        map_option (\<lambda>n. of_int n / 10 ^ 9) (parse_signed (TrimSuffix s ''e-9''))
                      else map_option of_int (parse_signed s))\<rparr>"

lemma parse_signed_FormatInt: "parse_signed (FormatInt i) = Some i"
proof (cases "i < 0")
  case True
  then show ?thesis by (simp add: parse_signed_def FormatInt_def parse_FormatUint)
next
  case False
  obtain c cs where c: "FormatUint (nat i) = c # cs" by (cases "FormatUint (nat i)") auto
  then have "c \<noteq> CHR ''-''" using minus_not_digit by blast
  with False c parse_FormatUint [of "nat i"] show ?thesis
    by (simp add: parse_signed_def FormatInt_def)
qed

lemma grid_mono: "0 < d \<Longrightarrow> x \<le> y \<Longrightarrow> grid d x \<le> grid d y"
  by (simp add: grid_def divide_right_mono round_mono mult_right_mono)

lemma grid_int: "0 < d \<Longrightarrow> grid d (of_int n) = of_int n"
proof -
  assume "0 < d"
  moreover have "round (rat_of_int n * of_int d) = n * d"
    by (metis of_int_mult round_of_int)
  ultimately show ?thesis by (simp add: grid_def)
qed

lemma grid_error: "0 < d \<Longrightarrow> \<bar>grid d x - x\<bar> \<le> 1 / (2 * of_int d)"
proof -
  assume d: "0 < d"
  have "\<bar>of_int (round (x * of_int d)) - x * of_int d\<bar> \<le> 1 / 2"
    using of_int_round_abs_le by blast
  then have "\<bar>of_int (round (x * of_int d)) - x * of_int d\<bar> / of_int d \<le> 1 / 2 / of_int d"
    using d by (intro divide_right_mono) simp_all
  moreover have "\<bar>of_int (round (x * of_int d)) - x * of_int d\<bar> / of_int d = \<bar>grid d x - x\<bar>"
  proof -
    have "grid d x - x = (of_int (round (x * of_int d)) - x * of_int d) / of_int d"
      using d by (simp add: grid_def diff_divide_distrib)
    then show ?thesis using d by (simp add: abs_divide)
  qed
  ultimately show ?thesis by simp
qed

lemma fixed_point_tonumber: "tonumber fixed_point (tostring fixed_point x) = Some (grid (10 ^ 9) x)"
  by (simp add: fixed_point_def parse_signed_FormatInt grid_def)

lemma fixed_point_reread: "reread fixed_point x = grid (10 ^ 9) x"
  by (simp add: reread_def fixed_point_tonumber)

interpretation lua_fixed: lua_numbers fixed_point
proof unfold_locales
  show "tonumber fixed_point (tostring fixed_point x) = Some (reread fixed_point x)" for x
    by (simp add: fixed_point_tonumber fixed_point_reread)
qed (simp_all only: fixed_point_reread, simp_all add: fixed_point_def grid_mono grid_int)

subsection \<open>Doubles\<close>

text \<open>
  \<open>lua_double\<close> rounds to 53 binary digits and writes 14 decimal digits, as \<^verbatim>\<open>%.14g\<close> does, with the
  exponent always written out.
\<close>

definition g14 :: "rat \<Rightarrow> string" where
  "g14 x =
     (if x = 0 then ''0e0''
      else FormatInt (rne (x / ulp 10 14 x)) @ CHR ''e'' # FormatInt (fexp 10 x - 13))"

definition read_number :: "string \<Rightarrow> rat option" where
  "read_number s =
     (case parse_signed (takeWhile (\<lambda>c. c \<noteq> CHR ''e'') s) of
        None \<Rightarrow> None
      | Some m \<Rightarrow>
          (case dropWhile (\<lambda>c. c \<noteq> CHR ''e'') s of
             [] \<Rightarrow> Some (f64 (of_int m))
           | _ # t \<Rightarrow> map_option (\<lambda>k. f64 (of_int m * 10 powi k)) (parse_signed t)))"

definition lua_double :: lua_ops where
  "lua_double = \<lparr>fl = f64, tostring = g14, tonumber = read_number\<rparr>"

lemma FormatInt_no_e: "c \<in> set (FormatInt i) \<Longrightarrow> c \<noteq> CHR ''e''"
  using FormatInt_chars [of c i] by (auto simp: digit_value_def)

lemma read_g14: "read_number (g14 x) = Some (f64 (round_to 10 14 x))"
proof (cases "x = 0")
  case True
  have "parse_signed ''0'' = Some 0" by code_simp
  with True show ?thesis by (simp add: g14_def read_number_def)
next
  case False
  have t: "takeWhile (\<lambda>c. c \<noteq> CHR ''e'') (FormatInt i @ CHR ''e'' # s) = FormatInt i" for i s
    using FormatInt_no_e [of _ i] by (simp add: takeWhile_append2)
  have d: "dropWhile (\<lambda>c. c \<noteq> CHR ''e'') (FormatInt i @ CHR ''e'' # s) = CHR ''e'' # s" for i s
    using FormatInt_no_e [of _ i] by (simp add: dropWhile_append2)
  have "ulp 10 14 x = 10 powi (fexp 10 x - 13)" by (simp add: ulp_def)
  with False show ?thesis by (simp add: g14_def read_number_def t d parse_signed_FormatInt round_to_def)
qed

lemma lua_double_reread: "reread lua_double x = f64 (round_to 10 14 x)"
  by (simp add: reread_def lua_double_def read_g14)

interpretation lua_doubles: lua_numbers lua_double
proof unfold_locales
  show "x \<le> y \<Longrightarrow> fl lua_double x \<le> fl lua_double y" for x y by (simp add: lua_double_def f64_mono)
  show "\<bar>n\<bar> \<le> 2 ^ 53 \<Longrightarrow> fl lua_double (of_int n) = of_int n" for n by (simp add: lua_double_def f64_int)
  show "tonumber lua_double (tostring lua_double x) = Some (reread lua_double x)" for x
    by (simp add: lua_double_reread) (simp add: lua_double_def read_g14)
  show "x \<le> y \<Longrightarrow> reread lua_double x \<le> reread lua_double y" for x y
    by (simp add: lua_double_reread f64_mono round_to_mono)
  show "\<bar>n\<bar> \<le> 10 ^ 14 \<Longrightarrow> reread lua_double (of_int n) = of_int n" for n
    using round_to_int [of 10 14 n] f64_int [of n] by (simp add: lua_double_reread)
qed

end
