(* ===== verification/Sliding_Window.thy ===== *)
theory Sliding_Window
  imports Fixed_Window Lua_Numbers
begin

text \<open>
  The sliding window limiter (\<^verbatim>\<open>internal/ratelimit/limiter_sliding_window.go\<close>): the exact mode
  that logs the time of every allowed request in a sorted set, and the approximate mode that
  weighs the counters of the current and the previous window. The lemmas show that the exact mode
  implements a log of allowed requests and never allows more than the limit in any trailing
  window, and bound the approximate mode by the limit per window.
\<close>

subsection \<open>Scripts\<close>

definition log_retry :: "(string \<times> int) list \<Rightarrow> int \<Rightarrow> int \<Rightarrow> int" where
  "log_retry oldest window_ms now_ms =
     (case oldest of
        [(_, score)] \<Rightarrow> (let retry_ms = (score + window_ms) - now_ms in if retry_ms < 1 then 1 else retry_ms)
      | _ \<Rightarrow> window_ms)"

definition slidingWindowLogScript ::
  "'r redis_ops \<Rightarrow> string \<Rightarrow> int \<Rightarrow> int \<Rightarrow> int \<Rightarrow> string \<Rightarrow> 'r \<Rightarrow> int \<Rightarrow> (gerror + redis_reply) \<times> 'r" where
  "slidingWindowLogScript ops key limit now_ms window_ms member r t =
     call (ZREMRANGEBYSCORE ops r t key 0 (now_ms - window_ms)) (\<lambda>_ r1.
     call (ZCARD ops r1 t key, r1) (\<lambda>count r1.
       if count \<ge> limit then
         call (ZRANGE_first ops r1 t key, r1) (\<lambda>oldest r1.
           (Inr (lua_pair 0 (log_retry oldest window_ms now_ms)), r1))
       else
         call (ZADD ops r1 t key now_ms member) (\<lambda>_ r2.
           (Inr (lua_pair 1 (limit - count - 1)), PEXPIRE ops r2 t key (window_ms + 1000)))))"

definition slidingWindowLogPeekScript ::
  "'r redis_ops \<Rightarrow> string \<Rightarrow> int \<Rightarrow> int \<Rightarrow> int \<Rightarrow> 'r \<Rightarrow> int \<Rightarrow> gerror + redis_reply" where
  "slidingWindowLogPeekScript ops key limit now_ms window_ms r t =
     (case ZCOUNT_above ops r t key (now_ms - window_ms) of
        Inl e \<Rightarrow> Inl e
      | Inr count \<Rightarrow>
          if count \<ge> limit then
            (case ZRANGE_first_above ops r t key (now_ms - window_ms) of
               Inl e \<Rightarrow> Inl e
             | Inr oldest \<Rightarrow> Inr (lua_pair 0 (log_retry oldest window_ms now_ms)))
          else Inr (lua_pair 1 (limit - count - 1)))"

text \<open>The weighted count of the two windows; a negative weight is raised to zero.\<close>

definition approx_count :: "lua_ops \<Rightarrow> int \<Rightarrow> int \<Rightarrow> int \<Rightarrow> int \<Rightarrow> int" where
  "approx_count L prev_count curr_count window_ms elapsed_ms =
     (let w = fl L (of_int (window_ms - elapsed_ms) / of_int window_ms);
          prev_weight = (if w < 0 then 0 else w)
      in curr_count + \<lfloor>fl L (of_int prev_count * prev_weight)\<rfloor>)"

definition counter_reject :: "int \<Rightarrow> int \<Rightarrow> redis_reply" where
  "counter_reject window_ms elapsed_ms =
     (let retry_ms = window_ms - elapsed_ms in lua_pair 0 (if retry_ms < 1 then 1 else retry_ms))"

definition counter_allow :: "int \<Rightarrow> int \<Rightarrow> redis_reply" where
  "counter_allow limit approx =
     (let remaining = limit - approx - 1 in lua_pair 1 (if remaining < 0 then 0 else remaining))"

definition slidingWindowCounterScript ::
  "lua_ops \<Rightarrow> 'r redis_ops \<Rightarrow> string \<Rightarrow> string \<Rightarrow> int \<Rightarrow> int \<Rightarrow> int \<Rightarrow> 'r \<Rightarrow> int \<Rightarrow> (gerror + redis_reply) \<times> 'r" where
  "slidingWindowCounterScript L ops key_curr key_prev limit window_ms elapsed_ms r t =
     call (lua_count (GET ops r t key_prev), r) (\<lambda>prev_count r.
     call (lua_count (GET ops r t key_curr), r) (\<lambda>curr_count r.
       let approx = approx_count L prev_count curr_count window_ms elapsed_ms
       in if approx \<ge> limit then (Inr (counter_reject window_ms elapsed_ms), r)
          else
            call (INCR ops r t key_curr) (\<lambda>_ r1.
              (Inr (counter_allow limit approx), PEXPIRE ops r1 t key_curr (2 * window_ms)))))"

definition slidingWindowCounterPeekScript ::
  "lua_ops \<Rightarrow> 'r redis_ops \<Rightarrow> string \<Rightarrow> string \<Rightarrow> int \<Rightarrow> int \<Rightarrow> int \<Rightarrow> 'r \<Rightarrow> int \<Rightarrow> gerror + redis_reply" where
  "slidingWindowCounterPeekScript L ops key_curr key_prev limit window_ms elapsed_ms r t =
     (case lua_count (GET ops r t key_prev) of
        Inl e \<Rightarrow> Inl e
      | Inr prev_count \<Rightarrow>
          (case lua_count (GET ops r t key_curr) of
             Inl e \<Rightarrow> Inl e
           | Inr curr_count \<Rightarrow>
               let approx = approx_count L prev_count curr_count window_ms elapsed_ms
               in if approx \<ge> limit then Inr (counter_reject window_ms elapsed_ms)
                  else Inr (counter_allow limit approx)))"

subsection \<open>The limiter\<close>

record sliding_window_limiter =
  swl_rule :: string
  swl_limit :: int
  swl_window :: int
  swl_mode :: string

definition newSlidingWindowLimiter :: "string \<Rightarrow> sliding_window \<Rightarrow> sliding_window_limiter" where
  "newSlidingWindowLimiter ruleID params =
     \<lparr>swl_rule = ruleID, swl_limit = sw_limit params, swl_window = sw_window params, swl_mode = sw_mode params\<rparr>"

definition swl_key :: "string \<Rightarrow> bucket_key \<Rightarrow> string" where
  "swl_key ruleID bucketKey = limiterKeyPrefix ruleID bucketKey @ '':swl''"

definition swc_key :: "string \<Rightarrow> bucket_key \<Rightarrow> int \<Rightarrow> string" where
  "swc_key ruleID bucketKey windowID = limiterKeyPrefix ruleID bucketKey @ '':swc:'' @ FormatInt windowID"

text \<open>\<open>member\<close> is what \<^verbatim>\<open>randomHex\<close> returns: a random tag, or an error of the random source.\<close>

definition decideLog ::
  "'r redis_ops \<Rightarrow> net \<Rightarrow> gerror + string \<Rightarrow> sliding_window_limiter \<Rightarrow> bucket_key \<Rightarrow> int \<Rightarrow> int \<Rightarrow> 'r decide" where
  "decideLog ops net member l bucketKey now srv r =
     (case member of
        Inl e \<Rightarrow> (Inr (failOpen e), r)
      | Inr m \<Rightarrow>
          (case run_script net
              (slidingWindowLogScript ops (swl_key (swl_rule l) bucketKey) (swl_limit l) now
                 (Milliseconds (swl_window l)) m) r srv of
             (res, r') \<Rightarrow> (Inr (finish_decision res), r')))"

definition decideCounter ::
  "lua_ops \<Rightarrow> 'r redis_ops \<Rightarrow> net \<Rightarrow> sliding_window_limiter \<Rightarrow> bucket_key \<Rightarrow> int \<Rightarrow> int \<Rightarrow> 'r decide" where
  "decideCounter L ops net l bucketKey now srv r =
     (let windowMs = Milliseconds (swl_window l)
      in if windowMs = 0 then (Inl ''integer divide by zero'', r)
         else
           let windowID = quot now windowMs; elapsedMs = remt now windowMs;
               keyCurr = swc_key (swl_rule l) bucketKey windowID;
               keyPrev = swc_key (swl_rule l) bucketKey (windowID - 1)
           in case run_script net
                (slidingWindowCounterScript L ops keyCurr keyPrev (swl_limit l) windowMs elapsedMs) r srv of
                (res, r') \<Rightarrow> (Inr (finish_decision res), r'))"

definition slidingWindow_Decide ::
  "lua_ops \<Rightarrow> 'r redis_ops \<Rightarrow> net \<Rightarrow> gerror + string \<Rightarrow> sliding_window_limiter \<Rightarrow> bucket_key \<Rightarrow> int \<Rightarrow> int \<Rightarrow> 'r decide" where
  "slidingWindow_Decide L ops net member l bucketKey now srv r =
     (if swl_mode l = ''log'' then decideLog ops net member l bucketKey now srv r
      else if swl_mode l = ''counter'' then decideCounter L ops net l bucketKey now srv r
      else (Inr (failOpen (Errf ''unknown sliding window mode %q'' [swl_mode l])), r))"

definition peekLog ::
  "'r redis_ops \<Rightarrow> net \<Rightarrow> sliding_window_limiter \<Rightarrow> bucket_key \<Rightarrow> int \<Rightarrow> int \<Rightarrow> 'r decide" where
  "peekLog ops net l bucketKey now srv r =
     (case run_script net
        (\<lambda>r t. (slidingWindowLogPeekScript ops (swl_key (swl_rule l) bucketKey) (swl_limit l) now
                  (Milliseconds (swl_window l)) r t, r)) r srv of
        (res, r') \<Rightarrow> (Inr (finish_decision res), r'))"

definition peekCounter ::
  "lua_ops \<Rightarrow> 'r redis_ops \<Rightarrow> net \<Rightarrow> sliding_window_limiter \<Rightarrow> bucket_key \<Rightarrow> int \<Rightarrow> int \<Rightarrow> 'r decide" where
  "peekCounter L ops net l bucketKey now srv r =
     (let windowMs = Milliseconds (swl_window l)
      in if windowMs = 0 then (Inl ''integer divide by zero'', r)
         else
           let windowID = quot now windowMs; elapsedMs = remt now windowMs;
               keyCurr = swc_key (swl_rule l) bucketKey windowID;
               keyPrev = swc_key (swl_rule l) bucketKey (windowID - 1)
           in case run_script net
                (\<lambda>r t. (slidingWindowCounterPeekScript L ops keyCurr keyPrev (swl_limit l) windowMs elapsedMs r t, r))
                r srv of
                (res, r') \<Rightarrow> (Inr (finish_decision res), r'))"

definition slidingWindow_Peek ::
  "lua_ops \<Rightarrow> 'r redis_ops \<Rightarrow> net \<Rightarrow> sliding_window_limiter \<Rightarrow> bucket_key \<Rightarrow> int \<Rightarrow> int \<Rightarrow> 'r decide" where
  "slidingWindow_Peek L ops net l bucketKey now srv r =
     (if swl_mode l = ''log'' then peekLog ops net l bucketKey now srv r
      else if swl_mode l = ''counter'' then peekCounter L ops net l bucketKey now srv r
      else (Inr (failOpen (Errf ''unknown sliding window mode %q'' [swl_mode l])), r))"

subsection \<open>The log of allowed requests\<close>

definition bucket_times :: "bucket_key \<Rightarrow> (bucket_key \<times> int) list \<Rightarrow> int list" where
  "bucket_times b H = map snd (filter (\<lambda>x. fst x = b) H)"

definition recent :: "int \<Rightarrow> int \<Rightarrow> int list \<Rightarrow> int list" where
  "recent w now ts = filter (\<lambda>s. now - w < s) ts"

text \<open>The decision on a request given the requests allowed before it, and a run of such decisions.\<close>

definition log_spec :: "int \<Rightarrow> int \<Rightarrow> (bucket_key \<times> int) list \<Rightarrow> bucket_key \<times> int \<Rightarrow> decision" where
  "log_spec limit w H a =
     (let xs = recent w (snd a) (bucket_times (fst a) H)
      in if int (length xs) < limit then allow (limit - int (length xs) - 1)
         else reject (max 1 (hd xs + w - snd a)))"

fun allowed_run :: "('a list \<Rightarrow> 'a \<Rightarrow> decision) \<Rightarrow> 'a list \<Rightarrow> 'a list \<Rightarrow> decision list" where
  "allowed_run f H [] = []"
| "allowed_run f H (a # as) = (let d = f H a in d # allowed_run f (if Allowed d then H @ [a] else H) as)"

lemma times_snoc: "bucket_times b (H @ [a]) = bucket_times b H @ (if fst a = b then [snd a] else [])"
  by (simp add: bucket_times_def)

lemma times_set: "x \<in> set (bucket_times b H) \<Longrightarrow> \<exists>a \<in> set H. snd a = x"
  by (auto simp: bucket_times_def)

lemma times_sorted: "sorted (map snd H) \<Longrightarrow> sorted (bucket_times b H)"
  by (induction H) (auto simp: bucket_times_def)

lemma sorted_le_last: "sorted xs \<Longrightarrow> x \<in> set xs \<Longrightarrow> x \<le> last xs"
  by (induction xs) (auto split: if_splits)

lemma zins_scores:
  "sorted (map snd zs) \<Longrightarrow> \<forall>x \<in> set (map snd zs). x \<le> s \<Longrightarrow> map snd (zins s m zs) = map snd zs @ [s]"
proof (induction zs)
  case (Cons z zs)
  obtain m' s' where z: "z = (m', s')" by fastforce
  show ?case
  proof (cases "s < s' \<or> s = s' \<and> m < m'")
    case True
    with Cons.prems z have "s' = s" by auto
    with Cons.prems z have "\<forall>x \<in> set (map snd zs). x = s" by (auto simp: order_antisym)
    then have "map snd zs = replicate (length zs) s"
      by (simp add: map_replicate_const map_eq_conv flip: map_replicate_const)
    with True z \<open>s' = s\<close> show ?thesis
      by (simp add: replicate_append_same [symmetric])
  next
    case False
    with Cons z show ?thesis by auto
  qed
qed simp

text \<open>A key that holds a sorted set with the given scores; no key when there are none.\<close>

definition zcontent :: "rentry \<Rightarrow> int list \<Rightarrow> int \<Rightarrow> string set \<Rightarrow> bool" where
  "zcontent x ts e M \<longleftrightarrow>
     x = None \<and> ts = []
     \<or> (\<exists>zs. zs \<noteq> [] \<and> x = Some (RZset zs, Some e) \<and> map snd zs = ts \<and> fst ` set zs \<subseteq> M)"

context redis_db
begin

lemma ZREM_purges:
  assumes "zcontent (entry r t k) ts e M" "\<forall>s \<in> set ts. 0 \<le> s"
  shows "\<exists>n r1. ZREMRANGEBYSCORE ops r t k 0 hi0 = (Inr n, r1)
    \<and> zcontent (entry r1 t k) (filter (\<lambda>s. hi0 < s) ts) e M"
proof (cases "entry r t k")
  case None
  with assms(1) have "ts = []" by (simp add: zcontent_def)
  with ZREM_absent [OF None, of 0 hi0] show ?thesis
    by (cases "ZREMRANGEBYSCORE ops r t k 0 hi0") (simp add: zcontent_def)
next
  case (Some x)
  with assms(1) obtain zs where zs: "entry r t k = Some (RZset zs, Some e)" "map snd zs = ts" "fst ` set zs \<subseteq> M"
    by (auto simp: zcontent_def)
  let ?zs = "filter (\<lambda>z. \<not> (0 \<le> snd z \<and> snd z \<le> hi0)) zs"
  have "\<forall>z \<in> set zs. 0 \<le> snd z" using assms(2) unfolding zs(2) [symmetric] by simp
  then have f: "?zs = filter (\<lambda>z. hi0 < snd z) zs" by (auto intro: filter_cong)
  then have "map snd ?zs = filter (\<lambda>s. hi0 < s) ts"
    using zs(2) by (simp add: filter_map comp_def flip: zs(2))
  with zs ZREM_present [OF zs(1) refl, of 0 hi0] show ?thesis
    by (cases "ZREMRANGEBYSCORE ops r t k 0 hi0") (auto simp: zcontent_def)
qed

lemma zcontent_reads:
  assumes "zcontent (entry r t k) ts e M"
  shows "ZCARD ops r t k = Inr (int (length ts))"
    and "\<exists>oldest. ZRANGE_first ops r t k = Inr oldest \<and> map snd oldest = take 1 ts"
    and "ZCOUNT_above ops r t k lo = Inr (int (length (filter (\<lambda>s. lo < s) ts)))"
    and "\<exists>oldest. ZRANGE_first_above ops r t k lo = Inr oldest \<and> map snd oldest = take 1 (filter (\<lambda>s. lo < s) ts)"
proof -
  have "ZCARD ops r t k = Inr (int (length ts))
    \<and> (\<exists>oldest. ZRANGE_first ops r t k = Inr oldest \<and> map snd oldest = take 1 ts)
    \<and> ZCOUNT_above ops r t k lo = Inr (int (length (filter (\<lambda>s. lo < s) ts)))
    \<and> (\<exists>oldest. ZRANGE_first_above ops r t k lo = Inr oldest \<and> map snd oldest = take 1 (filter (\<lambda>s. lo < s) ts))"
  proof (cases "entry r t k")
    case None
    with assms have "ts = []" by (simp add: zcontent_def)
    with None show ?thesis
      by (simp add: ZCARD_absent ZRANGE_first_absent ZCOUNT_absent ZRANGE_above_absent)
  next
    case (Some x)
    with assms obtain zs where zs: "entry r t k = Some (RZset zs, Some e)" "map snd zs = ts"
      by (auto simp: zcontent_def)
    then show ?thesis
      using ZCARD_present [OF zs(1)] ZRANGE_first_present [OF zs(1)] ZCOUNT_present [OF zs(1)]
        ZRANGE_above_present [OF zs(1)]
      by (auto simp: take_map filter_map comp_def simp flip: zs(2))
  qed
  then show "ZCARD ops r t k = Inr (int (length ts))"
    and "\<exists>oldest. ZRANGE_first ops r t k = Inr oldest \<and> map snd oldest = take 1 ts"
    and "ZCOUNT_above ops r t k lo = Inr (int (length (filter (\<lambda>s. lo < s) ts)))"
    and "\<exists>oldest. ZRANGE_first_above ops r t k lo = Inr oldest \<and> map snd oldest = take 1 (filter (\<lambda>s. lo < s) ts)"
    by simp_all
qed

lemma ZADD_appends:
  assumes "zcontent (entry r t k) ts e M" "sorted ts" "\<forall>s \<in> set ts. s \<le> now" "m \<notin> M" "0 < ms"
  shows "\<exists>n r1. ZADD ops r t k now m = (Inr n, r1)
    \<and> zcontent (entry (PEXPIRE ops r1 t k ms) t k) (ts @ [now]) (t + ms) (insert m M)"
proof (cases "entry r t k")
  case None
  with assms(1) have "ts = []" by (simp add: zcontent_def)
  obtain x r1 where z: "ZADD ops r t k now m = (x, r1)" by fastforce
  with ZADD_absent [OF None, of now m] have "x = Inr 1" "entry r1 t k = Some (RZset [(m, now)], None)" by auto
  with PEXPIRE_sets [OF this(2) assms(5)] z \<open>ts = []\<close> show ?thesis by (simp add: zcontent_def)
next
  case (Some x)
  with assms(1) obtain zs where zs: "entry r t k = Some (RZset zs, Some e)" "map snd zs = ts" "fst ` set zs \<subseteq> M"
    by (auto simp: zcontent_def)
  have fresh: "filter (\<lambda>e. fst e \<noteq> m) zs = zs" using zs(3) assms(4) by (auto simp: filter_id_conv)
  have sc: "map snd (zadd now m zs) = ts @ [now]"
    unfolding zadd_def fresh using zins_scores [of zs now m] assms(2,3) zs(2) by simp
  have "set (zins now m l) = insert (m, now) (set l)" for l by (induction now m l rule: zins.induct) auto
  then have mem: "fst ` set (zadd now m zs) \<subseteq> insert m M" using zs(3) by (auto simp: zadd_def)
  obtain y r1 where z: "ZADD ops r t k now m = (y, r1)" by fastforce
  with ZADD_present [OF zs(1), of now m] have y: "y = Inr (if m \<in> fst ` set zs then 0 else 1)"
    "entry r1 t k = Some (RZset (zadd now m zs), Some e)" by auto
  from sc have "zadd now m zs \<noteq> []" by auto
  with PEXPIRE_sets [OF y(2) assms(5)] z y sc mem show ?thesis by (auto simp: zcontent_def)
qed

end

lemma log_retry_hd: "map snd oldest = take 1 xs \<Longrightarrow> xs \<noteq> [] \<Longrightarrow> log_retry oldest w now = max 1 (hd xs + w - now)"
  by (cases xs; cases oldest) (auto simp: log_retry_def Let_def split: prod.splits)

text \<open>
  The invariant: a key holds the allowed times of its bucket above some threshold that is out of
  the window by now, and expires a second after the last of them leaves the window.
\<close>

definition log_inv ::
  "('r \<Rightarrow> int \<Rightarrow> string \<Rightarrow> rentry) \<Rightarrow> string \<Rightarrow> int \<Rightarrow> int \<Rightarrow> string set \<Rightarrow> (bucket_key \<times> int) list \<Rightarrow> int \<Rightarrow> 'r \<Rightarrow> bool" where
  "log_inv entry rule w skew M H now r \<longleftrightarrow>
     (\<forall>b. valid_key b \<longrightarrow>
        (\<exists>c \<le> now - w. zcontent (entry r (now + skew) (swl_key rule b)) (filter (\<lambda>s. c < s) (bucket_times b H))
           (last (bucket_times b H) + skew + w + 1000) M))"

lemma swl_key_inj:
  "swl_key rule b = swl_key rule b' \<Longrightarrow> CHR '':'' \<notin> set rule \<Longrightarrow> valid_key b \<Longrightarrow> valid_key b' \<Longrightarrow> b = b'"
  using limiterKeyPrefix_inj [of rule rule b b'] by (simp add: swl_key_def)

lemma filter_times_later:
  "c \<le> now - w \<Longrightarrow> filter (\<lambda>s. now - w < s) (filter (\<lambda>s. c < s) ts) = recent w now ts"
  by (auto simp: recent_def intro: filter_cong)

context redis_db
begin

lemma log_inv_later:
  assumes inv: "log_inv entry rule w skew M H now r" and "now \<le> now'" and sorted: "sorted (map snd H)"
  shows "log_inv entry rule w skew M H now' r"
  unfolding log_inv_def
proof (intro allI impI)
  fix b assume "valid_key b"
  let ?k = "swl_key rule b" and ?e = "last (bucket_times b H) + skew + w + 1000"
  obtain c where c: "c \<le> now - w" and z: "zcontent (entry r (now + skew) ?k) (filter (\<lambda>s. c < s) (bucket_times b H)) ?e M"
    using inv \<open>valid_key b\<close> by (auto simp: log_inv_def)
  have le: "now + skew \<le> now' + skew" using assms(2) by simp
  show "\<exists>c \<le> now' - w. zcontent (entry r (now' + skew) ?k) (filter (\<lambda>s. c < s) (bucket_times b H)) ?e M"
  proof (cases "entry r (now' + skew) ?k")
    case None
    have "s \<le> now' - w" if s: "s \<in> set (bucket_times b H)" for s
    proof (cases "entry r (now + skew) ?k")
      case None
      with z have "filter (\<lambda>s. c < s) (bucket_times b H) = []" by (simp add: zcontent_def)
      with s have "\<not> c < s" by (simp add: filter_empty_conv)
      with c assms(2) show ?thesis by linarith
    next
      case (Some x)
      with z obtain zs where "entry r (now + skew) ?k = Some (RZset zs, Some ?e)" by (auto simp: zcontent_def)
      with entry_later [OF this le] None have "?e \<le> now' + skew" by fastforce
      moreover have "s \<le> last (bucket_times b H)"
        using sorted_le_last [OF times_sorted [OF sorted] s] .
      ultimately show ?thesis by linarith
    qed
    then have "filter (\<lambda>s. now' - w < s) (bucket_times b H) = []" by (simp add: filter_empty_conv linorder_not_less)
    with None show ?thesis by (intro exI [of _ "now' - w"]) (simp add: zcontent_def)
  next
    case (Some x)
    then have "entry r (now + skew) ?k \<noteq> None" using entry_none le by fastforce
    with z obtain zs where "entry r (now + skew) ?k = Some (RZset zs, Some ?e)" by (auto simp: zcontent_def)
    with entry_keeps [OF this le] Some have "entry r (now' + skew) ?k = entry r (now + skew) ?k" by auto
    with z c assms(2) show ?thesis by (intro exI [of _ c]) simp
  qed
qed

lemma slidingWindowLogScript_spec:
  assumes z: "zcontent (entry r t k) ts e M" and "\<forall>s \<in> set ts. 0 \<le> s" "sorted ts" "\<forall>s \<in> set ts. s \<le> now"
    and "m \<notin> M" "0 < limit" "0 < w" and xs: "xs = filter (\<lambda>s. now - w < s) ts"
  shows "\<exists>r'. slidingWindowLogScript ops k limit now w m r t =
      (Inr (if int (length xs) < limit then lua_pair 1 (limit - int (length xs) - 1)
            else lua_pair 0 (max 1 (hd xs + w - now))), r')
    \<and> (if int (length xs) < limit
       then zcontent (entry r' t k) (xs @ [now]) (t + (w + 1000)) (insert m M)
       else zcontent (entry r' t k) xs e (insert m M))"
proof -
  obtain n r1 where r1: "ZREMRANGEBYSCORE ops r t k 0 (now - w) = (Inr n, r1)" "zcontent (entry r1 t k) xs e M"
    using ZREM_purges [OF z assms(2), of "now - w"] xs by blast
  obtain oldest where old: "ZRANGE_first ops r1 t k = Inr oldest" "map snd oldest = take 1 xs"
    using zcontent_reads(2) [OF r1(2)] by blast
  show ?thesis
  proof (cases "int (length xs) < limit")
    case True
    have "sorted xs" "\<forall>s \<in> set xs. s \<le> now" using assms(3,4) xs by (auto intro: sorted_wrt_filter)
    then obtain n2 r2 where "ZADD ops r1 t k now m = (Inr n2, r2)"
      "zcontent (entry (PEXPIRE ops r2 t k (w + 1000)) t k) (xs @ [now]) (t + (w + 1000)) (insert m M)"
      using ZADD_appends [OF r1(2) _ _ assms(5), of now "w + 1000"] assms(7) by auto
    with True r1 zcontent_reads(1) [OF r1(2)] show ?thesis
      by (simp add: slidingWindowLogScript_def)
  next
    case False
    with assms(6) have "xs \<noteq> []" by auto
    moreover have "zcontent (entry r1 t k) xs e (insert m M)" using r1(2) by (auto simp: zcontent_def)
    ultimately show ?thesis
      using False r1(1) zcontent_reads(1) [OF r1(2)] old
      by (simp add: slidingWindowLogScript_def log_retry_hd)
  qed
qed

lemma slidingWindowLogScript_frame:
  assumes "k' \<noteq> k" "t \<le> t'"
  shows "entry (snd (slidingWindowLogScript ops k limit now w m r t)) t' k' = entry r t' k'"
proof -
  obtain x r1 where z: "ZREMRANGEBYSCORE ops r t k 0 (now - w) = (x, r1)" by fastforce
  obtain y r2 where a: "ZADD ops r1 t k now m = (y, r2)" by fastforce
  have "entry r1 t' k' = entry r t' k'" "entry r2 t' k' = entry r1 t' k'"
    using ZREM_frame [OF assms, of r 0 "now - w"] ZADD_frame [OF assms, of r1 now m] z a by auto
  then show ?thesis
    using z a by (auto simp: slidingWindowLogScript_def call_def PEXPIRE_frame [OF assms] split: sum.splits)
qed

end

text \<open>Requests carry the random tag drawn for them beside their bucket.\<close>

type_synonym log_arrival = "(bucket_key \<times> string) \<times> int"

definition plain :: "log_arrival \<Rightarrow> bucket_key \<times> int" where
  "plain a = (fst (fst a), snd a)"

definition members :: "log_arrival list \<Rightarrow> string list" where
  "members as = map (\<lambda>a. snd (fst a)) as"

context redis_db
begin

lemma decideLog_step:
  assumes l: "Milliseconds (swl_window l) = w" "0 < w" "swl_limit l = limit" "0 < limit" "CHR '':'' \<notin> set (swl_rule l)"
    and inv: "log_inv entry (swl_rule l) w skew M H now r"
    and H: "sorted (map snd H)" "\<forall>a \<in> set H. 0 \<le> snd a \<and> snd a \<le> now" and "valid_key b" "m \<notin> M"
  shows "\<exists>r'. decideLog ops Reached (Inr m) l b now (now + skew) r = (Inr (log_spec limit w H (b, now), None), r')
    \<and> log_inv entry (swl_rule l) w skew (insert m M)
        (if Allowed (log_spec limit w H (b, now)) then H @ [(b, now)] else H) now r'"
proof -
  let ?k = "swl_key (swl_rule l) b" and ?t = "now + skew" and ?xs = "recent w now (bucket_times b H)"
  let ?d = "log_spec limit w H (b, now)"
  let ?H = "if Allowed ?d then H @ [(b, now)] else H"
  obtain c where c: "c \<le> now - w"
    and z: "zcontent (entry r ?t ?k) (filter (\<lambda>s. c < s) (bucket_times b H)) (last (bucket_times b H) + skew + w + 1000) M"
    using inv \<open>valid_key b\<close> by (auto simp: log_inv_def)
  have bounds: "\<forall>s \<in> set (filter (\<lambda>s. c < s) (bucket_times b H)). 0 \<le> s" "\<forall>s \<in> set (filter (\<lambda>s. c < s) (bucket_times b H)). s \<le> now"
    using times_set H(2) by fastforce+
  have "sorted (filter (\<lambda>s. c < s) (bucket_times b H))" using times_sorted [OF H(1)] by (simp add: sorted_wrt_filter)
  then obtain r' where script: "slidingWindowLogScript ops ?k limit now w m r ?t =
      (Inr (if int (length ?xs) < limit then lua_pair 1 (limit - int (length ?xs) - 1)
            else lua_pair 0 (max 1 (hd ?xs + w - now))), r')"
    and content: "if int (length ?xs) < limit
       then zcontent (entry r' ?t ?k) (?xs @ [now]) (?t + (w + 1000)) (insert m M)
       else zcontent (entry r' ?t ?k) ?xs (last (bucket_times b H) + skew + w + 1000) (insert m M)"
    using slidingWindowLogScript_spec [OF z bounds(1) _ bounds(2) \<open>m \<notin> M\<close> \<open>0 < limit\<close> \<open>0 < w\<close>
        filter_times_later [OF c, symmetric]] by blast
  have d: "?d = (if int (length ?xs) < limit then allow (limit - int (length ?xs) - 1)
      else reject (max 1 (hd ?xs + w - now)))" by (simp add: log_spec_def Let_def)
  then have al: "Allowed ?d \<longleftrightarrow> int (length ?xs) < limit" by (simp add: allow_def reject_def)
  have "decideLog ops Reached (Inr m) l b now ?t r = (Inr (?d, None), r')"
    using l script by (simp add: decideLog_def run_script_def d)
  moreover have "log_inv entry (swl_rule l) w skew (insert m M) ?H now r'"
    unfolding log_inv_def
  proof (intro allI impI)
    fix b' assume b': "valid_key b'"
    show "\<exists>c \<le> now - w. zcontent (entry r' ?t (swl_key (swl_rule l) b')) (filter (\<lambda>s. c < s) (bucket_times b' ?H))
       (last (bucket_times b' ?H) + skew + w + 1000) (insert m M)"
    proof (cases "b' = b")
      case True
      have "filter (\<lambda>s. now - w < s) (bucket_times b ?H) = (if Allowed ?d then ?xs @ [now] else ?xs)"
        using \<open>0 < w\<close> by (simp add: times_snoc recent_def)
      with True content al show ?thesis
        by (intro exI [of _ "now - w"]) (auto simp: times_snoc algebra_simps split: if_splits)
    next
      case False
      then have "swl_key (swl_rule l) b' \<noteq> ?k" using swl_key_inj l(5) b' \<open>valid_key b\<close> by blast
      from slidingWindowLogScript_frame [OF this order_refl [of ?t], of limit now w m r] script
      have "entry r' ?t (swl_key (swl_rule l) b') = entry r ?t (swl_key (swl_rule l) b')" by simp
      moreover have "bucket_times b' ?H = bucket_times b' H" using False by (simp add: times_snoc)
      moreover obtain c' where "c' \<le> now - w"
        "zcontent (entry r ?t (swl_key (swl_rule l) b')) (filter (\<lambda>s. c' < s) (bucket_times b' H)) (last (bucket_times b' H) + skew + w + 1000) M"
        using inv b' by (auto simp: log_inv_def)
      ultimately show ?thesis by (intro exI [of _ c']) (auto simp: zcontent_def)
    qed
  qed
  ultimately show ?thesis by blast
qed

lemma decideLog_run:
  assumes l: "Milliseconds (swl_window l) = w" "0 < w" "swl_limit l = limit" "0 < limit" "CHR '':'' \<notin> set (swl_rule l)"
  shows "log_inv entry (swl_rule l) w skew M H now r \<Longrightarrow> sorted (map snd H) \<Longrightarrow>
    \<forall>a \<in> set H. 0 \<le> snd a \<and> snd a \<le> now \<Longrightarrow> 0 \<le> now \<Longrightarrow>
    sorted (now # map snd as) \<Longrightarrow> list_all (\<lambda>a. valid_key (fst (fst a))) as \<Longrightarrow>
    distinct (members as) \<Longrightarrow> set (members as) \<inter> M = {} \<Longrightarrow>
    fst (run_limiter (\<lambda>bm now. decideLog ops Reached (Inr (snd bm)) l (fst bm) now (now + skew)) as r) =
      map (\<lambda>d. Inr (d, None)) (allowed_run (log_spec limit w) H (map plain as))"
proof (induction as arbitrary: H M now r)
  case (Cons a as)
  obtain b m t where a: "a = ((b, m), t)" by (metis prod.collapse)
  have t: "now \<le> t" "valid_key b" "m \<notin> M" using Cons.prems a by (auto simp: members_def)
  have inv: "log_inv entry (swl_rule l) w skew M H t r"
    by (rule log_inv_later [OF Cons.prems(1) t(1) Cons.prems(2)])
  have H: "\<forall>a \<in> set H. 0 \<le> snd a \<and> snd a \<le> t" using Cons.prems(3) t(1) by auto
  let ?d = "log_spec limit w H (b, t)"
  let ?H = "if Allowed ?d then H @ [(b, t)] else H"
  obtain r' where r': "decideLog ops Reached (Inr m) l b t (t + skew) r = (Inr (?d, None), r')"
    "log_inv entry (swl_rule l) w skew (insert m M) ?H t r'"
    using decideLog_step [OF l inv Cons.prems(2) H t(2,3)] by blast
  have "fst (run_limiter (\<lambda>bm now. decideLog ops Reached (Inr (snd bm)) l (fst bm) now (now + skew)) as r') =
      map (\<lambda>d. Inr (d, None)) (allowed_run (log_spec limit w) ?H (map plain as))"
  proof (rule Cons.IH [OF r'(2)])
    show "sorted (map snd ?H)" using Cons.prems(2) H by (auto simp: sorted_append)
    show "\<forall>a \<in> set ?H. 0 \<le> snd a \<and> snd a \<le> t" using H Cons.prems(4) t(1) by auto
  qed (use Cons.prems a t in \<open>auto simp: members_def\<close>)
  moreover have "plain a = (b, t)" using a by (simp add: plain_def)
  ultimately show ?case using r'(1) a by (simp add: run_limiter_Cons Let_def del: run_limiter.simps)
qed simp

end

subsection \<open>The bound on a trailing window\<close>

definition admitted :: "'a list \<Rightarrow> decision list \<Rightarrow> 'a list" where
  "admitted as ds = map fst (filter (\<lambda>x. Allowed (snd x)) (zip as ds))"

definition in_window :: "int \<Rightarrow> int \<Rightarrow> int list \<Rightarrow> int list" where
  "in_window w T ts = filter (\<lambda>s. T - w < s \<and> s \<le> T) ts"

lemma admitted_Cons: "admitted (a # as) (d # ds) = (if Allowed d then [a] else []) @ admitted as ds"
  by (simp add: admitted_def)

lemma log_spec_bound:
  assumes bound: "\<forall>b T. int (length (in_window w T (bucket_times b H))) \<le> limit" and past: "\<forall>x \<in> set H. snd x \<le> snd a"
    and allowed: "Allowed (log_spec limit w H a)"
  shows "int (length (in_window w T (bucket_times b (H @ [a])))) \<le> limit"
proof (cases "fst a = b \<and> T - w < snd a \<and> snd a \<le> T")
  case True
  let ?r = "recent w (snd a) (bucket_times b H)"
  have "int (length ?r) < limit"
    using allowed True by (simp add: log_spec_def Let_def allow_def reject_def split: if_splits)
  moreover have "length (in_window w T (bucket_times b H)) \<le> length ?r"
  proof -
    have "in_window w T (bucket_times b H) = filter (\<lambda>s. T - w < s \<and> s \<le> T) ?r"
      using True unfolding in_window_def recent_def filter_filter by (intro filter_cong) auto
    then show ?thesis by simp
  qed
  moreover have "in_window w T (bucket_times b (H @ [a])) = in_window w T (bucket_times b H) @ [snd a]"
    using True by (simp add: times_snoc in_window_def)
  ultimately show ?thesis by simp
next
  case False
  then have "in_window w T (bucket_times b (H @ [a])) = in_window w T (bucket_times b H)"
    by (auto simp: times_snoc in_window_def)
  then show ?thesis using bound by simp
qed

lemma log_run_bound:
  "\<forall>b T. int (length (in_window w T (bucket_times b H))) \<le> limit \<Longrightarrow> sorted (map snd as) \<Longrightarrow>
   \<forall>x \<in> set H. \<forall>a \<in> set as. snd x \<le> snd a \<Longrightarrow>
   int (length (in_window w T (bucket_times b (H @ admitted as (allowed_run (log_spec limit w) H as))))) \<le> limit"
proof (induction as arbitrary: H)
  case Nil
  then show ?case by (simp add: admitted_def)
next
  case (Cons a as)
  let ?d = "log_spec limit w H a"
  let ?H = "if Allowed ?d then H @ [a] else H"
  have "\<forall>b T. int (length (in_window w T (bucket_times b ?H))) \<le> limit"
    using Cons.prems log_spec_bound [of w H limit a] by auto
  moreover have "\<forall>x \<in> set ?H. \<forall>a \<in> set as. snd x \<le> snd a" using Cons.prems by auto
  ultimately have "int (length (in_window w T (bucket_times b (?H @ admitted as (allowed_run (log_spec limit w) ?H as))))) \<le> limit"
    using Cons.IH [of ?H] Cons.prems(2) by simp
  then show ?case by (cases "Allowed ?d") (simp_all add: Let_def admitted_Cons)
qed

text \<open>
  Property C25. Over any sequence of requests in time order, for any mix of buckets, the sliding
  window limiter in log mode implements a log of allowed requests: a request is allowed exactly
  when fewer than \<open>limit\<close> requests of its bucket were allowed in the window that ends with it, and
  otherwise told to wait until the oldest of them leaves the window. So no trailing window, at any
  point in time, ever holds more than \<open>limit\<close> allowed requests of a bucket. The random tags are
  distinct, Redis starts with none of the rule's keys, and its clock runs ahead of the caller's by
  a constant.
\<close>

theorem slidingLog_limits:
  assumes "redis_db ops entry" "swl_mode l = ''log''" "0 < Milliseconds (swl_window l)" "0 < swl_limit l"
    and "CHR '':'' \<notin> set (swl_rule l)" "sorted (map snd as)"
    and "list_all (\<lambda>a. valid_key (fst (fst a)) \<and> start \<le> snd a) as" "distinct (members as)"
    and "0 \<le> start" "\<forall>b. entry r (start + skew) (swl_key (swl_rule l) b) = None"
    and "w = Milliseconds (swl_window l)" "ds = allowed_run (log_spec (swl_limit l) w) [] (map plain as)"
  shows "fst (run_limiter (\<lambda>bm now. slidingWindow_Decide L ops Reached (Inr (snd bm)) l (fst bm) now (now + skew)) as r) =
           map (\<lambda>d. Inr (d, None)) ds
    \<and> int (length (in_window w T (bucket_times b (admitted (map plain as) ds)))) \<le> swl_limit l"
proof
  have inv: "log_inv entry (swl_rule l) w skew {} [] start r"
    using assms(10) by (auto simp: log_inv_def zcontent_def bucket_times_def)
  have "fst (run_limiter (\<lambda>bm now. decideLog ops Reached (Inr (snd bm)) l (fst bm) now (now + skew)) as r) =
      map (\<lambda>d. Inr (d, None)) (allowed_run (log_spec (swl_limit l) w) [] (map plain as))"
    by (rule redis_db.decideLog_run [OF assms(1) _ _ refl assms(4,5) inv])
      (use assms in \<open>auto simp: list_all_iff\<close>)
  moreover have "slidingWindow_Decide L ops Reached m l = decideLog ops Reached m l" for m
    using assms(2) by (intro ext) (simp add: slidingWindow_Decide_def)
  ultimately show "fst (run_limiter (\<lambda>bm now. slidingWindow_Decide L ops Reached (Inr (snd bm)) l (fst bm) now (now + skew)) as r) =
      map (\<lambda>d. Inr (d, None)) ds"
    using assms(12) by simp
  have "int (length (in_window w T (bucket_times b ([] @ admitted (map plain as) (allowed_run (log_spec (swl_limit l) w) [] (map plain as)))))) \<le> swl_limit l"
    by (rule log_run_bound) (use assms in \<open>auto simp: plain_def comp_def in_window_def bucket_times_def\<close>)
  then show "int (length (in_window w T (bucket_times b (admitted (map plain as) ds)))) \<le> swl_limit l"
    using assms(12) by simp
qed

definition sample_swl :: sliding_window_limiter where
  "sample_swl = newSlidingWindowLimiter ''rl_1'' \<lparr>sw_window = 1000000000, sw_limit = 2, sw_mode = ''log''\<rparr>"

definition sample_log_arrivals :: "log_arrival list" where
  "sample_log_arrivals =
     (let b = [(''namespace'', ''root'')]
      in [((b, ''m1''), 1200), ((b, ''m2''), 1900), ((b, ''m3''), 2100), ((b, ''m4''), 2200), ((b, ''m5''), 2300)])"

theorem slidingLog_limits_witness:
  "map (\<lambda>x. case x of Inr (d, _) \<Rightarrow> (Allowed d, RetryAfter d) | Inl _ \<Rightarrow> (False, 0))
     (fst (run_limiter (\<lambda>bm now. slidingWindow_Decide fixed_point mem_redis_ops Reached (Inr (snd bm)) sample_swl (fst bm) now (now + 3))
        sample_log_arrivals [])) =
   [(True, 0), (True, 0), (False, 100 * 1000000), (True, 0), (False, 600 * 1000000)]"
proof -
  let ?ds = "allowed_run (log_spec (swl_limit sample_swl) 1000) [] (map plain sample_log_arrivals)"
  have h: "swl_mode sample_swl = ''log''" "0 < Milliseconds (swl_window sample_swl)" "0 < swl_limit sample_swl"
    "CHR '':'' \<notin> set (swl_rule sample_swl)" "sorted (map snd sample_log_arrivals)"
    "list_all (\<lambda>a. valid_key (fst (fst a)) \<and> 1200 \<le> snd a) sample_log_arrivals"
    "distinct (members sample_log_arrivals)" "(0 :: int) \<le> 1200"
    by code_simp+
  have w: "1000 = Milliseconds (swl_window sample_swl)" by code_simp
  have e: "\<forall>b. mem_entry [] (1200 + 3) (swl_key (swl_rule sample_swl) b) = None"
    by (simp add: mem_entry_def)
  have "map (\<lambda>d. (Allowed d, RetryAfter d)) ?ds =
      [(True, 0), (True, 0), (False, 100 * 1000000), (True, 0), (False, 600 * 1000000)]" by code_simp
  with slidingLog_limits [OF mredis.redis_db_axioms h e w refl] show ?thesis by (simp add: comp_def)
qed

subsection \<open>The weighted counters\<close>

definition ctr_spec :: "lua_ops \<Rightarrow> int \<Rightarrow> int \<Rightarrow> (bucket_key \<times> int) list \<Rightarrow> bucket_key \<times> int \<Rightarrow> decision" where
  "ctr_spec L limit w H a =
     (let i = snd a div w; elapsed = snd a mod w;
          count = (\<lambda>j. int (length (slot w (fst a) j H)));
          approx = approx_count L (count (i - 1)) (count i) w elapsed
      in if approx < limit then allow (max 0 (limit - approx - 1)) else reject (max 1 (w - elapsed)))"

definition ctr_entry :: "int \<Rightarrow> int \<Rightarrow> (bucket_key \<times> int) list \<Rightarrow> rentry" where
  "ctr_entry w skew xs =
     (if xs = [] then None
      else Some (RString (FormatInt (int (length xs))), Some (snd (last xs) + skew + 2 * w)))"

definition ctr_inv ::
  "('r \<Rightarrow> int \<Rightarrow> string \<Rightarrow> rentry) \<Rightarrow> string \<Rightarrow> int \<Rightarrow> int \<Rightarrow> (bucket_key \<times> int) list \<Rightarrow> int \<Rightarrow> 'r \<Rightarrow> bool" where
  "ctr_inv entry rule w skew H now r \<longleftrightarrow>
     (\<forall>b i. valid_key b \<and> now div w - 1 \<le> i \<longrightarrow>
        entry r (now + skew) (swc_key rule b i) = ctr_entry w skew (slot w b i H))"

lemma swc_key_inj:
  "swc_key rule b i = swc_key rule b' i' \<Longrightarrow> CHR '':'' \<notin> set rule \<Longrightarrow> valid_key b \<Longrightarrow> valid_key b' \<Longrightarrow>
   b = b' \<and> i = i'"
  using window_key_inj [of rule b "'':swc''" i rule b' i'] by (simp add: swc_key_def)

lemma next_window: "0 < w \<Longrightarrow> b div w - 1 \<le> a div w \<Longrightarrow> b < a + 2 * (w :: int)"
proof -
  assume w: "0 < w" and q: "b div w - 1 \<le> a div w"
  have "w * (b div w - 1) \<le> w * (a div w)" using w q by (simp add: mult_left_mono)
  then have "w * (b div w) \<le> w * (a div w) + w" by (simp add: right_diff_distrib)
  moreover have "a = w * (a div w) + a mod w" "b = w * (b div w) + b mod w" by simp_all
  moreover have "0 \<le> a mod w" "b mod w < w" using w by simp_all
  ultimately show ?thesis by linarith
qed

lemma slot_last:
  "slot w b i H \<noteq> [] \<Longrightarrow> snd (last (slot w b i H)) div w = i"
proof -
  assume "slot w b i H \<noteq> []"
  then have "last (slot w b i H) \<in> set (slot w b i H)" by simp
  then show ?thesis by (auto simp: slot_def)
qed

context redis_db
begin

lemma ctr_inv_later:
  assumes inv: "ctr_inv entry rule w skew H now r" and "now \<le> now'" "0 < w"
  shows "ctr_inv entry rule w skew H now' r"
  unfolding ctr_inv_def
proof (intro allI impI, elim conjE)
  fix b i assume b: "valid_key b" and i: "now' div w - 1 \<le> i"
  let ?k = "swc_key rule b i" and ?xs = "slot w b i H"
  have "now div w \<le> now' div w" using assms by (simp add: zdiv_mono1)
  with inv b i have e: "entry r (now + skew) ?k = ctr_entry w skew ?xs" by (simp add: ctr_inv_def)
  show "entry r (now' + skew) ?k = ctr_entry w skew ?xs"
  proof (cases "?xs = []")
    case True
    with e have "entry r (now + skew) ?k = None" by (simp add: ctr_entry_def)
    from entry_none [OF this, of "now' + skew"] True assms(2) show ?thesis by (simp add: ctr_entry_def)
  next
    case False
    then have "now' < snd (last ?xs) + 2 * w" using next_window assms(3) slot_last i by simp
    then have later: "now' + skew < snd (last ?xs) + skew + 2 * w" by simp
    from e False have "entry r (now + skew) ?k =
        Some (RString (FormatInt (int (length ?xs))), Some (snd (last ?xs) + skew + 2 * w))"
      by (simp add: ctr_entry_def)
    from entry_later [OF this _ later] False assms(2) show ?thesis by (simp add: ctr_entry_def)
  qed
qed

lemma ctr_count:
  "entry r t k = ctr_entry w skew xs \<Longrightarrow> int (length xs) < 2 ^ 63 \<Longrightarrow> lua_count (GET ops r t k) = Inr (int (length xs))"
  by (cases "xs = []") (simp_all add: ctr_entry_def GET_absent GET_present)

lemma INCR_PEXPIRE_appends:
  assumes "entry r t k = ctr_entry w skew xs" "int (length xs) < 2 ^ 63 - 1" "0 < w" "t = now + skew"
  shows "\<exists>n r1. INCR ops r t k = (Inr n, r1)
    \<and> entry (PEXPIRE ops r1 t k (2 * w)) t k = ctr_entry w skew (xs @ [(b, now)])"
proof -
  obtain x r1 where i: "INCR ops r t k = (x, r1)" by fastforce
  obtain e where e: "x = Inr (int (length xs) + 1)" "entry r1 t k = Some (RString (FormatInt (int (length xs) + 1)), e)"
  proof (cases "xs = []")
    case True
    with assms(1) have "entry r t k = None" by (simp add: ctr_entry_def)
    from INCR_absent [OF this] i True that show ?thesis by simp
  next
    case False
    with assms(1) have "entry r t k = Some (RString (FormatInt (int (length xs))), Some (snd (last xs) + skew + 2 * w))"
      by (simp add: ctr_entry_def)
    from INCR_present [OF this _ assms(2)] i that show ?thesis by simp
  qed
  from PEXPIRE_sets [OF e(2), of "2 * w"] e(1) i assms(3,4) show ?thesis
    by (simp add: ctr_entry_def algebra_simps)
qed

lemma slidingWindowCounterScript_frame:
  assumes "k' \<noteq> k" "t \<le> t'"
  shows "entry (snd (slidingWindowCounterScript L ops k kp limit w e r t)) t' k' = entry r t' k'"
proof -
  obtain x r1 where i: "INCR ops r t k = (x, r1)" by fastforce
  have "entry r1 t' k' = entry r t' k'" using INCR_frame [OF assms, of r] i by simp
  then show ?thesis
    using i by (auto simp: slidingWindowCounterScript_def call_def Let_def PEXPIRE_frame [OF assms] split: sum.splits)
qed

end

context redis_db
begin

lemma decideCounter_step:
  assumes l: "Milliseconds (swl_window l) = w" "0 < w" "swl_limit l = limit" "CHR '':'' \<notin> set (swl_rule l)"
    and inv: "ctr_inv entry (swl_rule l) w skew H now r"
    and "0 \<le> now" "valid_key b" "int (length H) < 2 ^ 63 - 1"
  shows "\<exists>r'. decideCounter L ops Reached l b now (now + skew) r = (Inr (ctr_spec L limit w H (b, now), None), r')
    \<and> ctr_inv entry (swl_rule l) w skew (if Allowed (ctr_spec L limit w H (b, now)) then H @ [(b, now)] else H) now r'"
proof -
  let ?i = "now div w" and ?t = "now + skew" and ?e = "now mod w"
  let ?kc = "swc_key (swl_rule l) b ?i" and ?kp = "swc_key (swl_rule l) b (?i - 1)"
  let ?xs = "slot w b ?i H"
  let ?d = "ctr_spec L limit w H (b, now)"
  let ?ap = "approx_count L (int (length (slot w b (?i - 1) H))) (int (length ?xs)) w ?e"
  let ?s = "slidingWindowCounterScript L ops ?kc ?kp limit w ?e r ?t"
  have ec: "entry r ?t ?kc = ctr_entry w skew ?xs" and ep: "entry r ?t ?kp = ctr_entry w skew (slot w b (?i - 1) H)"
    using inv \<open>valid_key b\<close> by (simp_all add: ctr_inv_def)
  have len: "int (length (slot w b j H)) < 2 ^ 63 - 1" for j
    using slot_length [of w b j H] assms(8) by linarith
  have len': "int (length (slot w b j H)) < 2 ^ 63" for j
    using len [of j] by linarith
  note reads = ctr_count [OF ec len'] ctr_count [OF ep len']
  obtain n r1 where i: "INCR ops r ?t ?kc = (Inr n, r1)"
    "entry (PEXPIRE ops r1 ?t ?kc (2 * w)) ?t ?kc = ctr_entry w skew (?xs @ [(b, now)])"
    using INCR_PEXPIRE_appends [OF ec len \<open>0 < w\<close> refl] by blast
  have d: "?d = (if ?ap < limit then allow (max 0 (limit - ?ap - 1)) else reject (max 1 (w - ?e)))"
    by (simp add: ctr_spec_def Let_def)
  then have al: "Allowed ?d \<longleftrightarrow> ?ap < limit" by (simp add: allow_def reject_def)
  have fin: "finish_decision (Inr (counter_allow limit ?ap)) = (allow (max 0 (limit - ?ap - 1)), None)"
    "finish_decision (Inr (counter_reject w ?e)) = (reject (max 1 (w - ?e)), None)"
    by (auto simp: counter_allow_def counter_reject_def Let_def max_def)
  have script: "?s = (if ?ap < limit then (Inr (counter_allow limit ?ap), PEXPIRE ops r1 ?t ?kc (2 * w))
      else (Inr (counter_reject w ?e), r))"
    using reads i(1) by (simp add: slidingWindowCounterScript_def Let_def not_less)
  have "decideCounter L ops Reached l b now ?t r = (Inr (?d, None), snd ?s)"
    using l \<open>0 \<le> now\<close> by (simp add: decideCounter_def Let_def quot_pos remt_pos run_script_def script d fin)
  moreover have "ctr_inv entry (swl_rule l) w skew (if Allowed ?d then H @ [(b, now)] else H) now (snd ?s)"
    unfolding ctr_inv_def
  proof (intro allI impI, elim conjE)
    fix b' j assume b': "valid_key b'" and j: "now div w - 1 \<le> j"
    show "entry (snd ?s) ?t (swc_key (swl_rule l) b' j) =
        ctr_entry w skew (slot w b' j (if Allowed ?d then H @ [(b, now)] else H))"
    proof (cases "b' = b \<and> j = ?i")
      case True
      then show ?thesis using i(2) ec by (simp add: script al slot_snoc)
    next
      case False
      then have "swc_key (swl_rule l) b' j \<noteq> ?kc" using swc_key_inj l(4) b' \<open>valid_key b\<close> by blast
      then have "entry (snd ?s) ?t (swc_key (swl_rule l) b' j) = entry r ?t (swc_key (swl_rule l) b' j)"
        by (simp add: slidingWindowCounterScript_frame)
      with inv b' j False show ?thesis by (auto simp: ctr_inv_def slot_snoc)
    qed
  qed
  ultimately show ?thesis by blast
qed

lemma decideCounter_run:
  assumes l: "Milliseconds (swl_window l) = w" "0 < w" "swl_limit l = limit" "CHR '':'' \<notin> set (swl_rule l)"
  shows "ctr_inv entry (swl_rule l) w skew H now r \<Longrightarrow> 0 \<le> now \<Longrightarrow>
    sorted (now # map snd as) \<Longrightarrow> list_all (\<lambda>a. valid_key (fst a)) as \<Longrightarrow>
    int (length H + length as) < 2 ^ 63 - 1 \<Longrightarrow>
    fst (run_limiter (\<lambda>b now. decideCounter L ops Reached l b now (now + skew)) as r) =
      map (\<lambda>d. Inr (d, None)) (allowed_run (ctr_spec L limit w) H as)"
proof (induction as arbitrary: H now r)
  case (Cons a as)
  obtain b t where a: "a = (b, t)" by fastforce
  have "now \<le> t" using Cons.prems(3) a by simp
  have inv: "ctr_inv entry (swl_rule l) w skew H t r" by (rule ctr_inv_later [OF Cons.prems(1) \<open>now \<le> t\<close> l(2)])
  have t: "0 \<le> t" "valid_key b" "int (length H) < 2 ^ 63 - 1" using Cons.prems \<open>now \<le> t\<close> a by auto
  let ?d = "ctr_spec L limit w H (b, t)"
  let ?H = "if Allowed ?d then H @ [(b, t)] else H"
  obtain r' where r': "decideCounter L ops Reached l b t (t + skew) r = (Inr (?d, None), r')"
    "ctr_inv entry (swl_rule l) w skew ?H t r'"
    using decideCounter_step [OF l inv t] by blast
  have "fst (run_limiter (\<lambda>b now. decideCounter L ops Reached l b now (now + skew)) as r') =
      map (\<lambda>d. Inr (d, None)) (allowed_run (ctr_spec L limit w) ?H as)"
    by (rule Cons.IH [OF r'(2)]) (use t Cons.prems a in auto)
  with r'(1) a show ?case by (simp add: run_limiter_Cons Let_def del: run_limiter.simps)
qed simp

end

context lua_numbers
begin

lemma approx_count_ge: "0 \<le> prev \<Longrightarrow> n \<le> approx_count L prev n w e"
proof -
  assume p: "0 \<le> prev"
  define u where "u = (if fl L (of_int (w - e) / of_int w) < 0 then 0 else fl L (of_int (w - e) / of_int w))"
  have "0 \<le> fl L (of_int prev * u)" using p by (intro fl_nonneg mult_nonneg_nonneg) (auto simp: u_def)
  then have "0 \<le> \<lfloor>fl L (of_int prev * u)\<rfloor>" by simp
  moreover have "approx_count L prev n w e = n + \<lfloor>fl L (of_int prev * u)\<rfloor>"
    unfolding approx_count_def Let_def u_def by (rule refl)
  ultimately show ?thesis by simp
qed

lemma ctr_run_bound:
  "\<forall>b i. int (length (slot w b i H)) \<le> limit \<Longrightarrow>
   int (length (slot w b i (H @ admitted as (allowed_run (ctr_spec L limit w) H as)))) \<le> limit"
proof (induction as arbitrary: H)
  case Nil
  then show ?case by (simp add: admitted_def)
next
  case (Cons a as)
  let ?d = "ctr_spec L limit w H a"
  let ?H = "if Allowed ?d then H @ [a] else H"
  have "int (length (slot w b i ?H)) \<le> limit" for b i
  proof (cases "Allowed ?d \<and> fst a = b \<and> snd a div w = i")
    case True
    let ?n = "int (length (slot w b i H))"
    have "approx_count L (int (length (slot w b (i - 1) H))) ?n w (snd a mod w) < limit"
      using True by (auto simp: ctr_spec_def Let_def reject_def split: if_splits)
    then have "?n < limit"
      using approx_count_ge [of "int (length (slot w b (i - 1) H))" ?n w "snd a mod w"] by simp
    with True show ?thesis by (simp add: slot_snoc)
  next
    case False
    then show ?thesis using Cons.prems by (auto simp: slot_snoc)
  qed
  then have "int (length (slot w b i (?H @ admitted as (allowed_run (ctr_spec L limit w) ?H as)))) \<le> limit"
    using Cons.IH by blast
  then show ?case by (cases "Allowed ?d") (simp_all add: Let_def admitted_Cons)
qed

end

text \<open>
  Property C26. Over any sequence of requests in time order, for any mix of buckets, the sliding
  window limiter in counter mode decides by the weighted count: the requests allowed in the
  current window plus the rounded-down share of those allowed in the window before that the
  trailing window still covers. It allows at most \<open>limit\<close> requests of a bucket in every window,
  whatever the rounding of Lua's arithmetic. Redis starts with none of the rule's keys, and its
  clock runs ahead of the caller's by a constant.
\<close>

theorem slidingCounter_limits:
  assumes "redis_db ops entry" "lua_numbers L" "swl_mode l = ''counter''"
    and "0 < Milliseconds (swl_window l)" "0 \<le> swl_limit l"
    and "CHR '':'' \<notin> set (swl_rule l)" "sorted (map snd as)"
    and "list_all (\<lambda>a. valid_key (fst a) \<and> start \<le> snd a) as" "int (length as) < 2 ^ 63 - 1"
    and "0 \<le> start" "\<forall>b i. entry r (start + skew) (swc_key (swl_rule l) b i) = None"
    and "w = Milliseconds (swl_window l)" "ds = allowed_run (ctr_spec L (swl_limit l) w) [] as"
  shows "fst (run_limiter (\<lambda>b now. slidingWindow_Decide L ops Reached m l b now (now + skew)) as r) =
           map (\<lambda>d. Inr (d, None)) ds
    \<and> int (length (slot w b i (admitted as ds))) \<le> swl_limit l"
proof
  have inv: "ctr_inv entry (swl_rule l) w skew [] start r"
    using assms(11) by (simp add: ctr_inv_def ctr_entry_def slot_def)
  have "fst (run_limiter (\<lambda>b now. decideCounter L ops Reached l b now (now + skew)) as r) =
      map (\<lambda>d. Inr (d, None)) (allowed_run (ctr_spec L (swl_limit l) w) [] as)"
    by (rule redis_db.decideCounter_run [OF assms(1) _ _ refl assms(6) inv])
      (use assms in \<open>auto simp: list_all_iff\<close>)
  moreover have "slidingWindow_Decide L ops Reached m l = decideCounter L ops Reached l" for m
    using assms(3) by (intro ext) (simp add: slidingWindow_Decide_def)
  ultimately show "fst (run_limiter (\<lambda>b now. slidingWindow_Decide L ops Reached m l b now (now + skew)) as r) =
      map (\<lambda>d. Inr (d, None)) ds"
    using assms(13) by simp
  have "int (length (slot w b i ([] @ admitted as (allowed_run (ctr_spec L (swl_limit l) w) [] as)))) \<le> swl_limit l"
    by (rule lua_numbers.ctr_run_bound [OF assms(2)]) (use assms(5) in \<open>simp add: slot_def\<close>)
  then show "int (length (slot w b i (admitted as ds))) \<le> swl_limit l"
    using assms(13) by simp
qed

definition sample_swc :: sliding_window_limiter where
  "sample_swc = newSlidingWindowLimiter ''rl_1'' \<lparr>sw_window = 1000000000, sw_limit = 2, sw_mode = ''counter''\<rparr>"

definition sample_ctr_arrivals :: "(bucket_key \<times> int) list" where
  "sample_ctr_arrivals = (let b = [(''namespace'', ''root'')] in [(b, 1200), (b, 1900), (b, 1950), (b, 2000), (b, 2600)])"

theorem slidingCounter_limits_witness:
  "map (\<lambda>x. case x of Inr (d, _) \<Rightarrow> (Allowed d, RetryAfter d) | Inl _ \<Rightarrow> (False, 0))
     (fst (run_limiter (\<lambda>b now. slidingWindow_Decide fixed_point mem_redis_ops Reached (Inr []) sample_swc b now (now + 3))
        sample_ctr_arrivals [])) =
   [(True, 0), (True, 0), (False, 50 * 1000000), (False, 1000 * 1000000), (True, 0)]"
proof -
  let ?ds = "allowed_run (ctr_spec fixed_point (swl_limit sample_swc) 1000) [] sample_ctr_arrivals"
  have h: "swl_mode sample_swc = ''counter''" "0 < Milliseconds (swl_window sample_swc)" "0 \<le> swl_limit sample_swc"
    "CHR '':'' \<notin> set (swl_rule sample_swc)" "sorted (map snd sample_ctr_arrivals)"
    "list_all (\<lambda>a. valid_key (fst a) \<and> 1200 \<le> snd a) sample_ctr_arrivals"
    "int (length sample_ctr_arrivals) < 2 ^ 63 - 1" "(0 :: int) \<le> 1200"
    by code_simp+
  have w: "1000 = Milliseconds (swl_window sample_swc)" by code_simp
  have e: "\<forall>b i. mem_entry [] (1200 + 3) (swc_key (swl_rule sample_swc) b i) = None"
    by (simp add: mem_entry_def)
  have "map (\<lambda>d. (Allowed d, RetryAfter d)) ?ds =
      [(True, 0), (True, 0), (False, 50 * 1000000), (False, 1000 * 1000000), (True, 0)]" by code_simp
  with slidingCounter_limits [OF mredis.redis_db_axioms lua_fixed.lua_numbers_axioms h e w refl]
  show ?thesis by (simp add: comp_def)
qed

subsection \<open>Peek\<close>

definition zset_entry :: "rentry \<Rightarrow> bool" where
  "zset_entry x \<longleftrightarrow> (\<exists>ts e M. zcontent x ts e M \<and> (\<forall>s \<in> set ts. 0 \<le> s))"

context redis_db
begin

lemma slidingWindowLog_scripts_agree:
  assumes "zset_entry (entry r t k)" "0 < limit"
  shows "fst (slidingWindowLogScript ops k limit now w m r t) = slidingWindowLogPeekScript ops k limit now w r t"
proof -
  obtain ts e M where z: "zcontent (entry r t k) ts e M" "\<forall>s \<in> set ts. 0 \<le> s"
    using assms(1) by (auto simp: zset_entry_def)
  let ?xs = "filter (\<lambda>s. now - w < s) ts"
  obtain n r1 where r1: "ZREMRANGEBYSCORE ops r t k 0 (now - w) = (Inr n, r1)" "zcontent (entry r1 t k) ?xs e M"
    using ZREM_purges [OF z] by blast
  obtain o1 where o1: "ZRANGE_first ops r1 t k = Inr o1" "map snd o1 = take 1 ?xs"
    using zcontent_reads(2) [OF r1(2)] by blast
  obtain o2 where o2: "ZRANGE_first_above ops r t k (now - w) = Inr o2" "map snd o2 = take 1 ?xs"
    using zcontent_reads(4) [OF z(1)] by blast
  obtain n2 where za: "fst (ZADD ops r1 t k now m) = Inr n2"
    using r1(2) ZADD_absent [of r1 t k now m] ZADD_present [of r1 t k] by (fastforce simp: zcontent_def)
  show ?thesis
  proof (cases "limit \<le> int (length ?xs)")
    case True
    then have "?xs \<noteq> []" using assms(2) by auto
    with True show ?thesis
      using r1(1) zcontent_reads(1) [OF r1(2)] zcontent_reads(3) [OF z(1), of "now - w"] o1 o2
      by (simp add: slidingWindowLogScript_def slidingWindowLogPeekScript_def log_retry_hd)
  next
    case False
    with za r1(1) zcontent_reads(1) [OF r1(2)] zcontent_reads(3) [OF z(1), of "now - w"] show ?thesis
      by (simp add: slidingWindowLogScript_def slidingWindowLogPeekScript_def call_pair)
  qed
qed

end

context redis_db
begin

lemma counter_entry_reads:
  assumes "counter_entry (entry r t k)"
  shows "\<exists>n. lua_count (GET ops r t k) = Inr n \<and> fst (INCR ops r t k) = Inr (n + 1)"
proof (cases "entry r t k")
  case None
  then show ?thesis using INCR_absent [OF None] GET_absent [OF None] by simp
next
  case (Some x)
  with assms obtain n e where x: "entry r t k = Some (RString (FormatInt n), e)" "0 \<le> n" "n < 2 ^ 63 - 1"
    by (auto simp: counter_entry_def)
  then show ?thesis using INCR_present [OF x] GET_present [OF x(1)] by simp
qed

lemma slidingWindowCounter_scripts_agree:
  assumes "counter_entry (entry r t k)" "counter_entry (entry r t kp)"
  shows "fst (slidingWindowCounterScript L ops k kp limit w e r t) = slidingWindowCounterPeekScript L ops k kp limit w e r t"
  using counter_entry_reads [OF assms(1)] counter_entry_reads [OF assms(2)]
  by (auto simp: slidingWindowCounterScript_def slidingWindowCounterPeekScript_def Let_def call_pair)

lemma slidingWindow_Peek_predicts:
  assumes "swl_mode l = ''log'' \<Longrightarrow> zset_entry (entry r srv (swl_key (swl_rule l) b))"
    and "\<And>i. swl_mode l = ''counter'' \<Longrightarrow> counter_entry (entry r srv (swc_key (swl_rule l) b i))"
    and "0 < swl_limit l"
  shows "slidingWindow_Peek L ops Reached l b now srv r = (fst (slidingWindow_Decide L ops Reached (Inr m) l b now srv r), r)"
proof -
  consider "swl_mode l = ''log''" | "swl_mode l = ''counter''" | "swl_mode l \<noteq> ''log''" "swl_mode l \<noteq> ''counter''"
    by blast
  then show ?thesis
  proof cases
    case 1
    from slidingWindowLog_scripts_agree [OF assms(1) [OF 1] assms(3), of now _ m] 1 show ?thesis
      by (simp add: slidingWindow_Peek_def slidingWindow_Decide_def peekLog_def decideLog_def run_script_def case_prod_unfold)
  next
    case 2
    from slidingWindowCounter_scripts_agree [OF assms(2) [OF 2] assms(2) [OF 2]] 2 show ?thesis
      by (simp add: slidingWindow_Peek_def slidingWindow_Decide_def peekCounter_def decideCounter_def Let_def
          run_script_def case_prod_unfold)
  next
    case 3
    then show ?thesis by (simp add: slidingWindow_Peek_def slidingWindow_Decide_def)
  qed
qed

end

text \<open>
  In counter mode the wait of a rejected request runs to the end of the current window, where the
  full weight of that window is then counted as the previous one: the request at 1.95 seconds is
  told to wait 50 milliseconds, and is rejected again then.
\<close>

lemma slidingCounter_retry_too_early:
  "let b = [(''namespace'', ''root'')];
       ds = allowed_run (ctr_spec fixed_point (swl_limit sample_swc) (Milliseconds (swl_window sample_swc))) []
              [(b, 1200), (b, 1900), (b, 1950), (b, 2000)]
   in map (\<lambda>d. (Allowed d, RetryAfter d)) ds =
        [(True, 0), (True, 0), (False, 50 * 1000000), (False, 1000 * 1000000)]"
  by code_simp

end
