(* ===== verification/Token_Bucket.thy ===== *)
theory Token_Bucket
  imports Sliding_Window
begin

text \<open>
  The token bucket limiter (\<^verbatim>\<open>internal/ratelimit/limiter_token_bucket.go\<close>): its scripts, which
  compute with Lua's rounded numbers, \<^verbatim>\<open>Decide\<close> and \<^verbatim>\<open>Peek\<close>. The lemmas show that the stored
  tokens stay between zero and the capacity, that a bucket used at least once an hour allows no
  more requests than its capacity plus the tokens refilled meanwhile, up to the rounding, and that
  \<^verbatim>\<open>Peek\<close> predicts \<^verbatim>\<open>Decide\<close>.
\<close>

subsection \<open>Scripts\<close>

definition lua_field :: "lua_ops \<Rightarrow> string option list \<Rightarrow> nat \<Rightarrow> rat option" where
  "lua_field L data i =
     (if i < length data then (case data ! i of None \<Rightarrow> None | Some s \<Rightarrow> tonumber L s) else None)"

text \<open>The tokens after the refill, and the wait for the next token.\<close>

definition refilled :: "lua_ops \<Rightarrow> int \<Rightarrow> rat \<Rightarrow> int \<Rightarrow> rat \<Rightarrow> rat \<Rightarrow> rat" where
  "refilled L capacity refill_per_sec now_ms tokens last_refill_ms =
     (let e = fl L (of_int now_ms - last_refill_ms);
          elapsed_ms = (if e < 0 then 0 else e);
          refill = fl L (fl L (elapsed_ms / 1000) * refill_per_sec)
      in min (of_int capacity) (fl L (tokens + refill)))"

definition token_wait :: "lua_ops \<Rightarrow> rat \<Rightarrow> rat \<Rightarrow> int" where
  "token_wait L refill_per_sec tokens =
     (let needed = fl L (1 - tokens);
          wait_ms = \<lceil>fl L (fl L (needed / refill_per_sec) * 1000)\<rceil>
      in if wait_ms < 1 then 1 else wait_ms)"

definition token_fields :: "lua_ops \<Rightarrow> rat \<Rightarrow> int \<Rightarrow> smap" where
  "token_fields L tokens last_refill_ms =
     [(''tokens'', tostring L tokens), (''last_refill_ms'', tostring L (of_int last_refill_ms))]"

definition tokenBucketScript ::
  "lua_ops \<Rightarrow> 'r redis_ops \<Rightarrow> string \<Rightarrow> int \<Rightarrow> rat \<Rightarrow> int \<Rightarrow> int \<Rightarrow> 'r \<Rightarrow> int \<Rightarrow> (gerror + redis_reply) \<times> 'r" where
  "tokenBucketScript L ops key capacity refill_per_sec now_ms idle_ttl_ms r t =
     call (HMGET ops r t key [''tokens'', ''last_refill_ms''], r) (\<lambda>data r.
       let tokens =
             (case (lua_field L data 0, lua_field L data 1) of
                (Some tokens, Some last_refill_ms) \<Rightarrow>
                  refilled L capacity refill_per_sec now_ms tokens last_refill_ms
              | _ \<Rightarrow> of_int capacity)
       in if tokens < 1 then
            call (HSET ops r t key (token_fields L tokens now_ms)) (\<lambda>_ r1.
              (Inr (lua_pair 0 (token_wait L refill_per_sec tokens)), PEXPIRE ops r1 t key idle_ttl_ms))
          else
            let tokens' = fl L (tokens - 1)
            in call (HSET ops r t key (token_fields L tokens' now_ms)) (\<lambda>_ r1.
                 (Inr (lua_pair 1 \<lfloor>tokens'\<rfloor>), PEXPIRE ops r1 t key idle_ttl_ms)))"

definition tokenBucketPeekScript ::
  "lua_ops \<Rightarrow> 'r redis_ops \<Rightarrow> string \<Rightarrow> int \<Rightarrow> rat \<Rightarrow> int \<Rightarrow> 'r \<Rightarrow> int \<Rightarrow> gerror + redis_reply" where
  "tokenBucketPeekScript L ops key capacity refill_per_sec now_ms r t =
     (case HMGET ops r t key [''tokens'', ''last_refill_ms''] of
        Inl e \<Rightarrow> Inl e
      | Inr data \<Rightarrow>
          (case (lua_field L data 0, lua_field L data 1) of
             (Some tokens, Some last_refill_ms) \<Rightarrow>
               (let projected = refilled L capacity refill_per_sec now_ms tokens last_refill_ms
                in if projected < 1 then Inr (lua_pair 0 (token_wait L refill_per_sec projected))
                   else Inr (lua_pair 1 \<lfloor>fl L (projected - 1)\<rfloor>))
           | _ \<Rightarrow> Inr (lua_pair 1 (capacity - 1))))"

subsection \<open>The limiter\<close>

definition tokenBucketIdleTTL :: int where
  "tokenBucketIdleTTL = 3600 * 1000000000"

record token_bucket_limiter =
  tbl_rule :: string
  tbl_capacity :: int
  tbl_refill_rate :: rat

definition newTokenBucketLimiter :: "string \<Rightarrow> token_bucket \<Rightarrow> token_bucket_limiter" where
  "newTokenBucketLimiter ruleID params =
     \<lparr>tbl_rule = ruleID, tbl_capacity = tb_capacity params, tbl_refill_rate = tb_refill_rate params\<rparr>"

definition tb_key :: "string \<Rightarrow> bucket_key \<Rightarrow> string" where
  "tb_key ruleID bucketKey = limiterKeyPrefix ruleID bucketKey @ '':tb''"

text \<open>
  The refill rate is passed as its shortest decimal text, which Lua reads back as the same double.
\<close>

definition tokenBucket_Decide ::
  "lua_ops \<Rightarrow> 'r redis_ops \<Rightarrow> net \<Rightarrow> token_bucket_limiter \<Rightarrow> bucket_key \<Rightarrow> int \<Rightarrow> int \<Rightarrow> 'r decide" where
  "tokenBucket_Decide L ops net l bucketKey now srv r =
     (case run_script net
        (tokenBucketScript L ops (tb_key (tbl_rule l) bucketKey) (tbl_capacity l) (tbl_refill_rate l) now
           (Milliseconds tokenBucketIdleTTL)) r srv of
        (res, r') \<Rightarrow> (Inr (finish_decision res), r'))"

definition tokenBucket_Peek ::
  "lua_ops \<Rightarrow> 'r redis_ops \<Rightarrow> net \<Rightarrow> token_bucket_limiter \<Rightarrow> bucket_key \<Rightarrow> int \<Rightarrow> int \<Rightarrow> 'r decide" where
  "tokenBucket_Peek L ops net l bucketKey now srv r =
     (case run_script net
        (\<lambda>r t. (tokenBucketPeekScript L ops (tb_key (tbl_rule l) bucketKey) (tbl_capacity l) (tbl_refill_rate l) now r t, r))
        r srv of
        (res, r') \<Rightarrow> (Inr (finish_decision res), r'))"

subsection \<open>Tokens\<close>

text \<open>The tokens available to a request, given the tokens and time stored by the last one.\<close>

definition available :: "lua_ops \<Rightarrow> int \<Rightarrow> rat \<Rightarrow> int \<Rightarrow> (rat \<times> int) option \<Rightarrow> rat" where
  "available L capacity rate now st =
     (case st of None \<Rightarrow> of_int capacity | Some (tk, since) \<Rightarrow> refilled L capacity rate now tk (of_int since))"

definition tb_spec :: "lua_ops \<Rightarrow> int \<Rightarrow> rat \<Rightarrow> int \<Rightarrow> (rat \<times> int) option \<Rightarrow> decision \<times> rat" where
  "tb_spec L capacity rate now st =
     (let tokens = available L capacity rate now st
      in if tokens < 1 then (reject (token_wait L rate tokens), reread L tokens)
         else (allow \<lfloor>fl L (tokens - 1)\<rfloor>, reread L (fl L (tokens - 1))))"

text \<open>A key that holds the state of a bucket, or none.\<close>

definition tb_content :: "lua_ops \<Rightarrow> rentry \<Rightarrow> (rat \<times> int) option \<Rightarrow> int \<Rightarrow> bool" where
  "tb_content L x st e \<longleftrightarrow>
     (case st of
        None \<Rightarrow> x = None
      | Some (tk, since) \<Rightarrow>
          (\<exists>h tok. x = Some (RHash h, Some e) \<and> map_of h ''tokens'' = Some tok \<and> tonumber L tok = Some tk
             \<and> map_of h ''last_refill_ms'' = Some (tostring L (of_int since)) \<and> \<bar>since\<bar> \<le> 10 ^ 14))"

context lua_numbers
begin

lemma refilled_bounds:
  assumes "0 \<le> tk" "0 \<le> rate" "0 \<le> capacity"
  shows "0 \<le> refilled L capacity rate now tk since" "refilled L capacity rate now tk since \<le> of_int capacity"
proof -
  define e where "e = (if fl L (of_int now - since) < 0 then 0 else fl L (of_int now - since))"
  have "0 \<le> fl L (fl L (e / 1000) * rate)"
    using assms(2) by (intro fl_nonneg mult_nonneg_nonneg divide_nonneg_nonneg) (auto simp: e_def)
  then have "0 \<le> fl L (tk + fl L (fl L (e / 1000) * rate))" using assms(1) by (intro fl_nonneg) simp
  with assms(3) show "0 \<le> refilled L capacity rate now tk since"
    unfolding refilled_def Let_def e_def [symmetric] by simp
qed (simp add: refilled_def Let_def)

lemma available_bounds:
  assumes "0 \<le> rate" "0 \<le> capacity" "\<And>tk since. st = Some (tk, since) \<Longrightarrow> 0 \<le> tk"
  shows "0 \<le> available L capacity rate now st" "available L capacity rate now st \<le> of_int capacity"
proof -
  have "0 \<le> available L capacity rate now st \<and> available L capacity rate now st \<le> of_int capacity"
  proof (cases st)
    case None
    with assms(2) show ?thesis by (simp add: available_def)
  next
    case (Some x)
    obtain tk since where x: "st = Some (tk, since)" using Some by (cases x) simp
    with refilled_bounds [OF assms(3) [OF x] assms(1,2)] show ?thesis by (simp add: available_def)
  qed
  then show "0 \<le> available L capacity rate now st" "available L capacity rate now st \<le> of_int capacity"
    by simp_all
qed

lemma tb_spec_bounds:
  assumes "0 \<le> rate" "0 \<le> capacity" "capacity \<le> 2 ^ 46" "\<And>tk since. st = Some (tk, since) \<Longrightarrow> 0 \<le> tk"
  shows "0 \<le> snd (tb_spec L capacity rate now st)" "snd (tb_spec L capacity rate now st) \<le> of_int capacity"
proof -
  let ?t = "available L capacity rate now st"
  note b = available_bounds [OF assms(1,2,4), where now = now]
  have cap: "\<bar>capacity\<bar> \<le> 2 ^ 53" "\<bar>capacity\<bar> \<le> 10 ^ 14" using assms(2,3) by simp_all
  have "0 \<le> reread L ?t \<and> reread L ?t \<le> of_int capacity"
    by (intro conjI reread_nonneg reread_le_int b cap)
  moreover have "0 \<le> reread L (fl L (?t - 1)) \<and> reread L (fl L (?t - 1)) \<le> of_int capacity" if "1 \<le> ?t"
  proof -
    have "0 \<le> ?t - 1" "?t - 1 \<le> of_int capacity"
      using that b(2) by (simp_all add: le_diff_eq diff_le_eq add_increasing2)
    then show ?thesis by (intro conjI reread_nonneg reread_le_int fl_nonneg fl_le_int cap)
  qed
  ultimately have "0 \<le> snd (tb_spec L capacity rate now st) \<and> snd (tb_spec L capacity rate now st) \<le> of_int capacity"
    by (cases "?t < 1") (simp_all add: tb_spec_def Let_def not_less)
  then show "0 \<le> snd (tb_spec L capacity rate now st)" "snd (tb_spec L capacity rate now st) \<le> of_int capacity"
    by simp_all
qed

end

subsection \<open>The limiter on the store\<close>

locale redis_lua = redis_db ops entry + lua_numbers L
  for ops :: "'r redis_ops" and entry :: "'r \<Rightarrow> int \<Rightarrow> string \<Rightarrow> rentry" and L :: lua_ops
begin

lemma token_fields_read:
  assumes "tb_content L (entry r t k) st e"
  shows "\<exists>data. HMGET ops r t k [''tokens'', ''last_refill_ms''] = Inr data
    \<and> (case (lua_field L data 0, lua_field L data 1) of
         (Some tokens, Some last_refill_ms) \<Rightarrow> refilled L capacity rate now tokens last_refill_ms
       | _ \<Rightarrow> of_int capacity) = available L capacity rate now st
    \<and> (st = None \<longrightarrow> lua_field L data 0 = None)
    \<and> (st \<noteq> None \<longrightarrow> lua_field L data 0 \<noteq> None \<and> lua_field L data 1 \<noteq> None)"
proof (cases st)
  case None
  with assms have "entry r t k = None" by (simp add: tb_content_def)
  from HMGET_absent [OF this, of "[''tokens'', ''last_refill_ms'']"] None show ?thesis
    by (simp add: lua_field_def available_def)
next
  case (Some x)
  obtain tk since where x: "x = (tk, since)" by fastforce
  obtain h tok where h: "entry r t k = Some (RHash h, Some e)" "map_of h ''tokens'' = Some tok" "tonumber L tok = Some tk"
    "map_of h ''last_refill_ms'' = Some (tostring L (of_int since))" "\<bar>since\<bar> \<le> 10 ^ 14"
    using assms Some x by (auto simp: tb_content_def)
  have "tonumber L (tostring L (of_int since)) = Some (of_int since)"
    using tonumber_tostring reread_int [OF h(5)] by simp
  with HMGET_present [OF h(1), of "[''tokens'', ''last_refill_ms'']"] h Some x show ?thesis
    by (simp add: lua_field_def available_def)
qed

lemma HSET_PEXPIRE_content:
  assumes "tb_content L (entry r t k) st e" "0 < ttl" "\<bar>now\<bar> \<le> 10 ^ 14"
  shows "\<exists>n r1. HSET ops r t k (token_fields L x now) = (Inr n, r1)
    \<and> tb_content L (entry (PEXPIRE ops r1 t k ttl) t k) (Some (reread L x, now)) (t + ttl)"
proof -
  obtain y r1 where y: "HSET ops r t k (token_fields L x now) = (y, r1)" by fastforce
  obtain h e' where h: "entry r1 t k = Some (RHash (put_all (token_fields L x now) h), e')" "\<not> isl y"
  proof (cases "entry r t k")
    case None
    with HSET_absent [OF None, of "token_fields L x now"] y that show ?thesis by simp
  next
    case (Some z)
    with assms(1) obtain h where "entry r t k = Some (RHash h, Some e)"
      by (auto simp: tb_content_def split: option.splits)
    from HSET_present [OF this, of "token_fields L x now"] y that show ?thesis by simp
  qed
  have "map_of (put_all (token_fields L x now) h) ''tokens'' = Some (tostring L x)"
    "map_of (put_all (token_fields L x now) h) ''last_refill_ms'' = Some (tostring L (of_int now))"
    by (simp_all add: put_all_def token_fields_def update_conv')
  with PEXPIRE_sets [OF h(1) assms(2)] assms(3) tonumber_tostring
  have "tb_content L (entry (PEXPIRE ops r1 t k ttl) t k) (Some (reread L x, now)) (t + ttl)"
    by (simp add: tb_content_def)
  with y h(2) show ?thesis by (cases y) simp_all
qed

lemma tokenBucketScript_spec:
  assumes c: "tb_content L (entry r t k) st e" "0 < ttl" "\<bar>now\<bar> \<le> 10 ^ 14"
  shows "\<exists>rep r'. tokenBucketScript L ops k capacity rate now ttl r t = (Inr rep, r')
    \<and> finish_decision (Inr rep) = (fst (tb_spec L capacity rate now st), None)
    \<and> tb_content L (entry r' t k) (Some (snd (tb_spec L capacity rate now st), now)) (t + ttl)"
proof -
  let ?tok = "available L capacity rate now st"
  obtain data where d: "HMGET ops r t k [''tokens'', ''last_refill_ms''] = Inr data"
    "(case (lua_field L data 0, lua_field L data 1) of
         (Some tokens, Some last_refill_ms) \<Rightarrow> refilled L capacity rate now tokens last_refill_ms
       | _ \<Rightarrow> of_int capacity) = ?tok"
    using token_fields_read [OF c(1), of capacity rate now] by blast
  show ?thesis
  proof (cases "?tok < 1")
    case True
    obtain n r1 where "HSET ops r t k (token_fields L ?tok now) = (Inr n, r1)"
      "tb_content L (entry (PEXPIRE ops r1 t k ttl) t k) (Some (reread L ?tok, now)) (t + ttl)"
      using HSET_PEXPIRE_content [OF c] by blast
    with True d show ?thesis by (simp add: tokenBucketScript_def Let_def tb_spec_def)
  next
    case False
    obtain n r1 where "HSET ops r t k (token_fields L (fl L (?tok - 1)) now) = (Inr n, r1)"
      "tb_content L (entry (PEXPIRE ops r1 t k ttl) t k) (Some (reread L (fl L (?tok - 1)), now)) (t + ttl)"
      using HSET_PEXPIRE_content [OF c] by blast
    with False d show ?thesis by (simp add: tokenBucketScript_def Let_def tb_spec_def)
  qed
qed

lemma tokenBucketScript_frame:
  assumes "k' \<noteq> k" "t \<le> t'"
  shows "entry (snd (tokenBucketScript L ops k capacity rate now ttl r t)) t' k' = entry r t' k'"
proof -
  have frame: "entry (snd (call (HSET ops r t k kvs) (\<lambda>_ r1. (x, PEXPIRE ops r1 t k ttl)))) t' k' = entry r t' k'" for kvs x
  proof -
    obtain y r1 where "HSET ops r t k kvs = (y, r1)" by fastforce
    with HSET_frame [OF assms, of r kvs] show ?thesis by (cases y) (simp_all add: PEXPIRE_frame [OF assms])
  qed
  show ?thesis
    by (cases "HMGET ops r t k [''tokens'', ''last_refill_ms'']") (simp_all add: tokenBucketScript_def Let_def frame)
qed

lemma tokenBucket_scripts_agree:
  assumes c: "tb_content L (entry r t k) st e" "0 < ttl" "\<bar>now\<bar> \<le> 10 ^ 14" "0 < capacity" "capacity \<le> 2 ^ 53"
  shows "fst (tokenBucketScript L ops k capacity rate now ttl r t) = tokenBucketPeekScript L ops k capacity rate now r t"
proof -
  let ?tok = "available L capacity rate now st"
  obtain data where d: "HMGET ops r t k [''tokens'', ''last_refill_ms''] = Inr data"
    "(case (lua_field L data 0, lua_field L data 1) of
         (Some tokens, Some last_refill_ms) \<Rightarrow> refilled L capacity rate now tokens last_refill_ms
       | _ \<Rightarrow> of_int capacity) = ?tok"
    "st = None \<longrightarrow> lua_field L data 0 = None" "st \<noteq> None \<longrightarrow> lua_field L data 0 \<noteq> None \<and> lua_field L data 1 \<noteq> None"
    using token_fields_read [OF c(1), of capacity rate now] by (elim exE conjE) (rule that)
  obtain n r1 where h1: "HSET ops r t k (token_fields L ?tok now) = (Inr n, r1)"
    using HSET_PEXPIRE_content [OF c(1-3), of ?tok] by blast
  obtain n' r1' where h2: "HSET ops r t k (token_fields L (fl L (?tok - 1)) now) = (Inr n', r1')"
    using HSET_PEXPIRE_content [OF c(1-3), of "fl L (?tok - 1)"] by blast
  have decide: "fst (tokenBucketScript L ops k capacity rate now ttl r t) =
      Inr (if ?tok < 1 then lua_pair 0 (token_wait L rate ?tok) else lua_pair 1 \<lfloor>fl L (?tok - 1)\<rfloor>)"
    using d(1,2) h1 h2 by (cases "?tok < 1") (simp_all add: tokenBucketScript_def Let_def)
  have full: "\<lfloor>fl L (of_int capacity - 1)\<rfloor> = capacity - 1"
  proof -
    have "fl L (of_int (capacity - 1)) = of_int (capacity - 1)" using c(4,5) by (intro fl_int) simp
    then show ?thesis by simp
  qed
  show ?thesis
  proof (cases st)
    case None
    with c(4) full d decide show ?thesis by (simp add: tokenBucketPeekScript_def available_def)
  next
    case (Some x)
    with d(4) obtain a b where ab: "lua_field L data 0 = Some a" "lua_field L data 1 = Some b" by blast
    with d(2) have "refilled L capacity rate now a b = ?tok" by simp
    with ab d(1) decide show ?thesis by (simp add: tokenBucketPeekScript_def Let_def)
  qed
qed

end

interpretation mredis_lua: redis_lua mem_redis_ops mem_entry fixed_point
  by unfold_locales

subsection \<open>Runs\<close>

type_synonym tb_states = "bucket_key \<Rightarrow> (rat \<times> int) option"

fun tb_run :: "lua_ops \<Rightarrow> int \<Rightarrow> rat \<Rightarrow> tb_states \<Rightarrow> (bucket_key \<times> int) list \<Rightarrow> decision list" where
  "tb_run L capacity rate st [] = []"
| "tb_run L capacity rate st ((b, t) # as) =
     (let x = tb_spec L capacity rate t (st b)
      in fst x # tb_run L capacity rate (st(b := Some (snd x, t))) as)"

text \<open>No bucket is idle for as long as the expiry of its key.\<close>

fun gaps_ok :: "int \<Rightarrow> (bucket_key \<Rightarrow> int option) \<Rightarrow> (bucket_key \<times> int) list \<Rightarrow> bool" where
  "gaps_ok ttl prev [] = True"
| "gaps_ok ttl prev ((b, t) # as) =
     ((case prev b of None \<Rightarrow> True | Some s \<Rightarrow> t - s < ttl) \<and> gaps_ok ttl (prev(b := Some t)) as)"

definition tb_inv ::
  "('r \<Rightarrow> int \<Rightarrow> string \<Rightarrow> rentry) \<Rightarrow> lua_ops \<Rightarrow> string \<Rightarrow> int \<Rightarrow> int \<Rightarrow> tb_states \<Rightarrow> int \<Rightarrow> 'r \<Rightarrow> bool" where
  "tb_inv entry L rule ttl skew st now r \<longleftrightarrow>
     (\<forall>b. valid_key b \<longrightarrow>
        (case st b of
           None \<Rightarrow> entry r (now + skew) (tb_key rule b) = None
         | Some (tk, since) \<Rightarrow>
             now - since < ttl \<longrightarrow>
             tb_content L (entry r (now + skew) (tb_key rule b)) (Some (tk, since)) (since + skew + ttl)))"

lemma tb_key_inj:
  "tb_key rule b = tb_key rule b' \<Longrightarrow> CHR '':'' \<notin> set rule \<Longrightarrow> valid_key b \<Longrightarrow> valid_key b' \<Longrightarrow> b = b'"
  using limiterKeyPrefix_inj [of rule rule b b'] by (simp add: tb_key_def)

context redis_lua
begin

lemma tb_inv_later:
  assumes inv: "tb_inv entry L rule ttl skew st now r" and "now \<le> now'"
  shows "tb_inv entry L rule ttl skew st now' r"
  unfolding tb_inv_def
proof (intro allI impI)
  fix b assume b: "valid_key b"
  let ?k = "tb_key rule b"
  show "case st b of
      None \<Rightarrow> entry r (now' + skew) ?k = None
    | Some (tk, since) \<Rightarrow> now' - since < ttl \<longrightarrow>
        tb_content L (entry r (now' + skew) ?k) (Some (tk, since)) (since + skew + ttl)"
  proof (cases "st b")
    case None
    with inv b have "entry r (now + skew) ?k = None" by (fastforce simp: tb_inv_def)
    from entry_none [OF this, of "now' + skew"] None assms(2) show ?thesis by simp
  next
    case (Some x)
    obtain tk since where x: "x = (tk, since)" by fastforce
    show ?thesis
    proof (cases "now' - since < ttl")
      case True
      have "case st b of None \<Rightarrow> entry r (now + skew) ?k = None | Some (tk, since) \<Rightarrow> now - since < ttl \<longrightarrow>
          tb_content L (entry r (now + skew) ?k) (Some (tk, since)) (since + skew + ttl)"
        using inv b by (simp add: tb_inv_def)
      with True Some x assms(2) have c: "tb_content L (entry r (now + skew) ?k) (Some (tk, since)) (since + skew + ttl)"
        by simp
      then obtain h where h: "entry r (now + skew) ?k = Some (RHash h, Some (since + skew + ttl))"
        by (auto simp: tb_content_def)
      have "entry r (now' + skew) ?k = entry r (now + skew) ?k"
        using entry_later [OF h, of "now' + skew"] h True assms(2) by simp
      with c Some x show ?thesis by simp
    qed (use Some x in simp)
  qed
qed

lemma tokenBucket_Decide_step:
  assumes l: "tbl_rule l = rule" "tbl_capacity l = capacity" "tbl_refill_rate l = rate" "CHR '':'' \<notin> set rule"
    and ttl: "ttl = Milliseconds tokenBucketIdleTTL"
    and inv: "tb_inv entry L rule ttl skew st now r" and "valid_key b" "\<bar>now\<bar> \<le> 10 ^ 14"
    and fresh: "case st b of None \<Rightarrow> True | Some (tk, since) \<Rightarrow> now - since < ttl"
  shows "\<exists>r'. tokenBucket_Decide L ops Reached l b now (now + skew) r = (Inr (fst (tb_spec L capacity rate now (st b)), None), r')
    \<and> tb_inv entry L rule ttl skew (st(b := Some (snd (tb_spec L capacity rate now (st b)), now))) now r'"
proof -
  let ?k = "tb_key rule b" and ?t = "now + skew" and ?x = "tb_spec L capacity rate now (st b)"
  have pos: "0 < ttl" by (simp add: ttl Milliseconds_def tokenBucketIdleTTL_def quot_def)
  have i: "case st b of None \<Rightarrow> entry r ?t ?k = None | Some (tk, since) \<Rightarrow> now - since < ttl \<longrightarrow>
      tb_content L (entry r ?t ?k) (Some (tk, since)) (since + skew + ttl)"
    using inv \<open>valid_key b\<close> by (simp add: tb_inv_def)
  obtain e where "tb_content L (entry r ?t ?k) (st b) e"
  proof (cases "st b")
    case None
    with i that [of 0] show ?thesis by (simp add: tb_content_def)
  next
    case (Some x)
    with i fresh that show ?thesis by (cases x) auto
  qed
  then obtain rep r' where s: "tokenBucketScript L ops ?k capacity rate now ttl r ?t = (Inr rep, r')"
    "finish_decision (Inr rep) = (fst ?x, None)" "tb_content L (entry r' ?t ?k) (Some (snd ?x, now)) (?t + ttl)"
    using tokenBucketScript_spec [OF _ pos assms(8), of r ?t ?k "st b" e capacity rate] by blast
  have "tokenBucket_Decide L ops Reached l b now ?t r = (Inr (fst ?x, None), r')"
    using l s(1,2) ttl by (simp add: tokenBucket_Decide_def run_script_def)
  moreover have "tb_inv entry L rule ttl skew (st(b := Some (snd ?x, now))) now r'"
    unfolding tb_inv_def
  proof (intro allI impI)
    fix b' assume b': "valid_key b'"
    show "case (st(b := Some (snd ?x, now))) b' of
        None \<Rightarrow> entry r' ?t (tb_key rule b') = None
      | Some (tk, since) \<Rightarrow> now - since < ttl \<longrightarrow>
          tb_content L (entry r' ?t (tb_key rule b')) (Some (tk, since)) (since + skew + ttl)"
    proof (cases "b' = b")
      case True
      with s(3) show ?thesis by simp
    next
      case False
      then have "tb_key rule b' \<noteq> ?k" using tb_key_inj l(4) b' \<open>valid_key b\<close> by blast
      from tokenBucketScript_frame [OF this order_refl [of ?t], of capacity rate now ttl r] s(1)
      have same: "entry r' ?t (tb_key rule b') = entry r ?t (tb_key rule b')" by simp
      from inv b' False show ?thesis unfolding same by (simp add: tb_inv_def)
    qed
  qed
  ultimately show ?thesis by blast
qed

lemma tokenBucket_run:
  assumes l: "tbl_rule l = rule" "tbl_capacity l = capacity" "tbl_refill_rate l = rate" "CHR '':'' \<notin> set rule"
    and ttl: "ttl = Milliseconds tokenBucketIdleTTL"
  shows "tb_inv entry L rule ttl skew st now r \<Longrightarrow> sorted (now # map snd as) \<Longrightarrow>
    list_all (\<lambda>a. valid_key (fst a) \<and> \<bar>snd a\<bar> \<le> 10 ^ 14) as \<Longrightarrow>
    gaps_ok ttl (\<lambda>b. map_option snd (st b)) as \<Longrightarrow>
    fst (run_limiter (\<lambda>b now. tokenBucket_Decide L ops Reached l b now (now + skew)) as r) =
      map (\<lambda>d. Inr (d, None)) (tb_run L capacity rate st as)"
proof (induction as arbitrary: st now r)
  case (Cons a as)
  obtain b t where a: "a = (b, t)" by fastforce
  have "now \<le> t" using Cons.prems(2) a by simp
  have inv: "tb_inv entry L rule ttl skew st t r" by (rule tb_inv_later [OF Cons.prems(1) \<open>now \<le> t\<close>])
  have t: "valid_key b" "\<bar>t\<bar> \<le> 10 ^ 14" using Cons.prems(3) a by auto
  let ?x = "tb_spec L capacity rate t (st b)"
  have fresh: "case st b of None \<Rightarrow> True | Some (tk, since) \<Rightarrow> t - since < ttl"
    using Cons.prems(4) a by (auto split: option.splits)
  obtain r' where r': "tokenBucket_Decide L ops Reached l b t (t + skew) r = (Inr (fst ?x, None), r')"
    "tb_inv entry L rule ttl skew (st(b := Some (snd ?x, t))) t r'"
    using tokenBucket_Decide_step [OF l ttl inv t fresh] by blast
  have upd: "(\<lambda>b'. map_option snd ((st(b := Some (snd ?x, t))) b')) = (\<lambda>b. map_option snd (st b))(b := Some t)"
    by (rule ext) simp
  have "fst (run_limiter (\<lambda>b now. tokenBucket_Decide L ops Reached l b now (now + skew)) as r') =
      map (\<lambda>d. Inr (d, None)) (tb_run L capacity rate (st(b := Some (snd ?x, t))) as)"
    by (rule Cons.IH [OF r'(2)]) (use Cons.prems a upd in auto)
  with r'(1) a show ?case by (simp add: run_limiter_Cons Let_def del: run_limiter.simps)
qed simp

end

subsection \<open>The bound on the rate\<close>

text \<open>Rounding never raises a number of the range in use by more than \<open>e\<close>.\<close>

definition rounds_within :: "lua_ops \<Rightarrow> rat \<Rightarrow> rat \<Rightarrow> bool" where
  "rounds_within L B e \<longleftrightarrow> (\<forall>x. 0 \<le> x \<and> x \<le> B \<longrightarrow> fl L x \<le> x + e \<and> reread L x \<le> x + e)"

definition used :: "decision \<Rightarrow> rat" where
  "used d = (if Allowed d then 1 else 0)"

definition tb_used :: "bucket_key \<Rightarrow> (bucket_key \<times> int) list \<Rightarrow> decision list \<Rightarrow> rat" where
  "tb_used b as ds = of_nat (length (filter (\<lambda>a. fst a = b) (admitted as ds)))"

lemma tb_used_Cons: "tb_used b (a # as) (d # ds) = (if fst a = b then used d else 0) + tb_used b as ds"
  by (simp add: tb_used_def admitted_Cons used_def)

definition requests :: "bucket_key \<Rightarrow> (bucket_key \<times> int) list \<Rightarrow> rat" where
  "requests b as = of_nat (length (filter (\<lambda>a. fst a = b) as))"

context lua_numbers
begin

lemma refilled_le:
  assumes r: "rounds_within L B e" "0 \<le> e" "of_int capacity + (3600 + e) * (rate + 1) + e \<le> B"
    and "0 \<le> tk" "tk \<le> of_int capacity" "0 \<le> rate" "since \<le> now" "now - since \<le> 3600000"
  shows "refilled L capacity rate now tk (of_int since) \<le> tk + rate * of_int (now - since) / 1000 + (e * rate + 2 * e)"
proof -
  let ?el = "of_int (now - since) :: rat"
  have up: "0 \<le> x \<Longrightarrow> x \<le> B \<Longrightarrow> fl L x \<le> x + e" for x using r(1) by (simp add: rounds_within_def)
  have el: "0 \<le> ?el" "?el / 1000 \<le> 3600" using assms(7,8) by (simp_all flip: of_int_diff)
  have diff: "fl L (of_int now - of_int since) = ?el"
    using fl_int [of "now - since"] assms(7,8) by simp
  have cap: "(0 :: rat) \<le> of_int capacity" using assms(4,5) by linarith
  have prod: "(3600 + e) * rate + (3600 + e) = (3600 + e) * (rate + 1)" by (simp add: algebra_simps)
  have nn: "0 \<le> (3600 + e) * rate" using assms(6) r(2) by simp
  let ?a1 = "fl L (?el / 1000)"
  have a1: "0 \<le> ?a1" "?a1 \<le> ?el / 1000 + e"
    using fl_nonneg [of "?el / 1000"] up [of "?el / 1000"] el r(2,3) nn cap prod by (simp_all add: divide_nonneg_nonneg)
  have a1r: "0 \<le> ?a1 * rate" "?a1 * rate \<le> (?el / 1000 + e) * rate" "(?el / 1000 + e) * rate \<le> (3600 + e) * rate"
    using a1 assms(6) el by (simp_all add: mult_right_mono)
  let ?a2 = "fl L (?a1 * rate)"
  have a2: "0 \<le> ?a2" "?a2 \<le> ?a1 * rate + e"
    using fl_nonneg [OF a1r(1)] up [OF a1r(1)] a1r r(2,3) cap prod by linarith+
  have "tk + ?a2 \<le> B" using a2(2) a1r assms(5) r(2,3) prod by linarith
  then have a3: "fl L (tk + ?a2) \<le> tk + ?a2 + e" using up [of "tk + ?a2"] assms(4) a2(1) by simp
  have "refilled L capacity rate now tk (of_int since) \<le> fl L (tk + ?a2)"
    using el(1) by (simp add: refilled_def Let_def diff)
  also have "\<dots> \<le> tk + (?el / 1000 + e) * rate + 2 * e" using a3 a2(2) a1r(2) by linarith
  also have "\<dots> = tk + rate * ?el / 1000 + (e * rate + 2 * e)" by (simp add: algebra_simps)
  finally show ?thesis .
qed

lemma tb_spec_potential:
  assumes r: "rounds_within L B e" "0 \<le> e" "of_int capacity \<le> B" and "capacity \<le> 2 ^ 53" "0 \<le> capacity"
    and tok: "0 \<le> available L capacity rate now st" "available L capacity rate now st \<le> of_int capacity"
  shows "used (fst (tb_spec L capacity rate now st)) + snd (tb_spec L capacity rate now st)
         \<le> available L capacity rate now st + 2 * e"
proof -
  let ?t = "available L capacity rate now st"
  have up: "0 \<le> x \<Longrightarrow> x \<le> B \<Longrightarrow> fl L x \<le> x + e \<and> reread L x \<le> x + e" for x
    using r(1) by (simp add: rounds_within_def)
  show ?thesis
  proof (cases "?t < 1")
    case True
    have "reread L ?t \<le> ?t + e" using up [of ?t] tok r(3) by simp
    with True r(2) show ?thesis by (simp add: tb_spec_def Let_def used_def reject_def)
  next
    case False
    have t1: "0 \<le> ?t - 1" "?t - 1 \<le> B" "?t - 1 \<le> of_int capacity" using False tok r(3) by (simp_all add: not_less)
    have f: "fl L (?t - 1) \<le> ?t - 1 + e" "0 \<le> fl L (?t - 1)" "fl L (?t - 1) \<le> of_int capacity"
      using up [OF t1(1,2)] fl_nonneg [OF t1(1)] fl_le_int [OF t1(3)] assms(4,5) by simp_all
    have "reread L (fl L (?t - 1)) \<le> fl L (?t - 1) + e" using up [of "fl L (?t - 1)"] f r(3) by simp
    with False f(1) show ?thesis by (simp add: tb_spec_def Let_def used_def allow_def)
  qed
qed

end

context lua_numbers
begin

lemma available_le:
  assumes r: "rounds_within L B e" "0 \<le> e" "of_int capacity + (3600 + e) * (rate + 1) + e \<le> B" "0 \<le> rate"
    and st: "case st of None \<Rightarrow> level = of_int capacity \<and> since \<le> now
      | Some (tk, s) \<Rightarrow> tk = level \<and> s = since \<and> 0 \<le> tk \<and> tk \<le> of_int capacity \<and> since \<le> now \<and> now - since < 3600000"
  shows "available L capacity rate now st \<le> level + rate * of_int (now - since) / 1000 + (e * rate + 2 * e)"
proof (cases st)
  case None
  with st have "available L capacity rate now st = level" "since \<le> now" by (simp_all add: available_def)
  moreover have "0 \<le> rate * of_int (now - since) / 1000" "0 \<le> e * rate + 2 * e"
    using r(2,4) \<open>since \<le> now\<close> by (simp_all add: divide_nonneg_nonneg mult_nonneg_nonneg)
  ultimately show ?thesis by linarith
next
  case (Some x)
  with st have "x = (level, since)" "0 \<le> level" "level \<le> of_int capacity" "since \<le> now" "now - since \<le> 3600000"
    by auto
  with refilled_le [OF r(1-3) this(2,3) r(4) this(4,5)] Some show ?thesis by (simp add: available_def)
qed

lemma tb_run_bound:
  assumes r: "rounds_within L B e" "0 \<le> e" "of_int capacity + (3600 + e) * (rate + 1) + e \<le> B" "0 \<le> rate"
    and cap: "0 \<le> capacity" "capacity \<le> 2 ^ 46"
  shows "sorted (map snd as) \<Longrightarrow> \<forall>a \<in> set as. snd a \<le> T \<Longrightarrow>
    gaps_ok 3600000 (\<lambda>b. map_option snd (st b)) as \<Longrightarrow>
    case st b of None \<Rightarrow> level = of_int capacity
      | Some (tk, s) \<Rightarrow> tk = level \<and> s = since \<and> 0 \<le> tk \<and> tk \<le> of_int capacity \<Longrightarrow>
    \<forall>a \<in> set as. since \<le> snd a \<Longrightarrow> since \<le> T \<Longrightarrow> 0 \<le> level \<Longrightarrow>
    tb_used b as (tb_run L capacity rate st as)
      \<le> level + rate * of_int (T - since) / 1000 + requests b as * (e * rate + 4 * e)"
proof (induction as arbitrary: st level since)
  case Nil
  then have "0 \<le> rate * of_int (T - since) / 1000"
    using r(4) by (simp add: divide_nonneg_nonneg mult_nonneg_nonneg)
  with Nil show ?case by (simp add: tb_used_def admitted_def requests_def)
next
  case (Cons a as)
  obtain c t where a: "a = (c, t)" by fastforce
  let ?x = "tb_spec L capacity rate t (st c)"
  let ?st = "st(c := Some (snd ?x, t))"
  have upd: "(\<lambda>b'. map_option snd (?st b')) = (\<lambda>b. map_option snd (st b))(c := Some t)"
    by (rule ext) simp
  have gaps: "gaps_ok 3600000 (\<lambda>b. map_option snd (?st b)) as" and gap: "case st c of None \<Rightarrow> True | Some (tk, s) \<Rightarrow> t - s < 3600000"
    using Cons.prems(3) a upd by (auto split: option.splits)
  have later: "\<forall>a \<in> set as. t \<le> snd a" and T: "t \<le> T" "\<forall>a \<in> set as. snd a \<le> T" "sorted (map snd as)" "since \<le> t"
    using Cons.prems a by auto
  show ?case
  proof (cases "c = b")
    case False
    then have "case ?st b of None \<Rightarrow> level = of_int capacity
      | Some (tk, s) \<Rightarrow> tk = level \<and> s = since \<and> 0 \<le> tk \<and> tk \<le> of_int capacity" using Cons.prems(4) by simp
    then have "tb_used b as (tb_run L capacity rate ?st as)
        \<le> level + rate * of_int (T - since) / 1000 + requests b as * (e * rate + 4 * e)"
      by (rule Cons.IH [OF T(3,2) gaps _ _ Cons.prems(6,7)]) (use Cons.prems(5) in simp)
    with False a show ?thesis by (simp add: Let_def tb_used_Cons requests_def)
  next
    case True
    have nonneg: "st b = Some (tk, s) \<Longrightarrow> 0 \<le> tk" for tk s using Cons.prems(4) by simp
    note av = available_bounds [OF r(4) cap(1) nonneg, where now = t]
    have B: "of_int capacity \<le> B"
    proof -
      have "0 \<le> (3600 + e) * (rate + 1)" using r(2,4) by simp
      with r(2,3) show ?thesis by linarith
    qed
    have "capacity \<le> 2 ^ 53" using cap(2) by simp
    have "used (fst ?x) + snd ?x \<le> available L capacity rate t (st b) + 2 * e"
      using tb_spec_potential [OF r(1,2) B \<open>capacity \<le> 2 ^ 53\<close> cap(1) av] True by simp
    also have "available L capacity rate t (st b) \<le> level + rate * of_int (t - since) / 1000 + (e * rate + 2 * e)"
      by (rule available_le [OF r]) (use Cons.prems(4) gap T(4) True in \<open>auto split: option.splits\<close>)
    finally have step: "used (fst ?x) + snd ?x \<le> level + rate * of_int (t - since) / 1000 + (e * rate + 4 * e)" by simp
    have b: "0 \<le> snd ?x" "snd ?x \<le> of_int capacity"
      using tb_spec_bounds [OF r(4) cap, of "st b" t] nonneg True by auto
    have "tb_used b as (tb_run L capacity rate ?st as)
        \<le> snd ?x + rate * of_int (T - t) / 1000 + requests b as * (e * rate + 4 * e)"
      by (rule Cons.IH [OF T(3,2) gaps _ later T(1) b(1)]) (use True b in simp)
    moreover have "rate * of_int (t - since) / 1000 + rate * of_int (T - t) / 1000 = rate * of_int (T - since) / 1000"
      by (simp add: algebra_simps add_divide_distrib [symmetric])
    moreover have "requests b (a # as) = 1 + requests b as" using True a by (simp add: requests_def)
    ultimately show ?thesis
      using step True a by (simp add: Let_def tb_used_Cons distrib_right)
  qed
qed

end


definition sample_tb :: token_bucket_limiter where
  "sample_tb = \<lparr>tbl_rule = ''rl_tb'', tbl_capacity = 2, tbl_refill_rate = 1\<rparr>"

definition sample_tb_arrivals :: "(bucket_key \<times> int) list" where
  "sample_tb_arrivals =
     (let b = [(''actor'', ''act_1'')]; c = [(''actor'', ''act_2'')]
      in [(b, 1000), (b, 1000), (b, 1250), (c, 1300), (b, 2000), (b, 2500)])"

lemma tb_run_step:
  "tb_run L capacity rate st ((b, t) # as) =
     (case tb_spec L capacity rate t (st b) of (d, tk) \<Rightarrow> d # tb_run L capacity rate (st(b := Some (tk, t))) as)"
  by (simp add: Let_def case_prod_unfold)

lemma fixed_point_fl: "fl fixed_point x = grid (2 ^ 20) x"
  by (simp add: fixed_point_def)

lemma fixed_point_rounds: "rounds_within fixed_point B (1 / 2 ^ 21)"
proof -
  have grid_le: "grid d x \<le> x + 1 / 2 ^ 21" if "2 ^ 20 \<le> d" for d x
  proof -
    have "grid d x - x \<le> 1 / (2 * of_int d)" using grid_error [of d x] that by simp
    also have "1 / (2 * of_int d) \<le> (1 / 2 ^ 21 :: rat)"
    proof (rule divide_left_mono)
      have "(of_int (2 ^ 20) :: rat) \<le> of_int d" using that by (simp only: of_int_le_iff)
      then show "(2 ^ 21 :: rat) \<le> 2 * of_int d" by simp
    qed (use that in simp_all)
    finally show ?thesis by linarith
  qed
  from grid_le [of "2 ^ 20"] grid_le [of "10 ^ 9"] show ?thesis
    by (simp add: rounds_within_def fixed_point_reread fixed_point_fl del: power_one_right)
qed

lemma grid_exact: "0 < d \<Longrightarrow> of_int \<lfloor>x * of_int d\<rfloor> = x * of_int d \<Longrightarrow> grid d x = x"
proof -
  assume d: "0 < d" and x: "of_int \<lfloor>x * of_int d\<rfloor> = x * of_int d"
  have "round (x * of_int d) = \<lfloor>x * of_int d\<rfloor>" by (subst x [symmetric]) (rule round_of_int)
  then have "grid d x = (x * of_int d) / of_int d" by (simp add: grid_def x)
  with d show ?thesis by simp
qed

lemma sample_tb_refilled:
  "refilled fixed_point 2 1 1000 1 1000 = 1" "refilled fixed_point 2 1 1250 0 1000 = 1 / 4"
  "refilled fixed_point 2 1 2000 (1 / 4) 1250 = 1" "refilled fixed_point 2 1 2500 0 2000 = 1 / 2"
  "token_wait fixed_point 1 (1 / 4) = 750" "token_wait fixed_point 1 (1 / 2) = 500"
  by (simp_all add: refilled_def token_wait_def fixed_point_fl grid_exact Let_def)

lemma sample_tb_steps:
  "tb_spec fixed_point 2 1 t None = (allow 1, 1)"
  "tb_spec fixed_point 2 1 1000 (Some (1, 1000)) = (allow 0, 0)"
  "tb_spec fixed_point 2 1 1250 (Some (0, 1000)) = (reject 750, 1 / 4)"
  "tb_spec fixed_point 2 1 2000 (Some (1 / 4, 1250)) = (allow 0, 0)"
  "tb_spec fixed_point 2 1 2500 (Some (0, 2000)) = (reject 500, 1 / 2)"
  by (simp_all add: tb_spec_def available_def sample_tb_refilled fixed_point_reread fixed_point_fl grid_exact Let_def)


subsection \<open>Peek, and idle buckets\<close>

context redis_lua
begin

lemma tokenBucket_Peek_predicts:
  assumes "tb_content L (entry r srv (tb_key (tbl_rule l) b)) st e" "\<bar>now\<bar> \<le> 10 ^ 14"
    and "0 < tbl_capacity l" "tbl_capacity l \<le> 2 ^ 53"
  shows "tokenBucket_Peek L ops Reached l b now srv r = (fst (tokenBucket_Decide L ops Reached l b now srv r), r)"
proof -
  have "0 < Milliseconds tokenBucketIdleTTL" by (simp add: Milliseconds_def tokenBucketIdleTTL_def quot_def)
  from tokenBucket_scripts_agree [OF assms(1) this assms(2-4), of "tbl_refill_rate l"] show ?thesis
    by (simp add: tokenBucket_Peek_def tokenBucket_Decide_def run_script_def case_prod_unfold)
qed

text \<open>
  A bucket left alone for an hour is full again, however slowly it refills: the key of the bucket
  expires and the next request finds a new one.
\<close>

lemma tokenBucket_idle_refills:
  assumes c: "tb_content L (entry r srv (tb_key (tbl_rule l) b)) st e" "\<bar>now\<bar> \<le> 10 ^ 14" "\<bar>now'\<bar> \<le> 10 ^ 14"
    and cap: "0 < tbl_capacity l" "tbl_capacity l \<le> 2 ^ 53" and idle: "srv + 3600000 < srv'"
  shows "fst (tokenBucket_Decide L ops Reached l b now' srv' (snd (tokenBucket_Decide L ops Reached l b now srv r))) =
    Inr (allow (tbl_capacity l - 1), None)"
proof -
  let ?k = "tb_key (tbl_rule l) b" and ?ttl = "Milliseconds tokenBucketIdleTTL"
  have ttl: "0 < ?ttl" "?ttl = 3600000" by (simp_all add: Milliseconds_def tokenBucketIdleTTL_def quot_def)
  obtain rep r' where s: "tokenBucketScript L ops ?k (tbl_capacity l) (tbl_refill_rate l) now ?ttl r srv = (Inr rep, r')"
    and c': "tb_content L (entry r' srv ?k) (Some (snd (tb_spec L (tbl_capacity l) (tbl_refill_rate l) now st), now)) (srv + ?ttl)"
    using tokenBucketScript_spec [OF c(1) ttl(1) c(2)] by blast
  from c' obtain h where "entry r' srv ?k = Some (RHash h, Some (srv + ?ttl))" by (auto simp: tb_content_def)
  then have "entry r' srv' ?k = None" by (rule entry_dead) (use idle ttl in simp)
  then have "tb_content L (entry r' srv' ?k) None 0" by (simp add: tb_content_def)
  from tokenBucketScript_spec [OF this ttl(1) c(3), of "tbl_capacity l" "tbl_refill_rate l"]
  obtain rep' r'' where s': "tokenBucketScript L ops ?k (tbl_capacity l) (tbl_refill_rate l) now' ?ttl r' srv' = (Inr rep', r'')"
    "finish_decision (Inr rep') = (fst (tb_spec L (tbl_capacity l) (tbl_refill_rate l) now' None), None)" by blast
  have "fl L (of_int (tbl_capacity l - 1)) = of_int (tbl_capacity l - 1)" using cap by (intro fl_int) simp
  then have "fst (tb_spec L (tbl_capacity l) (tbl_refill_rate l) now' None) = allow (tbl_capacity l - 1)"
    using cap by (simp add: tb_spec_def available_def)
  with s s' show ?thesis by (simp add: tokenBucket_Decide_def run_script_def)
qed

end

end
