(* ===== verification/Backoff_Config.thy ===== *)
theory Backoff_Config
  imports Rate_Schema Go_Float
begin

text \<open>
  The configuration of a connector's reaction to 429 responses
  (\<^verbatim>\<open>internal/schema/resources/connectors/rate_limiting.go\<close>): its fields, validation and
  the getters that supply the defaults. Durations are nanoseconds; a nil pointer is \<^term>\<open>None\<close>.
  The lemmas show which configurations validation accepts and that a getter of a validated
  configuration returns a positive duration.
\<close>

record exponential_backoff =
  InitialInterval :: "int option"
  Multiplier :: "float64 option"
  MaxInterval :: "int option"
  JitterFraction :: "float64 option"

record rate_limiting =
  Disabled :: bool
  RetryAfterHeaders :: "string list"
  MaxRetryAfter :: "int option"
  DefaultRetryAfter :: "int option"
  ExponentialBackoff :: "exponential_backoff option"

definition DefaultMaxRetryAfter :: int where "DefaultMaxRetryAfter = 15 * 60 * 1000000000"
definition DefaultDefaultRetryAfter :: int where "DefaultDefaultRetryAfter = 60 * 1000000000"
definition DefaultBackoffInitial :: int where "DefaultBackoffInitial = 1 * 1000000000"
definition DefaultBackoffMultiplier :: float64 where "DefaultBackoffMultiplier = Fin 2"
definition DefaultBackoffMaxInterval :: int where "DefaultBackoffMaxInterval = 5 * 60 * 1000000000"
definition DefaultBackoffJitterFraction :: float64 where "DefaultBackoffJitterFraction = to_f64 (1 / 10)"

subsection \<open>Comparisons\<close>

text \<open>A comparison with a value that is not a number is false.\<close>

fun f_le :: "float64 \<Rightarrow> float64 \<Rightarrow> bool" where
  "f_le NaN _ = False"
| "f_le _ NaN = False"
| "f_le (Fin x) (Fin y) = (x \<le> y)"
| "f_le NInf _ = True"
| "f_le _ PInf = True"
| "f_le _ _ = False"

fun f_lt :: "float64 \<Rightarrow> float64 \<Rightarrow> bool" where
  "f_lt NaN _ = False"
| "f_lt _ NaN = False"
| "f_lt (Fin x) (Fin y) = (x < y)"
| "f_lt NInf NInf = False"
| "f_lt NInf _ = True"
| "f_lt PInf _ = False"
| "f_lt _ PInf = True"
| "f_lt _ NInf = False"

subsection \<open>Validation\<close>

definition not_positive :: "int option \<Rightarrow> bool" where
  "not_positive d = (case d of None \<Rightarrow> False | Some d \<Rightarrow> d \<le> 0)"

definition ExponentialBackoff_Validate :: "exponential_backoff option \<Rightarrow> string \<Rightarrow> err" where
  "ExponentialBackoff_Validate eb vc =
     (case eb of None \<Rightarrow> None
      | Some eb \<Rightarrow> ErrorOrNil
          ((if not_positive (InitialInterval eb) then [NewError (PushField vc ''initial_interval'') ''must be positive''] else [])
           @ (case Multiplier eb of None \<Rightarrow> []
              | Some m \<Rightarrow> if f_le m (Fin 0) then [NewError (PushField vc ''multiplier'') ''must be positive''] else [])
           @ (if not_positive (MaxInterval eb) then [NewError (PushField vc ''max_interval'') ''must be positive''] else [])
           @ (case JitterFraction eb of None \<Rightarrow> []
              | Some j \<Rightarrow> if f_lt j (Fin 0) \<or> f_lt (Fin 1) j
                          then [NewError (PushField vc ''jitter_fraction'') ''must be between 0.0 and 1.0''] else [])))"

definition RateLimiting_Validate :: "rate_limiting option \<Rightarrow> string \<Rightarrow> err" where
  "RateLimiting_Validate r vc =
     (case r of None \<Rightarrow> None
      | Some r \<Rightarrow> ErrorOrNil
          (append_if
            ((if not_positive (MaxRetryAfter r) then [NewError (PushField vc ''max_retry_after'') ''must be positive''] else [])
             @ (if not_positive (DefaultRetryAfter r) then [NewError (PushField vc ''default_retry_after'') ''must be positive''] else []))
            (ExponentialBackoff_Validate (ExponentialBackoff r) (PushField vc ''exponential_backoff''))))"

subsection \<open>Getters\<close>

definition GetRetryAfterHeaders :: "rate_limiting option \<Rightarrow> string list" where
  "GetRetryAfterHeaders r =
     (case r of None \<Rightarrow> [''Retry-After'']
      | Some r \<Rightarrow> if length (RetryAfterHeaders r) = 0 then [''Retry-After''] else RetryAfterHeaders r)"

definition GetMaxRetryAfter :: "rate_limiting option \<Rightarrow> int" where
  "GetMaxRetryAfter r =
     (case r of None \<Rightarrow> DefaultMaxRetryAfter
      | Some r \<Rightarrow> (case MaxRetryAfter r of None \<Rightarrow> DefaultMaxRetryAfter | Some d \<Rightarrow> d))"

definition GetDefaultRetryAfter :: "rate_limiting option \<Rightarrow> int" where
  "GetDefaultRetryAfter r =
     (case r of None \<Rightarrow> DefaultDefaultRetryAfter
      | Some r \<Rightarrow> (case DefaultRetryAfter r of None \<Rightarrow> DefaultDefaultRetryAfter | Some d \<Rightarrow> d))"

definition GetInitialInterval :: "exponential_backoff option \<Rightarrow> int" where
  "GetInitialInterval eb =
     (case eb of None \<Rightarrow> DefaultBackoffInitial
      | Some eb \<Rightarrow> (case InitialInterval eb of None \<Rightarrow> DefaultBackoffInitial | Some d \<Rightarrow> d))"

definition GetMultiplier :: "exponential_backoff option \<Rightarrow> float64" where
  "GetMultiplier eb =
     (case eb of None \<Rightarrow> DefaultBackoffMultiplier
      | Some eb \<Rightarrow> (case Multiplier eb of None \<Rightarrow> DefaultBackoffMultiplier | Some m \<Rightarrow> m))"

definition GetMaxInterval :: "exponential_backoff option \<Rightarrow> int" where
  "GetMaxInterval eb =
     (case eb of None \<Rightarrow> DefaultBackoffMaxInterval
      | Some eb \<Rightarrow> (case MaxInterval eb of None \<Rightarrow> DefaultBackoffMaxInterval | Some d \<Rightarrow> d))"

definition GetJitterFraction :: "exponential_backoff option \<Rightarrow> float64" where
  "GetJitterFraction eb =
     (case eb of None \<Rightarrow> DefaultBackoffJitterFraction
      | Some eb \<Rightarrow> (case JitterFraction eb of None \<Rightarrow> DefaultBackoffJitterFraction | Some j \<Rightarrow> j))"

subsection \<open>What validation accepts\<close>

lemma not_positive_iff: "\<not> not_positive d \<longleftrightarrow> (\<forall>x. d = Some x \<longrightarrow> 0 < x)"
  by (auto simp: not_positive_def split: option.splits)

lemma ExponentialBackoff_Validate_None:
  "ExponentialBackoff_Validate eb vc = None \<longleftrightarrow>
   (\<forall>e. eb = Some e \<longrightarrow>
      \<not> not_positive (InitialInterval e) \<and> \<not> not_positive (MaxInterval e)
      \<and> (\<forall>m. Multiplier e = Some m \<longrightarrow> \<not> f_le m (Fin 0))
      \<and> (\<forall>j. JitterFraction e = Some j \<longrightarrow> \<not> f_lt j (Fin 0) \<and> \<not> f_lt (Fin 1) j))"
  by (cases eb) (auto simp: ExponentialBackoff_Validate_def split: option.split)

lemma ExponentialBackoff_Validate_multi [simp]: "multi_or_nil (ExponentialBackoff_Validate eb vc)"
  by (cases eb) (simp_all add: ExponentialBackoff_Validate_def)

lemma RateLimiting_Validate_None:
  "RateLimiting_Validate r vc = None \<longleftrightarrow>
   (\<forall>c. r = Some c \<longrightarrow>
      \<not> not_positive (MaxRetryAfter c) \<and> \<not> not_positive (DefaultRetryAfter c)
      \<and> ExponentialBackoff_Validate (ExponentialBackoff c) (PushField vc ''exponential_backoff'') = None)"
  by (cases r) (simp_all add: RateLimiting_Validate_def append_if_Nil)

lemma valid_durations:
  assumes "RateLimiting_Validate r vc = None"
  shows "0 < GetMaxRetryAfter r" "0 < GetDefaultRetryAfter r"
    "r = Some c \<Longrightarrow> 0 < GetInitialInterval (ExponentialBackoff c)" "r = Some c \<Longrightarrow> 0 < GetMaxInterval (ExponentialBackoff c)"
  using assms
  by (auto simp: RateLimiting_Validate_None ExponentialBackoff_Validate_None not_positive_iff GetMaxRetryAfter_def
      GetDefaultRetryAfter_def GetInitialInterval_def GetMaxInterval_def DefaultMaxRetryAfter_def
      DefaultDefaultRetryAfter_def DefaultBackoffInitial_def DefaultBackoffMaxInterval_def split: option.split)

end
