(* ===== verification/Http_Client.thy ===== *)
theory Http_Client
  imports Backoff_Config Labels
begin

text \<open>
  The HTTP client factory (\<^verbatim>\<open>internal/httpf/factory.go\<close>, \<^verbatim>\<open>request_info.go\<close>) and what its
  middlewares share: requests and responses, header access with canonical keys as in
  \<^verbatim>\<open>net/http\<close>, and the attribution the middlewares stamp on a request
  (\<^verbatim>\<open>internal/app_metrics/attribution.go\<close>). A round tripper is a function of the request and the
  world, which holds the state of Redis, the attribution carried by the request's context and the
  upstream service. The lemmas describe the labels of a request after the factory's chain of calls.
\<close>

subsection \<open>Headers\<close>

type_synonym http_header = "(string \<times> string list) list"

definition is_upper :: "char \<Rightarrow> bool" where "is_upper c \<longleftrightarrow> CHR ''A'' \<le> c \<and> c \<le> CHR ''Z''"
definition is_lower :: "char \<Rightarrow> bool" where "is_lower c \<longleftrightarrow> CHR ''a'' \<le> c \<and> c \<le> CHR ''z''"

definition to_upper :: "char \<Rightarrow> char" where
  "to_upper c = (if is_lower c then char_of (of_char c - 32 :: nat) else c)"

definition to_lower :: "char \<Rightarrow> char" where
  "to_lower c = (if is_upper c then char_of (of_char c + 32 :: nat) else c)"

definition validHeaderFieldByte :: "char \<Rightarrow> bool" where
  "validHeaderFieldByte c \<longleftrightarrow>
     is_upper c \<or> is_lower c \<or> CHR ''0'' \<le> c \<and> c \<le> CHR ''9'' \<or> c \<in> set ''!#$%&*+-.^_|~'' \<or> c = CHR 0x27 \<or> c = CHR 0x60"

fun canonical :: "bool \<Rightarrow> string \<Rightarrow> string" where
  "canonical upper [] = []"
| "canonical upper (c # cs) = (if upper then to_upper c else to_lower c) # canonical (c = CHR ''-'') cs"

definition CanonicalHeaderKey :: "string \<Rightarrow> string" where
  "CanonicalHeaderKey s = (if list_all validHeaderFieldByte s then canonical True s else s)"

definition Header_Get :: "http_header \<Rightarrow> string \<Rightarrow> string" where
  "Header_Get h key = (case map_of h (CanonicalHeaderKey key) of Some (v # _) \<Rightarrow> v | _ \<Rightarrow> [])"

definition Header_Values :: "http_header \<Rightarrow> string \<Rightarrow> string list" where
  "Header_Values h key = (case map_of h (CanonicalHeaderKey key) of Some vs \<Rightarrow> vs | None \<Rightarrow> [])"

definition Header_Set :: "http_header \<Rightarrow> string \<Rightarrow> string \<Rightarrow> http_header" where
  "Header_Set h key v = AList.update (CanonicalHeaderKey key) [v] h"

subsection \<open>Requests, responses and round trippers\<close>

record http_request =
  rq_method :: string
  rq_url_path :: "string option"
  rq_header :: http_header
  rq_query :: smap

record http_response =
  StatusCode :: int
  Header :: http_header
  Body :: string

record rate_limit_match =
  rlm_id :: string
  rlm_mode :: string
  rlm_bucket :: smap

record attribution =
  at_source :: string
  at_rate_limit_id :: string
  at_rate_limit_mode :: string
  at_rate_limit_bucket :: smap
  at_rate_limit_matched :: "rate_limit_match list"

definition ResponseSourceUpstream :: string where "ResponseSourceUpstream = ''upstream''"
definition ResponseSourceConnectorRateLimiter :: string where "ResponseSourceConnectorRateLimiter = ''connector_rate_limiter''"
definition ResponseSourceRateLimit :: string where "ResponseSourceRateLimit = ''rate_limit''"

record ('r, 'u) world =
  w_redis :: 'r
  w_attr :: "attribution option"
  w_upstream :: 'u

type_synonym ('r, 'u) transport =
  "http_request \<Rightarrow> ('r, 'u) world \<Rightarrow> (gerror + http_response) may_panic \<times> ('r, 'u) world"

definition StatusTooManyRequests :: int where "StatusTooManyRequests = 429"

subsection \<open>Request information\<close>

record request_info =
  ri_namespace :: string
  ri_type :: string
  ri_connector_id :: string
  ri_connector_version :: nat
  ri_connection_id :: string
  ri_labels :: smap
  ri_rate_limiting :: "rate_limiting option"
  ri_propagate_trace :: "bool option"

text \<open>
  A connection as the factory sees it. The last two fields are \<^term>\<open>None\<close> when the connection does
  not implement the optional interface.
\<close>

record client_connection =
  cc_id :: string
  cc_namespace :: string
  cc_connector_id :: string
  cc_connector_version :: nat
  cc_labels :: smap
  cc_rate_limit_config :: "rate_limiting option option"
  cc_propagate_trace :: "bool option option"

record client_actor =
  ca_id :: string
  ca_name :: string
  ca_namespace :: string
  ca_labels :: smap

definition ForRequestType :: "string \<Rightarrow> request_info \<Rightarrow> request_info" where
  "ForRequestType rt ri = ri\<lparr>ri_type := rt\<rparr>"

definition ForConnectorVersion :: "string \<Rightarrow> string \<Rightarrow> nat \<Rightarrow> request_info \<Rightarrow> request_info" where
  "ForConnectorVersion namespace connectorId version ri =
     ri\<lparr>ri_namespace := namespace, ri_connector_id := connectorId, ri_connector_version := version\<rparr>"

text \<open>
  \<^verbatim>\<open>ForConnection\<close> also derives a factory for the connector's version, whose request information
  the last step replaces.
\<close>

definition ForConnection :: "client_connection \<Rightarrow> request_info \<Rightarrow> request_info" where
  "ForConnection c ri0 =
     (let ri1 = ri0\<lparr>ri_connection_id := cc_id c, ri_namespace := cc_namespace c,
                    ri_connector_id := cc_connector_id c, ri_connector_version := cc_connector_version c\<rparr>;
          ri2 = (if length (cc_labels c) > 0 then ri1\<lparr>ri_labels := put_all (cc_labels c) []\<rparr> else ri1);
          ri3 = (case cc_rate_limit_config c of None \<Rightarrow> ri2 | Some cfg \<Rightarrow> ri2\<lparr>ri_rate_limiting := cfg\<rparr>)
      in case cc_propagate_trace c of None \<Rightarrow> ri3 | Some p \<Rightarrow> ri3\<lparr>ri_propagate_trace := p\<rparr>)"

definition actorContribution :: "client_actor \<Rightarrow> smap" where
  "actorContribution actor =
     put_all (BuildImplicitResourceLabels (ca_id actor) (ca_name actor) (ca_namespace actor))
       (fold (\<lambda>(k, v) out. if HasPrefix k ApxyReservedPrefix then out
              else AList.update (ApxyReservedPrefix @ ApidPrefixToLabelToken ''act_'' @ ''/'' @ k) v out)
          (ca_labels actor) [])"

definition ForActor :: "client_actor option \<Rightarrow> request_info \<Rightarrow> request_info" where
  "ForActor actor ri =
     (case actor of None \<Rightarrow> ri
      | Some a \<Rightarrow>
          if ca_id a = [] then ri
          else if length (actorContribution a) = 0 then ri
          else ri\<lparr>ri_labels := put_all (actorContribution a) (put_all (ri_labels ri) [])\<rparr>)"

definition ForLabels :: "smap \<Rightarrow> request_info \<Rightarrow> request_info" where
  "ForLabels labels ri =
     (if length labels = 0 then ri
      else ri\<lparr>ri_labels :=
        fold (\<lambda>(k, v) out. if HasPrefix k ApxyReservedPrefix then out else AList.update k v out)
          labels (put_all (ri_labels ri) [])\<rparr>)"

text \<open>
  The middlewares wrap the default transport in their order, so the last one sees the request
  first; a factory that returns no round tripper is skipped.
\<close>

definition buildWrappedTransport ::
  "(request_info \<Rightarrow> ('r, 'u) transport \<Rightarrow> ('r, 'u) transport option) list \<Rightarrow> request_info \<Rightarrow>
   ('r, 'u) transport \<Rightarrow> ('r, 'u) transport" where
  "buildWrappedTransport middlewares ri base =
     fold (\<lambda>m parent. case m ri parent of None \<Rightarrow> parent | Some rt \<Rightarrow> rt) middlewares base"

subsection \<open>The labels of a request\<close>

lemma update_unless_apxy:
  "map_of (fold (\<lambda>(k, v) out. if HasPrefix k ApxyReservedPrefix then out else AList.update k v out) kvs m) x =
   (if HasPrefix x ApxyReservedPrefix then map_of m x else (map_of m ++ map_of (rev kvs)) x)"
  by (induction kvs arbitrary: m) (auto simp: update_conv' map_add_def split: option.splits)

lemma map_of_ForLabels:
  assumes "wf_map labels" "wf_map (ri_labels ri)"
  shows "map_of (ri_labels (ForLabels labels ri)) k =
    (if HasPrefix k ApxyReservedPrefix then map_of (ri_labels ri) k
     else case map_of labels k of Some v \<Rightarrow> Some v | None \<Rightarrow> map_of (ri_labels ri) k)"
proof (cases "labels = []")
  case False
  have "map_of (put_all (ri_labels ri) []) = map_of (ri_labels ri)" using assms(2) by (simp add: map_of_put_all)
  with False assms(1) show ?thesis
    by (simp add: ForLabels_def update_unless_apxy map_of_rev_wf map_add_def)
qed (simp add: ForLabels_def)

definition act_label :: "string \<Rightarrow> string" where
  "act_label k = ApxyReservedPrefix @ ''act/'' @ k"

lemma actor_labels_apxy:
  "k \<in> fst ` set (fold (\<lambda>(k, v) out. if HasPrefix k ApxyReservedPrefix then out
              else AList.update (ApxyReservedPrefix @ ApidPrefixToLabelToken ''act_'' @ ''/'' @ k) v out) kvs m) \<Longrightarrow>
   HasPrefix k ApxyReservedPrefix \<or> k \<in> fst ` set m"
proof (induction kvs arbitrary: m)
  case (Cons x kvs)
  from Cons.IH [of "if HasPrefix (fst x) ApxyReservedPrefix then m
      else AList.update (ApxyReservedPrefix @ ApidPrefixToLabelToken ''act_'' @ ''/'' @ fst x) (snd x) m"] Cons.prems
  show ?case by (cases x) (auto simp: dom_update split: if_splits)
qed simp

lemma implicit_actor_labels:
  assumes "HasPrefix i ''act_''"
  shows "BuildImplicitResourceLabels i name ns =
    [(act_label ''-/id'', i), (act_label ''-/name'', if name = [] then i else name), (act_label ''-/ns'', ns)]"
proof -
  obtain s where i: "i = ''act_'' @ s" using assms by (auto elim: HasPrefixE)
  have "Index i ''_'' = Some 3" unfolding i by (simp add: HasPrefix_iff)
  moreover have "TrimSuffix ''act_'' ''_'' = ''act''" by code_simp
  ultimately show ?thesis using i
    by (simp add: BuildImplicitResourceLabels_def BuildImplicitResourceLabelsForToken_def ID_Prefix_def act_label_def
        ApxyImplicitSegment_def ApidPrefixToLabelToken_def)
qed

lemma actorContribution_id:
  "HasPrefix (ca_id a) ''act_'' \<Longrightarrow> map_of (actorContribution a) (act_label ''-/id'') = Some (ca_id a)"
  by (simp add: actorContribution_def implicit_actor_labels map_of_put_all_rev act_label_def)

lemma actorContribution_apxy:
  assumes "HasPrefix (ca_id a) ''act_''" "k \<in> fst ` set (actorContribution a)"
  shows "HasPrefix k ApxyReservedPrefix"
proof -
  let ?m = "fold (\<lambda>(k, v) out. if HasPrefix k ApxyReservedPrefix then out
              else AList.update (ApxyReservedPrefix @ ApidPrefixToLabelToken ''act_'' @ ''/'' @ k) v out) (ca_labels a) []"
  have act: "HasPrefix (act_label x) ApxyReservedPrefix" for x by (simp add: act_label_def)
  have "k \<in> fst ` set ?m \<or> k \<in> {act_label ''-/id'', act_label ''-/name'', act_label ''-/ns''}"
    using assms(2) unfolding actorContribution_def put_all_def implicit_actor_labels [OF assms(1)]
    by (simp add: dom_update) blast
  then show ?thesis
  proof
    assume "k \<in> fst ` set ?m"
    from actor_labels_apxy [OF this] show ?thesis by simp
  qed (use act in auto)
qed

lemma wf_fold_update: "wf_map m \<Longrightarrow> wf_map (fold (\<lambda>(k, v) out. if P k then out else AList.update (f k) v out) kvs m)"
proof (induction kvs arbitrary: m)
  case (Cons x kvs)
  then show ?case by (cases x) (simp add: wf_map_def distinct_update)
qed simp

lemma wf_actorContribution: "wf_map (actorContribution a)"
  unfolding actorContribution_def by (intro wf_put_all wf_fold_update) simp

lemma wf_ForActor: "wf_map (ri_labels ri) \<Longrightarrow> wf_map (ri_labels (ForActor actor ri))"
  by (auto simp: ForActor_def wf_put_all split: option.split)

lemma map_of_ForActor:
  assumes "HasPrefix (ca_id a) ''act_''" "wf_map (ri_labels ri)"
  shows "map_of (ri_labels (ForActor (Some a) ri)) k =
    (case map_of (actorContribution a) k of Some v \<Rightarrow> Some v | None \<Rightarrow> map_of (ri_labels ri) k)"
proof -
  have "ca_id a \<noteq> []" "actorContribution a \<noteq> []"
    using assms(1) actorContribution_id [OF assms(1)] by (auto simp: HasPrefix_iff)
  then show ?thesis
    using assms(2) by (simp add: ForActor_def map_of_put_all wf_actorContribution map_add_def)
qed

lemma ForConnection_labels:
  "ri_labels (ForConnection c ri) = (if cc_labels c = [] then ri_labels ri else put_all (cc_labels c) [])"
  by (simp add: ForConnection_def Let_def split: option.split)

end
