(* ===== verification/Reactive_Limit.thy ===== *)
theory Reactive_Limit
  imports Http_Client Limiter Fixed_Window Label_Selector
begin

text \<open>
  The reactive limiter (\<^verbatim>\<open>internal/ratelimit/roundtripper.go\<close>, \<^verbatim>\<open>store.go\<close>, \<^verbatim>\<open>retry_after.go\<close>): a
  connection whose upstream answered 429 is blocked for the time the response asks for, or for a
  backoff. Every call to Redis has its own network outcome and server time, given by \<open>env\<close>; the
  conversion of an out-of-range float, the random number of the jitter and the parsing of dates,
  which depends on the zone database, are parameters. The lemmas bound the block, show that a
  blocked connection does not reach the upstream service and is released when the block ends, and
  that the exponential backoff overflows.
\<close>

subsection \<open>Powers, as \<^verbatim>\<open>math.Pow\<close> computes them\<close>

definition frexp :: "rat \<Rightarrow> rat \<times> int" where
  "frexp x = (if x = 0 then (0, 0) else (x / 2 powi (fexp 2 x + 1), fexp 2 x + 1))"

fun pow_loop :: "nat \<Rightarrow> rat \<Rightarrow> int \<Rightarrow> rat \<Rightarrow> int \<Rightarrow> rat \<times> int" where
  "pow_loop i x1 xe a1 ae =
     (if i = 0 then (a1, ae)
      else if xe < - 4096 \<or> 4096 < xe then (a1, ae + xe)
      else
        let a1' = (if odd i then f64 (a1 * x1) else a1);
            ae' = (if odd i then ae + xe else ae);
            y = f64 (x1 * x1)
        in if y < 1 / 2 then pow_loop (i div 2) (f64 (y + y)) (2 * xe - 1) a1' ae'
           else pow_loop (i div 2) y (2 * xe) a1' ae')"

declare pow_loop.simps [simp del]

text \<open>The second argument is a whole number, as the code passes a converted integer.\<close>

definition Pow :: "float64 \<Rightarrow> int \<Rightarrow> float64" where
  "Pow x n =
     (if n = 0 \<or> x = Fin 1 then Fin 1
      else if n = 1 then x
      else case x of
        NaN \<Rightarrow> NaN
      | PInf \<Rightarrow> if n < 0 then Fin 0 else PInf
      | NInf \<Rightarrow> if n < 0 then Fin 0 else if odd n then NInf else PInf
      | Fin r \<Rightarrow>
          if r = 0 then (if n < 0 then PInf else Fin 0)
          else if 2 ^ 63 \<le> \<bar>n\<bar> then
            (if r = - 1 then Fin 1 else if (\<bar>r\<bar> < 1) = (0 < n) then Fin 0 else PInf)
          else (case frexp r of (x1, xe) \<Rightarrow>
            (case pow_loop (nat \<bar>n\<bar>) x1 xe 1 0 of (a1, ae) \<Rightarrow>
               if n < 0 then to_f64 (f64 (1 / a1) * 2 powi (- ae)) else to_f64 (a1 * 2 powi ae))))"

subsection \<open>The store\<close>

definition blockedKeyPrefix :: string where "blockedKeyPrefix = ''ratelimit:blocked:''"
definition consecutive429KeyPrefix :: string where "consecutive429KeyPrefix = ''ratelimit:429count:''"
definition consecutiveCountTTL :: int where "consecutiveCountTTL = 60 * 60 * 1000000000"

definition blockedKey :: "string \<Rightarrow> string" where
  "blockedKey connectionID = blockedKeyPrefix @ connectionID"

definition consecutive429Key :: "string \<Rightarrow> string" where
  "consecutive429Key connectionID = consecutive429KeyPrefix @ connectionID"

text \<open>One command sent to Redis.\<close>

definition on_net :: "net \<Rightarrow> ('r \<Rightarrow> (gerror + 'a) \<times> 'r) \<Rightarrow> 'r \<Rightarrow> (gerror + 'a) \<times> 'r" where
  "on_net net f r =
     (case net of
        Reached \<Rightarrow> f r
      | FailedBefore e \<Rightarrow> (Inl e, r)
      | FailedAfter e \<Rightarrow> (Inl e, snd (f r)))"

text \<open>The driver turns the seconds of a \<^verbatim>\<open>TTL\<close> reply into a duration, and keeps -1 and -2 as they are.\<close>

definition IsRateLimited :: "'r redis_ops \<Rightarrow> net \<Rightarrow> int \<Rightarrow> string \<Rightarrow> 'r \<Rightarrow> (gerror + int \<times> bool) \<times> 'r" where
  "IsRateLimited ops net t connectionID r =
     on_net net (\<lambda>r.
       let n = TTL ops r t (blockedKey connectionID);
           ttl = (if n < 0 then n else wrap64 (n * 1000000000))
       in (Inr (if ttl \<le> 0 then (0, False) else (ttl, True)), r)) r"

definition SetRateLimited :: "'r redis_ops \<Rightarrow> net \<Rightarrow> int \<Rightarrow> string \<Rightarrow> int \<Rightarrow> 'r \<Rightarrow> (gerror + unit) \<times> 'r" where
  "SetRateLimited ops net t connectionID duration r =
     on_net net (\<lambda>r. (Inr (), SETPX ops r t (blockedKey connectionID) ''1'' (Milliseconds duration))) r"

definition GetConsecutive429Count :: "'r redis_ops \<Rightarrow> net \<Rightarrow> int \<Rightarrow> string \<Rightarrow> 'r \<Rightarrow> (gerror + int) \<times> 'r" where
  "GetConsecutive429Count ops net t connectionID r =
     on_net net (\<lambda>r.
       (case GET ops r t (consecutive429Key connectionID) of
          Inl e \<Rightarrow> Inl e
        | Inr None \<Rightarrow> Inr 0
        | Inr (Some val) \<Rightarrow> ParseInt64 val, r)) r"

text \<open>The environment of the calls to Redis: the outcome and the server's time of each.\<close>

datatype store_call = CIsLimited | CGet | CIncr | CExpire | CSet | CDel

type_synonym store_env = "store_call \<Rightarrow> net \<times> int"

definition IncrementConsecutive429Count :: "'r redis_ops \<Rightarrow> store_env \<Rightarrow> string \<Rightarrow> 'r \<Rightarrow> (gerror + int) \<times> 'r" where
  "IncrementConsecutive429Count ops env connectionID r =
     (let key = consecutive429Key connectionID
      in case on_net (fst (env CIncr)) (\<lambda>r. INCR ops r (snd (env CIncr)) key) r of
           (Inl e, r1) \<Rightarrow> (Inl e, r1)
         | (Inr count, r1) \<Rightarrow>
             (Inr count,
              snd (on_net (fst (env CExpire))
                (\<lambda>r. (Inr () :: gerror + unit, PEXPIRE ops r (snd (env CExpire)) key (Milliseconds consecutiveCountTTL))) r1)))"

definition ClearConsecutive429Count :: "'r redis_ops \<Rightarrow> net \<Rightarrow> int \<Rightarrow> string \<Rightarrow> 'r \<Rightarrow> (gerror + unit) \<times> 'r" where
  "ClearConsecutive429Count ops net t connectionID r =
     on_net net (\<lambda>r. (Inr (), DEL ops r t (consecutive429Key connectionID))) r"

subsection \<open>Retry-After headers\<close>

text \<open>Times are nanoseconds; the difference of two times saturates at the range of a duration.\<close>

definition time_Sub :: "int \<Rightarrow> int \<Rightarrow> int" where
  "time_Sub t u = max (- (2 ^ 63)) (min (2 ^ 63 - 1) (t - u))"

record date_parsers =
  http_ParseTime :: "string \<Rightarrow> int option"
  time_Parse :: "string \<Rightarrow> string \<Rightarrow> int option"

definition parseAsSeconds :: "string \<Rightarrow> int option" where
  "parseAsSeconds value =
     (case ParseInt64 value of
        Inl _ \<Rightarrow> None
      | Inr seconds \<Rightarrow> if seconds < 0 then None else Some (wrap64 (seconds * 1000000000)))"

definition parseAsHTTPDate :: "date_parsers \<Rightarrow> string \<Rightarrow> int \<Rightarrow> int option" where
  "parseAsHTTPDate P value now =
     (case http_ParseTime P value of
        None \<Rightarrow> None
      | Some t \<Rightarrow> let d = time_Sub t now in Some (if d < 0 then 0 else d))"

definition iso8601Formats :: "string list" where
  "iso8601Formats =
     [''2006-01-02T15:04:05Z07:00'', ''2006-01-02T15:04:05Z'', ''2006-01-02T15:04:05-07:00'', ''2006-01-02T15:04:05'']"

fun first_format :: "date_parsers \<Rightarrow> string list \<Rightarrow> string \<Rightarrow> int \<Rightarrow> int option" where
  "first_format P [] value now = None"
| "first_format P (f # fs) value now =
     (case time_Parse P f value of
        None \<Rightarrow> first_format P fs value now
      | Some t \<Rightarrow> let d = time_Sub t now in Some (if d < 0 then 0 else d))"

definition parseAsISO8601 :: "date_parsers \<Rightarrow> string \<Rightarrow> int \<Rightarrow> int option" where
  "parseAsISO8601 P value now = first_format P iso8601Formats value now"

fun ParseRetryAfter :: "date_parsers \<Rightarrow> http_header \<Rightarrow> string list \<Rightarrow> int \<Rightarrow> int option" where
  "ParseRetryAfter P headers [] now = None"
| "ParseRetryAfter P headers (name # names) now =
     (let raw = Header_Get headers name; value = TrimSpace raw
      in if raw = [] then ParseRetryAfter P headers names now
         else case parseAsSeconds value of
           Some d \<Rightarrow> Some d
         | None \<Rightarrow>
             (case parseAsHTTPDate P value now of
                Some d \<Rightarrow> Some d
              | None \<Rightarrow>
                  (case parseAsISO8601 P value now of
                     Some d \<Rightarrow> Some d
                   | None \<Rightarrow> ParseRetryAfter P headers names now)))"

subsection \<open>Backoff\<close>

text \<open>
  What the reactive limiter takes from its surroundings: date parsing, the conversion of floats out
  of range, the random number of the jitter, the clock and the calls to Redis.
\<close>

record reactive_env =
  re_dates :: date_parsers
  re_convert :: "float64 \<Rightarrow> int"
  re_random :: float64
  re_now :: int
  re_store :: store_env

definition backoff_duration :: "(float64 \<Rightarrow> int) \<Rightarrow> float64 \<Rightarrow> exponential_backoff option \<Rightarrow> int \<Rightarrow> int" where
  "backoff_duration convert random eb count =
     (let initial = GetInitialInterval eb;
          multiplier = GetMultiplier eb;
          maxInterval = GetMaxInterval eb;
          backoff0 = f_mul (of_int64 initial) (Pow multiplier \<lfloor>f64 (of_int count)\<rfloor>);
          jitter = GetJitterFraction eb;
          backoff = (if f_lt (Fin 0) jitter then
                       let jitterRange = f_mul backoff0 jitter
                       in f_add (f_sub backoff0 jitterRange) (f_mul (f_mul random (Fin 2)) jitterRange)
                     else backoff0);
          d = to_int64 convert backoff
      in if d > maxInterval then maxInterval else d)"

definition computeBackoff :: "'r redis_ops \<Rightarrow> reactive_env \<Rightarrow> rate_limiting option \<Rightarrow> string \<Rightarrow> 'r \<Rightarrow> int \<times> 'r" where
  "computeBackoff ops env cfg connectionId r =
     (case cfg of
        None \<Rightarrow> (GetDefaultRetryAfter cfg, r)
      | Some c \<Rightarrow>
          (case ExponentialBackoff c of
             None \<Rightarrow> (GetDefaultRetryAfter cfg, r)
           | Some eb \<Rightarrow>
               (case GetConsecutive429Count ops (fst (re_store env CGet)) (snd (re_store env CGet)) connectionId r of
                  (Inl e, r1) \<Rightarrow> (GetDefaultRetryAfter cfg, r1)
                | (Inr count, r1) \<Rightarrow> (backoff_duration (re_convert env) (re_random env) (Some eb) count, r1))))"

definition clamp_retry :: "rate_limiting option \<Rightarrow> int \<Rightarrow> int" where
  "clamp_retry cfg retryAfter0 =
     (let maxRetryAfter = GetMaxRetryAfter cfg;
          retryAfter1 = (if retryAfter0 > maxRetryAfter then maxRetryAfter else retryAfter0)
      in if retryAfter1 < 1000000000 then 1000000000 else retryAfter1)"

definition handle429 ::
  "'r redis_ops \<Rightarrow> reactive_env \<Rightarrow> rate_limiting option \<Rightarrow> string \<Rightarrow> http_response \<Rightarrow> 'r \<Rightarrow> 'r" where
  "handle429 ops env cfg connectionId resp r0 =
     (let (retryAfter0, r1) =
            (case ParseRetryAfter (re_dates env) (Header resp) (GetRetryAfterHeaders cfg) (re_now env) of
               Some d \<Rightarrow> (d, r0)
             | None \<Rightarrow> computeBackoff ops env cfg connectionId r0);
          retryAfter = clamp_retry cfg retryAfter0;
          r2 = snd (IncrementConsecutive429Count ops (re_store env) connectionId r1)
      in snd (SetRateLimited ops (fst (re_store env CSet)) (snd (re_store env CSet)) connectionId retryAfter r2))"

subsection \<open>The round tripper\<close>

definition syntheticTooManyRequests :: "int \<Rightarrow> http_response" where
  "syntheticTooManyRequests retryAfter =
     (let retryAfterSeconds = ceil_seconds retryAfter
      in \<lparr>StatusCode = StatusTooManyRequests,
          Header = [(''Content-Type'', [''application/json'']),
                    (''Retry-After'', [FormatInt retryAfterSeconds]),
                    (''X-Authproxy-Ratelimited'', [''true''])],
          Body = ''{'' @ [CHR 0x22] @ ''error'' @ [CHR 0x22] @ '':'' @ [CHR 0x22] @ ''rate limited'' @ [CHR 0x22]
                 @ '','' @ [CHR 0x22] @ ''retryAfterSeconds'' @ [CHR 0x22] @ '':'' @ FormatInt retryAfterSeconds @ ''}''\<rparr>)"

definition stamp_source :: "string \<Rightarrow> ('r, 'u) world \<Rightarrow> ('r, 'u) world" where
  "stamp_source s w = w\<lparr>w_attr := map_option (\<lambda>a. a\<lparr>at_source := s\<rparr>) (w_attr w)\<rparr>"

definition after_response ::
  "'r redis_ops \<Rightarrow> reactive_env \<Rightarrow> rate_limiting option \<Rightarrow> string \<Rightarrow> http_response \<Rightarrow> ('r, 'u) world \<Rightarrow> ('r, 'u) world" where
  "after_response ops env cfg connectionId resp w =
     (if StatusCode resp = StatusTooManyRequests
      then w\<lparr>w_redis := handle429 ops env cfg connectionId resp (w_redis w)\<rparr>
      else w\<lparr>w_redis :=
        snd (ClearConsecutive429Count ops (fst (re_store env CDel)) (snd (re_store env CDel)) connectionId (w_redis w))\<rparr>)"

definition reactive_RoundTrip ::
  "'r redis_ops \<Rightarrow> reactive_env \<Rightarrow> rate_limiting option \<Rightarrow> string \<Rightarrow> ('r, 'u) transport \<Rightarrow> ('r, 'u) transport" where
  "reactive_RoundTrip ops env cfg connectionId transport req w =
     (case IsRateLimited ops (fst (re_store env CIsLimited)) (snd (re_store env CIsLimited)) connectionId (w_redis w) of
        (Inr (remaining, True), r1) \<Rightarrow>
          (Inr (Inr (syntheticTooManyRequests remaining)),
           stamp_source ResponseSourceConnectorRateLimiter (w\<lparr>w_redis := r1\<rparr>))
      | (_, r1) \<Rightarrow>
          (case transport req (w\<lparr>w_redis := r1\<rparr>) of
             (Inl p, w2) \<Rightarrow> (Inl p, w2)
           | (Inr (Inl e), w2) \<Rightarrow> (Inr (Inl e), w2)
           | (Inr (Inr resp), w2) \<Rightarrow> (Inr (Inr resp), after_response ops env cfg connectionId resp w2)))"

definition reactive_NewRoundTripper ::
  "'r redis_ops \<Rightarrow> reactive_env \<Rightarrow> request_info \<Rightarrow> ('r, 'u) transport \<Rightarrow> ('r, 'u) transport option" where
  "reactive_NewRoundTripper ops env ri transport =
     (if ri_connection_id ri = [] then None
      else if ri_type ri \<noteq> ''proxy'' \<and> ri_type ri \<noteq> ''probe'' then None
      else if (case ri_rate_limiting ri of None \<Rightarrow> False | Some c \<Rightarrow> Disabled c) then None
      else Some (reactive_RoundTrip ops env (ri_rate_limiting ri) (ri_connection_id ri) transport))"

subsection \<open>The length of a block\<close>

lemma clamp_retry_bounds:
  "1000000000 \<le> clamp_retry cfg d" "clamp_retry cfg d \<le> max 1000000000 (GetMaxRetryAfter cfg)"
  by (auto simp: clamp_retry_def Let_def)

lemma clamp_retry_id: "1000000000 \<le> d \<Longrightarrow> d \<le> GetMaxRetryAfter cfg \<Longrightarrow> clamp_retry cfg d = d"
  by (simp add: clamp_retry_def Let_def)

text \<open>The wait a response with status 429 asks for, or the backoff that stands in for it.\<close>

definition asked_retry ::
  "'r redis_ops \<Rightarrow> reactive_env \<Rightarrow> rate_limiting option \<Rightarrow> string \<Rightarrow> http_response \<Rightarrow> 'r \<Rightarrow> int" where
  "asked_retry ops env cfg connectionId resp r =
     (case ParseRetryAfter (re_dates env) (Header resp) (GetRetryAfterHeaders cfg) (re_now env) of
        Some d \<Rightarrow> d
      | None \<Rightarrow> fst (computeBackoff ops env cfg connectionId r))"

lemma Milliseconds_pos: "0 \<le> d \<Longrightarrow> Milliseconds d = d div 1000000"
  by (simp add: Milliseconds_def quot_pos)

context redis_db
begin

lemma handle429_blocks:
  assumes "fst (re_store env CSet) = Reached"
    and ms: "ms = Milliseconds (clamp_retry cfg (asked_retry ops env cfg conn resp r))"
  shows "1000 \<le> ms \<and> ms \<le> max 1000 (GetMaxRetryAfter cfg div 1000000)
    \<and> entry (handle429 ops env cfg conn resp r) (snd (re_store env CSet)) (blockedKey conn) =
        Some (RString ''1'', Some (snd (re_store env CSet) + ms))"
proof -
  let ?d = "clamp_retry cfg (asked_retry ops env cfg conn resp r)"
  have d: "1000000000 \<le> ?d" "?d \<le> max 1000000000 (GetMaxRetryAfter cfg)" by (rule clamp_retry_bounds)+
  then have eq: "ms = ?d div 1000000" using ms by (simp add: Milliseconds_pos)
  have lo: "1000 \<le> ms" using zdiv_mono1 [OF d(1), of 1000000] eq by simp
  have "ms \<le> max 1000 (GetMaxRetryAfter cfg div 1000000)"
    using zdiv_mono1 [OF d(2), of 1000000] eq by (simp add: max_def split: if_splits)
  moreover have "\<exists>r2. handle429 ops env cfg conn resp r = SETPX ops r2 (snd (re_store env CSet)) (blockedKey conn) ''1'' ms"
    using assms(1) ms
    by (auto simp: handle429_def asked_retry_def SetRateLimited_def on_net_def Let_def case_prod_unfold split: option.splits)
  ultimately show ?thesis using SETPX_sets [of ms] lo by auto
qed

lemma IsRateLimited_blocked:
  assumes e: "entry r t (blockedKey conn) = Some (v, Some x)" and x: "1000 \<le> x - t" "x - t < 2 ^ 43"
  shows "\<exists>n. IsRateLimited ops Reached t conn r = (Inr (n * 1000000000, True), r) \<and> 1 \<le> n \<and> 1000 * n < x - t + 1000"
proof -
  let ?n = "TTL ops r t (blockedKey conn)"
  have n: "0 \<le> ?n" "x - t - 1000 < 1000 * ?n" "1000 * ?n < x - t + 1000" using TTL_reads(2) [OF e] by auto
  have "1 \<le> ?n" using n(2) x(1) by simp
  moreover have "wrap64 (?n * 1000000000) = ?n * 1000000000" using n x by (intro wrap64_id) simp_all
  ultimately show ?thesis using n by (intro exI [of _ ?n]) (simp add: IsRateLimited_def on_net_def Let_def)
qed

lemma IsRateLimited_released: "entry r t (blockedKey conn) = None \<Longrightarrow> IsRateLimited ops Reached t conn r = (Inr (0, False), r)"
  using TTL_reads(1) [of r t "blockedKey conn"] by (simp add: IsRateLimited_def on_net_def Let_def)

end

lemma RoundTrip_blocked:
  assumes "IsRateLimited ops (fst (re_store env CIsLimited)) (snd (re_store env CIsLimited)) conn (w_redis w) =
    (Inr (remaining, True), r1)"
  shows "reactive_RoundTrip ops env cfg conn tr req w =
    (Inr (Inr (syntheticTooManyRequests remaining)), stamp_source ResponseSourceConnectorRateLimiter (w\<lparr>w_redis := r1\<rparr>))"
  using assms by (simp add: reactive_RoundTrip_def)

lemma RoundTrip_passes:
  assumes "IsRateLimited ops (fst (re_store env CIsLimited)) (snd (re_store env CIsLimited)) conn (w_redis w) =
    (Inr (0, False), w_redis w)"
  shows "fst (reactive_RoundTrip ops env cfg conn tr req w) = fst (tr req w)"
    and "tr req w = (Inr (Inr resp), w1) \<Longrightarrow>
         reactive_RoundTrip ops env cfg conn tr req w = (Inr (Inr resp), after_response ops env cfg conn resp w1)"
  using assms by (auto simp: reactive_RoundTrip_def split: prod.splits sum.splits)


definition sample_store_env :: "int \<Rightarrow> reactive_env" where
  "sample_store_env t =
     \<lparr>re_dates = \<lparr>http_ParseTime = (\<lambda>_. None), time_Parse = (\<lambda>_ _. None)\<rparr>, re_convert = (\<lambda>_. 0), re_random = Fin 0,
      re_now = t * 1000000, re_store = (\<lambda>_. (Reached, t))\<rparr>"

definition sample_request :: http_request where
  "sample_request = \<lparr>rq_method = ''GET'', rq_url_path = Some ''/v1/items'', rq_header = [], rq_query = []\<rparr>"

definition sample_refusal :: http_response where
  "sample_refusal = \<lparr>StatusCode = 429, Header = [(''Retry-After'', [''30''])], Body = []\<rparr>"

definition sample_world :: "(mem_redis, nat) world" where
  "sample_world = \<lparr>w_redis = [], w_attr = None, w_upstream = 0\<rparr>"

definition answering :: "http_response \<Rightarrow> (mem_redis, nat) transport" where
  "answering resp req w = (Inr (Inr resp), w\<lparr>w_upstream := w_upstream w + 1\<rparr>)"


subsection \<open>Exponential backoff\<close>

lemma f64_power: "f64 (2 powi k) = 2 powi k"
  using f64_dyadic [of 1 k] by simp

lemma pow_loop_two:
  "1 \<le> xe \<Longrightarrow> (xe - 1) * int i \<le> 4095 \<Longrightarrow>
   \<exists>j' ae'. pow_loop i (1 / 2) xe (2 powi j) ae = (2 powi j', ae') \<and> j' + ae' = j + ae + (xe - 1) * int i"
proof (induction i arbitrary: xe j ae rule: less_induct)
  case (less i)
  show ?case
  proof (cases "i = 0")
    case True
    then show ?thesis by (intro exI [of _ j] exI [of _ ae]) (simp add: pow_loop.simps [of 0])
  next
    case False
    have "(xe - 1) * 1 \<le> (xe - 1) * int i" using less.prems(1) False by (intro mult_left_mono) simp_all
    then have xe: "\<not> (xe < - 4096 \<or> 4096 < xe)" using less.prems by simp

    have y: "f64 (1 / 4) = 1 / 4" using f64_power [of "- 2"] by (simp add: power_int_def power_one_over)
    have yy: "f64 (1 / 2) = 1 / 2" using f64_power [of "- 1"] by (simp add: power_int_def)
    let ?j = "if odd i then j - 1 else j" and ?ae = "if odd i then ae + xe else ae"
    have "(2 :: rat) powi j / 2 = 2 powi (j - 1)" by (simp add: power_int_diff)
    then have mult: "f64 (2 powi j / 2) = 2 powi (j - 1)" by (simp only: f64_power)
    have step: "pow_loop i (1 / 2) xe (2 powi j) ae = pow_loop (i div 2) (1 / 2) (2 * xe - 1) (2 powi ?j) ?ae"
      using False xe by (simp add: pow_loop.simps [of i] Let_def y yy mult)
    have prod: "(2 * xe - 1 - 1) * int (i div 2) = (xe - 1) * (2 * int (i div 2))" by (simp add: algebra_simps)
    have "(xe - 1) * (2 * int (i div 2)) \<le> (xe - 1) * int i" using less.prems(1) by (intro mult_left_mono) simp_all
    then have "(2 * xe - 1 - 1) * int (i div 2) \<le> 4095" unfolding prod using less.prems(2) by (rule order_trans)
    with less.IH [of "i div 2" "2 * xe - 1" ?j ?ae] False less.prems(1)
    obtain j' ae' where rest: "pow_loop (i div 2) (1 / 2) (2 * xe - 1) (2 powi ?j) ?ae = (2 powi j', ae')"
      "j' + ae' = ?j + ?ae + (2 * xe - 1 - 1) * int (i div 2)" by auto
    have sum: "?j + ?ae + (xe - 1) * (2 * int (i div 2)) = j + ae + (xe - 1) * int i"
    proof (cases "odd i")
      case True
      then have "int (2 * (i div 2) + 1) = int i" by (metis odd_two_times_div_two_succ)
      then have i: "int i = 2 * int (i div 2) + 1" by simp
      show ?thesis unfolding i [THEN arg_cong, of "(*) (xe - 1)"] using True by (simp add: distrib_left)
    next
      case even: False
      then have "int (2 * (i div 2)) = int i" by (metis even_two_times_div_two)
      then have "2 * int (i div 2) = int i" by (simp only: of_nat_mult of_nat_numeral)
      with even show ?thesis by (simp only: if_False)
    qed
    have "j' + ae' = j + ae + (xe - 1) * int i" using rest(2) unfolding prod sum .
    with step rest(1) show ?thesis by (intro exI [of _ j'] exI [of _ ae']) (simp only: simp_thms)
  qed
qed

lemma Pow_two:
  assumes "0 \<le> n" "n < 1024"
  shows "Pow (Fin 2) n = Fin (2 ^ nat n)"
proof (cases "n = 0 \<or> n = 1")
  case True
  then show ?thesis by (auto simp: Pow_def)
next
  case False
  have e: "fexp 2 2 = 1" by (rule fexp_unique) simp_all
  have fr: "frexp 2 = (1 / 2, 2)" by (simp add: frexp_def e)
  have "(2 - 1) * int (nat n) \<le> 4095" using assms by simp
  from pow_loop_two [OF _ this, of 0 0] obtain j ae where p: "pow_loop (nat n) (1 / 2) 2 1 0 = (2 powi j, ae)" "j + ae = n"
    using assms(1) by auto
  have "(2 :: rat) powi j * 2 powi ae = 2 powi n" using p(2) by (simp flip: power_int_add)
  also have "\<dots> = 2 ^ nat n" using assms(1) by (simp add: power_int_def)
  finally have v: "(2 :: rat) powi j * 2 powi ae = 2 ^ nat n" .
  have "f64 (2 ^ nat n) = 2 ^ nat n" using f64_power [of n] assms(1) by (simp add: power_int_def)
  moreover have "(2 :: rat) ^ nat n < 2 ^ 1024" using assms by (intro power_strict_increasing) simp_all
  moreover have "- (2 ^ 1024) < (2 :: rat) ^ nat n" by (rule less_trans [of _ 0]) simp_all
  ultimately have "to_f64 (2 ^ nat n) = Fin (2 ^ nat n)" by (simp add: to_f64_def Let_def)
  with False assms p v fr show ?thesis by (simp add: Pow_def)
qed

lemma int_times_power:
  assumes "0 < d" "d \<le> 2 ^ 53" "0 \<le> n" "n \<le> 960"
  shows "f_mul (of_int64 d) (Fin (2 ^ nat n)) = Fin (of_int (d * 2 ^ nat n))"
proof -
  have p: "(2 :: rat) ^ nat n = 2 powi n" using assms(3) by (simp add: power_int_def)
  have x: "of_int d * (2 :: rat) ^ nat n = of_int (d * 2 ^ nat n)" by simp
  have f: "f64 (of_int d * 2 ^ nat n) = of_int d * 2 ^ nat n" unfolding p by (rule f64_dyadic) (use assms in simp)
  have "(of_int d :: rat) \<le> of_int (2 ^ 53)" using assms(2) by (simp only: of_int_le_iff)
  moreover have "(2 :: rat) ^ nat n \<le> 2 ^ 960" using assms(4) by (intro power_increasing) simp_all
  ultimately have "of_int d * (2 :: rat) ^ nat n \<le> of_int (2 ^ 53) * 2 ^ 960" by (intro mult_mono) simp_all
  also have "\<dots> < (2 :: rat) ^ 1024" by simp
  finally have hi: "of_int d * (2 :: rat) ^ nat n < 2 ^ 1024" .
  have lo: "- (2 ^ 1024) < of_int d * (2 :: rat) ^ nat n"
    by (rule less_le_trans [of _ 0]) (use assms(1) in simp_all)
  have d: "f64 (of_int d) = of_int d" by (rule f64_int) (use assms in simp)
  from f hi lo have "to_f64 (of_int d * 2 ^ nat n) = Fin (of_int d * 2 ^ nat n)"
    by (simp add: to_f64_def Let_def)
  with d x show ?thesis by (simp add: of_int64_def)
qed

lemma backoff_two:
  assumes "GetMultiplier eb = Fin 2" "GetJitterFraction eb = Fin 0" "0 < GetInitialInterval eb" "GetInitialInterval eb \<le> 2 ^ 53"
    and n: "0 \<le> n" "n \<le> 960"
  shows "backoff_duration convert random eb n =
    min (GetMaxInterval eb)
      (let d = GetInitialInterval eb * 2 ^ nat n in if d < 2 ^ 63 then d else convert (Fin (of_int d)))"
proof -
  have "f64 (of_int n) = of_int n" by (rule f64_int) (use n in simp)
  moreover have "Pow (Fin 2) n = Fin (2 ^ nat n)" using n by (intro Pow_two) simp_all
  ultimately have b: "f_mul (of_int64 (GetInitialInterval eb)) (Pow (Fin 2) \<lfloor>f64 (of_int n)\<rfloor>) =
      Fin (of_int (GetInitialInterval eb * 2 ^ nat n))"
    using int_times_power [OF assms(3,4) n] by simp
  have pos: "0 < GetInitialInterval eb * 2 ^ nat n" using assms(3) by simp
  let ?d = "GetInitialInterval eb * 2 ^ nat n"
  have "backoff_duration convert random eb n =
      (let d = to_int64 convert (Fin (of_int ?d)) in if d > GetMaxInterval eb then GetMaxInterval eb else d)"
    unfolding backoff_duration_def Let_def assms(1,2) b by simp
  moreover have "trunc (of_int ?d) = ?d" using pos by (simp add: trunc_def del: of_int_mult of_int_power)
  then have "to_int64 convert (Fin (of_int ?d)) = (if ?d < 2 ^ 63 then ?d else convert (Fin (of_int ?d)))"
    using pos by (simp add: to_int64_def del: of_int_mult of_int_power)
  ultimately show ?thesis by (simp add: Let_def min_def del: of_int_mult of_int_power)
qed

text \<open>
  With a multiplier of two and no jitter, the block after the \<open>n\<close>-th consecutive
  429 without a usable header is the initial interval doubled \<open>n\<close> times, cut to the largest
  interval and the largest wait and raised to one second, as long as the doubled interval fits a
  64-bit duration. When it does not, the conversion of the float gives the smallest integer on
  amd64, and the block drops to one second, however long the upstream service has been refusing.
\<close>

theorem backoff_doubles_then_collapses:
  assumes "GetMultiplier eb = Fin 2" "GetJitterFraction eb = Fin 0" "0 < GetInitialInterval eb" "GetInitialInterval eb \<le> 2 ^ 53"
    and "0 \<le> n" "n \<le> 960" "amd64 = (\<lambda>_. - (2 ^ 63))"
  shows "clamp_retry cfg (backoff_duration amd64 random eb n) =
    (if GetInitialInterval eb * 2 ^ nat n < 2 ^ 63
     then max 1000000000 (min (GetMaxRetryAfter cfg) (min (GetMaxInterval eb) (GetInitialInterval eb * 2 ^ nat n)))
     else 1000000000)"
proof -
  note b = backoff_two [OF assms(1-6), of amd64 random]
  show ?thesis
  proof (cases "GetInitialInterval eb * 2 ^ nat n < 2 ^ 63")
    case True
    then have "backoff_duration amd64 random eb n = min (GetMaxInterval eb) (GetInitialInterval eb * 2 ^ nat n)"
      unfolding b by (simp add: Let_def)
    with True show ?thesis by (simp add: clamp_retry_def Let_def) linarith
  next
    case False
    then have "backoff_duration amd64 random eb n \<le> - (2 ^ 63)" using b by (simp add: Let_def assms(7))
    then have "clamp_retry cfg (backoff_duration amd64 random eb n) = 1000000000" by (simp add: clamp_retry_def Let_def)
    with False show ?thesis by (simp only: if_False)
  qed
qed

theorem backoff_doubles_then_collapses_witness:
  "map (\<lambda>n. clamp_retry None (backoff_duration (\<lambda>_. - (2 ^ 63)) (Fin 0)
       (Some \<lparr>InitialInterval = None, Multiplier = None, MaxInterval = None, JitterFraction = Some (Fin 0)\<rparr>) n))
     [0, 3, 8, 9, 33, 34] =
   [1000000000, 8000000000, 256000000000, 300000000000, 300000000000, 1000000000]"
proof -
  let ?eb = "Some \<lparr>InitialInterval = None, Multiplier = None, MaxInterval = None, JitterFraction = Some (Fin 0)\<rparr>"
  have g: "GetMultiplier ?eb = Fin 2" "GetJitterFraction ?eb = Fin 0" "GetInitialInterval ?eb = 1000000000"
    "GetMaxInterval ?eb = 300000000000" "GetMaxRetryAfter None = 900000000000"
    by (simp_all add: GetMultiplier_def GetJitterFraction_def GetInitialInterval_def GetMaxInterval_def GetMaxRetryAfter_def
        DefaultBackoffMultiplier_def DefaultBackoffInitial_def DefaultBackoffMaxInterval_def DefaultMaxRetryAfter_def)
  have i: "0 < GetInitialInterval ?eb" "GetInitialInterval ?eb \<le> 2 ^ 53" unfolding g by simp_all
  note at_n = backoff_doubles_then_collapses [OF g(1,2) i _ _ refl, of _ None "Fin 0"]
  show ?thesis using at_n [of 0] at_n [of 3] at_n [of 8] at_n [of 9] at_n [of 33] at_n [of 34] by (simp add: g)
qed

end
