(* ===== verification/Enforcer.thy ===== *)
theory Enforcer
  imports Token_Bucket Reactive_Limit
begin

text \<open>
  The enforcement of rate limit rules (\<^verbatim>\<open>internal/ratelimit/enforcer.go\<close> and \<^verbatim>\<open>NewLimiter\<close> of
  \<^verbatim>\<open>limiter.go\<close>): the rules that match a request decide in turn, and the enforced rejection with
  the longest wait answers the request. Every decision has its own call to Redis, given by \<open>env\<close>
  at the rule's position. The lemmas show that the strictest rejection wins, that an unreachable
  Redis never rejects a request, that validated rules never panic, and that the dry run of a rule
  predicts its decision.
\<close>

subsection \<open>Limiters\<close>

record db_rate_limit =
  RL_Id :: string
  RL_Namespace :: string
  RL_Name :: string
  RL_Definition :: rl_definition
  RL_Labels :: smap
  RL_Annotations :: smap
  RL_CreatedAt :: int
  RL_UpdatedAt :: int
  RL_DeletedAt :: "int option"

datatype limiter =
  FixedWindowLimiter fixed_window_limiter
| SlidingWindowLimiter sliding_window_limiter
| TokenBucketLimiter token_bucket_limiter

definition NewLimiter :: "db_rate_limit option \<Rightarrow> gerror + limiter" where
  "NewLimiter rl =
     (case rl of
        None \<Rightarrow> Inl (Err ''ratelimit: nil rate limit'')
      | Some rl \<Rightarrow>
          let algo = rl_algorithm (RL_Definition rl)
          in case FixedWindow algo of
               Some f \<Rightarrow> Inr (FixedWindowLimiter (newFixedWindowLimiter (RL_Id rl) f))
             | None \<Rightarrow>
                 (case SlidingWindow algo of
                    Some s \<Rightarrow> Inr (SlidingWindowLimiter (newSlidingWindowLimiter (RL_Id rl) s))
                  | None \<Rightarrow>
                      (case TokenBucket algo of
                         Some b \<Rightarrow> Inr (TokenBucketLimiter (newTokenBucketLimiter (RL_Id rl) b))
                       | None \<Rightarrow> Inl (Errf ''ratelimit: rule %s has no algorithm variant set'' [RL_Id rl]))))"

text \<open>The surroundings of one decision: the network, the random member of the sliding log, the
  caller's clock and the server's, in milliseconds.\<close>

record decide_env =
  de_net :: net
  de_member :: "gerror + string"
  de_now :: int
  de_srv :: int

definition limiter_Decide :: "lua_ops \<Rightarrow> 'r redis_ops \<Rightarrow> decide_env \<Rightarrow> limiter \<Rightarrow> bucket_key \<Rightarrow> 'r decide" where
  "limiter_Decide L ops env l bucketKey =
     (case l of
        FixedWindowLimiter f \<Rightarrow> fixedWindow_Decide ops (de_net env) f bucketKey (de_now env) (de_srv env)
      | SlidingWindowLimiter s \<Rightarrow>
          slidingWindow_Decide L ops (de_net env) (de_member env) s bucketKey (de_now env) (de_srv env)
      | TokenBucketLimiter b \<Rightarrow> tokenBucket_Decide L ops (de_net env) b bucketKey (de_now env) (de_srv env))"

definition limiter_Peek :: "lua_ops \<Rightarrow> 'r redis_ops \<Rightarrow> decide_env \<Rightarrow> limiter \<Rightarrow> bucket_key \<Rightarrow> 'r decide" where
  "limiter_Peek L ops env l bucketKey =
     (case l of
        FixedWindowLimiter f \<Rightarrow> fixedWindow_Peek ops (de_net env) f bucketKey (de_now env) (de_srv env)
      | SlidingWindowLimiter s \<Rightarrow> slidingWindow_Peek L ops (de_net env) s bucketKey (de_now env) (de_srv env)
      | TokenBucketLimiter b \<Rightarrow> tokenBucket_Peek L ops (de_net env) b bucketKey (de_now env) (de_srv env))"

subsection \<open>Matching the rules\<close>

record matched_rule =
  mr_rule :: db_rate_limit
  mr_mode :: string
  mr_bucket :: bucket_key

definition actorIDLabelKey :: string where "actorIDLabelKey = ''apxy/act/-/id''"

definition buildRequestContext :: "request_info \<Rightarrow> http_request \<Rightarrow> request_context" where
  "buildRequestContext ri req =
     \<lparr>rc_type = ri_type ri, rc_method = rq_method req, rc_url_path = rq_url_path req, rc_namespace = ri_namespace ri,
      rc_actor_id = (case map_of (ri_labels ri) actorIDLabelKey of Some v \<Rightarrow> v | None \<Rightarrow> []),
      rc_connection_id = ri_connection_id ri, rc_connector_id = ri_connector_id ri,
      rc_connector_version = ri_connector_version ri, rc_labels = ri_labels ri\<rparr>"

fun findMatches :: "compile \<Rightarrow> db_rate_limit option list \<Rightarrow> request_context \<Rightarrow> matched_rule list" where
  "findMatches C [] reqCtx = []"
| "findMatches C (None # rules) reqCtx = findMatches C rules reqCtx"
| "findMatches C (Some rule # rules) reqCtx =
     (case Match C (RL_Definition rule) (Some reqCtx) of
        (ok, bucket, Some e) \<Rightarrow> findMatches C rules reqCtx
      | (False, bucket, None) \<Rightarrow> findMatches C rules reqCtx
      | (True, bucket, None) \<Rightarrow>
          \<lparr>mr_rule = rule, mr_mode = EffectiveMode (RL_Definition rule), mr_bucket = bucket\<rparr> # findMatches C rules reqCtx)"

subsection \<open>Deciding\<close>

text \<open>
  The loop over the matched rules: the rule that fires so far with its decision, and the matches
  recorded for the attribution. \<open>env i\<close> serves the rule at position \<open>i\<close>.
\<close>

fun decide_loop ::
  "lua_ops \<Rightarrow> 'r redis_ops \<Rightarrow> (nat \<Rightarrow> decide_env) \<Rightarrow> nat \<Rightarrow> (matched_rule \<times> decision) option \<Rightarrow> rate_limit_match list \<Rightarrow>
   matched_rule list \<Rightarrow> 'r \<Rightarrow> ((matched_rule \<times> decision) option \<times> rate_limit_match list) may_panic \<times> 'r" where
  "decide_loop L ops env i firing matchedSet [] r = (Inr (firing, matchedSet), r)"
| "decide_loop L ops env i firing matchedSet (m # ms) r =
     (case NewLimiter (Some (mr_rule m)) of
        Inl _ \<Rightarrow> decide_loop L ops env (Suc i) firing matchedSet ms r
      | Inr limiter \<Rightarrow>
          (case limiter_Decide L ops (env i) limiter (mr_bucket m) r of
             (Inl p, r1) \<Rightarrow> (Inl p, r1)
           | (Inr (decision, _), r1) \<Rightarrow>
               let matchedSet' = matchedSet @ [\<lparr>rlm_id = RL_Id (mr_rule m), rlm_mode = mr_mode m, rlm_bucket = AsMap (mr_bucket m)\<rparr>];
                   firing' = (if \<not> Allowed decision \<and> mr_mode m = ''enforce'' then
                                (case firing of
                                   None \<Rightarrow> Some (m, decision)
                                 | Some (f, d) \<Rightarrow> if RetryAfter decision > RetryAfter d then Some (m, decision) else firing)
                              else firing)
               in decide_loop L ops env (Suc i) firing' matchedSet' ms r1))"

definition stamp_rate_limit ::
  "(matched_rule \<times> decision) option \<Rightarrow> rate_limit_match list \<Rightarrow> matched_rule list \<Rightarrow> attribution \<Rightarrow> attribution" where
  "stamp_rate_limit firing matchedSet matched attr =
     (let attr1 = attr\<lparr>at_rate_limit_matched := matchedSet\<rparr>
      in case firing of
           Some (m, d) \<Rightarrow>
             attr1\<lparr>at_source := ResponseSourceRateLimit, at_rate_limit_id := RL_Id (mr_rule m),
                   at_rate_limit_mode := ''enforce'', at_rate_limit_bucket := AsMap (mr_bucket m)\<rparr>
         | None \<Rightarrow>
             (case find (\<lambda>m. mr_mode m = ''observe'') matched of
                None \<Rightarrow> attr1
              | Some m \<Rightarrow>
                  attr1\<lparr>at_rate_limit_id := RL_Id (mr_rule m), at_rate_limit_mode := ''observe'',
                        at_rate_limit_bucket := AsMap (mr_bucket m)\<rparr>))"

text \<open>The verb \<^verbatim>\<open>%q\<close> on the ASCII characters of an identifier.\<close>

definition hex_digit :: "nat \<Rightarrow> char" where "hex_digit n = ''0123456789abcdef'' ! n"

definition quote_byte :: "char \<Rightarrow> string" where
  "quote_byte c =
     (if c = CHR 0x22 \<or> c = CHR 0x5C then [CHR 0x5C, c]
      else if c = CHR 0x07 then [CHR 0x5C, CHR ''a'']
      else if c = CHR 0x08 then [CHR 0x5C, CHR ''b'']
      else if c = CHR 0x0C then [CHR 0x5C, CHR ''f'']
      else if c = CHR 0x0A then [CHR 0x5C, CHR ''n'']
      else if c = CHR 0x0D then [CHR 0x5C, CHR ''r'']
      else if c = CHR 0x09 then [CHR 0x5C, CHR ''t'']
      else if c = CHR 0x0B then [CHR 0x5C, CHR ''v'']
      else if of_char c < (0x20 :: nat) \<or> c = CHR 0x7F
        then [CHR 0x5C, CHR ''x'', hex_digit (of_char c div 16), hex_digit (of_char c mod 16)]
      else [c])"

definition quote :: "string \<Rightarrow> string" where
  "quote s = [CHR 0x22] @ concat (map quote_byte s) @ [CHR 0x22]"

definition enforcer_TooManyRequests :: "string \<Rightarrow> int \<Rightarrow> http_response" where
  "enforcer_TooManyRequests ruleID retryAfter =
     (let s = ceil_seconds retryAfter; retryAfterSeconds = (if s < 1 then 1 else s)
      in \<lparr>StatusCode = StatusTooManyRequests,
          Header = [(''Content-Type'', [''application/json'']),
                    (''Retry-After'', [FormatInt retryAfterSeconds]),
                    (''X-Authproxy-Ratelimited'', [''true'']),
                    (''X-Authproxy-Ratelimit'', [ruleID])],
          Body = ''{'' @ quote ''error'' @ '':'' @ quote ''rate limited'' @ '','' @ quote ''rateLimitId'' @ '':'' @ quote ruleID
                 @ '','' @ quote ''retryAfterSeconds'' @ '':'' @ FormatInt retryAfterSeconds @ ''}''\<rparr>)"

definition enforcer_RoundTrip ::
  "compile \<Rightarrow> lua_ops \<Rightarrow> 'r redis_ops \<Rightarrow> (nat \<Rightarrow> decide_env) \<Rightarrow> db_rate_limit option list \<Rightarrow> request_info \<Rightarrow>
   ('r, 'u) transport \<Rightarrow> ('r, 'u) transport" where
  "enforcer_RoundTrip C L ops env rules ri transport req w =
     (if length rules = 0 then transport req w
      else
        let matched = findMatches C rules (buildRequestContext ri req)
        in if length matched = 0 then transport req w
           else case decide_loop L ops env 0 None [] matched (w_redis w) of
             (Inl p, r1) \<Rightarrow> (Inl p, w\<lparr>w_redis := r1\<rparr>)
           | (Inr (firing, matchedSet), r1) \<Rightarrow>
               let w1 = w\<lparr>w_redis := r1, w_attr := map_option (stamp_rate_limit firing matchedSet matched) (w_attr w)\<rparr>
               in case firing of
                    Some (m, d) \<Rightarrow> (Inr (Inr (enforcer_TooManyRequests (RL_Id (mr_rule m)) (RetryAfter d))), w1)
                  | None \<Rightarrow> transport req w1)"

definition enforcer_NewRoundTripper ::
  "compile \<Rightarrow> lua_ops \<Rightarrow> 'r redis_ops \<Rightarrow> (nat \<Rightarrow> decide_env) \<Rightarrow> db_rate_limit option list option \<Rightarrow> request_info \<Rightarrow>
   ('r, 'u) transport \<Rightarrow> ('r, 'u) transport option" where
  "enforcer_NewRoundTripper C L ops env cache ri transport =
     (case cache of None \<Rightarrow> None | Some rules \<Rightarrow> Some (enforcer_RoundTrip C L ops env rules ri transport))"

subsection \<open>The strictest rejection\<close>

text \<open>The decisions of the matched rules in turn, those without a limiter left out.\<close>

fun decisions ::
  "lua_ops \<Rightarrow> 'r redis_ops \<Rightarrow> (nat \<Rightarrow> decide_env) \<Rightarrow> nat \<Rightarrow> matched_rule list \<Rightarrow> 'r \<Rightarrow>
   (matched_rule \<times> decision) list may_panic \<times> 'r" where
  "decisions L ops env i [] r = (Inr [], r)"
| "decisions L ops env i (m # ms) r =
     (case NewLimiter (Some (mr_rule m)) of
        Inl _ \<Rightarrow> decisions L ops env (Suc i) ms r
      | Inr l \<Rightarrow>
          (case limiter_Decide L ops (env i) l (mr_bucket m) r of
             (Inl p, r1) \<Rightarrow> (Inl p, r1)
           | (Inr (d, _), r1) \<Rightarrow>
               (case decisions L ops env (Suc i) ms r1 of
                  (Inl p, r2) \<Rightarrow> (Inl p, r2)
                | (Inr ds, r2) \<Rightarrow> (Inr ((m, d) # ds), r2))))"

definition rejects :: "matched_rule \<times> decision \<Rightarrow> bool" where
  "rejects x \<longleftrightarrow> \<not> Allowed (snd x) \<and> mr_mode (fst x) = ''enforce''"

definition fire :: "matched_rule \<times> decision \<Rightarrow> (matched_rule \<times> decision) option \<Rightarrow> (matched_rule \<times> decision) option" where
  "fire x firing =
     (if rejects x then
        (case firing of None \<Rightarrow> Some x | Some y \<Rightarrow> if RetryAfter (snd x) > RetryAfter (snd y) then Some x else firing)
      else firing)"

definition recorded :: "matched_rule \<times> decision \<Rightarrow> rate_limit_match" where
  "recorded x = \<lparr>rlm_id = RL_Id (mr_rule (fst x)), rlm_mode = mr_mode (fst x), rlm_bucket = AsMap (mr_bucket (fst x))\<rparr>"

lemma decide_loop_decisions:
  "decide_loop L ops env i firing set0 ms r =
   (case decisions L ops env i ms r of
      (Inl p, r1) \<Rightarrow> (Inl p, r1)
    | (Inr ds, r1) \<Rightarrow> (Inr (fold fire ds firing, set0 @ map recorded ds), r1))"
proof (induction ms arbitrary: i firing set0 r)
  case (Cons m ms)
  show ?case
  proof (cases "NewLimiter (Some (mr_rule m))")
    case (Inl e)
    with Cons.IH show ?thesis by simp
  next
    case (Inr l)
    obtain x r1 where d: "limiter_Decide L ops (env i) l (mr_bucket m) r = (x, r1)" by fastforce
    show ?thesis
    proof (cases x)
      case Inl
      with Inr d show ?thesis by simp
    next
      case x: (Inr y)
      obtain dec e where y: "y = (dec, e)" by fastforce
      have f: "(if \<not> Allowed dec \<and> mr_mode m = ''enforce'' then
            (case firing of None \<Rightarrow> Some (m, dec) | Some (f, d) \<Rightarrow> if RetryAfter dec > RetryAfter d then Some (m, dec) else firing)
          else firing) = fire (m, dec) firing"
        by (auto simp: fire_def rejects_def split: option.split)
      have step: "decide_loop L ops env i firing set0 (m # ms) r =
          decide_loop L ops env (Suc i) (fire (m, dec) firing) (set0 @ [recorded (m, dec)]) ms r1"
        by (simp only: decide_loop.simps Inr d x y sum.case prod.case Let_def f recorded_def fst_conv)
      obtain z r2 where z: "decisions L ops env (Suc i) ms r1 = (z, r2)" by fastforce
      show ?thesis unfolding step Cons.IH using Inr d x y z by (cases z) simp_all
    qed
  qed
qed simp

lemma fire_None: "fire x firing = None \<longleftrightarrow> firing = None \<and> \<not> rejects x"
  by (simp add: fire_def split: option.split)

lemma fire_Some:
  "fire x firing = Some y \<Longrightarrow>
   (y = x \<and> rejects x \<or> firing = Some y)
   \<and> (rejects x \<longrightarrow> RetryAfter (snd x) \<le> RetryAfter (snd y))
   \<and> (\<forall>z. firing = Some z \<longrightarrow> RetryAfter (snd z) \<le> RetryAfter (snd y))"
  by (cases firing) (auto simp: fire_def split: if_splits)

lemma fold_fire_None: "fold fire ds firing = None \<longleftrightarrow> firing = None \<and> filter rejects ds = []"
  by (induction ds arbitrary: firing) (auto simp: fire_None)

lemma fold_fire_Some:
  "fold fire ds firing = Some y \<Longrightarrow>
     (y \<in> set (filter rejects ds) \<or> firing = Some y)
     \<and> (\<forall>x \<in> set (filter rejects ds). RetryAfter (snd x) \<le> RetryAfter (snd y))
     \<and> (\<forall>x. firing = Some x \<longrightarrow> RetryAfter (snd x) \<le> RetryAfter (snd y))"
proof (induction ds arbitrary: firing)
  case (Cons d ds)
  have rest: "fold fire ds (fire d firing) = Some y" using Cons.prems by simp
  note ih = Cons.IH [OF rest]
  show ?case
  proof (cases "fire d firing")
    case None
    with ih show ?thesis by (simp add: fire_None)
  next
    case (Some z)
    from ih Some have z: "RetryAfter (snd z) \<le> RetryAfter (snd y)" by blast
    note f = fire_Some [OF Some]
    have "y \<in> set (filter rejects (d # ds)) \<or> firing = Some y"
    proof (cases "y \<in> set (filter rejects ds)")
      case False
      with ih Some have "z = y" by auto
      with f show ?thesis by auto
    qed simp
    moreover have "RetryAfter (snd x) \<le> RetryAfter (snd y)" if "x \<in> set (filter rejects (d # ds))" for x
    proof (cases "x \<in> set (filter rejects ds)")
      case False
      with that have "x = d \<and> rejects d" by (auto split: if_splits)
      then have "RetryAfter (snd x) \<le> RetryAfter (snd z)" using f by blast
      with z show ?thesis by simp
    qed (use ih in blast)
    moreover have "RetryAfter (snd x) \<le> RetryAfter (snd y)" if "firing = Some x" for x
    proof -
      have "RetryAfter (snd x) \<le> RetryAfter (snd z)" using f that by blast
      with z show ?thesis by simp
    qed
    ultimately show ?thesis by blast
  qed
qed simp

lemma enforcer_RoundTrip_decisions:
  assumes "decisions L ops env 0 (findMatches C rules (buildRequestContext ri req)) (w_redis w) = (Inr ds, r1)"
  shows "\<exists>w1. w_redis w1 = r1 \<and> w_upstream w1 = w_upstream w \<and>
    enforcer_RoundTrip C L ops env rules ri tr req w =
      (case fold fire ds None of
         Some (m, d) \<Rightarrow> (Inr (Inr (enforcer_TooManyRequests (RL_Id (mr_rule m)) (RetryAfter d))), w1)
       | None \<Rightarrow> tr req w1)"
proof (cases "findMatches C rules (buildRequestContext ri req) = []")
  case True
  with assms show ?thesis by (intro exI [of _ w]) (simp add: enforcer_RoundTrip_def)
next
  case False
  then have "rules \<noteq> []" by auto
  let ?w1 = "w\<lparr>w_redis := r1,
    w_attr := map_option (stamp_rate_limit (fold fire ds None) (map recorded ds) (findMatches C rules (buildRequestContext ri req))) (w_attr w)\<rparr>"
  from False \<open>rules \<noteq> []\<close> assms show ?thesis
    by (intro exI [of _ ?w1]) (simp add: enforcer_RoundTrip_def decide_loop_decisions Let_def)
qed

subsection \<open>Decisions that do not panic\<close>

text \<open>The windows of a limiter are at least a millisecond long.\<close>

definition whole_window :: "rl_definition \<Rightarrow> bool" where
  "whole_window d \<longleftrightarrow>
     (case FixedWindow (rl_algorithm d) of None \<Rightarrow> True | Some f \<Rightarrow> 1000000 \<le> fw_window f)
     \<and> (case SlidingWindow (rl_algorithm d) of None \<Rightarrow> True | Some s \<Rightarrow> 1000000 \<le> sw_window s)"

lemma window_ms: "1000000 \<le> d \<Longrightarrow> Milliseconds d \<noteq> 0"
  using zdiv_mono1 [of 1000000 d 1000000] by (simp add: Milliseconds_pos)

lemma fixedWindow_Decide_returns:
  "Milliseconds (fwl_window l) \<noteq> 0 \<Longrightarrow> \<exists>x r1. fixedWindow_Decide ops net l b now srv r = (Inr x, r1)"
  by (simp add: fixedWindow_Decide_def Let_def case_prod_unfold)

lemma slidingWindow_Decide_returns:
  "Milliseconds (swl_window l) \<noteq> 0 \<Longrightarrow> \<exists>x r1. slidingWindow_Decide L ops net member l b now srv r = (Inr x, r1)"
  by (simp add: slidingWindow_Decide_def decideLog_def decideCounter_def Let_def case_prod_unfold split: sum.split)

lemma tokenBucket_Decide_returns: "\<exists>x r1. tokenBucket_Decide L ops net l b now srv r = (Inr x, r1)"
  by (simp add: tokenBucket_Decide_def case_prod_unfold)

lemma NewLimiter_valid:
  assumes "RateLimit_Validate C (RL_Definition rl) = None"
  shows "\<exists>l. NewLimiter (Some rl) = Inr l"
proof -
  have "valid_algorithm (rl_algorithm (RL_Definition rl))" using assms by (simp add: RateLimit_Validate_None)
  then show ?thesis
    by (cases "rl_algorithm (RL_Definition rl)") (auto simp: NewLimiter_def Let_def split: option.splits)
qed

lemma limiter_Decide_returns:
  assumes "NewLimiter (Some rl) = Inr l" "whole_window (RL_Definition rl)"
  shows "\<exists>d e r1. limiter_Decide L ops env l b r = (Inr (d, e), r1)"
proof -
  consider f where "l = FixedWindowLimiter (newFixedWindowLimiter (RL_Id rl) f)" "FixedWindow (rl_algorithm (RL_Definition rl)) = Some f"
    | s where "l = SlidingWindowLimiter (newSlidingWindowLimiter (RL_Id rl) s)" "SlidingWindow (rl_algorithm (RL_Definition rl)) = Some s"
    | t where "l = TokenBucketLimiter t"
    using assms(1) by (auto simp: NewLimiter_def Let_def split: option.splits)
  then have "\<exists>x r1. limiter_Decide L ops env l b r = (Inr x, r1)"
  proof cases
    case 1
    with assms(2) have "Milliseconds (fwl_window (newFixedWindowLimiter (RL_Id rl) f)) \<noteq> 0"
      by (simp add: whole_window_def newFixedWindowLimiter_def window_ms)
    from fixedWindow_Decide_returns [OF this] 1 show ?thesis by (simp add: limiter_Decide_def)
  next
    case 2
    with assms(2) have "Milliseconds (swl_window (newSlidingWindowLimiter (RL_Id rl) s)) \<noteq> 0"
      by (simp add: whole_window_def newSlidingWindowLimiter_def window_ms)
    from slidingWindow_Decide_returns [OF this] 2 show ?thesis by (simp add: limiter_Decide_def)
  next
    case 3
    with tokenBucket_Decide_returns show ?thesis by (simp add: limiter_Decide_def)
  qed
  then show ?thesis by auto
qed

definition usable :: "compile \<Rightarrow> db_rate_limit \<Rightarrow> bool" where
  "usable C rl \<longleftrightarrow> RateLimit_Validate C (RL_Definition rl) = None \<and> whole_window (RL_Definition rl)"

lemma decisions_total:
  "list_all (\<lambda>m. usable C (mr_rule m)) ms \<Longrightarrow> \<exists>ds r1. decisions L ops env i ms r = (Inr ds, r1) \<and> map fst ds = ms"
proof (induction ms arbitrary: i r)
  case (Cons m ms)
  obtain l where l: "NewLimiter (Some (mr_rule m)) = Inr l" using Cons.prems NewLimiter_valid by (auto simp: usable_def)
  have w: "whole_window (RL_Definition (mr_rule m))" using Cons.prems by (simp add: usable_def)
  obtain d e r1 where d: "limiter_Decide L ops (env i) l (mr_bucket m) r = (Inr (d, e), r1)"
    using limiter_Decide_returns [OF l w, of L ops "env i" "mr_bucket m" r] by blast
  obtain ds r2 where "decisions L ops env (Suc i) ms r1 = (Inr ds, r2)" "map fst ds = ms"
    using Cons.IH [of "Suc i" r1] Cons.prems by auto
  with l d show ?case by simp
qed simp

lemma findMatches_rules: "m \<in> set (findMatches C rules ctx) \<Longrightarrow> Some (mr_rule m) \<in> set rules"
proof (induction rules)
  case (Cons x rules)
  show ?case
  proof (cases x)
    case None
    with Cons show ?thesis by simp
  next
    case (Some rule)
    obtain ok bucket e where "Match C (RL_Definition rule) (Some ctx) = (ok, bucket, e)" by (metis prod_cases3)
    with Some Cons show ?thesis by (cases e; cases ok) auto
  qed
qed simp

lemma findMatches_usable:
  "\<forall>rl. Some rl \<in> set rules \<longrightarrow> usable C rl \<Longrightarrow> list_all (\<lambda>m. usable C (mr_rule m)) (findMatches C rules ctx)"
  using findMatches_rules by (fastforce simp: list_all_iff)

lemma unreachable_allows:
  assumes "de_net env = FailedBefore e" "limiter_Decide L ops env l b r = (Inr (d, e'), r1)"
  shows "Allowed d \<and> r1 = r"
  using assms
  by (cases l)
    (auto simp: limiter_Decide_def fixedWindow_Decide_def slidingWindow_Decide_def decideLog_def decideCounter_def
      tokenBucket_Decide_def run_script_def finish_decision_def failOpen_def Let_def split: if_splits sum.splits)

lemma decisions_unreachable:
  assumes "\<forall>i. \<exists>e. de_net (env i) = FailedBefore e"
  shows "decisions L ops env i ms r = (Inr ds, r1) \<Longrightarrow> filter rejects ds = [] \<and> r1 = r"
proof (induction ms arbitrary: i r ds r1)
  case (Cons m ms)
  show ?case
  proof (cases "NewLimiter (Some (mr_rule m))")
    case (Inl e)
    with Cons.prems Cons.IH [of "Suc i" r ds r1] show ?thesis by simp
  next
    case (Inr l)
    obtain x r2 where x: "limiter_Decide L ops (env i) l (mr_bucket m) r = (x, r2)" by fastforce
    with Cons.prems Inr obtain d e' where d: "limiter_Decide L ops (env i) l (mr_bucket m) r = (Inr (d, e'), r2)"
      by (cases x) auto
    obtain e where "de_net (env i) = FailedBefore e" using assms by blast
    from unreachable_allows [OF this d] have a: "Allowed d" "r2 = r" by simp_all
    obtain y r3 where y: "decisions L ops env (Suc i) ms r = (y, r3)" by fastforce
    with Cons.prems Inr d a obtain ds' where ds': "y = Inr ds'" "ds = (m, d) # ds'" "r3 = r1" by (cases y) auto
    with Cons.IH [of "Suc i" r ds' r1] y a show ?thesis by (simp add: rejects_def)
  qed
qed simp

text \<open>
  Property C20. With validated rules whose windows last at least a millisecond, the enforcer asks
  every rule that matches the request, in order, exactly once. If no rule in enforce mode rejects,
  the request is passed on; otherwise it is answered with status 429 for a rejecting rule whose
  wait is the longest of all rejections, and never passed on. Rules in observe mode decide but
  reject nothing.
\<close>

theorem enforcer_strictest:
  assumes "\<forall>rl. Some rl \<in> set rules \<longrightarrow> usable C rl"
    and "matched = findMatches C rules (buildRequestContext ri req)"
  shows "\<exists>ds w1. decisions L ops env 0 matched (w_redis w) = (Inr ds, w_redis w1)
    \<and> map fst ds = matched \<and> w_upstream w1 = w_upstream w
    \<and> (filter rejects ds = [] \<longrightarrow> enforcer_RoundTrip C L ops env rules ri tr req w = tr req w1)
    \<and> (filter rejects ds \<noteq> [] \<longrightarrow>
         (\<exists>m d. (m, d) \<in> set (filter rejects ds)
            \<and> (\<forall>x \<in> set (filter rejects ds). RetryAfter (snd x) \<le> RetryAfter d)
            \<and> enforcer_RoundTrip C L ops env rules ri tr req w =
                (Inr (Inr (enforcer_TooManyRequests (RL_Id (mr_rule m)) (RetryAfter d))), w1)))"
proof -
  obtain ds r1 where ds: "decisions L ops env 0 matched (w_redis w) = (Inr ds, r1)" "map fst ds = matched"
    using decisions_total [OF findMatches_usable [OF assms(1)], of L ops env 0 "buildRequestContext ri req" "w_redis w"] assms(2)
    by blast
  from enforcer_RoundTrip_decisions [OF ds(1) [unfolded assms(2)], of tr]
  obtain w1 where w1: "w_redis w1 = r1" "w_upstream w1 = w_upstream w"
    "enforcer_RoundTrip C L ops env rules ri tr req w =
      (case fold fire ds None of
         Some (m, d) \<Rightarrow> (Inr (Inr (enforcer_TooManyRequests (RL_Id (mr_rule m)) (RetryAfter d))), w1)
       | None \<Rightarrow> tr req w1)" by blast
  show ?thesis
  proof (cases "fold fire ds None")
    case None
    then have "filter rejects ds = []" by (simp only: fold_fire_None)
    with ds w1 None show ?thesis by (intro exI [of _ ds] exI [of _ w1]) simp
  next
    case (Some y)
    obtain m d where y: "y = (m, d)" by fastforce
    have f: "(m, d) \<in> set (filter rejects ds)" "\<forall>x \<in> set (filter rejects ds). RetryAfter (snd x) \<le> RetryAfter d"
      using fold_fire_Some [OF Some] y by auto
    have "filter rejects ds \<noteq> []" using f(1) by (metis empty_iff empty_set)
    with ds w1 Some y f show ?thesis by (intro exI [of _ ds] exI [of _ w1]) (auto simp del: set_filter filter_empty_conv)
  qed
qed

text \<open>
  Property C22. When Redis cannot be reached, every request is passed on, whatever rules match:
  the limiters fail open, and the state of Redis is unchanged.
\<close>

theorem enforcer_fails_open:
  assumes "\<forall>rl. Some rl \<in> set rules \<longrightarrow> usable C rl" "\<forall>i. \<exists>e. de_net (env i) = FailedBefore e"
  shows "\<exists>w1. enforcer_RoundTrip C L ops env rules ri tr req w = tr req w1
    \<and> w_redis w1 = w_redis w \<and> w_upstream w1 = w_upstream w"
proof -
  let ?ms = "findMatches C rules (buildRequestContext ri req)"
  obtain ds r1 where ds: "decisions L ops env 0 ?ms (w_redis w) = (Inr ds, r1)"
    using decisions_total [OF findMatches_usable [OF assms(1)], of L ops env 0 "buildRequestContext ri req" "w_redis w"] by blast
  from decisions_unreachable [OF assms(2) this] have "filter rejects ds = []" "r1 = w_redis w" by simp_all
  moreover obtain w1 where w1: "w_redis w1 = r1" "w_upstream w1 = w_upstream w"
    "enforcer_RoundTrip C L ops env rules ri tr req w =
      (case fold fire ds None of
         Some (m, d) \<Rightarrow> (Inr (Inr (enforcer_TooManyRequests (RL_Id (mr_rule m)) (RetryAfter d))), w1)
       | None \<Rightarrow> tr req w1)"
    using enforcer_RoundTrip_decisions [OF ds, of tr] by blast
  ultimately have "fold fire ds None = None" by (simp add: fold_fire_None)
  with w1 \<open>r1 = w_redis w\<close> show ?thesis by (intro exI [of _ w1]) simp
qed

subsection \<open>The dry run\<close>

text \<open>The state in Redis of the bucket a limiter is about to decide.\<close>

definition bucket_state ::
  "('r \<Rightarrow> int \<Rightarrow> string \<Rightarrow> rentry) \<Rightarrow> lua_ops \<Rightarrow> limiter \<Rightarrow> bucket_key \<Rightarrow> int \<Rightarrow> int \<Rightarrow> 'r \<Rightarrow> bool" where
  "bucket_state entry L l b now srv r =
     (case l of
        FixedWindowLimiter f \<Rightarrow>
          counter_entry (entry r srv (fw_key (fwl_rule f) b (quot now (Milliseconds (fwl_window f))))) \<and> 0 < fwl_limit f
      | SlidingWindowLimiter s \<Rightarrow>
          (swl_mode s = ''log'' \<longrightarrow> zset_entry (entry r srv (swl_key (swl_rule s) b)))
          \<and> (swl_mode s = ''counter'' \<longrightarrow> (\<forall>i. counter_entry (entry r srv (swc_key (swl_rule s) b i)))) \<and> 0 < swl_limit s
      | TokenBucketLimiter t \<Rightarrow>
          (\<exists>st e. tb_content L (entry r srv (tb_key (tbl_rule t) b)) st e) \<and> \<bar>now\<bar> \<le> 10 ^ 14
          \<and> 0 < tbl_capacity t \<and> tbl_capacity t \<le> 2 ^ 53)"

text \<open>
  The dry run of a rule predicts its decision: on a bucket whose keys hold what the
  limiter stores, or nothing, \<^verbatim>\<open>Peek\<close> returns exactly the decision \<^verbatim>\<open>Decide\<close> would make, for every
  algorithm, and leaves Redis as it is.
\<close>

theorem limiter_Peek_predicts:
  assumes "redis_lua ops entry L" "bucket_state entry L l b (de_now env) (de_srv env) r"
    and "de_net env = Reached" "de_member env = Inr m"
  shows "limiter_Peek L ops env l b r = (fst (limiter_Decide L ops env l b r), r)"
proof (cases l)
  case (FixedWindowLimiter f)
  have "redis_db ops entry" using assms(1) by (simp add: redis_lua_def)
  with FixedWindowLimiter assms(2-4) show ?thesis
    by (simp add: limiter_Peek_def limiter_Decide_def bucket_state_def redis_db.fixedWindow_Peek_predicts)
next
  case (SlidingWindowLimiter s)
  have "redis_db ops entry" using assms(1) by (simp add: redis_lua_def)
  from redis_db.slidingWindow_Peek_predicts [OF this, of s r "de_srv env" b L "de_now env" m]
  show ?thesis using SlidingWindowLimiter assms(2-4)
    by (simp add: limiter_Peek_def limiter_Decide_def bucket_state_def)
next
  case (TokenBucketLimiter t)
  with assms(2) obtain st e where c: "tb_content L (entry r (de_srv env) (tb_key (tbl_rule t) b)) st e" "\<bar>de_now env\<bar> \<le> 10 ^ 14"
    "0 < tbl_capacity t" "tbl_capacity t \<le> 2 ^ 53" by (auto simp: bucket_state_def)
  from redis_lua.tokenBucket_Peek_predicts [OF assms(1) this] show ?thesis
    using TokenBucketLimiter assms(3) by (simp add: limiter_Peek_def limiter_Decide_def)
qed

subsection \<open>The actor of a request\<close>

text \<open>
  Property C23. The labels of a proxied request. A system label comes from the initiating actor or
  else from the connection, and the labels sent with the request never replace one; a user label
  comes from the request or else from the connection. In particular the actor that rate limits
  count by is the actor who initiated the request.
\<close>

theorem request_labels_authentic:
  assumes "wf_map (cc_labels c)" "wf_map labels" "HasPrefix (ca_id a) ''act_''" "ri_labels ri0 = []"
    and "ri = ForLabels labels (ForActor (Some a) (ForConnection c (ForRequestType rt ri0)))"
  shows "map_of (ri_labels ri) k =
      (if HasPrefix k ApxyReservedPrefix then
         (case map_of (actorContribution a) k of Some v \<Rightarrow> Some v | None \<Rightarrow> map_of (cc_labels c) k)
       else (case map_of labels k of Some v \<Rightarrow> Some v | None \<Rightarrow> map_of (cc_labels c) k))
    \<and> rc_actor_id (buildRequestContext ri req) = ca_id a"
proof -
  let ?r1 = "ForConnection c (ForRequestType rt ri0)"
  have r1: "wf_map (ri_labels ?r1)" "map_of (ri_labels ?r1) = map_of (cc_labels c)"
    using assms(1,4) by (simp_all add: ForConnection_labels ForRequestType_def wf_put_all map_of_put_all)
  note actor = map_of_ForActor [OF assms(3) r1(1)]
  have labels: "map_of (ri_labels ri) x =
      (if HasPrefix x ApxyReservedPrefix then map_of (ri_labels (ForActor (Some a) ?r1)) x
       else case map_of labels x of Some v \<Rightarrow> Some v | None \<Rightarrow> map_of (ri_labels (ForActor (Some a) ?r1)) x)" for x
    unfolding assms(5) by (rule map_of_ForLabels [OF assms(2) wf_ForActor [OF r1(1)]])
  have user: "\<not> HasPrefix k ApxyReservedPrefix \<Longrightarrow> map_of (actorContribution a) k = None"
    using actorContribution_apxy [OF assms(3), of k] by (simp add: map_of_eq_None_iff) blast
  have "act_label ''-/id'' = actorIDLabelKey" "HasPrefix actorIDLabelKey ApxyReservedPrefix" by code_simp+
  then have "map_of (ri_labels ri) actorIDLabelKey = Some (ca_id a)"
    using labels [of actorIDLabelKey] actor [of actorIDLabelKey] actorContribution_id [OF assms(3)] by simp
  then have "rc_actor_id (buildRequestContext ri req) = ca_id a" by (simp add: buildRequestContext_def)
  with labels [of k] actor [of k] user r1(2) show ?thesis by (simp split: option.split)
qed

subsection \<open>Examples\<close>

definition sample_limit :: "string \<Rightarrow> string \<Rightarrow> int \<Rightarrow> db_rate_limit" where
  "sample_limit i mode window =
     \<lparr>RL_Id = i, RL_Namespace = ''root'', RL_Name = i,
      RL_Definition =
        \<lparr>rl_mode = mode,
         rl_selector = \<lparr>sel_label_selector = [], sel_methods = [], sel_path_match = None, sel_request_types = None\<rparr>,
         rl_dimensions = [''connection''],
         rl_algorithm =
           \<lparr>FixedWindow = Some \<lparr>fw_window = window, fw_limit = 1\<rparr>, SlidingWindow = None, TokenBucket = None\<rparr>\<rparr>,
      RL_Labels = [], RL_Annotations = [], RL_CreatedAt = 0, RL_UpdatedAt = 0, RL_DeletedAt = None\<rparr>"

definition sample_rules :: "db_rate_limit option list" where
  "sample_rules =
     [Some (sample_limit ''rl_1'' ''enforce'' 60000000000), None, Some (sample_limit ''rl_2'' [] 300000000000),
      Some (sample_limit ''rl_3'' ''observe'' 600000000000)]"

definition sample_info :: request_info where
  "sample_info =
     \<lparr>ri_namespace = ''root'', ri_type = ''proxy'', ri_connector_id = ''cxr_1'', ri_connector_version = 1,
      ri_connection_id = ''cxn_1'', ri_labels = [], ri_rate_limiting = None, ri_propagate_trace = None\<rparr>"

definition sample_decide_env :: "net \<Rightarrow> int \<Rightarrow> nat \<Rightarrow> decide_env" where
  "sample_decide_env net t i = \<lparr>de_net = net, de_member = Inr ''m'', de_now = t, de_srv = t\<rparr>"

text \<open>Every rule has counted one request of the connection in the window that starts at time zero.\<close>

definition sample_counted :: mem_redis where
  "sample_counted =
     (let count = (\<lambda>i w. (fw_key i [(''connection'', ''cxn_1'')] 0, RString ''1'', Some w))
      in [count ''rl_1'' 60000, count ''rl_2'' 300000, count ''rl_3'' 600000])"

lemma sample_rules_usable: "\<forall>rl. Some rl \<in> set sample_rules \<longrightarrow> usable sample_compile rl"
proof -
  have "usable sample_compile (sample_limit ''rl_1'' ''enforce'' 60000000000)"
    "usable sample_compile (sample_limit ''rl_2'' [] 300000000000)"
    "usable sample_compile (sample_limit ''rl_3'' ''observe'' 600000000000)" by code_simp+
  then show ?thesis by (auto simp: sample_rules_def)
qed

definition sample_matched :: "matched_rule list" where
  "sample_matched = findMatches sample_compile sample_rules (buildRequestContext sample_info sample_request)"

lemma sample_matches:
  "sample_matched =
     (let b = [(''connection'', ''cxn_1'')]
      in [\<lparr>mr_rule = sample_limit ''rl_1'' ''enforce'' 60000000000, mr_mode = ''enforce'', mr_bucket = b\<rparr>,
          \<lparr>mr_rule = sample_limit ''rl_2'' [] 300000000000, mr_mode = ''enforce'', mr_bucket = b\<rparr>,
          \<lparr>mr_rule = sample_limit ''rl_3'' ''observe'' 600000000000, mr_mode = ''observe'', mr_bucket = b\<rparr>])"
  by code_simp

lemma sample_decisions:
  "map (\<lambda>x. (RL_Id (mr_rule (fst x)), snd x))
     (case decisions fixed_point mem_redis_ops (sample_decide_env Reached 1000) 0 sample_matched sample_counted of
        (Inr ds, _) \<Rightarrow> ds | _ \<Rightarrow> []) =
   [(''rl_1'', reject 59000), (''rl_2'', reject 299000), (''rl_3'', reject 599000)]"
  unfolding sample_matches by code_simp

theorem enforcer_strictest_witness:
  "\<exists>w1. enforcer_RoundTrip sample_compile fixed_point mem_redis_ops (sample_decide_env Reached 1000) sample_rules sample_info
          (answering sample_refusal) sample_request (sample_world\<lparr>w_redis := sample_counted\<rparr>) =
        (Inr (Inr (enforcer_TooManyRequests ''rl_2'' 299000000000)), w1) \<and> w_upstream w1 = 0"
proof -
  let ?w = "sample_world\<lparr>w_redis := sample_counted\<rparr>" and ?env = "sample_decide_env Reached 1000"
  obtain ds w1 where ds: "decisions fixed_point mem_redis_ops ?env 0 sample_matched (w_redis ?w) = (Inr ds, w_redis w1)"
    "map fst ds = sample_matched" and up: "w_upstream w1 = w_upstream ?w"
    and rej: "filter rejects ds \<noteq> [] \<longrightarrow>
         (\<exists>m d. (m, d) \<in> set (filter rejects ds) \<and> (\<forall>x \<in> set (filter rejects ds). RetryAfter (snd x) \<le> RetryAfter d)
            \<and> enforcer_RoundTrip sample_compile fixed_point mem_redis_ops ?env sample_rules sample_info
                (answering sample_refusal) sample_request ?w =
                (Inr (Inr (enforcer_TooManyRequests (RL_Id (mr_rule m)) (RetryAfter d))), w1))"
    using enforcer_strictest [OF sample_rules_usable sample_matched_def, of fixed_point mem_redis_ops ?env ?w "answering sample_refusal"]
    by blast
  have "map (\<lambda>x. (RL_Id (mr_rule (fst x)), snd x)) ds = [(''rl_1'', reject 59000), (''rl_2'', reject 299000), (''rl_3'', reject 599000)]"
    using sample_decisions ds(1) by simp
  then obtain a b c where l: "ds = [a, b, c]" "snd a = reject 59000" "snd b = reject 299000" "snd c = reject 599000"
    "RL_Id (mr_rule (fst b)) = ''rl_2''" by (auto simp: map_eq_Cons_conv)
  have m: "mr_mode (fst a) = ''enforce''" "mr_mode (fst b) = ''enforce''" "mr_mode (fst c) = ''observe''"
    using ds(2) l(1) by (simp_all add: sample_matches Let_def)
  have f: "filter rejects ds = [a, b]" using l m by (simp add: rejects_def reject_def)
  have t: "RetryAfter (snd a) < RetryAfter (snd b)" "RetryAfter (snd b) = 299000000000"
    using l by (simp_all add: reject_def wrap64_id)
  from rej obtain m d where "(m, d) \<in> {a, b}" "\<forall>x \<in> {a, b}. RetryAfter (snd x) \<le> RetryAfter d"
    "enforcer_RoundTrip sample_compile fixed_point mem_redis_ops ?env sample_rules sample_info
        (answering sample_refusal) sample_request ?w = (Inr (Inr (enforcer_TooManyRequests (RL_Id (mr_rule m)) (RetryAfter d))), w1)"
    by (auto simp: f)
  moreover have "(m, d) = b" using calculation(1,2) t by auto
  ultimately show ?thesis using l(5) t(2) up by (auto simp: sample_world_def)
qed

theorem enforcer_fails_open_witness:
  "\<exists>w1. enforcer_RoundTrip sample_compile fixed_point mem_redis_ops (sample_decide_env (FailedBefore (Err ''down'')) 1000)
          sample_rules sample_info (answering sample_refusal) sample_request (sample_world\<lparr>w_redis := sample_counted\<rparr>) =
        answering sample_refusal sample_request w1 \<and> w_redis w1 = sample_counted"
proof -
  have "\<forall>i. \<exists>e. de_net (sample_decide_env (FailedBefore (Err ''down'')) 1000 i) = FailedBefore e"
    by (simp add: sample_decide_env_def)
  from enforcer_fails_open [OF sample_rules_usable this, where w = "sample_world\<lparr>w_redis := sample_counted\<rparr>"
      and L = fixed_point and ops = mem_redis_ops and ri = sample_info and tr = "answering sample_refusal" and req = sample_request]
  obtain w1 where w1: "enforcer_RoundTrip sample_compile fixed_point mem_redis_ops (sample_decide_env (FailedBefore (Err ''down'')) 1000)
      sample_rules sample_info (answering sample_refusal) sample_request (sample_world\<lparr>w_redis := sample_counted\<rparr>) =
      answering sample_refusal sample_request w1" "w_redis w1 = w_redis (sample_world\<lparr>w_redis := sample_counted\<rparr>)"
    by (elim exE conjE)
  from w1(2) have "w_redis w1 = sample_counted" by simp
  with w1(1) show ?thesis by (intro exI [of _ w1] conjI)
qed

theorem limiter_Peek_predicts_witness:
  "fst (limiter_Peek fixed_point mem_redis_ops (sample_decide_env Reached 1000 0)
          (FixedWindowLimiter (newFixedWindowLimiter ''rl_1'' \<lparr>fw_window = 60000000000, fw_limit = 1\<rparr>))
          [(''connection'', ''cxn_1'')] sample_counted) = Inr (reject 59000, None)"
proof -
  let ?l = "FixedWindowLimiter (newFixedWindowLimiter ''rl_1'' \<lparr>fw_window = 60000000000, fw_limit = 1\<rparr>)"
  let ?env = "sample_decide_env Reached 1000 0" and ?b = "[(''connection'', ''cxn_1'')]"
  have e: "de_net ?env = Reached" "de_member ?env = Inr ''m''" "de_now ?env = 1000" "de_srv ?env = 1000"
    by (simp_all add: sample_decide_env_def)
  have "mem_entry sample_counted 1000 (fw_key ''rl_1'' ?b (quot 1000 (Milliseconds 60000000000))) =
      Some (RString (FormatInt 1), Some 60000)" by code_simp
  then have "bucket_state mem_entry fixed_point ?l ?b (de_now ?env) (de_srv ?env) sample_counted"
    unfolding e by (auto simp: bucket_state_def newFixedWindowLimiter_def counter_entry_def)
  from limiter_Peek_predicts [OF mredis_lua.redis_lua_axioms this e(1,2)]
  have "fst (limiter_Peek fixed_point mem_redis_ops ?env ?l ?b sample_counted) =
      fst (limiter_Decide fixed_point mem_redis_ops ?env ?l ?b sample_counted)" by simp
  also have "\<dots> = Inr (reject 59000, None)" by code_simp
  finally show ?thesis .
qed

theorem request_labels_authentic_witness:
  "let c = \<lparr>cc_id = ''cxn_1'', cc_namespace = ''root'', cc_connector_id = ''cxr_1'', cc_connector_version = 1,
            cc_labels = [(''team'', ''a'')], cc_rate_limit_config = None, cc_propagate_trace = None\<rparr>;
       a = \<lparr>ca_id = ''act_7'', ca_name = [], ca_namespace = ''root'', ca_labels = []\<rparr>;
       ri = ForLabels [(''team'', ''b''), (''apxy/act/-/id'', ''act_1'')] (ForActor (Some a) (ForConnection c (ForRequestType ''proxy'' (sample_info\<lparr>ri_labels := []\<rparr>))))
   in map_of (ri_labels ri) ''team'' = Some ''b'' \<and> rc_actor_id (buildRequestContext ri sample_request) = ''act_7''"
proof -
  let ?c = "\<lparr>cc_id = ''cxn_1'', cc_namespace = ''root'', cc_connector_id = ''cxr_1'', cc_connector_version = 1,
            cc_labels = [(''team'', ''a'')], cc_rate_limit_config = None, cc_propagate_trace = None\<rparr>"
  let ?a = "\<lparr>ca_id = ''act_7'', ca_name = [], ca_namespace = ''root'', ca_labels = []\<rparr>"
  have h: "wf_map (cc_labels ?c)" "wf_map [(''team'', ''b''), (''apxy/act/-/id'', ''act_1'')]" "HasPrefix (ca_id ?a) ''act_''"
    "ri_labels (sample_info\<lparr>ri_labels := []\<rparr>) = []" by code_simp+
  have t: "\<not> HasPrefix ''team'' ApxyReservedPrefix" by code_simp
  show ?thesis
    unfolding Let_def
    using request_labels_authentic [OF h refl, of "''proxy''" "''team''" sample_request] t by simp
qed

text \<open>
  Validation accepts a window shorter than a millisecond, which the limiter divides by after
  rounding it down to zero milliseconds: the request panics.
\<close>

lemma submillisecond_window_panics:
  "RateLimit_Validate sample_compile (RL_Definition (sample_limit ''rl_1'' [] 500000)) = None
   \<and> fst (enforcer_RoundTrip sample_compile fixed_point mem_redis_ops (sample_decide_env Reached 1000)
            [Some (sample_limit ''rl_1'' [] 500000)] sample_info (answering sample_refusal) sample_request sample_world) =
      Inl ''integer divide by zero''"
  by code_simp

text \<open>
  The middlewares wrap each other in the order of the dependency manager, the enforcer around the
  reactive limiter. A request of a connection that is blocked is answered by the reactive limiter
  only after the enforcer has counted it.
\<close>

lemma blocked_request_is_counted:
  "let chain = buildWrappedTransport
         [reactive_NewRoundTripper mem_redis_ops (sample_store_env 1000),
          enforcer_NewRoundTripper sample_compile fixed_point mem_redis_ops (sample_decide_env Reached 1000)
            (Some [Some (sample_limit ''rl_1'' [] 60000000000)])] sample_info (answering sample_refusal);
       (resp, w1) = chain sample_request
         \<lparr>w_redis = [(blockedKey ''cxn_1'', RString ''1'', Some 31000)],
          w_attr = Some \<lparr>at_source = [], at_rate_limit_id = [], at_rate_limit_mode = [], at_rate_limit_bucket = [],
                         at_rate_limit_matched = []\<rparr>,
          w_upstream = 0\<rparr>
   in map_option at_source (w_attr w1) = Some ''connector_rate_limiter'' \<and> w_upstream w1 = 0
      \<and> map_of (w_redis w1) (fw_key ''rl_1'' [(''connection'', ''cxn_1'')] 0) = Some (RString ''1'', Some 61000)"
  by code_simp

end
