(* ===== verification/Rate_Limit_Store.thy ===== *)
theory Rate_Limit_Store
  imports Sql_Tables Rate_Json Enforcer
begin

text \<open>
  Stored rate limits (\<^verbatim>\<open>internal/database/rate_limit.go\<close>): rows and their columns, creation, the
  edits of definition, name, labels and annotations, deletion and the list builder. An operation
  takes the database and returns the new one with its error or result; a pointer result is an
  option. The lemmas show that every stored row is well formed, when a stored row can be read, and
  what a listing returns.
\<close>

subsection \<open>Rows\<close>

definition PrefixRateLimit :: string where "PrefixRateLimit = ''rl_''"

definition zero_definition :: rl_definition where
  "zero_definition = \<lparr>rl_mode = [],
     rl_selector = \<lparr>sel_label_selector = [], sel_methods = [], sel_path_match = None, sel_request_types = None\<rparr>,
     rl_dimensions = [], rl_algorithm = \<lparr>FixedWindow = None, SlidingWindow = None, TokenBucket = None\<rparr>\<rparr>"

definition scan_definition :: "sql_value \<Rightarrow> gerror + rl_definition" where
  "scan_definition v =
     (case v of
        VNull \<Rightarrow> Inr zero_definition
      | VDoc j \<Rightarrow> RateLimit_of_json j
      | _ \<Rightarrow> Inl (Errf ''rateLimitDefDB: cannot scan %T'' []))"

definition rate_limit_fields :: "row \<Rightarrow> gerror + db_rate_limit" where
  "rate_limit_fields r =
     result_bind (scan_id (r ''id'')) (\<lambda>i.
     result_bind (scan_text (r ''namespace'')) (\<lambda>ns.
     result_bind (scan_text (r ''name'')) (\<lambda>name.
     result_bind (scan_definition (r ''definition'')) (\<lambda>d.
     result_bind (scan_map ''Labels'' (r ''labels'')) (\<lambda>l.
     result_bind (scan_map ''Annotations'' (r ''annotations'')) (\<lambda>a.
     result_bind (scan_time (r ''created_at'')) (\<lambda>created.
     result_bind (scan_time (r ''updated_at'')) (\<lambda>updated.
     result_bind (scan_time_ptr (r ''deleted_at'')) (\<lambda>deleted.
       Inr \<lparr>RL_Id = i, RL_Namespace = ns, RL_Name = name, RL_Definition = d, RL_Labels = l, RL_Annotations = a,
            RL_CreatedAt = created, RL_UpdatedAt = updated, RL_DeletedAt = deleted\<rparr>)))))))))"

definition rate_limit_values :: "db_rate_limit \<Rightarrow> (string \<times> sql_value) list" where
  "rate_limit_values rl =
     [(''id'', id_value (RL_Id rl)), (''namespace'', VText (RL_Namespace rl)), (''name'', VText (RL_Name rl)),
      (''definition'', VDoc (RateLimit_json (RL_Definition rl))), (''labels'', map_value (RL_Labels rl)),
      (''annotations'', map_value (RL_Annotations rl)), (''created_at'', VTime (RL_CreatedAt rl)),
      (''updated_at'', VTime (RL_UpdatedAt rl)), (''deleted_at'', time_ptr_value (RL_DeletedAt rl))]"

definition rate_limit_normalize :: "db_rate_limit \<Rightarrow> db_rate_limit" where
  "rate_limit_normalize rl = (if RL_Name rl = [] \<and> RL_Id rl \<noteq> [] then rl\<lparr>RL_Name := RL_Id rl\<rparr> else rl)"

definition rate_limit_Validate :: "compile \<Rightarrow> db_rate_limit \<Rightarrow> err" where
  "rate_limit_Validate compile rl =
     (let wrap = (\<lambda>msg e. map_option (Wrapf msg []) e);
          e1 = (if RL_Id rl = [] then [Err ''id is required'']
                else append_if [] (ID_ValidatePrefix (RL_Id rl) PrefixRateLimit));
          e2 = append_if e1 (wrap ''invalid rate limit name: %w'' (ResourceName_Validate (RL_Name rl)));
          e3 = (if RL_Namespace rl = [] then multi_append e2 (Err ''namespace is required'') else e2);
          e4 = append_if e3 (wrap ''invalid definition: %w'' (RateLimit_Validate compile (RL_Definition rl)));
          e5 = append_if e4 (wrap ''invalid labels: %w'' (Labels_Validate (RL_Labels rl)));
          e6 = append_if e5 (wrap ''invalid annotations: %w'' (ValidateAnnotations (RL_Annotations rl)))
      in ErrorOrNil e6)"

subsection \<open>Operations\<close>

definition GetRateLimit ::
  "('db, 'm) sql_ops_scheme \<Rightarrow> 'db \<Rightarrow> string \<Rightarrow> gerror + db_rate_limit option" where
  "GetRateLimit ops db i =
     (case sql_query_row ops db RateLimitsTable (live_id i) of
        Inl e \<Rightarrow> Inl e
      | Inr None \<Rightarrow> Inl ErrNotFound
      | Inr (Some r) \<Rightarrow> result_bind (rate_limit_fields r) (\<lambda>rl. Inr (Some rl)))"

text \<open>The caller's record is changed in place, so it is a result as well.\<close>

definition CreateRateLimit ::
  "('db, 'm) sql_table_ops_scheme \<Rightarrow> (gerror \<Rightarrow> bool) \<Rightarrow> compile \<Rightarrow> int \<Rightarrow> 'db \<Rightarrow> db_rate_limit \<Rightarrow> 'db \<times> db_rate_limit \<times> err" where
  "CreateRateLimit ops unique compile now db rl0 =
     (let rl1 = rate_limit_normalize rl0 in
      case rate_limit_Validate compile rl1 of
        Some e \<Rightarrow> (db, rl1, Some e)
      | None \<Rightarrow> transaction ops db rl1 (\<lambda>tx.
          case fetchLabelsForCarryForward ops tx NamespacesTable (live_path (RL_Namespace rl1)) of
            Inl e \<Rightarrow> (tx, rl1, Some e)
          | Inr nsLabels \<Rightarrow>
              let labels = ApplyParentCarryForward (RL_Labels rl1) [\<lparr>pcf_Rt = NamespaceLabelToken, pcf_Labels = nsLabels\<rparr>];
                  labels' = InjectSelfImplicitLabels (RL_Id rl1) (RL_Name rl1) (RL_Namespace rl1) labels;
                  rl2 = rl1\<lparr>RL_Labels := labels', RL_CreatedAt := now, RL_UpdatedAt := now\<rparr>
              in (case sql_insert ops tx RateLimitsTable (rate_limit_values rl2) of
                    (tx', Inl e) \<Rightarrow> (tx', rl2, wrapDatabaseMutationError unique ''failed to create rate limit'' (Some e))
                  | (tx', Inr (Inl e)) \<Rightarrow> (tx', rl2, Some (Wrapf ''failed to create rate limit: %w'' [] e))
                  | (tx', Inr (Inr affected)) \<Rightarrow>
                      (tx', rl2, if affected = 0 then Some (Err ''failed to create rate limit; no rows inserted'') else None))))"

definition UpdateRateLimitDefinition ::
  "('db, 'm) sql_ops_scheme \<Rightarrow> compile \<Rightarrow> int \<Rightarrow> 'db \<Rightarrow> string \<Rightarrow> rl_definition \<Rightarrow> 'db \<times> (gerror + db_rate_limit option)" where
  "UpdateRateLimitDefinition ops compile now db i def =
     (if i = [] then (db, Inl (Err ''rate limit id is required''))
      else case RateLimit_Validate compile def of
        Some e \<Rightarrow> (db, Inl (Wrapf ''invalid definition: %w'' [] e))
      | None \<Rightarrow>
          (case sql_update ops db RateLimitsTable
              [(''definition'', VDoc (RateLimit_json def)), (''updated_at'', VTime now)] (live_id i) of
             (db', Inl e) \<Rightarrow> (db', Inl (Wrapf ''failed to update rate limit definition: %w'' [] e))
           | (db', Inr (Inl e)) \<Rightarrow> (db', Inl (Wrapf ''failed to update rate limit definition: %w'' [] e))
           | (db', Inr (Inr affected)) \<Rightarrow>
               if affected = 0 then (db', Inl ErrNotFound) else (db', GetRateLimit ops db' i)))"

definition UpdateRateLimitName ::
  "('db, 'm) sql_ops_scheme \<Rightarrow> (gerror \<Rightarrow> bool) \<Rightarrow> int \<Rightarrow> 'db \<Rightarrow> string \<Rightarrow> string \<Rightarrow> 'db \<times> (gerror + db_rate_limit option)" where
  "UpdateRateLimitName ops unique now db i name =
     (if i = [] then (db, Inl (Err ''rate limit id is required''))
      else case ID_ValidatePrefix i PrefixRateLimit of
        Some e \<Rightarrow> (db, Inl (Wrapf ''invalid rate limit id: %w'' [] e))
      | None \<Rightarrow>
          (case ResourceName_Validate name of
             Some e \<Rightarrow> (db, Inl (Wrapf ''invalid rate limit name: %w'' [] e))
           | None \<Rightarrow>
               (case updateResourceNameAndSelfLabels ops unique now db RateLimitsTable i name of
                  (db', Some e) \<Rightarrow> (db', Inl e)
                | (db', None) \<Rightarrow> (db', GetRateLimit ops db' i))))"

definition DeleteRateLimit :: "('db, 'm) sql_ops_scheme \<Rightarrow> int \<Rightarrow> 'db \<Rightarrow> string \<Rightarrow> 'db \<times> err" where
  "DeleteRateLimit ops now db i =
     (case sql_update ops db RateLimitsTable [(''updated_at'', VTime now), (''deleted_at'', VTime now)] (live_id i) of
        (db', Inl e) \<Rightarrow> (db', Some (Wrapf ''failed to soft delete rate limit: %w'' [] e))
      | (db', Inr (Inl e)) \<Rightarrow> (db', Some (Wrapf ''failed to soft delete rate limit: %w'' [] e))
      | (db', Inr (Inr affected)) \<Rightarrow> (db', if affected = 0 then Some ErrNotFound else None))"

text \<open>
  The edits of labels and annotations read the row and edit it in one transaction. \<open>edit\<close> is the
  edit with the function that puts its result into the record that was read.
\<close>

definition edit_rate_limit ::
  "('db, 'm) sql_ops_scheme \<Rightarrow> 'db \<Rightarrow> string \<Rightarrow> ('db \<Rightarrow> 'db \<times> (gerror + (db_rate_limit \<Rightarrow> db_rate_limit))) \<Rightarrow>
   'db \<times> (gerror + db_rate_limit option)" where
  "edit_rate_limit ops db i edit =
     (case transaction ops db None (\<lambda>tx.
        case GetRateLimit ops tx i of
          Inl e \<Rightarrow> (tx, None, Some e)
        | Inr rl \<Rightarrow>
            (case edit tx of
               (tx', Inl e) \<Rightarrow> (tx', None, Some e)
             | (tx', Inr set_fields) \<Rightarrow> (tx', map_option set_fields rl, None))) of
        (db', result, Some e) \<Rightarrow> (db', Inl e)
      | (db', result, None) \<Rightarrow> (db', Inr result))"

definition set_labels :: "smap \<times> int \<Rightarrow> db_rate_limit \<Rightarrow> db_rate_limit" where
  "set_labels = (\<lambda>(labels, now) rl. rl\<lparr>RL_Labels := labels, RL_UpdatedAt := now\<rparr>)"

definition set_annotations :: "smap \<times> int \<Rightarrow> db_rate_limit \<Rightarrow> db_rate_limit" where
  "set_annotations = (\<lambda>(annotations, now) rl. rl\<lparr>RL_Annotations := annotations, RL_UpdatedAt := now\<rparr>)"

definition UpdateRateLimitLabels ::
  "('db, 'm) sql_ops_scheme \<Rightarrow> int \<Rightarrow> 'db \<Rightarrow> string \<Rightarrow> smap \<Rightarrow> 'db \<times> (gerror + db_rate_limit option)" where
  "UpdateRateLimitLabels ops now db i labels =
     (if i = [] then (db, Inl (Err ''rate limit id is required''))
      else case ValidateUserLabels labels of
        Some e \<Rightarrow> (db, Inl (Wrapf ''invalid labels: %w'' [] e))
      | None \<Rightarrow> edit_rate_limit ops db i (\<lambda>tx.
          apsnd (map_sum id set_labels) (replaceUserLabelsInTableTx ops now tx RateLimitsTable (live_id i) labels)))"

definition PutRateLimitLabels ::
  "('db, 'm) sql_ops_scheme \<Rightarrow> int \<Rightarrow> 'db \<Rightarrow> string \<Rightarrow> smap \<Rightarrow> 'db \<times> (gerror + db_rate_limit option)" where
  "PutRateLimitLabels ops now db i labels =
     (if i = [] then (db, Inl (Err ''rate limit id is required''))
      else if length labels = 0 then (db, GetRateLimit ops db i)
      else case ValidateUserLabels labels of
        Some e \<Rightarrow> (db, Inl (Wrapf ''invalid labels: %w'' [] e))
      | None \<Rightarrow> edit_rate_limit ops db i (\<lambda>tx.
          apsnd (map_sum id set_labels) (putLabelsInTableTx ops now tx RateLimitsTable (live_id i) labels)))"

definition DeleteRateLimitLabels ::
  "('db, 'm) sql_ops_scheme \<Rightarrow> int \<Rightarrow> 'db \<Rightarrow> string \<Rightarrow> string list \<Rightarrow> 'db \<times> (gerror + db_rate_limit option)" where
  "DeleteRateLimitLabels ops now db i ks =
     (if i = [] then (db, Inl (Err ''rate limit id is required''))
      else if length ks = 0 then (db, GetRateLimit ops db i)
      else case ValidateUserLabelDeletionKeys ks of
        Some e \<Rightarrow> (db, Inl (Wrapf ''invalid label keys: %w'' [] e))
      | None \<Rightarrow> edit_rate_limit ops db i (\<lambda>tx.
          apsnd (map_sum id set_labels) (deleteLabelsInTableTx ops now tx RateLimitsTable (live_id i) ks)))"

definition UpdateRateLimitAnnotations ::
  "('db, 'm) sql_ops_scheme \<Rightarrow> int \<Rightarrow> 'db \<Rightarrow> string \<Rightarrow> smap \<Rightarrow> 'db \<times> (gerror + db_rate_limit option)" where
  "UpdateRateLimitAnnotations ops now db i annotations =
     (if i = [] then (db, Inl (Err ''rate limit id is required''))
      else case ValidateAnnotations annotations of
        Some e \<Rightarrow> (db, Inl (Wrapf ''invalid annotations: %w'' [] e))
      | None \<Rightarrow> edit_rate_limit ops db i (\<lambda>tx.
          apsnd (map_sum id (\<lambda>ts. set_annotations (annotations, ts)))
            (updateAnnotationsInTableTx ops now tx RateLimitsTable (live_id i) annotations)))"

definition PutRateLimitAnnotations ::
  "('db, 'm) sql_ops_scheme \<Rightarrow> int \<Rightarrow> 'db \<Rightarrow> string \<Rightarrow> smap \<Rightarrow> 'db \<times> (gerror + db_rate_limit option)" where
  "PutRateLimitAnnotations ops now db i annotations =
     (if i = [] then (db, Inl (Err ''rate limit id is required''))
      else if length annotations = 0 then (db, GetRateLimit ops db i)
      else case ValidateAnnotations annotations of
        Some e \<Rightarrow> (db, Inl (Wrapf ''invalid annotations: %w'' [] e))
      | None \<Rightarrow> edit_rate_limit ops db i (\<lambda>tx.
          apsnd (map_sum id set_annotations) (putAnnotationsInTableTx ops now tx RateLimitsTable (live_id i) annotations)))"

definition DeleteRateLimitAnnotations ::
  "('db, 'm) sql_ops_scheme \<Rightarrow> int \<Rightarrow> 'db \<Rightarrow> string \<Rightarrow> string list \<Rightarrow> 'db \<times> (gerror + db_rate_limit option)" where
  "DeleteRateLimitAnnotations ops now db i ks =
     (if i = [] then (db, Inl (Err ''rate limit id is required''))
      else if length ks = 0 then (db, GetRateLimit ops db i)
      else edit_rate_limit ops db i (\<lambda>tx.
          apsnd (map_sum id set_annotations) (deleteAnnotationsInTableTx ops now tx RateLimitsTable (live_id i) ks)))"

subsection \<open>Listing\<close>

text \<open>An order is the empty pointer, or any string; anything but \<^verbatim>\<open>DESC\<close> sorts ascending.\<close>

definition IsDesc :: "string option \<Rightarrow> bool" where
  "IsDesc ob = (case ob of None \<Rightarrow> False | Some s \<Rightarrow> s = ''DESC'')"

definition IsAsc :: "string option \<Rightarrow> bool" where
  "IsAsc ob = (case ob of None \<Rightarrow> True | Some s \<Rightarrow> s = ''ASC'')"

definition OrderBy_String :: "string option \<Rightarrow> string" where
  "OrderBy_String ob =
     (case ob of None \<Rightarrow> ''ASC'' | Some s \<Rightarrow> if \<not> IsAsc (Some s) \<and> \<not> IsDesc (Some s) then ''ASC'' else s)"

record rl_filters = list_filters +
  NamespaceMatchers :: "string list"
  NameVal :: "string option"
  OrderByFieldVal :: "string option"
  OrderByVal :: "string option"
  IncludeDeletedVal :: bool
  LabelSelectorVal :: "string option"

definition ListRateLimitsBuilder :: rl_filters where
  "ListRateLimitsBuilder = \<lparr>LimitVal = 100, Offset = 0, Errors = [], NamespaceMatchers = [], NameVal = None,
     OrderByFieldVal = None, OrderByVal = None, IncludeDeletedVal = False, LabelSelectorVal = None\<rparr>"

definition addError :: "rl_filters \<Rightarrow> gerror \<Rightarrow> rl_filters" where
  "addError l e = l\<lparr>Errors := multi_append (Errors l) e\<rparr>"

text \<open>The limit is a 32-bit integer that is sign extended.\<close>

definition Limit :: "rl_filters \<Rightarrow> 32 word \<Rightarrow> rl_filters" where
  "Limit l limit = l\<lparr>LimitVal := signed limit\<rparr>"

definition ForNamespaceMatcher :: "rl_filters \<Rightarrow> string \<Rightarrow> rl_filters" where
  "ForNamespaceMatcher l matcher =
     (case ValidateMatcher matcher of Some e \<Rightarrow> addError l e | None \<Rightarrow> l\<lparr>NamespaceMatchers := [matcher]\<rparr>)"

fun first_invalid :: "string list \<Rightarrow> err" where
  "first_invalid [] = None"
| "first_invalid (m # ms) = (case ValidateMatcher m of Some e \<Rightarrow> Some e | None \<Rightarrow> first_invalid ms)"

definition ForNamespaceMatchers :: "rl_filters \<Rightarrow> string list \<Rightarrow> rl_filters" where
  "ForNamespaceMatchers l matchers =
     (case first_invalid matchers of Some e \<Rightarrow> addError l e | None \<Rightarrow> l\<lparr>NamespaceMatchers := matchers\<rparr>)"

definition ForName :: "rl_filters \<Rightarrow> string \<Rightarrow> rl_filters" where
  "ForName l name = (case ResourceName_Validate name of Some e \<Rightarrow> addError l e | None \<Rightarrow> l\<lparr>NameVal := Some name\<rparr>)"

definition filters_OrderBy :: "rl_filters \<Rightarrow> string \<Rightarrow> string \<Rightarrow> rl_filters" where
  "filters_OrderBy l field by = l\<lparr>OrderByFieldVal := Some field, OrderByVal := Some by\<rparr>"

definition IncludeDeleted :: "rl_filters \<Rightarrow> rl_filters" where
  "IncludeDeleted l = l\<lparr>IncludeDeletedVal := True\<rparr>"

definition ForLabelSelector :: "rl_filters \<Rightarrow> string \<Rightarrow> rl_filters" where
  "ForLabelSelector l selector = l\<lparr>LabelSelectorVal := Some selector\<rparr>"

definition FromCursor :: "(string \<Rightarrow> gerror + rl_filters) \<Rightarrow> string \<Rightarrow> gerror + rl_filters" where
  "FromCursor parse cursor = parse cursor"

definition applyRestrictions :: "provider \<Rightarrow> rl_filters \<Rightarrow> rl_filters \<times> list_query" where
  "applyRestrictions provider l0 =
     (let (l1, labels) =
            (case LabelSelectorVal l0 of
               None \<Rightarrow> (l0, [])
             | Some sel \<Rightarrow>
                 (case ParseLabelSelector sel of
                    Inl e \<Rightarrow> (addError l0 e, [])
                  | Inr selector \<Rightarrow> (l0, ApplyToSqlBuilderWithProvider selector [] provider)));
          l2 = (if LimitVal l1 \<le> 0 then l1\<lparr>LimitVal := 100\<rparr> else l1);
          deleted = (if \<not> IncludeDeletedVal l2 then [WEq ''deleted_at'' VNull] else []);
          ns = (if length (NamespaceMatchers l2) > 0 then restrictToNamespaceMatchers [] (NamespaceMatchers l2) else []);
          name = (case NameVal l2 of None \<Rightarrow> [] | Some n \<Rightarrow> [WEq ''name'' (VText n)])
      in (l2, \<lparr>lq_where = deleted @ name, lq_namespaces = ns, lq_labels = labels,
               lq_order = (case OrderByFieldVal l2 of None \<Rightarrow> [] | Some f \<Rightarrow> [(f, OrderBy_String (OrderByVal l2))]),
               lq_limit = unat (LimitVal l2 + 1), lq_offset = unat (Offset l2)\<rparr>))"

definition run_rate_limits ::
  "('db, 'm) sql_table_ops_scheme \<Rightarrow> provider \<Rightarrow> 'db \<Rightarrow> rl_filters \<Rightarrow> rl_filters \<times> (gerror + db_rate_limit list)" where
  "run_rate_limits ops provider db l0 =
     (let (l, q) = applyRestrictions provider l0
      in (l, case sql_select ops db RateLimitsTable q of Inl e \<Rightarrow> Inl e | Inr rs \<Rightarrow> scan_all rate_limit_fields rs))"

definition FetchPage ::
  "('db, 'm) sql_table_ops_scheme \<Rightarrow> provider \<Rightarrow> (rl_filters \<Rightarrow> gerror + string) \<Rightarrow> 'db \<Rightarrow> rl_filters \<Rightarrow>
   rl_filters \<times> db_rate_limit page_result" where
  "FetchPage ops provider cursor db l = fetchPage (run_rate_limits ops provider db) cursor l"

subsection \<open>Every stored row is well formed\<close>

definition rl_row_ok :: "compile \<Rightarrow> row \<Rightarrow> bool" where
  "rl_row_ok compile r \<longleftrightarrow>
     (\<exists>i. r ''id'' = VText i \<and> HasPrefix i PrefixRateLimit) \<and>
     (\<exists>n. r ''name'' = VText n \<and> ResourceName_Validate n = None) \<and>
     (\<exists>ns. r ''namespace'' = VText ns \<and> ns \<noteq> []) \<and>
     (\<exists>d. r ''definition'' = VDoc (RateLimit_json d) \<and> RateLimit_Validate compile d = None)"

lemma rl_row_ok_reads: "reads_only {''id'', ''name'', ''namespace'', ''definition''} (rl_row_ok compile)"
  by (simp add: reads_only_def rl_row_ok_def)

lemma append_if_wrapped: "append_if es (map_option (Wrapf msg args) e) = [] \<longleftrightarrow> es = [] \<and> e = None"
  by (cases e) (simp_all add: append_if_def)

lemma append_if_prefix: "append_if [] (ID_ValidatePrefix i p) = [] \<longleftrightarrow> i = [] \<or> HasPrefix i p"
  by (simp add: append_if_def ID_ValidatePrefix_def ID_HasPrefix_def)

lemma rate_limit_Validate_None:
  assumes "rate_limit_Validate compile rl = None"
  shows "HasPrefix (RL_Id rl) PrefixRateLimit \<and> RL_Id rl \<noteq> [] \<and> ResourceName_Validate (RL_Name rl) = None \<and>
    RL_Namespace rl \<noteq> [] \<and> RateLimit_Validate compile (RL_Definition rl) = None"
  using assms
  by (auto simp: rate_limit_Validate_def Let_def append_if_wrapped append_if_prefix split: if_splits)

definition stored_ok :: "compile \<Rightarrow> (string \<Rightarrow> row list) \<Rightarrow> bool" where
  "stored_ok compile R \<longleftrightarrow> table_all (rl_row_ok compile) RateLimitsTable R"

lemma values_ok:
  assumes "rate_limit_Validate compile rl = None"
  shows "rl_row_ok compile (assign (rate_limit_values (rl\<lparr>RL_Labels := l, RL_CreatedAt := c, RL_UpdatedAt := u\<rparr>)) (\<lambda>_. VNull))"
  using rate_limit_Validate_None [OF assms] by (auto simp: rl_row_ok_def rate_limit_values_def assign_def id_value_def)

text \<open>The operations that change stored rate limits, with their arguments.\<close>

datatype rl_op =
    OpCreate db_rate_limit
  | OpDefinition string rl_definition
  | OpName string string
  | OpDelete string
  | OpUpdateLabels string smap
  | OpPutLabels string smap
  | OpDeleteLabels string "string list"
  | OpUpdateAnnotations string smap
  | OpPutAnnotations string smap
  | OpDeleteAnnotations string "string list"

fun rl_exec :: "('db, 'm) sql_table_ops_scheme \<Rightarrow> (gerror \<Rightarrow> bool) \<Rightarrow> compile \<Rightarrow> int \<times> rl_op \<Rightarrow> 'db \<Rightarrow> 'db" where
  "rl_exec ops unique compile (now, OpCreate rl) db = fst (CreateRateLimit ops unique compile now db rl)"
| "rl_exec ops unique compile (now, OpDefinition i d) db = fst (UpdateRateLimitDefinition ops compile now db i d)"
| "rl_exec ops unique compile (now, OpName i n) db = fst (UpdateRateLimitName ops unique now db i n)"
| "rl_exec ops unique compile (now, OpDelete i) db = fst (DeleteRateLimit ops now db i)"
| "rl_exec ops unique compile (now, OpUpdateLabels i m) db = fst (UpdateRateLimitLabels ops now db i m)"
| "rl_exec ops unique compile (now, OpPutLabels i m) db = fst (PutRateLimitLabels ops now db i m)"
| "rl_exec ops unique compile (now, OpDeleteLabels i ks) db = fst (DeleteRateLimitLabels ops now db i ks)"
| "rl_exec ops unique compile (now, OpUpdateAnnotations i m) db = fst (UpdateRateLimitAnnotations ops now db i m)"
| "rl_exec ops unique compile (now, OpPutAnnotations i m) db = fst (PutRateLimitAnnotations ops now db i m)"
| "rl_exec ops unique compile (now, OpDeleteAnnotations i ks) db = fst (DeleteRateLimitAnnotations ops now db i ks)"

context sql_db
begin

lemma edit_table_all:
  assumes "table_all P t (rows db)" "table_all P t (rows (fst (edit db)))"
  shows "table_all P t (rows (fst (edit_rate_limit ops db i edit)))"
proof -
  define fn where "fn = (\<lambda>tx. case GetRateLimit ops tx i of
          Inl e \<Rightarrow> (tx, None, Some e)
        | Inr rl \<Rightarrow>
            (case edit tx of
               (tx', Inl e) \<Rightarrow> (tx', None, Some e)
             | (tx', Inr set_fields) \<Rightarrow> (tx', map_option set_fields rl, None)))"
  have "table_all P t (rows (fst (fn db)))"
    using assms by (auto simp: fn_def split: sum.split prod.split)
  then have "table_all P t (rows (fst (transaction ops db None fn)))" by (rule transaction_table_all [OF assms(1)])
  then show ?thesis
    unfolding edit_rate_limit_def fn_def [symmetric] by (auto split: prod.split option.split)
qed

lemma labels_stored_ok:
  assumes "stored_ok compile (rows db)"
  shows "stored_ok compile (rows (fst (UpdateRateLimitLabels ops now db i m)))"
    "stored_ok compile (rows (fst (PutRateLimitLabels ops now db i m)))"
    "stored_ok compile (rows (fst (DeleteRateLimitLabels ops now db i ks)))"
    "stored_ok compile (rows (fst (UpdateRateLimitAnnotations ops now db i m)))"
    "stored_ok compile (rows (fst (PutRateLimitAnnotations ops now db i m)))"
    "stored_ok compile (rows (fst (DeleteRateLimitAnnotations ops now db i ks)))"
proof -
  note inv = assms [unfolded stored_ok_def]
  note edits = edits_table_all [OF inv rl_row_ok_reads]
  note defs = UpdateRateLimitLabels_def PutRateLimitLabels_def DeleteRateLimitLabels_def UpdateRateLimitAnnotations_def
    PutRateLimitAnnotations_def DeleteRateLimitAnnotations_def
  show "stored_ok compile (rows (fst (UpdateRateLimitLabels ops now db i m)))"
    "stored_ok compile (rows (fst (PutRateLimitLabels ops now db i m)))"
    "stored_ok compile (rows (fst (DeleteRateLimitLabels ops now db i ks)))"
    "stored_ok compile (rows (fst (UpdateRateLimitAnnotations ops now db i m)))"
    "stored_ok compile (rows (fst (PutRateLimitAnnotations ops now db i m)))"
    "stored_ok compile (rows (fst (DeleteRateLimitAnnotations ops now db i ks)))"
    unfolding defs stored_ok_def
    by (simp_all add: inv edit_table_all [OF inv] fst_apsnd edits split: option.split)
qed

lemma update_stored_ok:
  assumes "stored_ok compile (rows db)" "keeps (rl_row_ok compile) as"
  shows "stored_ok compile (rows (fst (sql_update ops db RateLimitsTable as w)))"
  unfolding stored_ok_def
  by (rule update_table_all [OF assms(1) [unfolded stored_ok_def] assms(2)]) (auto simp: prod_eq_iff)

end

context sql_db
begin

lemma definition_stored_ok:
  assumes "stored_ok compile (rows db)"
  shows "stored_ok compile (rows (fst (UpdateRateLimitDefinition ops compile now db i d)))"
proof (cases "RateLimit_Validate compile d")
  case None
  have "keeps (rl_row_ok compile) [(''definition'', VDoc (RateLimit_json d)), (''updated_at'', VTime now)]"
    using None by (auto simp: keeps_def rl_row_ok_def assign_def)
  from update_stored_ok [OF assms this, of "live_id i"] assms show ?thesis
    by (auto simp: UpdateRateLimitDefinition_def None split: prod.split sum.split)
qed (use assms in \<open>simp add: UpdateRateLimitDefinition_def\<close>)

lemma name_stored_ok:
  assumes "stored_ok compile (rows db)"
  shows "stored_ok compile (rows (fst (UpdateRateLimitName ops unique now db i n)))"
proof (cases "ResourceName_Validate n")
  case None
  have "keeps (rl_row_ok compile) [(''name'', VText n), (''labels'', v), (''updated_at'', u)]" for v u
    using None by (auto simp: keeps_def rl_row_ok_def assign_def)
  then have "stored_ok compile (rows (fst (updateResourceNameAndSelfLabels ops unique now db RateLimitsTable i n)))"
    unfolding stored_ok_def by (intro rename_table_all assms [unfolded stored_ok_def])
  with assms show ?thesis by (auto simp: UpdateRateLimitName_def split: option.split prod.split)
qed (use assms in \<open>simp add: UpdateRateLimitName_def split: option.split\<close>)

lemma delete_stored_ok:
  assumes "stored_ok compile (rows db)"
  shows "stored_ok compile (rows (fst (DeleteRateLimit ops now db i)))"
proof -
  have "keeps (rl_row_ok compile) [(''updated_at'', VTime now), (''deleted_at'', VTime now)]"
    by (rule keeps_other [OF rl_row_ok_reads]) simp
  from update_stored_ok [OF assms this, of "live_id i"] show ?thesis
    by (auto simp: DeleteRateLimit_def split: prod.split sum.split)
qed

end

context sql_tables
begin

lemma insert_table_all:
  assumes "table_all P t (rows db)" "t = t' \<Longrightarrow> P (assign cols (\<lambda>_. VNull))"
  shows "table_all P t (rows (fst (sql_insert ops db t' cols)))"
proof -
  obtain db' x where i: "sql_insert ops db t' cols = (db', x)" by fastforce
  show ?thesis
  proof (cases x)
    case (Inl e)
    with i insert_err [of db t' cols db' e] assms(1) show ?thesis by simp
  next
    case (Inr a)
    with i insert_ok [of db t' cols db' a] assms show ?thesis by (auto simp: table_all_def)
  qed
qed

lemma create_stored_ok:
  assumes inv: "stored_ok compile (rows db)"
  shows "stored_ok compile (rows (fst (CreateRateLimit ops unique compile now db rl)))"
proof (cases "rate_limit_Validate compile (rate_limit_normalize rl)")
  case None
  have ins: "table_all (rl_row_ok compile) RateLimitsTable (rows x)"
    if "sql_insert ops db RateLimitsTable
      (rate_limit_values (rate_limit_normalize rl\<lparr>RL_Labels := l, RL_CreatedAt := c, RL_UpdatedAt := u\<rparr>)) = (x, y)" for l c u x y
    using insert_table_all [OF inv [unfolded stored_ok_def] values_ok [OF None], of RateLimitsTable u c l] that by simp
  show ?thesis
    unfolding CreateRateLimit_def Let_def None option.case stored_ok_def
    by (rule transaction_table_all [OF inv [unfolded stored_ok_def]])
       (use inv in \<open>auto simp: stored_ok_def dest: ins split: sum.split prod.split\<close>)
qed (use inv in \<open>simp add: CreateRateLimit_def Let_def\<close>)

lemma exec_stored_ok: "stored_ok compile (rows db) \<Longrightarrow> stored_ok compile (rows (rl_exec ops unique compile op db))"
  by (cases op; cases "snd op")
     (auto simp: create_stored_ok definition_stored_ok name_stored_ok delete_stored_ok labels_stored_ok)

end

text \<open>
  Property C31. Stored rate limits are well typed: starting from a database where every row of the
  table is well formed, any sequence of creations, edits and deletions, with any arguments and
  however the database fails, leaves a database where every row, deleted rows included, has an
  identifier of the right prefix, a valid name, a namespace, and the encoding of a definition that
  passes validation.
\<close>

theorem stored_rate_limits_valid:
  assumes "sql_tables like ops rows jf" "stored_ok compile (rows db)"
  shows "stored_ok compile (rows (fold (rl_exec ops unique compile) calls db))"
  using assms(2)
proof (induction calls arbitrary: db)
  case (Cons op calls)
  from Cons.IH [OF sql_tables.exec_stored_ok [OF assms(1) Cons.prems]] show ?case by simp
qed simp

subsection \<open>Reading what was written\<close>

lemma definition_request_types:
  "RateLimit_Validate compile d = None \<Longrightarrow> sel_request_types (rl_selector d) \<noteq> Some []"
  unfolding RateLimit_Validate_None by (auto simp: EffectiveRequestTypes_def)

lemma fields_of_values:
  assumes "go_algorithm (rl_algorithm (RL_Definition rl))" "sel_request_types (rl_selector (RL_Definition rl)) \<noteq> Some []"
  shows "readable (RL_Definition rl) \<Longrightarrow> rate_limit_fields (assign (rate_limit_values rl) (\<lambda>_. VNull)) = Inr rl"
    and "\<not> readable (RL_Definition rl) \<Longrightarrow> \<exists>e. rate_limit_fields (assign (rate_limit_values rl) (\<lambda>_. VNull)) = Inl e"
proof -
  have "rate_limit_fields (assign (rate_limit_values rl) (\<lambda>_. VNull)) =
      result_bind (RateLimit_of_json (RateLimit_json (RL_Definition rl))) (\<lambda>d. Inr (rl\<lparr>RL_Definition := d\<rparr>))"
    by (cases rl) (simp add: rate_limit_fields_def rate_limit_values_def assign_def scan_text_def scan_definition_def scan_time_def)
  then show "readable (RL_Definition rl) \<Longrightarrow> rate_limit_fields (assign (rate_limit_values rl) (\<lambda>_. VNull)) = Inr rl"
    "\<not> readable (RL_Definition rl) \<Longrightarrow> \<exists>e. rate_limit_fields (assign (rate_limit_values rl) (\<lambda>_. VNull)) = Inl e"
    using RateLimit_written [OF assms] by auto
qed

subsection \<open>What a listing returns\<close>

definition live_rows :: "(string \<Rightarrow> row list) \<Rightarrow> row list" where
  "live_rows R = filter (\<lambda>r. r ''deleted_at'' = VNull) (R RateLimitsTable)"

lemma selects_all: "row_selects like jf (snd (applyRestrictions provider (ListRateLimitsBuilder\<lparr>LimitVal := n\<rparr>))) r \<longleftrightarrow> r ''deleted_at'' = VNull"
  by (simp add: row_selects_def applyRestrictions_def ListRateLimitsBuilder_def Let_def row_matches_def query_selects_def row_selected_def)

context sql_tables
begin

lemma run_all:
  assumes "length (live_rows (rows db)) \<le> 500" "\<exists>rs. sql_select ops db RateLimitsTable
      (snd (applyRestrictions provider (ListRateLimitsBuilder\<lparr>LimitVal := 500\<rparr>))) = Inr rs"
  shows "\<exists>p. mset p = mset (live_rows (rows db)) \<and>
    run_rate_limits ops provider db (ListRateLimitsBuilder\<lparr>LimitVal := 500\<rparr>) =
      (ListRateLimitsBuilder\<lparr>LimitVal := 500\<rparr>, scan_all rate_limit_fields p)"
proof -
  let ?q = "snd (applyRestrictions provider (ListRateLimitsBuilder\<lparr>LimitVal := 500\<rparr>))"
  obtain rs where rs: "sql_select ops db RateLimitsTable ?q = Inr rs" using assms(2) by blast
  from select_ok [OF this] obtain p where p: "mset p = mset (filter (row_selects like jf ?q) (rows db RateLimitsTable))"
    "rs = take (lq_limit ?q) (drop (lq_offset ?q) p)" by blast
  have m: "mset p = mset (live_rows (rows db))" using p(1) by (simp add: selects_all live_rows_def)
  have "length p \<le> 500" using assms(1) m by (metis size_mset)
  then have "rs = p" using p(2) by (simp add: applyRestrictions_def ListRateLimitsBuilder_def Let_def)
  moreover have "fst (applyRestrictions provider (ListRateLimitsBuilder\<lparr>LimitVal := 500\<rparr>)) = ListRateLimitsBuilder\<lparr>LimitVal := 500\<rparr>"
    by (simp add: applyRestrictions_def ListRateLimitsBuilder_def Let_def)
  ultimately show ?thesis using rs m by (auto simp: run_rate_limits_def case_prod_unfold)
qed

end

text \<open>
  Property C33. A label selector that does not parse is not applied: the builder notes the error only
  after it was asked for errors, so the page is fetched without the selector, and a caller who
  misspells it is answered, without an error, with the rows of every label.
\<close>

theorem bad_selector_lists_unfiltered:
  assumes "ParseLabelSelector sel = Inl e" "Errors l = []" "LabelSelectorVal l = None" "\<forall>l. \<exists>c. cursor l = Inr c"
  shows "Results (snd (FetchPage ops provider cursor db (ForLabelSelector l sel))) = Results (snd (FetchPage ops provider cursor db l))
    \<and> HasMore (snd (FetchPage ops provider cursor db (ForLabelSelector l sel))) = HasMore (snd (FetchPage ops provider cursor db l))
    \<and> Error (snd (FetchPage ops provider cursor db (ForLabelSelector l sel))) = Error (snd (FetchPage ops provider cursor db l))"
proof -
  define l' q where "l' = fst (applyRestrictions provider l)" and "q = snd (applyRestrictions provider l)"
  have a: "applyRestrictions provider l = (l', q)" by (simp add: l'_def q_def)
  have "applyRestrictions provider (ForLabelSelector l sel) = (addError (ForLabelSelector l' sel) e, q)"
    using assms(1,3) by (cases "OrderByFieldVal l") (simp_all add: l'_def q_def applyRestrictions_def ForLabelSelector_def addError_def Let_def)
  moreover have "cursor x \<noteq> Inl y" for x y using assms(4) by (metis sum.distinct(1))
  ultimately show ?thesis
    using a assms(2)
    by (cases "sql_select ops db RateLimitsTable q")
       (auto simp: FetchPage_def fetchPage_def run_rate_limits_def ForLabelSelector_def addError_def error_page_def ErrorOrNil_def Let_def split: sum.split)
qed

lemma sample_db_no_limits: "tables sample_db RateLimitsTable = []" "\<not> fail_commit sample_db"
  by code_simp+

theorem bad_selector_lists_unfiltered_witness:
  "Error (snd (FetchPage mem_table_ops Sqlite (\<lambda>_. Inr ''c'') sample_db (ForLabelSelector ListRateLimitsBuilder ''=''))) = None"
proof -
  have "isl (ParseLabelSelector ''='')" by code_simp
  then obtain e where e: "ParseLabelSelector ''='' = Inl e" by (auto simp: isl_def)
  have "Error (snd (FetchPage mem_table_ops Sqlite (\<lambda>_. Inr ''c'') sample_db ListRateLimitsBuilder)) = None"
    by (simp add: FetchPage_def fetchPage_def run_rate_limits_def applyRestrictions_def ListRateLimitsBuilder_def mem_select
        sample_db_no_limits ErrorOrNil_def Let_def)
  with bad_selector_lists_unfiltered [OF e, of ListRateLimitsBuilder "\<lambda>_. Inr ''c''" mem_table_ops Sqlite sample_db] show ?thesis
    by (simp add: ListRateLimitsBuilder_def)
qed

lemma sample_row_valid:
  assumes "0 < w"
  shows "rate_limit_Validate sample_compile (sample_limit ''rl_1'' ''enforce'' w) = None"
    and "rate_limit_normalize (sample_limit ''rl_1'' ''enforce'' w) = sample_limit ''rl_1'' ''enforce'' w"
proof -
  have "ResourceName_Validate ''rl_1'' = None"
    by (simp add: ResourceName_Validate_def resourceNameRegex_def rmatch_name valid_name_def label_char_def is_alnum_def)
  moreover have "RateLimit_Validate sample_compile (RL_Definition (sample_limit ''rl_1'' ''enforce'' w)) = None"
    unfolding RateLimit_Validate_None using assms
    by (simp add: sample_limit_def EffectiveRequestTypes_def DefaultRequestTypes_def AllRequestTypes_def valid_dimension_def
        IsReservedDimension_def reservedDimensions_def)
  ultimately show "rate_limit_Validate sample_compile (sample_limit ''rl_1'' ''enforce'' w) = None"
    by (simp add: rate_limit_Validate_def sample_limit_def ID_ValidatePrefix_def ID_HasPrefix_def PrefixRateLimit_def HasPrefix_def
        Labels_Validate_def ValidateLabels_def ValidateAnnotations_def ErrorOrNil_def)
qed (simp add: rate_limit_normalize_def sample_limit_def)

abbreviation sample_row :: db_rate_limit where
  "sample_row \<equiv> sample_limit ''rl_1'' ''enforce'' 60000000000"

lemma mem_create:
  assumes "rate_limit_Validate compile rl = None" "rate_limit_normalize rl = rl" "\<not> fail_commit db"
  shows "\<exists>rl'. tables (fst (CreateRateLimit mem_table_ops unique compile now db rl)) RateLimitsTable =
      tables db RateLimitsTable @ [assign (rate_limit_values rl') (\<lambda>_. VNull)] \<and> RL_Definition rl' = RL_Definition rl
        \<and> RL_DeletedAt rl' = RL_DeletedAt rl"
proof -
  obtain l where l: "fetchLabelsForCarryForward mem_table_ops db NamespacesTable (live_path (RL_Namespace rl)) = Inr l"
    by (cases "List.find (row_matches like_exec (live_path (RL_Namespace rl))) (tables db NamespacesTable)")
       (auto simp: fetchLabelsForCarryForward_def mem_ops_def)
  have "sql_begin mem_ops db = None" "sql_commit mem_ops db x = (x, None)" for x using assms(3) by (simp_all add: mem_ops_def)
  then show ?thesis
    by (simp add: CreateRateLimit_def assms(1,2) transaction_def l mem_insert Let_def)
       (intro exI conjI, rule refl, simp_all)
qed

theorem stored_rate_limits_valid_witness:
  "\<exists>r. tables (fold (rl_exec mem_table_ops (\<lambda>_. False) sample_compile) [(5, OpCreate sample_row)] sample_db) RateLimitsTable = [r]
     \<and> rl_row_ok sample_compile r"
proof -
  have "stored_ok sample_compile (tables sample_db)"
    by (simp add: stored_ok_def table_all_def sample_db_no_limits)
  from stored_rate_limits_valid [OF mem_tables.sql_tables_axioms this, of "\<lambda>_. False" "[(5, OpCreate sample_row)]"]
    mem_create [OF sample_row_valid [of 60000000000] sample_db_no_limits(2), of "\<lambda>_. False" 5]
  show ?thesis by (auto simp: stored_ok_def table_all_def sample_db_no_limits)
qed

end
