(* ===== verification/Rate_Cache.thy ===== *)
theory Rate_Cache
  imports Rate_Limit_Store
begin

text \<open>
  The rule cache and its refresher (\<^verbatim>\<open>internal/ratelimit/cache.go\<close>, \<^verbatim>\<open>refresher.go\<close>). The cache is
  guarded by a mutex, so its operations are atomic steps on its state. A refresh lists all rules
  page by page and swaps the snapshot, or leaves it alone when the listing fails. The lemmas show
  that the cache always holds the rules of the last refresh that succeeded. Log lines and the test
  hook of the refresher are left out.
\<close>

subsection \<open>The cache\<close>

text \<open>A time is a number of nanoseconds; the zero time is \<^term>\<open>None\<close>.\<close>

record rule_cache =
  rc_rules :: "db_rate_limit option list"
  rc_at :: "int option"
  rc_version :: "64 word"

definition NewCache :: rule_cache where
  "NewCache = \<lparr>rc_rules = [], rc_at = None, rc_version = 0\<rparr>"

definition cache_All :: "rule_cache \<Rightarrow> db_rate_limit option list" where
  "cache_All c = (if length (rc_rules c) = 0 then [] else rc_rules c)"

definition SnapshotTime :: "rule_cache \<Rightarrow> int option" where
  "SnapshotTime c = rc_at c"

definition SnapshotVersion :: "rule_cache \<Rightarrow> 64 word" where
  "SnapshotVersion c = rc_version c"

definition cache_Replace :: "db_rate_limit option list \<Rightarrow> int \<Rightarrow> rule_cache \<Rightarrow> rule_cache" where
  "cache_Replace rules t c = \<lparr>rc_rules = rules, rc_at = Some t, rc_version = rc_version c + 1\<rparr>"

subsection \<open>The refresher\<close>

definition DefaultRefreshInterval :: int where "DefaultRefreshInterval = 5 * 60 * 1000000000"
definition minRefreshInterval :: int where "minRefreshInterval = 5 * 1000000000"

definition WithInterval :: "int \<Rightarrow> int" where
  "WithInterval d = (if d < minRefreshInterval then minRefreshInterval else d)"

text \<open>The database as the refresher uses it: the paged query of live rules and the encryption of
  cursors; a nil database is \<^term>\<open>None\<close>.\<close>

record rules_db =
  rd_query :: "rl_filters \<Rightarrow> rl_filters \<times> (gerror + db_rate_limit list)"
  rd_cursor :: "rl_filters \<Rightarrow> gerror + string"

definition collect_rules ::
  "db_rate_limit page_result \<Rightarrow> db_rate_limit option list \<Rightarrow> (bool \<times> err) \<times> db_rate_limit option list" where
  "collect_rules page collected =
     (case Error page of
        Some e \<Rightarrow> ((False, Some e), collected)
      | None \<Rightarrow> ((True, None), collected @ map Some (Results page)))"

definition fetchAllRateLimits :: "rules_db option \<Rightarrow> (gerror + db_rate_limit option list) option" where
  "fetchAllRateLimits db =
     (case db of
        None \<Rightarrow> Some (Inl (Err ''ratelimit.Refresher: nil database''))
      | Some d \<Rightarrow>
          (case Enumerate (fetchPage (rd_query d) (rd_cursor d)) collect_rules (Limit ListRateLimitsBuilder 500) [] of
             None \<Rightarrow> None
           | Some (Some e, _) \<Rightarrow> Some (Inl (Wrapf ''listing rate limits: %w'' [] e))
           | Some (None, collected) \<Rightarrow> Some (Inr collected)))"

definition Sync :: "rules_db option \<Rightarrow> int \<Rightarrow> rule_cache \<Rightarrow> (err \<times> rule_cache) option" where
  "Sync db now c =
     (case fetchAllRateLimits db of
        None \<Rightarrow> None
      | Some (Inl e) \<Rightarrow> Some (Some e, c)
      | Some (Inr rules) \<Rightarrow> Some (None, cache_Replace rules now c))"

text \<open>The refresh loop until the context ends: one refresh at the start and one per tick.\<close>

fun refresher_Run :: "(rules_db option \<times> int) list \<Rightarrow> rule_cache \<Rightarrow> rule_cache option" where
  "refresher_Run [] c = Some c"
| "refresher_Run ((db, now) # ticks) c =
     (case Sync db now c of
        None \<Rightarrow> None
      | Some (_, c') \<Rightarrow> refresher_Run ticks c')"

subsection \<open>The last good snapshot\<close>

text \<open>What a database does during one refresh: it lists its rules in a fixed order, or it fails.\<close>

definition serves :: "rules_db option \<Rightarrow> db_rate_limit list option \<Rightarrow> bool" where
  "serves db out =
     (case out of
        Some xs \<Rightarrow> \<exists>d. db = Some d \<and> stable_query xs (rd_query d) \<and> length xs < 2 ^ 64 - 1 \<and> (\<forall>l. \<exists>c. rd_cursor d l = Inr c)
      | None \<Rightarrow> db = None \<or> (\<exists>d. db = Some d \<and> (\<forall>l. \<exists>l' e. rd_query d l = (l', Inl e))))"

fun last_good :: "(db_rate_limit list option \<times> int) list \<Rightarrow> rule_cache \<Rightarrow> rule_cache" where
  "last_good [] c = c"
| "last_good ((None, now) # outs) c = last_good outs c"
| "last_good ((Some xs, now) # outs) c =
     last_good outs \<lparr>rc_rules = map Some xs, rc_at = Some now, rc_version = rc_version c + 1\<rparr>"

lemma appends_collect_rules: "appends Some collect_rules"
  by (simp add: appends_def collect_rules_def)

lemma fetchAll_serves:
  assumes "serves db (Some xs)"
  shows "fetchAllRateLimits db = Some (Inr (map Some xs))"
proof -
  from assms obtain d where d: "db = Some d" "stable_query xs (rd_query d)" "length xs < 2 ^ 64 - 1"
    "\<forall>l. \<exists>c. rd_cursor d l = Inr c"
    unfolding serves_def option.case by (elim exE conjE) (rule that)
  have l: "LimitVal (Limit ListRateLimitsBuilder 500) = 500" "Offset (Limit ListRateLimitsBuilder 500) = of_nat 0"
    "Errors (Limit ListRateLimitsBuilder 500) = []"
    by (simp_all add: Limit_def ListRateLimitsBuilder_def)
  have "Enumerate (fetchPage (rd_query d) (rd_cursor d)) collect_rules (Limit ListRateLimitsBuilder 500) [] =
      Some (None, [] @ map Some (drop 0 xs))"
    by (rule Enumerate_appends [where lim = 500, OF d(2,3) _ _ d(4) appends_collect_rules l(1,2) _ l(3)]) simp_all
  then show ?thesis by (simp add: fetchAllRateLimits_def d(1))
qed

lemma fetchAll_fails:
  assumes "serves db None"
  shows "\<exists>e. fetchAllRateLimits db = Some (Inl e)"
proof (cases db)
  case (Some d)
  with assms have fail: "\<forall>l. \<exists>l' e. rd_query d l = (l', Inl e)" by (simp add: serves_def)
  obtain l' e where e: "rd_query d (Limit ListRateLimitsBuilder 500) = (l', Inl e)" using fail by blast
  show ?thesis
    using e by (simp add: fetchAllRateLimits_def Some Enumerate.simps fetchPage_def ErrorOrNil_def error_page_def
        Limit_def ListRateLimitsBuilder_def)
qed (simp add: fetchAllRateLimits_def)

lemma refresher_Run_last_good:
  "list_all2 (\<lambda>(db, t) (out, t'). t = t' \<and> serves db out) ticks outs \<Longrightarrow> refresher_Run ticks c = Some (last_good outs c)"
proof (induction ticks outs arbitrary: c rule: list_all2_induct)
  case (Cons tick ticks out outs)
  obtain db now o' where [simp]: "tick = (db, now)" "out = (o', now)" and s: "serves db o'"
    using Cons.hyps(1) by (cases tick; cases out) simp
  show ?case
  proof (cases o')
    case None
    with s obtain e where "fetchAllRateLimits db = Some (Inl e)" using fetchAll_fails [of db] by blast
    with None Cons.IH show ?thesis by (simp add: Sync_def)
  next
    case (Some xs)
    with s have "fetchAllRateLimits db = Some (Inr (map Some xs))" by (simp add: fetchAll_serves)
    with Some Cons.IH show ?thesis by (simp add: Sync_def cache_Replace_def)
  qed
qed simp


definition listing_db :: "db_rate_limit list \<Rightarrow> rules_db option" where
  "listing_db xs = Some \<lparr>rd_query = (\<lambda>l. (l, Inr (take (unat (LimitVal l + 1)) (drop (unat (Offset l)) xs)))), rd_cursor = (\<lambda>_. Inr ''c'')\<rparr>"

definition failing_db :: "rules_db option" where
  "failing_db = Some \<lparr>rd_query = (\<lambda>l. (l, Inl (Err ''connection refused''))), rd_cursor = (\<lambda>_. Inr ''c'')\<rparr>"

lemma serves_listing: "length xs < 2 ^ 64 - 1 \<Longrightarrow> serves (listing_db xs) (Some xs)"
  by (simp add: serves_def listing_db_def stable_query_def)

lemma serves_failing: "serves failing_db None"
  by (simp add: serves_def failing_db_def)


subsection \<open>Refreshing from the database\<close>

definition rules_of ::
  "('db, 'm) sql_table_ops_scheme \<Rightarrow> provider \<Rightarrow> (rl_filters \<Rightarrow> gerror + string) \<Rightarrow> 'db \<Rightarrow> rules_db option" where
  "rules_of ops provider cursor db = Some \<lparr>rd_query = run_rate_limits ops provider db, rd_cursor = cursor\<rparr>"

lemma Limit_500: "Limit ListRateLimitsBuilder 500 = ListRateLimitsBuilder\<lparr>LimitVal := 500\<rparr>"
  by (simp add: Limit_def)

lemma Enumerate_one_page:
  assumes "run l = (l', Inr xs)" "Errors l = []" "LimitVal l' = 500" "length xs \<le> 500"
  shows "Enumerate (fetchPage run cursor) collect_rules l acc = Some (None, acc @ map Some xs)"
proof -
  have n: "unat (of_nat (length xs) :: 64 word) = length xs" by (rule of_nat_less64) (use assms(4) in simp)
  then have le: "(of_nat (length xs) :: 64 word) \<le> 500" using assms(4) by (simp add: word_le_nat_alt)
  then have "\<not> (500 :: 64 word) < of_nat (length xs)" "min 500 (of_nat (length xs) :: 64 word) = of_nat (length xs)"
    by (simp_all add: min_def not_less)
  then show ?thesis
    using assms n
    by (subst Enumerate.simps) (simp add: fetchPage_def ErrorOrNil_def Let_def collect_rules_def)
qed

lemma Enumerate_failed_page:
  "run l = (l', Inl e) \<Longrightarrow> Errors l = [] \<Longrightarrow> Enumerate (fetchPage run cursor) cb l acc = Some (Some e, acc)"
  by (subst Enumerate.simps) (simp add: fetchPage_def ErrorOrNil_def error_page_def)


abbreviation poisoned_db :: mem_db where
  "poisoned_db \<equiv> fst (CreateRateLimit mem_table_ops (\<lambda>_. False) sample_compile 5 sample_db (sample_limit ''rl_1'' ''enforce'' 1500000000))"


end
