(* ===== verification/Setup_Schema.thy ===== *)
theory Setup_Schema
  imports Rate_Schema Label_Selector Json Http_Client
begin

text \<open>
  The setup flow an operator writes into a connector
  (\<^verbatim>\<open>internal/schema/resources/connectors/setup_flow.go\<close>): step identifiers, the steps of the
  \<^verbatim>\<open>preconnect\<close> and \<^verbatim>\<open>configure\<close> phases, their validation, and the merge of submitted form data into a
  connection's configuration. The JavaScript engine and the JSON Schema compiler are parameters. The
  lemmas characterise what validation accepts and which fields a form can change.
\<close>

subsection \<open>Step identifiers\<close>

text \<open>A \<^verbatim>\<open>SetupStep\<close> is its identifier; the empty one is the zero value.\<close>

type_synonym setup_step = string

definition ApxyStepPrefix :: string where "ApxyStepPrefix = ''apxy:''"

definition NewSetupStep :: "string \<Rightarrow> gerror + setup_step" where
  "NewSetupStep i = (if i = [] then Inl (Errf ''setup step id is required'' []) else Inr i)"

definition MustNewSetupStep :: "string \<Rightarrow> setup_step may_panic" where
  "MustNewSetupStep i = (case NewSetupStep i of Inl e \<Rightarrow> Inl ''setup step id is required'' | Inr s \<Rightarrow> Inr s)"

definition SetupStepVerify :: setup_step where "SetupStepVerify = ApxyStepPrefix @ ''verify''"
definition SetupStepVerifyFailed :: setup_step where "SetupStepVerifyFailed = ApxyStepPrefix @ ''verify_failed''"
definition SetupStepAuthFailed :: setup_step where "SetupStepAuthFailed = ApxyStepPrefix @ ''auth_failed''"

definition IsTerminalFailure :: "setup_step \<Rightarrow> bool" where
  "IsTerminalFailure s \<longleftrightarrow> s = SetupStepVerifyFailed \<or> s = SetupStepAuthFailed"

definition IsApxyEmitted :: "setup_step \<Rightarrow> bool" where
  "IsApxyEmitted s = HasPrefix s ApxyStepPrefix"

definition ParseSetupStep :: "string \<Rightarrow> gerror + setup_step" where
  "ParseSetupStep s = Inr s"

text \<open>In a JSON document the zero step is \<^verbatim>\<open>null\<close>.\<close>

definition SetupStep_json :: "setup_step \<Rightarrow> json" where
  "SetupStep_json s = (if s = [] then JNull else JStr s)"

definition SetupStep_of_json :: "json \<Rightarrow> gerror + setup_step" where
  "SetupStep_of_json j =
     (case j of
        JNull \<Rightarrow> Inr []
      | JStr s \<Rightarrow> Inr s
      | _ \<Rightarrow> Inl (Wrapf ''setup step must be a JSON string: %w'' [] (type_error ''string'')))"

lemma SetupStep_json_reread: "SetupStep_of_json (SetupStep_json s) = Inr s"
  by (simp add: SetupStep_of_json_def SetupStep_json_def)

subsection \<open>Steps and phases\<close>

text \<open>Raw JSON is absent, bytes that are not JSON, or a document.\<close>

datatype raw_json = NoJson | BadJson string | RawDoc json

definition RawJSON_IsEmpty :: "raw_json \<Rightarrow> bool" where
  "RawJSON_IsEmpty r \<longleftrightarrow> r = NoJson"

definition json_Valid :: "raw_json \<Rightarrow> bool" where
  "json_Valid r = (case r of RawDoc _ \<Rightarrow> True | _ \<Rightarrow> False)"

definition json_Unmarshal :: "raw_json \<Rightarrow> gerror + json" where
  "json_Unmarshal r =
     (case r of
        NoJson \<Rightarrow> Inl (Err ''unexpected end of JSON input'')
      | BadJson s \<Rightarrow> Inl (Errf ''invalid character in JSON input'' [s])
      | RawDoc j \<Rightarrow> Inr j)"

record ds_request =
  dsr_Method :: string
  dsr_Url :: string
  dsr_Headers :: smap

record data_source =
  ds_ProxyRequest :: "ds_request option"
  ds_Transform :: string

text \<open>A predicate is its JavaScript text and a redirect block is its URL template.\<close>

record step_spec =
  spec_Id :: string
  spec_Type :: string
  spec_Title :: string
  spec_Description :: string
  spec_JsonSchema :: raw_json
  spec_UiSchema :: raw_json
  spec_DataSources :: "(string \<times> data_source) list"
  spec_If :: "string option"
  spec_Redirect :: "string option"

text \<open>A phase is its list of steps.\<close>

record setup_flow =
  Preconnect :: "step_spec list option"
  Configure :: "step_spec list option"

definition SetupFlowStepType_IsValid :: "string \<Rightarrow> bool" where
  "SetupFlowStepType_IsValid t \<longleftrightarrow> t = [] \<or> t = ''form'' \<or> t = ''redirect''"

definition SetupFlowStepType_Normalized :: "string \<Rightarrow> string" where
  "SetupFlowStepType_Normalized t = (if t = [] then ''form'' else t)"

definition HasPreconnect :: "setup_flow option \<Rightarrow> bool" where
  "HasPreconnect sf =
     (case sf of None \<Rightarrow> False | Some f \<Rightarrow> (case Preconnect f of None \<Rightarrow> False | Some steps \<Rightarrow> length steps > 0))"

definition HasConfigure :: "setup_flow option \<Rightarrow> bool" where
  "HasConfigure sf =
     (case sf of None \<Rightarrow> False | Some f \<Rightarrow> (case Configure f of None \<Rightarrow> False | Some steps \<Rightarrow> length steps > 0))"

definition TotalSteps :: "setup_flow option \<Rightarrow> nat" where
  "TotalSteps sf =
     (case sf of
        None \<Rightarrow> 0
      | Some f \<Rightarrow> (case Preconnect f of None \<Rightarrow> 0 | Some steps \<Rightarrow> length steps) + (case Configure f of None \<Rightarrow> 0 | Some steps \<Rightarrow> length steps))"

definition IsConfigureStep :: "setup_flow option \<Rightarrow> setup_step \<Rightarrow> bool" where
  "IsConfigureStep sf step =
     (case sf of
        None \<Rightarrow> False
      | Some f \<Rightarrow>
          (case Configure f of
             None \<Rightarrow> False
           | Some steps \<Rightarrow> step \<noteq> [] \<and> list_ex (\<lambda>s. spec_Id s = step) steps))"

definition find_in_phase :: "string \<Rightarrow> step_spec list option \<Rightarrow> step_spec option" where
  "find_in_phase i phase = (case phase of None \<Rightarrow> None | Some steps \<Rightarrow> List.find (\<lambda>s. spec_Id s = i) steps)"

definition FindStepById :: "setup_flow option \<Rightarrow> string \<Rightarrow> step_spec option" where
  "FindStepById sf i =
     (case sf of
        None \<Rightarrow> None
      | Some f \<Rightarrow>
          if i = [] then None
          else (case find_in_phase i (Preconnect f) of
                  Some s \<Rightarrow> Some s
                | None \<Rightarrow> find_in_phase i (Configure f)))"

subsection \<open>Validation\<close>

definition DataSourceProxyRequest_Validate :: "string \<Rightarrow> ds_request \<Rightarrow> err" where
  "DataSourceProxyRequest_Validate vc r =
     ErrorOrNil ((if dsr_Method r = [] then [NewErrorfForField vc ''method'' ''method is required'' []] else [])
       @ (if dsr_Url r = [] then [NewErrorfForField vc ''url'' ''url is required'' []] else []))"

definition DataSourceDef_Validate :: "string \<Rightarrow> data_source \<Rightarrow> err" where
  "DataSourceDef_Validate vc d =
     (let es = (case ds_ProxyRequest d of
                  None \<Rightarrow> [NewErrorfForField vc ''proxy_request'' ''proxy_request is required'' []]
                | Some r \<Rightarrow> append_if [] (DataSourceProxyRequest_Validate (PushField vc ''proxy_request'') r))
      in ErrorOrNil (if ds_Transform d = [] then multi_append es (NewErrorfForField vc ''transform'' ''transform expression is required'' []) else es))"

text \<open>\<open>eval\<close> evaluates a script to a boolean with the connector's library and empty variables.\<close>

type_synonym js_eval = "string \<Rightarrow> gerror + bool"

definition Predicate_Validate :: "js_eval \<Rightarrow> string \<Rightarrow> string option \<Rightarrow> err" where
  "Predicate_Validate eval vc p =
     (case p of
        None \<Rightarrow> None
      | Some js \<Rightarrow>
          if TrimSpace js = [] then ErrorOrNil [NewErrorfForField vc ''javascript'' ''javascript is required'' []]
          else (case eval js of
                  Inl e \<Rightarrow> ErrorOrNil [NewErrorfForField vc ''javascript'' ''javascript must evaluate to a boolean: %v'' []]
                | Inr _ \<Rightarrow> None))"

definition Redirect_Validate :: "string \<Rightarrow> string \<Rightarrow> err" where
  "Redirect_Validate vc url = ErrorOrNil (if url = [] then [NewErrorfForField vc ''url'' ''url is required'' []] else [])"

text \<open>The identifiers seen so far are a set that the steps of both phases share.\<close>

definition check_step_id :: "string \<Rightarrow> string list \<Rightarrow> string \<Rightarrow> string list \<times> gerror list" where
  "check_step_id vc seen i =
     (if i = [] then (seen, [NewErrorfForField vc ''id'' ''step id is required'' []])
      else if HasPrefix i ApxyStepPrefix
      then (seen, [NewErrorfForField vc ''id'' ''step id %q must not start with reserved prefix %q'' [i, ApxyStepPrefix]])
      else if i \<in> set seen then (seen, [NewErrorfForField vc ''id'' ''duplicate step id %q'' [i]])
      else (i # seen, []))"

definition check_form :: "string \<Rightarrow> bool \<Rightarrow> step_spec \<Rightarrow> gerror list \<Rightarrow> gerror list" where
  "check_form vc allowDataSources s es0 =
     (let e = (\<lambda>field msg. NewErrorfForField vc field msg []);
          es1 = (if spec_Redirect s \<noteq> None then multi_append es0 (e ''redirect'' ''redirect must be absent for form steps'') else es0);
          es2 = (if RawJSON_IsEmpty (spec_JsonSchema s) then multi_append es1 (e ''json_schema'' ''json_schema is required for form steps'')
                 else if \<not> json_Valid (spec_JsonSchema s) then multi_append es1 (e ''json_schema'' ''json_schema is not valid JSON'') else es1);
          es3 = (if \<not> RawJSON_IsEmpty (spec_UiSchema s) \<and> \<not> json_Valid (spec_UiSchema s)
                 then multi_append es2 (e ''ui_schema'' ''ui_schema is not valid JSON'') else es2);
          es4 = (if \<not> allowDataSources \<and> length (spec_DataSources s) > 0
                 then multi_append es3 (e ''data_sources'' ''data_sources are not allowed in preconnect steps (no credentials available yet)'') else es3)
      in fold (\<lambda>(name, ds) es. append_if es (DataSourceDef_Validate (PushField (PushField vc ''data_sources'') name) ds)) (spec_DataSources s) es4)"

definition check_redirect :: "string \<Rightarrow> step_spec \<Rightarrow> gerror list \<Rightarrow> gerror list" where
  "check_redirect vc s es0 =
     (let e = (\<lambda>field msg. NewErrorfForField vc field msg []);
          es1 = (if \<not> RawJSON_IsEmpty (spec_JsonSchema s) then multi_append es0 (e ''json_schema'' ''json_schema must be absent for redirect steps'') else es0);
          es2 = (if \<not> RawJSON_IsEmpty (spec_UiSchema s) then multi_append es1 (e ''ui_schema'' ''ui_schema must be absent for redirect steps'') else es1);
          es3 = (if length (spec_DataSources s) > 0 then multi_append es2 (e ''data_sources'' ''data_sources must be absent for redirect steps'') else es2)
      in (case spec_Redirect s of
            None \<Rightarrow> multi_append es3 (e ''redirect'' ''redirect is required for redirect steps'')
          | Some url \<Rightarrow> append_if es3 (Redirect_Validate (PushField vc ''redirect'') url)))"

definition step_validate :: "js_eval \<Rightarrow> string \<Rightarrow> string list \<Rightarrow> bool \<Rightarrow> step_spec \<Rightarrow> string list \<times> err" where
  "step_validate eval vc seen allowDataSources s =
     (let (seen', es0) = check_step_id vc seen (spec_Id s);
          es1 = (if \<not> SetupFlowStepType_IsValid (spec_Type s)
                 then multi_append es0 (NewErrorfForField vc ''type'' ''type must be %q or %q (got %q)'' [''form'', ''redirect'', spec_Type s]) else es0);
          es2 = append_if es1 (Predicate_Validate eval (PushField vc ''if'') (spec_If s));
          t = SetupFlowStepType_Normalized (spec_Type s);
          es3 = (if t = ''form'' then check_form vc allowDataSources s es2
                 else if t = ''redirect'' then check_redirect vc s es2 else es2)
      in (seen', ErrorOrNil es3))"

fun phase_loop :: "js_eval \<Rightarrow> string \<Rightarrow> bool \<Rightarrow> nat \<Rightarrow> string list \<Rightarrow> step_spec list \<Rightarrow> gerror list \<Rightarrow> string list \<times> gerror list" where
  "phase_loop eval vc allow i seen [] es = (seen, es)"
| "phase_loop eval vc allow i seen (s # ss) es =
     (let (seen', e) = step_validate eval (PushIndex (PushField vc ''steps'') i) seen allow s
      in phase_loop eval vc allow (Suc i) seen' ss (append_if es e))"

definition phase_validate :: "js_eval \<Rightarrow> string \<Rightarrow> string list \<Rightarrow> bool \<Rightarrow> step_spec list \<Rightarrow> string list \<times> err" where
  "phase_validate eval vc seen allow steps =
     apsnd ErrorOrNil (phase_loop eval vc allow 0 seen steps (if length steps = 0 then [NewError vc ''must have at least one step''] else []))"

definition ValidateWithJavascript :: "js_eval \<Rightarrow> string \<Rightarrow> setup_flow option \<Rightarrow> err" where
  "ValidateWithJavascript eval vc sf =
     (case sf of
        None \<Rightarrow> None
      | Some f \<Rightarrow>
          let (seen1, es1) = (case Preconnect f of
                                None \<Rightarrow> ([], [])
                              | Some steps \<Rightarrow> apsnd (append_if []) (phase_validate eval (PushField vc ''preconnect'') [] False steps));
              (seen2, es2) = (case Configure f of
                                None \<Rightarrow> (seen1, es1)
                              | Some steps \<Rightarrow> apsnd (append_if es1) (phase_validate eval (PushField vc ''configure'') seen1 True steps))
          in ErrorOrNil es2)"


text \<open>What validation accepts.\<close>

definition user_step_id :: "string \<Rightarrow> bool" where
  "user_step_id i \<longleftrightarrow> i \<noteq> [] \<and> \<not> HasPrefix i ApxyStepPrefix"

definition step_ok :: "js_eval \<Rightarrow> bool \<Rightarrow> step_spec \<Rightarrow> bool" where
  "step_ok eval allow s \<longleftrightarrow>
     user_step_id (spec_Id s) \<and> SetupFlowStepType_IsValid (spec_Type s) \<and>
     (\<forall>js. spec_If s = Some js \<longrightarrow> TrimSpace js \<noteq> [] \<and> \<not> isl (eval js)) \<and>
     (if spec_Type s = ''redirect''
      then spec_JsonSchema s = NoJson \<and> spec_UiSchema s = NoJson \<and> spec_DataSources s = [] \<and> (\<exists>u. u \<noteq> [] \<and> spec_Redirect s = Some u)
      else spec_Redirect s = None \<and> json_Valid (spec_JsonSchema s) \<and> (spec_UiSchema s = NoJson \<or> json_Valid (spec_UiSchema s)) \<and>
           (allow \<or> spec_DataSources s = []) \<and> (\<forall>(n, d) \<in> set (spec_DataSources s). DataSourceDef_Validate [] d = None))"

lemma multi_append_Nil [simp]: "multi_append es (NewErrorfForField vc f m a) \<noteq> []"
  by (simp add: NewErrorfForField_def NewErrorf_def)

declare append_if_ErrorOrNil_Nil [simp]

lemma Predicate_accepts:
  "append_if es (Predicate_Validate eval vc p) = [] \<longleftrightarrow> es = [] \<and> (\<forall>js. p = Some js \<longrightarrow> TrimSpace js \<noteq> [] \<and> \<not> isl (eval js))"
  by (auto simp: Predicate_Validate_def split: option.splits sum.splits)

lemma DataSource_accepts:
  "append_if es (DataSourceDef_Validate vc d) = [] \<longleftrightarrow> es = [] \<and> DataSourceDef_Validate [] d = None"
  by (auto simp: DataSourceDef_Validate_def DataSourceProxyRequest_Validate_def Let_def split: option.splits)

lemma data_sources_accept:
  "fold (\<lambda>(name, ds) es. append_if es (DataSourceDef_Validate (PushField vc name) ds)) dss es = [] \<longleftrightarrow>
     es = [] \<and> (\<forall>(n, d) \<in> set dss. DataSourceDef_Validate [] d = None)"
  by (induction dss arbitrary: es) (auto simp: DataSource_accepts split: prod.splits)

lemma check_step_id_Nil: "snd (check_step_id vc seen i) = [] \<longleftrightarrow> user_step_id i \<and> i \<notin> set seen"
  by (simp add: check_step_id_def user_step_id_def)

lemma check_form_Nil:
  "check_form vc allow s es = [] \<longleftrightarrow> es = [] \<and> spec_Redirect s = None \<and> json_Valid (spec_JsonSchema s) \<and>
     (spec_UiSchema s = NoJson \<or> json_Valid (spec_UiSchema s)) \<and> (allow \<or> spec_DataSources s = []) \<and>
     (\<forall>(n, d) \<in> set (spec_DataSources s). DataSourceDef_Validate [] d = None)"
  by (auto simp: check_form_def Let_def data_sources_accept RawJSON_IsEmpty_def json_Valid_def split: if_splits raw_json.splits)

lemma check_redirect_Nil:
  "check_redirect vc s es = [] \<longleftrightarrow> es = [] \<and> spec_JsonSchema s = NoJson \<and> spec_UiSchema s = NoJson \<and> spec_DataSources s = [] \<and>
     (\<exists>u. u \<noteq> [] \<and> spec_Redirect s = Some u)"
  by (auto simp: check_redirect_def Let_def RawJSON_IsEmpty_def Redirect_Validate_def split: option.splits)

lemma step_validate_None:
  "snd (step_validate eval vc seen allow s) = None \<longleftrightarrow> step_ok eval allow s \<and> spec_Id s \<notin> set seen"
proof -
  obtain seen' es0 where c: "check_step_id vc seen (spec_Id s) = (seen', es0)" by (cases "check_step_id vc seen (spec_Id s)")
  have es0: "es0 = [] \<longleftrightarrow> user_step_id (spec_Id s) \<and> spec_Id s \<notin> set seen"
    using check_step_id_Nil [of vc seen "spec_Id s"] c by simp
  show ?thesis
  proof (cases "SetupFlowStepType_IsValid (spec_Type s)")
    case True
    then show ?thesis
      by (auto simp: step_validate_def c Let_def step_ok_def check_form_Nil check_redirect_Nil Predicate_accepts es0
          SetupFlowStepType_Normalized_def SetupFlowStepType_IsValid_def)
  next
    case False
    then show ?thesis
      by (auto simp: step_validate_def c Let_def step_ok_def check_form_Nil check_redirect_Nil Predicate_accepts)
  qed
qed

lemma step_validate_seen:
  "snd (step_validate eval vc seen allow s) = None \<Longrightarrow> fst (step_validate eval vc seen allow s) = spec_Id s # seen"
proof -
  assume "snd (step_validate eval vc seen allow s) = None"
  then have "check_step_id vc seen (spec_Id s) = (spec_Id s # seen, [])"
    by (simp add: step_validate_None step_ok_def user_step_id_def check_step_id_def)
  then show ?thesis by (simp add: step_validate_def Let_def)
qed

lemma phase_loop_Nil:
  "snd (phase_loop eval vc allow i seen steps es) = [] \<longleftrightarrow>
     es = [] \<and> (\<forall>s \<in> set steps. step_ok eval allow s) \<and> distinct (map spec_Id steps) \<and> spec_Id ` set steps \<inter> set seen = {}"
proof (induction steps arbitrary: i seen es)
  case (Cons s steps)
  define v where "v = step_validate eval (PushIndex (PushField vc ''steps'') i) seen allow s"
  have ne: "append_if es (Some x) \<noteq> []" if "snd v = Some x" for x
  proof -
    have "\<exists>ys. snd v = ErrorOrNil ys" by (auto simp: v_def step_validate_def Let_def split: prod.splits)
    with that show ?thesis by (metis append_if_ErrorOrNil_Nil ErrorOrNil_None option.distinct(1))
  qed
  have *: "snd v = None \<longleftrightarrow> step_ok eval allow s \<and> spec_Id s \<notin> set seen" and seen: "snd v = None \<Longrightarrow> fst v = spec_Id s # seen"
    unfolding v_def by (rule step_validate_None, rule step_validate_seen)
  show ?case
  proof (cases "snd v")
    case None
    then show ?thesis using * seen by (auto simp: v_def [symmetric] case_prod_unfold Let_def Cons)
  next
    case (Some x)
    then have "\<not> (step_ok eval allow s \<and> spec_Id s \<notin> set seen)" using * by simp
    with Some ne [OF Some] show ?thesis by (auto simp: v_def [symmetric] case_prod_unfold Let_def Cons)
  qed
qed simp

lemma phase_loop_seen:
  "snd (phase_loop eval vc allow i seen steps es) = [] \<Longrightarrow> set (fst (phase_loop eval vc allow i seen steps es)) = spec_Id ` set steps \<union> set seen"
proof (induction steps arbitrary: i seen es)
  case (Cons s steps)
  define v where "v = step_validate eval (PushIndex (PushField vc ''steps'') i) seen allow s"
  have "step_ok eval allow s" "spec_Id s \<notin> set seen" using Cons.prems unfolding phase_loop_Nil by auto
  then have "snd v = None" unfolding v_def by (simp add: step_validate_None)
  then have "fst v = spec_Id s # seen" unfolding v_def by (rule step_validate_seen)
  with Cons show ?case by (auto simp: v_def [symmetric] case_prod_unfold Let_def)
qed simp

definition phase_steps :: "step_spec list option \<Rightarrow> step_spec list" where
  "phase_steps p = (case p of None \<Rightarrow> [] | Some steps \<Rightarrow> steps)"

lemma setup_flow_accepted:
  "ValidateWithJavascript eval vc (Some f) = None \<longleftrightarrow>
     Preconnect f \<noteq> Some [] \<and> Configure f \<noteq> Some [] \<and>
     (\<forall>s \<in> set (phase_steps (Preconnect f)). step_ok eval False s) \<and> (\<forall>s \<in> set (phase_steps (Configure f)). step_ok eval True s) \<and>
     distinct (map spec_Id (phase_steps (Preconnect f) @ phase_steps (Configure f)))"
proof -
  let ?p = "PushField vc ''preconnect''" and ?c = "PushField vc ''configure''"
  let ?init = "\<lambda>vc steps. if length steps = 0 then [NewError vc ''must have at least one step''] else []"
  define pre where "pre = (case Preconnect f of None \<Rightarrow> ([], []) | Some steps \<Rightarrow> phase_loop eval ?p False 0 [] steps (?init ?p steps))"
  define conf where "conf = (case Configure f of None \<Rightarrow> (fst pre, []) | Some steps \<Rightarrow> phase_loop eval ?c True 0 (fst pre) steps (?init ?c steps))"
  have "ValidateWithJavascript eval vc (Some f) = None \<longleftrightarrow> snd pre = [] \<and> snd conf = []"
    by (cases "Preconnect f"; cases "Configure f")
       (simp_all add: ValidateWithJavascript_def phase_validate_def pre_def conf_def Let_def append_if_ErrorOrNil case_prod_unfold)
  moreover have pre: "snd pre = [] \<longleftrightarrow> Preconnect f \<noteq> Some [] \<and> (\<forall>s \<in> set (phase_steps (Preconnect f)). step_ok eval False s) \<and>
      distinct (map spec_Id (phase_steps (Preconnect f)))"
    by (cases "Preconnect f") (auto simp: pre_def phase_loop_Nil phase_steps_def)
  moreover have "set (fst pre) = spec_Id ` set (phase_steps (Preconnect f))" if "snd pre = []"
    using that by (cases "Preconnect f") (auto simp: pre_def phase_loop_seen phase_steps_def)
  moreover have "snd conf = [] \<longleftrightarrow> Configure f \<noteq> Some [] \<and> (\<forall>s \<in> set (phase_steps (Configure f)). step_ok eval True s) \<and>
      distinct (map spec_Id (phase_steps (Configure f))) \<and> spec_Id ` set (phase_steps (Configure f)) \<inter> set (fst pre) = {}"
    by (cases "Configure f") (auto simp: conf_def phase_loop_Nil phase_steps_def)
  ultimately show ?thesis
    unfolding map_append distinct_append set_map Int_commute [of "spec_Id ` set (phase_steps (Preconnect f))"] by metis
qed

subsection \<open>Submitted form data\<close>

text \<open>
  Decoding into a Go map keeps the last value of a repeated key and takes \<^verbatim>\<open>null\<close> as the nil map.
  A struct field takes every key that equals its name up to case; a map field that occurs again is
  decoded into the same map, which \<^verbatim>\<open>null\<close> resets.
\<close>

type_synonym cfg = "(string \<times> json) list"

definition json_map :: "json \<Rightarrow> gerror + cfg option" where
  "json_map j =
     (case j of
        JNull \<Rightarrow> Inr None
      | JObj kvs \<Rightarrow> Inr (Some (fold (\<lambda>(k, v). AList.update k v) kvs []))
      | _ \<Rightarrow> Inl (type_error ''map[string]interface {}''))"

fun decode_properties :: "(string \<times> json) list \<Rightarrow> string list \<Rightarrow> gerror + string list" where
  "decode_properties [] names = Inr names"
| "decode_properties ((k, v) # kvs) names =
     (if map to_lower k = ''properties''
      then (case v of
              JNull \<Rightarrow> decode_properties kvs []
            | JObj ps \<Rightarrow> decode_properties kvs (names @ map fst ps)
            | _ \<Rightarrow> Inl (type_error ''map[string]interface {}''))
      else decode_properties kvs names)"

definition extractSchemaPropertyNames :: "raw_json \<Rightarrow> gerror + string list" where
  "extractSchemaPropertyNames schema =
     result_bind (json_Unmarshal schema) (\<lambda>j.
       case j of
         JNull \<Rightarrow> Inr []
       | JObj kvs \<Rightarrow> decode_properties kvs []
       | _ \<Rightarrow> Inl (type_error ''struct''))"

record schema_compiler =
  AddResource :: "raw_json \<Rightarrow> err"
  Compile :: "raw_json \<Rightarrow> gerror + (json \<Rightarrow> err)"

definition validateDataAgainstSchema :: "schema_compiler \<Rightarrow> raw_json \<Rightarrow> raw_json \<Rightarrow> err" where
  "validateDataAgainstSchema sc data schema =
     (case AddResource sc schema of
        Some e \<Rightarrow> Some (Wrapf ''invalid JSON schema: %w'' [] e)
      | None \<Rightarrow>
          (case Compile sc schema of
             Inl e \<Rightarrow> Some (Wrapf ''failed to compile JSON schema: %w'' [] e)
           | Inr compiled \<Rightarrow>
               (case json_Unmarshal data of
                  Inl e \<Rightarrow> Some (Wrapf ''invalid JSON data: %w'' [] e)
                | Inr v \<Rightarrow> compiled v)))"

text \<open>The configuration is returned with the error; the nil map is \<^term>\<open>None\<close>.\<close>

definition ValidateAndMergeData ::
  "schema_compiler \<Rightarrow> step_spec \<Rightarrow> string \<Rightarrow> raw_json \<Rightarrow> cfg option \<Rightarrow> cfg option \<times> err" where
  "ValidateAndMergeData sc s stepId data config =
     (if stepId = [] then (config, Some (Errf ''step_id is required'' []))
      else if stepId \<noteq> spec_Id s then (config, Some (Errf ''step_id %q does not match current step %q'' [stepId, spec_Id s]))
      else case result_bind (json_Unmarshal data) json_map of
        Inl e \<Rightarrow> (config, Some (Wrapf ''invalid form data JSON: %w'' [] e))
      | Inr submitted \<Rightarrow>
          (case validateDataAgainstSchema sc data (spec_JsonSchema s) of
             Some e \<Rightarrow> (config, Some (Wrapf ''form data validation failed: %w'' [] e))
           | None \<Rightarrow>
               (case extractSchemaPropertyNames (spec_JsonSchema s) of
                  Inl e \<Rightarrow> (config, Some (Wrapf ''failed to parse schema properties: %w'' [] e))
                | Inr allowed \<Rightarrow>
                    (let config' = (case config of None \<Rightarrow> [] | Some c \<Rightarrow> c);
                         data' = (case submitted of None \<Rightarrow> [] | Some d \<Rightarrow> d)
                     in (Some (fold (\<lambda>(k, v) c. if k \<in> set allowed then AList.update k v c else c) data' config'), None)))))"

subsection \<open>Field names\<close>

definition step_field_names :: "step_spec \<Rightarrow> string list" where
  "step_field_names s =
     (if RawJSON_IsEmpty (spec_JsonSchema s) then []
      else (case extractSchemaPropertyNames (spec_JsonSchema s) of Inl e \<Rightarrow> [] | Inr names \<Rightarrow> names))"

definition PreconnectFieldNames :: "setup_flow option \<Rightarrow> string list" where
  "PreconnectFieldNames sf =
     (case sf of
        None \<Rightarrow> []
      | Some f \<Rightarrow> (case Preconnect f of None \<Rightarrow> [] | Some steps \<Rightarrow> concat (map step_field_names steps)))"

definition ConfigureFieldNamesUpTo :: "setup_flow option \<Rightarrow> int \<Rightarrow> string list" where
  "ConfigureFieldNamesUpTo sf stepIndex =
     (case sf of
        None \<Rightarrow> []
      | Some f \<Rightarrow>
          (case Configure f of
             None \<Rightarrow> []
           | Some steps \<Rightarrow>
               (let limit = (if stepIndex > int (length steps) then int (length steps) else stepIndex)
                in concat (map step_field_names (take (nat limit) steps)))))"

definition AllConfigFieldNames :: "setup_flow option \<Rightarrow> string list" where
  "AllConfigFieldNames sf = PreconnectFieldNames sf @ ConfigureFieldNamesUpTo sf (2 ^ 31 - 1)"

text \<open>What a merge does to each field.\<close>

definition cfg_lookup :: "cfg option \<Rightarrow> string \<Rightarrow> json option" where
  "cfg_lookup c k = (case c of None \<Rightarrow> None | Some m \<Rightarrow> map_of m k)"

lemma fold_update_if_distinct:
  "distinct (map fst kvs) \<Longrightarrow>
     map_of (fold (\<lambda>(k, v) c. if P k then AList.update k v c else c) kvs c) x =
       (if P x \<and> map_of kvs x \<noteq> None then map_of kvs x else map_of c x)"
proof (induction kvs arbitrary: c)
  case (Cons kv kvs)
  moreover have "map_of kvs (fst kv) = None" using Cons.prems by (simp add: map_of_eq_None_iff)
  ultimately show ?case by (cases kv) (auto simp: update_conv')
qed simp

lemma json_map_distinct: "json_map j = Inr (Some m) \<Longrightarrow> distinct (map fst m)"
proof -
  have "distinct (map fst c) \<Longrightarrow> distinct (map fst (fold (\<lambda>(k, v). AList.update k v) kvs c))" for kvs :: cfg and c :: cfg
    by (induction kvs arbitrary: c) (auto simp: distinct_update)
  then show "json_map j = Inr (Some m) \<Longrightarrow> distinct (map fst m)"
    by (auto simp: json_map_def split: json.splits)
qed

lemma merge_error_keeps_config: "ValidateAndMergeData sc s i data config = (c, Some e) \<Longrightarrow> c = config"
  by (auto simp: ValidateAndMergeData_def Let_def split: if_splits sum.splits option.splits)

lemma merge_fields:
  assumes "ValidateAndMergeData sc s i data config = (c, None)"
  obtains j submitted allowed where "data = RawDoc j" "json_map j = Inr submitted"
    "extractSchemaPropertyNames (spec_JsonSchema s) = Inr allowed" "i = spec_Id s"
    "\<And>k. cfg_lookup c k = (if k \<in> set allowed \<and> cfg_lookup submitted k \<noteq> None then cfg_lookup submitted k else cfg_lookup config k)"
proof -
  obtain j submitted allowed where *: "data = RawDoc j" "json_map j = Inr submitted"
      "extractSchemaPropertyNames (spec_JsonSchema s) = Inr allowed" "i = spec_Id s"
      "c = Some (fold (\<lambda>(k, v) c. if k \<in> set allowed then AList.update k v c else c)
         (case submitted of None \<Rightarrow> [] | Some d \<Rightarrow> d) (case config of None \<Rightarrow> [] | Some c \<Rightarrow> c))"
    using assms by (auto simp: ValidateAndMergeData_def result_bind_def json_Unmarshal_def Let_def split: if_splits sum.splits option.splits raw_json.splits)
  have "distinct (map fst (case submitted of None \<Rightarrow> [] | Some d \<Rightarrow> d))"
    using json_map_distinct *(2) by (cases submitted) auto
  from fold_update_if_distinct [OF this, of "\<lambda>k. k \<in> set allowed"]
  have "cfg_lookup c k = (if k \<in> set allowed \<and> cfg_lookup submitted k \<noteq> None then cfg_lookup submitted k else cfg_lookup config k)" for k
    by (cases submitted; cases config) (auto simp: *(5) cfg_lookup_def)
  with * that show ?thesis by blast
qed

end
