(* ===== verification/Setup_Flow.thy ===== *)
theory Setup_Flow
  imports Setup_Schema
begin

text \<open>
  The setup flow of one connection: the steps of a manifest
  (\<^verbatim>\<open>internal/core/iface/manifest_setup_step.go\<close>) and the navigation over them
  (\<^verbatim>\<open>internal/core/connection_setup_flow.go\<close>). A step carries closures; they act on a world \<open>'w\<close>, which
  holds whatever the closures of the schema and of the authentication methods read and write. Whether
  a step is eligible depends on the world, and so may change from one request to the next. The
  lemmas relate the navigation to the list of eligible steps and bound the walk through a flow.
\<close>

subsection \<open>Steps of a manifest\<close>

datatype ManifestStepType = ManifestStepTypeForm | ManifestStepTypeRedirect | ManifestStepTypeVerify

definition ErrSubmitNotSupported :: gerror where
  "ErrSubmitNotSupported = Sentinel ''step does not accept form submissions''"

definition ErrRedirectNotSupported :: gerror where
  "ErrRedirectNotSupported = Sentinel ''step is not a redirect step''"

record 'w FormStepConfig =
  form_Id :: string
  form_Title :: string
  form_Description :: string
  form_JsonSchema :: raw_json
  form_UiSchema :: raw_json
  form_OnSubmit :: "(raw_json \<Rightarrow> 'w \<Rightarrow> 'w \<times> err) option"
  form_IsEligible :: "('w \<Rightarrow> gerror + bool) option"

text \<open>\<open>redirect_Render\<close> takes the return URL of the request.\<close>

record 'w RedirectStepConfig =
  redirect_Id :: string
  redirect_Title :: string
  redirect_Description :: string
  redirect_IsEligible :: "('w \<Rightarrow> gerror + bool) option"
  redirect_Render :: "(string \<Rightarrow> 'w \<Rightarrow> 'w \<times> (gerror + string)) option"

datatype 'w manifest_step =
    formStep "'w FormStepConfig"
  | redirectStep "'w RedirectStepConfig"
  | verifyStep

definition NewFormStep :: "'w FormStepConfig \<Rightarrow> 'w manifest_step" where "NewFormStep cfg = formStep cfg"
definition NewRedirectStep :: "'w RedirectStepConfig \<Rightarrow> 'w manifest_step" where "NewRedirectStep cfg = redirectStep cfg"
definition NewVerifyStep :: "'w manifest_step" where "NewVerifyStep = verifyStep"

fun step_Id :: "'w manifest_step \<Rightarrow> string" where
  "step_Id (formStep cfg) = form_Id cfg"
| "step_Id (redirectStep cfg) = redirect_Id cfg"
| "step_Id verifyStep = ''apxy:verify''"

fun step_Title :: "'w manifest_step \<Rightarrow> string" where
  "step_Title (formStep cfg) = form_Title cfg"
| "step_Title (redirectStep cfg) = redirect_Title cfg"
| "step_Title verifyStep = ''Verifying connection''"

fun step_Description :: "'w manifest_step \<Rightarrow> string" where
  "step_Description (formStep cfg) = form_Description cfg"
| "step_Description (redirectStep cfg) = redirect_Description cfg"
| "step_Description verifyStep = []"

fun step_Type :: "'w manifest_step \<Rightarrow> ManifestStepType" where
  "step_Type (formStep cfg) = ManifestStepTypeForm"
| "step_Type (redirectStep cfg) = ManifestStepTypeRedirect"
| "step_Type verifyStep = ManifestStepTypeVerify"

fun step_JsonSchema :: "'w manifest_step \<Rightarrow> raw_json" where
  "step_JsonSchema (formStep cfg) = form_JsonSchema cfg"
| "step_JsonSchema (redirectStep cfg) = NoJson"
| "step_JsonSchema verifyStep = NoJson"

fun step_UiSchema :: "'w manifest_step \<Rightarrow> raw_json" where
  "step_UiSchema (formStep cfg) = form_UiSchema cfg"
| "step_UiSchema (redirectStep cfg) = NoJson"
| "step_UiSchema verifyStep = NoJson"

fun OnSubmit :: "'w manifest_step \<Rightarrow> raw_json \<Rightarrow> 'w \<Rightarrow> 'w \<times> err" where
  "OnSubmit (formStep cfg) data w =
     (case form_OnSubmit cfg of None \<Rightarrow> (w, Some ErrSubmitNotSupported) | Some submit \<Rightarrow> submit data w)"
| "OnSubmit (redirectStep cfg) data w = (w, Some ErrSubmitNotSupported)"
| "OnSubmit verifyStep data w = (w, Some ErrSubmitNotSupported)"

fun RenderRedirect :: "'w manifest_step \<Rightarrow> string \<Rightarrow> 'w \<Rightarrow> 'w \<times> (gerror + string)" where
  "RenderRedirect (formStep cfg) returnToUrl w = (w, Inl ErrRedirectNotSupported)"
| "RenderRedirect (redirectStep cfg) returnToUrl w =
     (case redirect_Render cfg of None \<Rightarrow> (w, Inl ErrRedirectNotSupported) | Some render \<Rightarrow> render returnToUrl w)"
| "RenderRedirect verifyStep returnToUrl w = (w, Inl ErrRedirectNotSupported)"

fun IsEligible :: "'w manifest_step \<Rightarrow> 'w \<Rightarrow> gerror + bool" where
  "IsEligible (formStep cfg) w = (case form_IsEligible cfg of None \<Rightarrow> Inr True | Some p \<Rightarrow> p w)"
| "IsEligible (redirectStep cfg) w = (case redirect_IsEligible cfg of None \<Rightarrow> Inr True | Some p \<Rightarrow> p w)"
| "IsEligible verifyStep w = Inr True"

subsection \<open>The flow\<close>

record 'w manifestFlow =
  flow_steps :: "'w manifest_step list"
  flow_hasProbes :: bool
  flow_hasEnabledProbes :: "('w \<Rightarrow> gerror + bool) option"
  flow_authBoundary :: int

definition empty_flow :: "'w manifestFlow" where
  "empty_flow = \<lparr>flow_steps = [], flow_hasProbes = False, flow_hasEnabledProbes = None, flow_authBoundary = 0\<rparr>"

definition isStepEligible :: "'w manifestFlow \<Rightarrow> 'w \<Rightarrow> int \<Rightarrow> gerror + bool" where
  "isStepEligible f w idx =
     (if idx < 0 \<or> idx \<ge> int (length (flow_steps f)) then Inr False else IsEligible (flow_steps f ! nat idx) w)"

fun steps_loop :: "'w manifestFlow \<Rightarrow> 'w \<Rightarrow> nat list \<Rightarrow> 'w manifest_step list \<Rightarrow> gerror + 'w manifest_step list" where
  "steps_loop f w [] out = Inr out"
| "steps_loop f w (i # is) out =
     (case isStepEligible f w (int i) of
        Inl e \<Rightarrow> Inl e
      | Inr eligible \<Rightarrow> steps_loop f w is (if eligible then out @ [flow_steps f ! i] else out))"

definition Steps :: "'w manifestFlow \<Rightarrow> 'w \<Rightarrow> gerror + 'w manifest_step list" where
  "Steps f w = steps_loop f w [0..<length (flow_steps f)] []"

definition verifyEnabled :: "'w manifestFlow \<Rightarrow> 'w \<Rightarrow> gerror + bool" where
  "verifyEnabled f w =
     (if \<not> flow_hasProbes f then Inr False
      else case flow_hasEnabledProbes f of None \<Rightarrow> Inr True | Some p \<Rightarrow> p w)"

fun find_id :: "string \<Rightarrow> nat \<Rightarrow> 'w manifest_step list \<Rightarrow> nat option" where
  "find_id i n [] = None"
| "find_id i n (s # ss) = (if step_Id s = i then Some n else find_id i (Suc n) ss)"

text \<open>The step is returned, with whether it is eligible.\<close>

definition StepById :: "'w manifestFlow \<Rightarrow> 'w \<Rightarrow> string \<Rightarrow> gerror + ('w manifest_step option \<times> bool)" where
  "StepById f w i =
     (if i = [] then Inr (None, False)
      else if i = step_Id (NewVerifyStep :: 'w manifest_step) \<and> flow_hasProbes f
      then (case verifyEnabled f w of
              Inl e \<Rightarrow> Inl e
            | Inr ok \<Rightarrow> if \<not> ok then Inr (None, False) else Inr (Some NewVerifyStep, True))
      else (case find_id i 0 (flow_steps f) of
              None \<Rightarrow> Inr (None, False)
            | Some n \<Rightarrow> (case isStepEligible f w (int n) of Inl e \<Rightarrow> Inl e | Inr eligible \<Rightarrow> Inr (Some (flow_steps f ! n), eligible))))"

definition ContainsStep :: "'w manifestFlow \<Rightarrow> string \<Rightarrow> bool" where
  "ContainsStep f i \<longleftrightarrow>
     i \<noteq> [] \<and> (i = step_Id (NewVerifyStep :: 'w manifest_step) \<and> flow_hasProbes f \<or> list_ex (\<lambda>s. step_Id s = i) (flow_steps f))"

function next_loop :: "'w manifestFlow \<Rightarrow> 'w \<Rightarrow> int \<Rightarrow> int \<Rightarrow> gerror + 'w manifest_step option" where
  "next_loop f w i end =
     (if i \<le> end
      then (case isStepEligible f w i of
              Inl e \<Rightarrow> Inl e
            | Inr eligible \<Rightarrow> if eligible then Inr (Some (flow_steps f ! nat i)) else next_loop f w (i + 1) end)
      else Inr None)"
  by pat_completeness auto
termination by (relation "measure (\<lambda>(f, w, i, end). nat (end + 1 - i))") auto

declare next_loop.simps [simp del]

definition nextEligibleStep :: "'w manifestFlow \<Rightarrow> 'w \<Rightarrow> int \<Rightarrow> int \<Rightarrow> gerror + 'w manifest_step option" where
  "nextEligibleStep f w start0 end0 =
     (let start = (if start0 < 0 then 0 else start0);
          end = (if end0 \<ge> int (length (flow_steps f)) then int (length (flow_steps f)) - 1 else end0)
      in if start > end then Inr None else next_loop f w start end)"

definition FirstStep :: "'w manifestFlow \<Rightarrow> 'w \<Rightarrow> gerror + 'w manifest_step option" where
  "FirstStep f w =
     (let rest = nextEligibleStep f w 0 (int (length (flow_steps f)) - 1) in
      if flow_hasProbes f \<and> flow_authBoundary f \<ge> 0
      then (case nextEligibleStep f w 0 (flow_authBoundary f) of
              Inl e \<Rightarrow> Inl e
            | Inr (Some step) \<Rightarrow> Inr (Some step)
            | Inr None \<Rightarrow>
                (case verifyEnabled f w of
                   Inl e \<Rightarrow> Inl e
                 | Inr verify \<Rightarrow> if verify then Inr (Some NewVerifyStep) else rest))
      else rest)"

definition NextStep :: "'w manifestFlow \<Rightarrow> 'w \<Rightarrow> string \<Rightarrow> gerror + 'w manifest_step option" where
  "NextStep f w currentId =
     (let last = int (length (flow_steps f)) - 1 in
      if currentId = step_Id (NewVerifyStep :: 'w manifest_step) then nextEligibleStep f w (flow_authBoundary f + 1) last
      else case find_id currentId 0 (flow_steps f) of
        None \<Rightarrow> Inr None
      | Some i \<Rightarrow>
          if flow_hasProbes f \<and> int i \<le> flow_authBoundary f
          then (case nextEligibleStep f w (int i + 1) (flow_authBoundary f) of
                  Inl e \<Rightarrow> Inl e
                | Inr (Some next) \<Rightarrow> Inr (Some next)
                | Inr None \<Rightarrow>
                    (case verifyEnabled f w of
                       Inl e \<Rightarrow> Inl e
                     | Inr verify \<Rightarrow>
                         if verify then Inr (Some NewVerifyStep) else nextEligibleStep f w (flow_authBoundary f + 1) last))
          else nextEligibleStep f w (int i + 1) last)"

subsection \<open>Navigation over lists of steps\<close>

fun first_eligible :: "'w \<Rightarrow> 'w manifest_step list \<Rightarrow> gerror + 'w manifest_step option" where
  "first_eligible w [] = Inr None"
| "first_eligible w (s # ss) =
     (case IsEligible s w of Inl e \<Rightarrow> Inl e | Inr ok \<Rightarrow> if ok then Inr (Some s) else first_eligible w ss)"

definition until_boundary :: "'w manifestFlow \<Rightarrow> 'w manifest_step list" where
  "until_boundary f = take (nat (flow_authBoundary f + 1)) (flow_steps f)"

definition after_boundary :: "'w manifestFlow \<Rightarrow> 'w manifest_step list" where
  "after_boundary f = drop (nat (flow_authBoundary f + 1)) (flow_steps f)"

text \<open>The flows that are built: identifiers are unique, none is that of the verification step.\<close>

definition flow_ok :: "'w manifestFlow \<Rightarrow> bool" where
  "flow_ok f \<longleftrightarrow>
     distinct (map step_Id (flow_steps f)) \<and> ''apxy:verify'' \<notin> step_Id ` set (flow_steps f) \<and>
     - 1 \<le> flow_authBoundary f \<and> flow_authBoundary f < int (length (flow_steps f))"

lemma boundary_append: "until_boundary f @ after_boundary f = flow_steps f"
  by (simp add: until_boundary_def after_boundary_def)

lemma length_until_boundary: "flow_ok f \<Longrightarrow> int (length (until_boundary f)) = flow_authBoundary f + 1"
  unfolding flow_ok_def until_boundary_def length_take by linarith

lemma next_loop_slice:
  "0 \<le> i \<Longrightarrow> i \<le> end + 1 \<Longrightarrow> end < int (length (flow_steps f)) \<Longrightarrow>
     next_loop f w i end = first_eligible w (drop (nat i) (take (nat (end + 1)) (flow_steps f)))"
proof (induction f w i "end" rule: next_loop.induct)
  case (1 f w i "end")
  show ?case
  proof (cases "i \<le> end")
    case True
    then have "nat i < length (take (nat (end + 1)) (flow_steps f))" using 1(2,4) by simp
    moreover have "take (nat (end + 1)) (flow_steps f) ! nat i = flow_steps f ! nat i" using True 1(2) by simp
    ultimately have d: "drop (nat i) (take (nat (end + 1)) (flow_steps f)) =
        flow_steps f ! nat i # drop (nat (i + 1)) (take (nat (end + 1)) (flow_steps f))"
      using 1(2) by (metis Cons_nth_drop_Suc Suc_nat_eq_nat_zadd1 add.commute)
    have e: "isStepEligible f w i = IsEligible (flow_steps f ! nat i) w" using True 1(2,4) by (simp add: isStepEligible_def)
    show ?thesis
    proof (cases "IsEligible (flow_steps f ! nat i) w")
      case (Inl x)
      then show ?thesis unfolding d by (simp add: True e next_loop.simps [of f w i])
    next
      case (Inr ok)
      with 1(1) [OF True, of ok] 1(2,4) True e show ?thesis unfolding d by (simp add: next_loop.simps [of f w i])
    qed
  next
    case False
    with 1(2,3) have "i = end + 1" by simp
    then show ?thesis by (simp add: next_loop.simps [of f w "end + 1"])
  qed
qed

lemma nextEligibleStep_slice:
  assumes "0 \<le> a" "a \<le> b + 1" "b < int (length (flow_steps f))"
  shows "nextEligibleStep f w a b = first_eligible w (drop (nat a) (take (nat (b + 1)) (flow_steps f)))"
  using assms next_loop_slice [of a b f w] by (auto simp: nextEligibleStep_def Let_def)

lemma nextEligibleStep_rest:
  assumes "n \<le> length (flow_steps f)"
  shows "nextEligibleStep f w (int n) (int (length (flow_steps f)) - 1) = first_eligible w (drop n (flow_steps f))"
  using assms nextEligibleStep_slice [of "int n" "int (length (flow_steps f)) - 1" f w] by simp

lemma nextEligibleStep_before:
  assumes "flow_ok f" "n \<le> length (until_boundary f)"
  shows "nextEligibleStep f w (int n) (flow_authBoundary f) = first_eligible w (drop n (until_boundary f))"
proof -
  have "int n \<le> flow_authBoundary f + 1" "flow_authBoundary f < int (length (flow_steps f))"
    using assms length_until_boundary [OF assms(1)] by (simp_all add: flow_ok_def)
  then show ?thesis using nextEligibleStep_slice [of "int n" "flow_authBoundary f" f w] by (simp add: until_boundary_def)
qed

lemma nextEligibleStep_after:
  assumes "flow_ok f"
  shows "nextEligibleStep f w (flow_authBoundary f + 1) (int (length (flow_steps f)) - 1) = first_eligible w (after_boundary f)"
  using nextEligibleStep_rest [of "length (until_boundary f)" f w] length_until_boundary [OF assms] boundary_append [of f]
  by (metis append_eq_conv_conj le_add1 length_append)

lemma find_id_Some: "find_id i n ss = Some k \<Longrightarrow> n \<le> k \<and> k - n < length ss \<and> step_Id (ss ! (k - n)) = i"
  by (induction ss arbitrary: n) (fastforce simp: nth_Cons' split: if_splits)+

lemma find_id_None [simp]: "find_id i n ss = None \<longleftrightarrow> i \<notin> step_Id ` set ss"
  by (induction ss arbitrary: n) auto

lemma find_id_at: "distinct (map step_Id (xs @ s # ys)) \<Longrightarrow> find_id (step_Id s) n (xs @ s # ys) = Some (n + length xs)"
  by (induction xs arbitrary: n) auto

text \<open>The navigation, without indices.\<close>

definition enter_verify :: "'w manifestFlow \<Rightarrow> 'w \<Rightarrow> gerror + 'w manifest_step option" where
  "enter_verify f w =
     (case verifyEnabled f w of
        Inl e \<Rightarrow> Inl e
      | Inr verify \<Rightarrow> if verify then Inr (Some verifyStep) else first_eligible w (after_boundary f))"

definition or_else :: "gerror + 'a option \<Rightarrow> gerror + 'a option \<Rightarrow> gerror + 'a option" where
  "or_else x y = (case x of Inl e \<Rightarrow> Inl e | Inr None \<Rightarrow> y | Inr (Some a) \<Rightarrow> Inr (Some a))"

lemma first_eligible_append: "first_eligible w (xs @ ys) = or_else (first_eligible w xs) (first_eligible w ys)"
  by (induction xs) (auto simp: or_else_def split: sum.splits)

lemma verify_no_probes: "\<not> flow_hasProbes f \<Longrightarrow> enter_verify f w = first_eligible w (after_boundary f)"
  by (simp add: enter_verify_def verifyEnabled_def)

lemma NextStep_before:
  assumes "flow_ok f" "until_boundary f = xs @ s # ys"
  shows "NextStep f w (step_Id s) = or_else (first_eligible w ys) (enter_verify f w)"
proof -
  have st: "flow_steps f = xs @ s # (ys @ after_boundary f)" using boundary_append [of f] assms(2) by simp
  have id: "find_id (step_Id s) 0 (flow_steps f) = Some (length xs)" "step_Id s \<noteq> ''apxy:verify''"
    using assms(1) find_id_at [of xs s "ys @ after_boundary f" 0] by (auto simp: flow_ok_def st)
  have len: "int (length xs) \<le> flow_authBoundary f" using length_until_boundary [OF assms(1)] assms(2) by simp
  have before: "nextEligibleStep f w (int (length xs) + 1) (flow_authBoundary f) = first_eligible w ys"
    using nextEligibleStep_before [OF assms(1), of "Suc (length xs)" w] by (simp add: assms(2) add.commute)
  have rest: "nextEligibleStep f w (int (length xs) + 1) (int (length (flow_steps f)) - 1) = first_eligible w (ys @ after_boundary f)"
    using nextEligibleStep_rest [of "Suc (length xs)" f w] by (simp add: st add.commute)
  show ?thesis
  proof (cases "flow_hasProbes f")
    case True
    then show ?thesis
      by (simp add: NextStep_def id len before nextEligibleStep_after [OF assms(1)] or_else_def enter_verify_def NewVerifyStep_def Let_def
          split: sum.split option.split)
  next
    case False
    then show ?thesis by (simp add: NextStep_def id rest NewVerifyStep_def Let_def first_eligible_append verify_no_probes)
  qed
qed

lemma NextStep_verify: "flow_ok f \<Longrightarrow> NextStep f w ''apxy:verify'' = first_eligible w (after_boundary f)"
  by (simp add: NextStep_def NewVerifyStep_def nextEligibleStep_after Let_def)

lemma NextStep_after:
  assumes "flow_ok f" "after_boundary f = xs @ s # ys"
  shows "NextStep f w (step_Id s) = first_eligible w ys"
proof -
  have st: "flow_steps f = (until_boundary f @ xs) @ s # ys" using boundary_append [of f] assms(2) by simp
  have id: "find_id (step_Id s) 0 (flow_steps f) = Some (length (until_boundary f @ xs))" "step_Id s \<noteq> ''apxy:verify''"
    using assms(1) find_id_at [of "until_boundary f @ xs" s ys 0] by (auto simp: flow_ok_def st)
  have "\<not> int (length (until_boundary f @ xs)) \<le> flow_authBoundary f" using length_until_boundary [OF assms(1)] by simp
  moreover have "nextEligibleStep f w (int (length (until_boundary f @ xs)) + 1) (int (length (flow_steps f)) - 1) = first_eligible w ys"
    using nextEligibleStep_rest [of "Suc (length (until_boundary f @ xs))" f w] by (simp add: st add.commute)
  ultimately show ?thesis by (simp add: NextStep_def id NewVerifyStep_def Let_def)
qed

lemma FirstStep_boundary:
  assumes "flow_ok f" "until_boundary f \<noteq> []"
  shows "FirstStep f w = or_else (first_eligible w (until_boundary f)) (enter_verify f w)"
proof -
  have b: "0 \<le> flow_authBoundary f" using length_until_boundary [OF assms(1)] assms(2) by (cases "until_boundary f") auto
  note before = nextEligibleStep_before [OF assms(1), of 0 w, simplified]
  note all = nextEligibleStep_rest [of 0 f w, simplified]
  have split: "first_eligible w (flow_steps f) = or_else (first_eligible w (until_boundary f)) (first_eligible w (after_boundary f))"
    by (metis boundary_append first_eligible_append)
  show ?thesis
  proof (cases "flow_hasProbes f")
    case True
    then show ?thesis
      by (auto simp: FirstStep_def Let_def b before all split or_else_def enter_verify_def NewVerifyStep_def split: sum.split option.split)
  next
    case False
    then show ?thesis by (simp add: FirstStep_def Let_def all split verify_no_probes)
  qed
qed

lemma FirstStep_no_boundary:
  assumes "flow_ok f" "until_boundary f = []"
  shows "FirstStep f w = first_eligible w (after_boundary f)"
proof -
  have "flow_authBoundary f = - 1" "after_boundary f = flow_steps f"
    using length_until_boundary [OF assms(1)] boundary_append [of f] assms(2) by simp_all
  then show ?thesis using nextEligibleStep_rest [of 0 f w] by (simp add: FirstStep_def Let_def)
qed

subsection \<open>The walk through a flow\<close>

text \<open>The steps a user meets, when every condition evaluates: the reference the navigation is compared with.\<close>

definition setup_plan :: "('w manifest_step \<Rightarrow> bool) \<Rightarrow> bool \<Rightarrow> 'w manifestFlow \<Rightarrow> 'w manifest_step list" where
  "setup_plan E verify f =
     filter E (until_boundary f) @ (if verify \<and> until_boundary f \<noteq> [] then [verifyStep] else []) @ filter E (after_boundary f)"

text \<open>From a step on, the steps met by asking for the next one until there is none.\<close>

fun walk_from :: "nat \<Rightarrow> 'w manifestFlow \<Rightarrow> 'w \<Rightarrow> 'w manifest_step option \<Rightarrow> 'w manifest_step list option" where
  "walk_from fuel f w None = Some []"
| "walk_from 0 f w (Some s) = None"
| "walk_from (Suc fuel) f w (Some s) =
     (case NextStep f w (step_Id s) of
        Inl e \<Rightarrow> None
      | Inr next \<Rightarrow> map_option ((#) s) (walk_from fuel f w next))"

definition hd_option :: "'a list \<Rightarrow> 'a option" where
  "hd_option xs = (case xs of [] \<Rightarrow> None | x # _ \<Rightarrow> Some x)"

lemma first_eligible_filter:
  "\<forall>s \<in> set ss. IsEligible s w = Inr (E s) \<Longrightarrow> first_eligible w ss = Inr (hd_option (filter E ss))"
  by (induction ss) (auto simp: hd_option_def)

lemma or_else_Inr: "or_else (Inr (hd_option xs)) (Inr (hd_option ys)) = Inr (hd_option (xs @ ys))"
  by (cases xs) (auto simp: or_else_def hd_option_def)

lemma filter_split:
  "filter E l = xs @ s # zs \<Longrightarrow> \<exists>us vs. l = us @ s # vs \<and> filter E vs = zs"
proof (induction l arbitrary: xs)
  case (Cons a l)
  show ?case
  proof (cases "E a \<and> xs = []")
    case True
    then show ?thesis using Cons.prems by (intro exI [of _ "[]"] exI [of _ l]) simp
  next
    case False
    then obtain xs' where "filter E l = xs' @ s # zs" using Cons.prems by (cases xs) (auto split: if_splits)
    from Cons.IH [OF this] obtain us vs where "l = us @ s # vs" "filter E vs = zs" by blast
    then show ?thesis by (intro exI [of _ "a # us"] exI [of _ vs]) simp
  qed
qed simp

text \<open>Every condition of the flow evaluates: the steps to \<open>E\<close>, the probes to \<open>v\<close>.\<close>

definition evaluates :: "'w manifestFlow \<Rightarrow> 'w \<Rightarrow> ('w manifest_step \<Rightarrow> bool) \<Rightarrow> bool \<Rightarrow> bool" where
  "evaluates f w E v \<longleftrightarrow> (\<forall>s \<in> set (flow_steps f). IsEligible s w = Inr (E s)) \<and> verifyEnabled f w = Inr v"

lemma evaluates_parts:
  assumes "evaluates f w E v"
  shows "\<forall>s \<in> set (until_boundary f). IsEligible s w = Inr (E s)" "\<forall>s \<in> set (after_boundary f). IsEligible s w = Inr (E s)"
  using assms boundary_append [of f] unfolding evaluates_def by (metis UnCI set_append)+

lemma enter_verify_plan:
  assumes "evaluates f w E v"
  shows "enter_verify f w = Inr (hd_option ((if v then [verifyStep] else []) @ filter E (after_boundary f)))"
  using first_eligible_filter [OF evaluates_parts(2) [OF assms]] assms by (auto simp: enter_verify_def evaluates_def hd_option_def)

lemma FirstStep_plan:
  assumes ok: "flow_ok f" and ev: "evaluates f w E v"
  shows "FirstStep f w = Inr (hd_option (setup_plan E v f))"
proof (cases "until_boundary f = []")
  case True
  then show ?thesis using FirstStep_no_boundary [OF ok True, of w] first_eligible_filter [OF evaluates_parts(2) [OF ev]] by (simp add: setup_plan_def)
next
  case False
  then show ?thesis
    using FirstStep_boundary [OF ok False, of w] first_eligible_filter [OF evaluates_parts(1) [OF ev]] enter_verify_plan [OF ev]
    by (simp add: setup_plan_def or_else_Inr)
qed

lemma NextStep_plan:
  assumes ok: "flow_ok f" and ev: "evaluates f w E v" and plan: "setup_plan E v f = xs @ s # ys"
  shows "NextStep f w (step_Id s) = Inr (hd_option ys)"
proof -
  let ?V = "if v \<and> until_boundary f \<noteq> [] then [verifyStep] else [] :: 'w manifest_step list"
  consider (before) zs where "filter E (until_boundary f) = xs @ s # zs" "ys = zs @ ?V @ filter E (after_boundary f)"
    | (verify) "s = verifyStep" "ys = filter E (after_boundary f)"
    | (after) zs where "filter E (after_boundary f) = zs @ s # ys"
    using plan unfolding setup_plan_def append_eq_append_conv2
    by (auto simp: Cons_eq_append_conv append_eq_Cons_conv split: if_splits)
  then show ?thesis
  proof cases
    case before
    then obtain us vs where u: "until_boundary f = us @ s # vs" "filter E vs = zs"
      using filter_split [of E "until_boundary f" xs s zs] by blast
    then have "\<forall>s \<in> set vs. IsEligible s w = Inr (E s)" using evaluates_parts(1) [OF ev] by simp
    from first_eligible_filter [OF this] u show ?thesis
      using NextStep_before [OF ok u(1), of w] enter_verify_plan [OF ev] before(2) by (simp add: or_else_Inr)
  next
    case verify
    then show ?thesis using NextStep_verify [OF ok, of w] first_eligible_filter [OF evaluates_parts(2) [OF ev]] by simp
  next
    case after
    then obtain us vs where u: "after_boundary f = us @ s # vs" "filter E vs = ys"
      using filter_split [of E "after_boundary f" zs s ys] by blast
    then have "\<forall>s \<in> set vs. IsEligible s w = Inr (E s)" using evaluates_parts(2) [OF ev] by simp
    from first_eligible_filter [OF this] u NextStep_after [OF ok u(1), of w] show ?thesis by simp
  qed
qed

lemma walk_from_plan:
  "flow_ok f \<Longrightarrow> evaluates f w E v \<Longrightarrow> setup_plan E v f = xs @ ys \<Longrightarrow> length ys \<le> n \<Longrightarrow> walk_from n f w (hd_option ys) = Some ys"
proof (induction ys arbitrary: xs n)
  case (Cons s ys)
  then obtain m where "n = Suc m" "length ys \<le> m" by (cases n) auto
  moreover have "walk_from m f w (hd_option ys) = Some ys" using Cons.IH [of "xs @ [s]" m] Cons.prems calculation by simp
  ultimately show ?case using NextStep_plan [OF Cons.prems(1,2,3)] by (simp add: hd_option_def)
qed (simp add: hd_option_def)

lemma setup_plan_length: "length (setup_plan E v f) \<le> length (flow_steps f) + 1"
proof -
  have "length (filter E (until_boundary f)) + length (filter E (after_boundary f)) \<le> length (flow_steps f)"
    using boundary_append [of f] length_filter_le by (metis add_mono length_append)
  then show ?thesis by (simp add: setup_plan_def)
qed

text \<open>
  Where a step stands. Whatever a request changed in between, the next step stands further on, so a
  flow has ended after as many steps as it has, and one.
\<close>

definition place :: "'w manifestFlow \<Rightarrow> string \<Rightarrow> nat option" where
  "place f i =
     (if i = ''apxy:verify'' then Some (length (until_boundary f))
      else map_option (\<lambda>n. if n < length (until_boundary f) then n else Suc n) (find_id i 0 (flow_steps f)))"

lemma place_at:
  assumes "flow_ok f" "flow_steps f = xs @ s # ys"
  shows "place f (step_Id s) = Some (if length xs < length (until_boundary f) then length xs else Suc (length xs))"
  using assms find_id_at [of xs s ys 0] by (auto simp: flow_ok_def place_def)

lemma place_before:
  assumes "flow_ok f" "until_boundary f = xs @ s # ys"
  shows "place f (step_Id s) = Some (length xs)"
proof -
  have "flow_steps f = xs @ s # (ys @ after_boundary f)" using boundary_append [of f] assms(2) by simp
  from place_at [OF assms(1) this] assms(2) show ?thesis by simp
qed

lemma place_after:
  assumes "flow_ok f" "after_boundary f = xs @ s # ys"
  shows "place f (step_Id s) = Some (Suc (length (until_boundary f) + length xs))"
proof -
  have "flow_steps f = (until_boundary f @ xs) @ s # ys" using boundary_append [of f] assms(2) by simp
  from place_at [OF assms(1) this] show ?thesis by simp
qed

lemma first_eligible_split: "first_eligible w l = Inr (Some s) \<Longrightarrow> \<exists>xs ys. l = xs @ s # ys"
proof (induction l)
  case (Cons a l)
  then show ?case by (auto split: sum.splits if_splits) (metis append_Cons append_Nil)+
qed simp

lemma place_after_next:
  assumes "flow_ok f" "after_boundary f = pre @ l" "first_eligible w l = Inr (Some s)"
  shows "\<exists>k. place f (step_Id s) = Some k \<and> Suc (length (until_boundary f) + length pre) \<le> k"
proof -
  obtain xs ys where "l = xs @ s # ys" using first_eligible_split [OF assms(3)] by blast
  with assms(2) have "after_boundary f = (pre @ xs) @ s # ys" by simp
  from place_after [OF assms(1) this] show ?thesis by simp
qed

lemma NextStep_known:
  assumes "NextStep f w i = Inr (Some s)"
  obtains (verify) "i = ''apxy:verify''" | (before) xs a ys where "until_boundary f = xs @ a # ys" "step_Id a = i"
    | (after) xs a ys where "after_boundary f = xs @ a # ys" "step_Id a = i"
proof (cases "i = ''apxy:verify''")
  case True
  then show thesis by (rule verify)
next
  case False
  have "find_id i 0 (flow_steps f) \<noteq> None"
  proof
    assume "find_id i 0 (flow_steps f) = None"
    with False assms show False by (simp add: NextStep_def NewVerifyStep_def Let_def del: find_id_None)
  qed
  then obtain a where "a \<in> set (flow_steps f)" and a: "step_Id a = i" by auto
  then consider "a \<in> set (until_boundary f)" | "a \<in> set (after_boundary f)"
    using boundary_append [of f] by (metis Un_iff set_append)
  then show thesis
    by cases (use split_list [of a] a before after in blast)+
qed

lemma NextStep_place:
  assumes ok: "flow_ok f" and "NextStep f w i = Inr (Some s)"
  shows "\<exists>m n. place f i = Some m \<and> place f (step_Id s) = Some n \<and> m < n"
proof -
  from assms(2) show ?thesis
  proof (cases rule: NextStep_known)
    case verify
    with assms(2) NextStep_verify [OF ok, of w] place_after_next [OF ok, of "[]" "after_boundary f" w s] show ?thesis
      by (auto simp: place_def [of f "''apxy:verify''"])
  next
    case (before xs a ys)
    have len: "length xs < length (until_boundary f)" using before(1) by simp
    consider (b) us vs where "until_boundary f = (xs @ a # us) @ s # vs" | (v) "s = verifyStep" | (a) "first_eligible w (after_boundary f) = Inr (Some s)"
    proof -
      have "first_eligible w ys = Inr (Some s) \<or> enter_verify f w = Inr (Some s)"
        using NextStep_before [OF ok before(1), of w] before(2) assms(2) by (auto simp: or_else_def split: sum.splits option.splits)
      then show ?thesis using that first_eligible_split [of w ys s] before(1) by (auto simp: enter_verify_def split: sum.splits if_splits)
    qed
    then show ?thesis
    proof cases
      case b
      then show ?thesis using place_before [OF ok before(1)] before(2) place_before [OF ok b] by simp
    next
      case v
      then show ?thesis using place_before [OF ok before(1)] before(2) len by (simp add: place_def [of f "''apxy:verify''"])
    next
      case a
      from place_after_next [OF ok _ a, of "[]"] show ?thesis using place_before [OF ok before(1)] before(2) len by auto
    qed
  next
    case (after xs a ys)
    then have "first_eligible w ys = Inr (Some s)" using NextStep_after [OF ok after(1), of w] assms(2) by simp
    from place_after_next [OF ok _ this, of "xs @ [a]"] place_after [OF ok after(1)] after show ?thesis by auto
  qed
qed

lemma place_bound: "flow_ok f \<Longrightarrow> place f i = Some n \<Longrightarrow> n \<le> length (flow_steps f)"
  using boundary_append [of f] find_id_Some [of i 0 "flow_steps f"]
  by (auto simp: place_def split: if_splits) (metis le_add1 length_append)

definition setup_path :: "'w manifestFlow \<Rightarrow> string list \<Rightarrow> bool" where
  "setup_path f ids \<longleftrightarrow>
     (\<forall>k. Suc k < length ids \<longrightarrow> (\<exists>w s. NextStep f w (ids ! k) = Inr (Some s) \<and> step_Id s = ids ! Suc k))"

lemma setup_path_place:
  assumes "flow_ok f" "setup_path f ids" "k < length ids" "0 < k"
  shows "\<exists>n. place f (ids ! k) = Some n \<and> k \<le> n"
  using assms(3,4)
proof (induction k)
  case (Suc k)
  obtain w s where s: "NextStep f w (ids ! k) = Inr (Some s)" "step_Id s = ids ! Suc k"
    using assms(2) Suc.prems unfolding setup_path_def by blast
  obtain m n where mn: "place f (ids ! k) = Some m" "place f (ids ! Suc k) = Some n" "m < n"
    using NextStep_place [OF assms(1) s(1)] s(2) by auto
  show ?case
  proof (cases "k = 0")
    case False
    then show ?thesis using Suc mn by auto
  qed (use mn in auto)
qed simp


definition sample_form :: "string \<Rightarrow> bool \<Rightarrow> unit manifest_step" where
  "sample_form i ok = formStep \<lparr>form_Id = i, form_Title = i, form_Description = [], form_JsonSchema = RawDoc (JObj []), form_UiSchema = NoJson,
     form_OnSubmit = None, form_IsEligible = Some (\<lambda>_. Inr ok)\<rparr>"

definition sample_flow :: "unit manifestFlow" where
  "sample_flow = \<lparr>flow_steps = [sample_form ''tenant'' True, sample_form ''apxy:auth:api_key'' True, sample_form ''team'' False, sample_form ''channel'' True],
     flow_hasProbes = True, flow_hasEnabledProbes = None, flow_authBoundary = 1\<rparr>"

lemma sample_flow_ok: "flow_ok sample_flow"
  by (simp add: flow_ok_def sample_flow_def sample_form_def)


text \<open>
  Property C36. A setup ends: in any sequence of steps each of which is the next step of its
  predecessor, evaluated at whatever state the connection had at the time, there are at most as many
  steps as the flow has, and one. Conditions that change between requests cannot lead back.
\<close>

theorem setup_terminates:
  assumes "flow_ok f" "setup_path f ids"
  shows "length ids \<le> length (flow_steps f) + 1"
proof (cases "length ids \<le> 1")
  case False
  then obtain k where k: "length ids = Suc k" "0 < k" by (cases "length ids") auto
  then obtain n where "place f (ids ! k) = Some n" "k \<le> n" using setup_path_place [OF assms, of k] by auto
  with place_bound [OF assms(1)] k show ?thesis by fastforce
qed simp

theorem setup_terminates_witness:
  "setup_path sample_flow [''tenant'', ''apxy:auth:api_key'', ''apxy:verify'', ''channel''] \<and>
     length [''tenant'', ''apxy:auth:api_key'', ''apxy:verify'', ''channel''] \<le> length (flow_steps sample_flow) + 1"
proof -
  have "NextStep sample_flow () ''tenant'' = Inr (Some (sample_form ''apxy:auth:api_key'' True))"
    "NextStep sample_flow () ''apxy:auth:api_key'' = Inr (Some verifyStep)"
    "NextStep sample_flow () ''apxy:verify'' = Inr (Some (sample_form ''channel'' True))"
    by (simp_all add: NextStep_def sample_flow_def sample_form_def NewVerifyStep_def nextEligibleStep_def next_loop.simps isStepEligible_def verifyEnabled_def Let_def)
  then have "setup_path sample_flow [''tenant'', ''apxy:auth:api_key'', ''apxy:verify'', ''channel'']"
    unfolding setup_path_def
    by (auto simp: less_Suc_eq nth_Cons' sample_form_def intro!: exI [of _ "()"])
  with setup_terminates [OF sample_flow_ok] show ?thesis by blast
qed

end
