(* ===== verification/Connection_Store.thy ===== *)
theory Connection_Store
  imports Rate_Limit_Store
begin

text \<open>
  Stored connections (\<^verbatim>\<open>internal/database/connection.go\<close>): rows and their columns, creation, the setters
  of state, health, setup step, setup error and configuration, the replacement of a row by a version
  migration, the edits of name, labels and annotations, deletion and the list builder. An operation
  takes the database and returns the new one with its error or result. Encrypted fields are those of
  \<^verbatim>\<open>internal/encfield\<close>. The lemmas show that every stored row is well formed and which columns each
  setter can change.
\<close>

subsection \<open>Encrypted fields\<close>

record encrypted_field =
  ef_ID :: string
  ef_Data :: string

definition EncryptedField_IsZero :: "encrypted_field \<Rightarrow> bool" where
  "EncryptedField_IsZero ef \<longleftrightarrow> ef_ID ef = [] \<and> ef_Data ef = []"

definition ToInlineString :: "encrypted_field \<Rightarrow> string" where
  "ToInlineString ef = ef_ID ef @ '':'' @ ef_Data ef"

definition PrefixDataEncryptionKey :: string where "PrefixDataEncryptionKey = ''dek_''"

definition ParseInlineString :: "string \<Rightarrow> gerror + encrypted_field" where
  "ParseInlineString s =
     (if \<not> HasPrefix s PrefixDataEncryptionKey then Inl (Errf ''invalid encrypted field format: missing dek_ prefix'' [])
      else case Index s '':'' of
        None \<Rightarrow> Inl (Errf ''invalid encrypted field format: missing colon separator'' [])
      | Some i \<Rightarrow> Inr \<lparr>ef_ID = take i s, ef_Data = drop (i + 1) s\<rparr>)"

definition EncryptedField_Value :: "encrypted_field \<Rightarrow> sql_value" where
  "EncryptedField_Value ef =
     (if EncryptedField_IsZero ef then VNull else VDoc (JObj [(''id'', JStr (ef_ID ef)), (''d'', JStr (ef_Data ef))]))"

text \<open>An empty text and NULL are the zero field.\<close>

definition EncryptedField_Scan :: "sql_value \<Rightarrow> gerror + encrypted_field" where
  "EncryptedField_Scan v =
     (case v of
        VNull \<Rightarrow> Inr \<lparr>ef_ID = [], ef_Data = []\<rparr>
      | VText [] \<Rightarrow> Inr \<lparr>ef_ID = [], ef_Data = []\<rparr>
      | VDoc j \<Rightarrow> json_struct (\<lambda>j. result_bind (json_string (json_field j ''id'')) (\<lambda>i.
                    result_bind (json_string (json_field j ''d'')) (\<lambda>d. Inr \<lparr>ef_ID = i, ef_Data = d\<rparr>))) (Some j)
      | _ \<Rightarrow> Inl (Errf ''cannot scan %T into EncryptedField'' []))"

lemma EncryptedField_reread: "EncryptedField_Scan (EncryptedField_Value ef) = Inr ef"
  by (cases ef) (simp add: EncryptedField_Value_def EncryptedField_IsZero_def EncryptedField_Scan_def json_struct_def json_field_def json_string_def)

lemma inline_reread:
  assumes "HasPrefix (ef_ID ef) PrefixDataEncryptionKey" "CHR '':'' \<notin> set (ef_ID ef)"
  shows "ParseInlineString (ToInlineString ef) = Inr ef"
proof -
  have "HasPrefix (ToInlineString ef) PrefixDataEncryptionKey"
    using assms(1) by (auto simp: HasPrefix_iff ToInlineString_def)
  moreover have "Index (ToInlineString ef) '':'' = Some (length (ef_ID ef))"
    using Index_first [of "'':''" "ef_ID ef" "ef_Data ef"] assms(2) by (simp add: ToInlineString_def)
  ultimately show ?thesis by (cases ef) (simp add: ParseInlineString_def ToInlineString_def)
qed

subsection \<open>Rows\<close>

definition IsValidConnectionState :: "string \<Rightarrow> bool" where
  "IsValidConnectionState s \<longleftrightarrow>
     s = ''setup'' \<or> s = ''configured'' \<or> s = ''disabled'' \<or> s = ''disconnecting'' \<or> s = ''disconnected''"

definition IsValidConnectionHealthState :: "string \<Rightarrow> bool" where
  "IsValidConnectionHealthState s \<longleftrightarrow> s = ''healthy'' \<or> s = ''unhealthy''"

definition PrefixConnection :: string where "PrefixConnection = ''cxn_''"
definition PrefixConnectorVersion :: string where "PrefixConnectorVersion = ''cxr_''"

record db_connection =
  C_Id :: string
  C_Namespace :: string
  C_Name :: string
  C_State :: string
  C_HealthState :: string
  C_ConnectorId :: string
  C_ConnectorVersion :: "64 word"
  C_Labels :: smap
  C_Annotations :: smap
  C_EncryptedConfiguration :: "encrypted_field option"
  C_EncryptedAt :: "int option"
  C_SetupStep :: "string option"
  C_SetupError :: "string option"
  C_CreatedAt :: int
  C_UpdatedAt :: int
  C_DeletedAt :: "int option"

definition scan_pointer :: "(sql_value \<Rightarrow> gerror + 'a) \<Rightarrow> sql_value \<Rightarrow> gerror + 'a option" where
  "scan_pointer dec v = (case v of VNull \<Rightarrow> Inr None | _ \<Rightarrow> result_bind (dec v) (\<lambda>x. Inr (Some x)))"

definition scan_uint64 :: "sql_value \<Rightarrow> gerror + 64 word" where
  "scan_uint64 v =
     (case v of
        VInt i \<Rightarrow> if 0 \<le> i \<and> i < 2 ^ 64 then Inr (of_int i) else Inl (Err ''sql: Scan error: value out of range'')
      | _ \<Rightarrow> Inl (Err ''sql: Scan error: unsupported Scan into uint64''))"

definition connection_fields :: "row \<Rightarrow> gerror + db_connection" where
  "connection_fields r =
     result_bind (scan_id (r ''id'')) (\<lambda>i.
     result_bind (scan_text (r ''namespace'')) (\<lambda>ns.
     result_bind (scan_text (r ''name'')) (\<lambda>name.
     result_bind (scan_text (r ''state'')) (\<lambda>state.
     result_bind (scan_text (r ''health_state'')) (\<lambda>health.
     result_bind (scan_id (r ''connector_id'')) (\<lambda>cid.
     result_bind (scan_uint64 (r ''connector_version'')) (\<lambda>version.
     result_bind (scan_map ''Labels'' (r ''labels'')) (\<lambda>l.
     result_bind (scan_map ''Annotations'' (r ''annotations'')) (\<lambda>a.
     result_bind (scan_pointer EncryptedField_Scan (r ''encrypted_configuration'')) (\<lambda>cfg.
     result_bind (scan_time_ptr (r ''encrypted_at'')) (\<lambda>eat.
     result_bind (scan_pointer scan_text (r ''setup_step_id'')) (\<lambda>step.
     result_bind (scan_pointer scan_text (r ''setup_error'')) (\<lambda>serr.
     result_bind (scan_time (r ''created_at'')) (\<lambda>created.
     result_bind (scan_time (r ''updated_at'')) (\<lambda>updated.
     result_bind (scan_time_ptr (r ''deleted_at'')) (\<lambda>deleted.
       Inr \<lparr>C_Id = i, C_Namespace = ns, C_Name = name, C_State = state, C_HealthState = health, C_ConnectorId = cid,
            C_ConnectorVersion = version, C_Labels = l, C_Annotations = a, C_EncryptedConfiguration = cfg, C_EncryptedAt = eat,
            C_SetupStep = step, C_SetupError = serr, C_CreatedAt = created, C_UpdatedAt = updated, C_DeletedAt = deleted\<rparr>))))))))))))))))"

definition healthStateForInsert :: "db_connection \<Rightarrow> string" where
  "healthStateForInsert c = (if C_HealthState c = [] then ''healthy'' else C_HealthState c)"

text \<open>The values of pointers: nil is NULL, as are the zero step and the zero encrypted field.\<close>

definition cfg_value :: "encrypted_field option \<Rightarrow> sql_value" where
  "cfg_value p = (case p of None \<Rightarrow> VNull | Some ef \<Rightarrow> EncryptedField_Value ef)"

definition step_value :: "string option \<Rightarrow> sql_value" where
  "step_value p = (case p of None \<Rightarrow> VNull | Some s \<Rightarrow> if s = [] then VNull else VText s)"

definition text_ptr_value :: "string option \<Rightarrow> sql_value" where
  "text_ptr_value p = (case p of None \<Rightarrow> VNull | Some s \<Rightarrow> VText s)"

definition connection_values :: "db_connection \<Rightarrow> (string \<times> sql_value) list" where
  "connection_values c =
     [(''id'', id_value (C_Id c)), (''namespace'', VText (C_Namespace c)), (''name'', VText (C_Name c)), (''state'', VText (C_State c)),
      (''health_state'', VText (healthStateForInsert c)), (''connector_id'', id_value (C_ConnectorId c)),
      (''connector_version'', VInt (uint (C_ConnectorVersion c))), (''labels'', map_value (C_Labels c)),
      (''annotations'', map_value (C_Annotations c)), (''encrypted_configuration'', cfg_value (C_EncryptedConfiguration c)),
      (''encrypted_at'', time_ptr_value (C_EncryptedAt c)), (''setup_step_id'', step_value (C_SetupStep c)),
      (''setup_error'', text_ptr_value (C_SetupError c)), (''created_at'', VTime (C_CreatedAt c)),
      (''updated_at'', VTime (C_UpdatedAt c)), (''deleted_at'', time_ptr_value (C_DeletedAt c))]"

definition connection_normalize :: "db_connection \<Rightarrow> db_connection" where
  "connection_normalize c = (if C_Name c = [] \<and> C_Id c \<noteq> [] then c\<lparr>C_Name := C_Id c\<rparr> else c)"

definition connection_Validate :: "db_connection \<Rightarrow> err" where
  "connection_Validate c =
     (let wrap = (\<lambda>msg e. map_option (Wrapf msg []) e);
          add_if = (\<lambda>es b msg. if b then multi_append es (Err msg) else es);
          e1 = add_if [] (C_Id c = []) ''connection id is required'';
          e2 = append_if e1 (wrap ''invalid connection id: %w'' (ID_ValidatePrefix (C_Id c) PrefixConnection));
          e3 = append_if e2 (wrap ''invalid connection name: %w'' (ResourceName_Validate (C_Name c)));
          e4 = append_if e3 (wrap ''invalid connection namespace path: %w'' (ValidatePath (C_Namespace c)));
          e5 = add_if e4 (\<not> IsValidConnectionState (C_State c)) ''invalid connection state'';
          e6 = add_if e5 (C_HealthState c \<noteq> [] \<and> \<not> IsValidConnectionHealthState (C_HealthState c)) ''invalid connection health state'';
          e7 = add_if e6 (C_ConnectorId c = []) ''connection connector id is required'';
          e8 = append_if e7 (wrap ''invalid connection connector id: %w'' (ID_ValidatePrefix (C_ConnectorId c) PrefixConnectorVersion));
          e9 = add_if e8 (C_ConnectorVersion c = 0) ''connection connector version is required'';
          e10 = append_if e9 (wrap ''invalid connection labels: %w'' (Labels_Validate (C_Labels c)));
          e11 = append_if e10 (wrap ''invalid connection annotations: %w'' (ValidateAnnotations (C_Annotations c)))
      in ErrorOrNil e11)"

subsection \<open>Operations\<close>

definition GetConnection :: "('db, 'm) sql_ops_scheme \<Rightarrow> 'db \<Rightarrow> string \<Rightarrow> gerror + db_connection" where
  "GetConnection ops db i =
     (case sql_query_row ops db ConnectionsTable (live_id i) of
        Inl e \<Rightarrow> Inl e
      | Inr None \<Rightarrow> Inl ErrNotFound
      | Inr (Some r) \<Rightarrow> connection_fields r)"

definition parent_labels :: "('db, 'm) sql_ops_scheme \<Rightarrow> 'db \<Rightarrow> string \<Rightarrow> string \<Rightarrow> gerror + (parent_carry_forward list)" where
  "parent_labels ops db connectorId ns =
     result_bind (fetchLabelsForCarryForward ops db ConnectorsTable (live_id connectorId)) (\<lambda>cvLabels.
     result_bind (fetchLabelsForCarryForward ops db NamespacesTable (live_path ns)) (\<lambda>nsLabels.
       Inr [\<lparr>pcf_Rt = ApidPrefixToLabelToken PrefixConnectorVersion, pcf_Labels = cvLabels\<rparr>,
            \<lparr>pcf_Rt = NamespaceLabelToken, pcf_Labels = nsLabels\<rparr>]))"

definition CreateConnection ::
  "('db, 'm) sql_table_ops_scheme \<Rightarrow> (gerror \<Rightarrow> bool) \<Rightarrow> int \<Rightarrow> 'db \<Rightarrow> db_connection \<Rightarrow> 'db \<times> db_connection \<times> err" where
  "CreateConnection ops unique now db c0 =
     (let c = connection_normalize c0 in
      case connection_Validate c of
        Some e \<Rightarrow> (db, c, Some e)
      | None \<Rightarrow> transaction ops db c (\<lambda>tx.
          case parent_labels ops tx (C_ConnectorId c) (C_Namespace c) of
            Inl e \<Rightarrow> (tx, c, Some e)
          | Inr parents \<Rightarrow>
              let labels = InjectSelfImplicitLabels (C_Id c) (C_Name c) (C_Namespace c) (ApplyParentCarryForward (C_Labels c) parents);
                  cpy = c\<lparr>C_Labels := labels, C_CreatedAt := now, C_UpdatedAt := now\<rparr>
              in (case sql_insert ops tx ConnectionsTable (connection_values cpy) of
                    (tx', Inl e) \<Rightarrow> (tx', c, wrapDatabaseMutationError unique ''failed to create connection'' (Some e))
                  | (tx', Inr (Inl e)) \<Rightarrow> (tx', c, Some e)
                  | (tx', Inr (Inr affected)) \<Rightarrow>
                      (tx', c, if affected = 0 then Some (Err ''failed to create connection; no rows inserted'') else None))))"

text \<open>An update that must touch exactly one row; \<open>several\<close> is the error when it touched more.\<close>

definition update_one ::
  "('db, 'm) sql_ops_scheme \<Rightarrow> 'db \<Rightarrow> (string \<times> sql_value) list \<Rightarrow> sql_cond list \<Rightarrow> string \<Rightarrow> gerror \<Rightarrow> 'db \<times> err" where
  "update_one ops db as wh msg several =
     (case sql_update ops db ConnectionsTable as wh of
        (db', Inl e) \<Rightarrow> (db', Some (Wrapf msg [] e))
      | (db', Inr (Inl e)) \<Rightarrow> (db', Some (Wrapf msg [] e))
      | (db', Inr (Inr affected)) \<Rightarrow>
          (db', if affected = 0 then Some ErrNotFound else if affected > 1 then Some several else None))"

text \<open>A soft deletion, which also matches rows that are deleted already.\<close>

definition DeleteConnection :: "('db, 'm) sql_ops_scheme \<Rightarrow> int \<Rightarrow> 'db \<Rightarrow> string \<Rightarrow> 'db \<times> err" where
  "DeleteConnection ops now db i =
     update_one ops db [(''updated_at'', VTime now), (''deleted_at'', VTime now)] [WEq ''id'' (id_value i)]
       ''failed to soft delete connection: %w'' (Err ''multiple connections were soft deleted'')"

definition SetConnectionState :: "('db, 'm) sql_ops_scheme \<Rightarrow> int \<Rightarrow> 'db \<Rightarrow> string \<Rightarrow> string \<Rightarrow> 'db \<times> err" where
  "SetConnectionState ops now db i state =
     (if i = [] then (db, Some (Err ''connection id is required''))
      else if \<not> IsValidConnectionState state then (db, Some (Err ''invalid connection state''))
      else update_one ops db [(''updated_at'', VTime now), (''state'', VText state)] (live_id i)
        ''failed to soft delete connection: %w'' (Wrapf ''multiple connections had state updated: %w'' [] ErrViolation))"

definition SetConnectionHealthState :: "('db, 'm) sql_ops_scheme \<Rightarrow> int \<Rightarrow> 'db \<Rightarrow> string \<Rightarrow> string \<Rightarrow> 'db \<times> err" where
  "SetConnectionHealthState ops now db i state =
     (if i = [] then (db, Some (Err ''connection id is required''))
      else if \<not> IsValidConnectionHealthState state then (db, Some (Err ''invalid connection health state''))
      else update_one ops db [(''updated_at'', VTime now), (''health_state'', VText state)] (live_id i)
        ''failed to update connection health state: %w'' (Wrapf ''multiple connections had health state updated: %w'' [] ErrViolation))"

definition SetConnectionSetupStep :: "('db, 'm) sql_ops_scheme \<Rightarrow> int \<Rightarrow> 'db \<Rightarrow> string \<Rightarrow> string option \<Rightarrow> 'db \<times> err" where
  "SetConnectionSetupStep ops now db i setupStep =
     (if i = [] then (db, Some (Err ''connection id is required''))
      else update_one ops db [(''updated_at'', VTime now), (''setup_step_id'', step_value setupStep)] (live_id i)
        ''failed to update connection setup step: %w'' (Wrapf ''multiple connections had setup step updated: %w'' [] ErrViolation))"

definition SetConnectionSetupError :: "('db, 'm) sql_ops_scheme \<Rightarrow> int \<Rightarrow> 'db \<Rightarrow> string \<Rightarrow> string option \<Rightarrow> 'db \<times> err" where
  "SetConnectionSetupError ops now db i setupError =
     (if i = [] then (db, Some (Err ''connection id is required''))
      else update_one ops db [(''updated_at'', VTime now), (''setup_error'', text_ptr_value setupError)] (live_id i)
        ''failed to update connection setup error: %w'' (Wrapf ''multiple connections had setup error updated: %w'' [] ErrViolation))"

definition SetConnectionEncryptedConfiguration ::
  "('db, 'm) sql_ops_scheme \<Rightarrow> int \<Rightarrow> 'db \<Rightarrow> string \<Rightarrow> encrypted_field option \<Rightarrow> 'db \<times> err" where
  "SetConnectionEncryptedConfiguration ops now db i encryptedConfig =
     (if i = [] then (db, Some (Err ''connection id is required''))
      else update_one ops db
        [(''updated_at'', VTime now), (''encrypted_configuration'', cfg_value encryptedConfig), (''encrypted_at'', VTime now)] (live_id i)
        ''failed to update connection configuration: %w'' (Wrapf ''multiple connections had configuration updated: %w'' [] ErrViolation))"

definition UpdateConnectionName ::
  "('db, 'm) sql_ops_scheme \<Rightarrow> (gerror \<Rightarrow> bool) \<Rightarrow> int \<Rightarrow> 'db \<Rightarrow> string \<Rightarrow> string \<Rightarrow> 'db \<times> (gerror + db_connection)" where
  "UpdateConnectionName ops unique now db i name =
     (if i = [] then (db, Inl (Err ''connection id is required''))
      else case ID_ValidatePrefix i PrefixConnection of
        Some e \<Rightarrow> (db, Inl (Wrapf ''invalid connection id: %w'' [] e))
      | None \<Rightarrow>
          (case ResourceName_Validate name of
             Some e \<Rightarrow> (db, Inl (Wrapf ''invalid connection name: %w'' [] e))
           | None \<Rightarrow>
               (case updateResourceNameAndSelfLabels ops unique now db ConnectionsTable i name of
                  (db', Some e) \<Rightarrow> (db', Inl e)
                | (db', None) \<Rightarrow> (db', GetConnection ops db' i))))"

subsection \<open>Replacing a row for another connector version\<close>

record version_migration =
  vm_Id :: string
  vm_ConnectorId :: string
  vm_ConnectorVersion :: "64 word"
  vm_EncryptedConfiguration :: "encrypted_field option"
  vm_UserLabels :: smap
  vm_Annotations :: smap
  vm_SetupStep :: "string option"
  vm_SetupError :: "string option"
  vm_HealthState :: "string option"

definition version_migration_validate :: "version_migration \<Rightarrow> err" where
  "version_migration_validate u =
     (let wrap = (\<lambda>msg e. map_option (Wrapf msg []) e);
          add_if = (\<lambda>es b msg. if b then multi_append es (Err msg) else es);
          e1 = add_if [] (vm_Id u = []) ''connection id is required'';
          e2 = append_if e1 (wrap ''invalid connection id: %w'' (ID_ValidatePrefix (vm_Id u) PrefixConnection));
          e3 = add_if e2 (vm_ConnectorId u = []) ''connector id is required'';
          e4 = append_if e3 (wrap ''invalid connector id: %w'' (ID_ValidatePrefix (vm_ConnectorId u) PrefixConnectorVersion));
          e5 = add_if e4 (vm_ConnectorVersion u = 0) ''connector version is required'';
          e6 = append_if e5 (wrap ''invalid migration labels: %w'' (ValidateUserLabels (vm_UserLabels u)));
          e7 = append_if e6 (wrap ''invalid migration annotations: %w'' (ValidateAnnotations (vm_Annotations u)));
          e8 = add_if e7 (\<exists>h \<in> set_option (vm_HealthState u). \<not> IsValidConnectionHealthState h) ''invalid connection health state''
      in ErrorOrNil e8)"

definition migrate_row :: "('db, 'm) sql_ops_scheme \<Rightarrow> int \<Rightarrow> version_migration \<Rightarrow> 'db \<Rightarrow> 'db \<times> db_connection option \<times> err" where
  "migrate_row ops now u tx =
     (case GetConnection ops tx (vm_Id u) of
        Inl e \<Rightarrow> (tx, None, Some e)
      | Inr existing \<Rightarrow>
          (case parent_labels ops tx (vm_ConnectorId u) (C_Namespace existing) of
             Inl e \<Rightarrow> (tx, None, Some e)
           | Inr parents \<Rightarrow>
               let newLabels = InjectSelfImplicitLabels (vm_Id u) (C_Name existing) (C_Namespace existing)
                     (ApplyParentCarryForward (vm_UserLabels u) parents);
                   healthState = (case vm_HealthState u of None \<Rightarrow> C_HealthState existing | Some h \<Rightarrow> h)
               in (case sql_update ops tx ConnectionsTable
                     [(''connector_id'', id_value (vm_ConnectorId u)), (''connector_version'', VInt (uint (vm_ConnectorVersion u))),
                      (''labels'', map_value newLabels), (''annotations'', map_value (vm_Annotations u)),
                      (''encrypted_configuration'', cfg_value (vm_EncryptedConfiguration u)), (''encrypted_at'', VTime now),
                      (''setup_step_id'', step_value (vm_SetupStep u)), (''setup_error'', text_ptr_value (vm_SetupError u)),
                      (''health_state'', VText healthState), (''updated_at'', VTime now)] (live_id (vm_Id u)) of
                     (tx', Inl e) \<Rightarrow> (tx', None, Some e)
                   | (tx', Inr (Inl e)) \<Rightarrow> (tx', None, Some e)
                   | (tx', Inr (Inr affected)) \<Rightarrow>
                       if affected = 0 then (tx', None, Some ErrNotFound)
                       else if affected > 1 then (tx', None, Some (Wrapf ''multiple connections updated during migration: %w'' [] ErrViolation))
                       else (tx', Some (existing\<lparr>C_ConnectorId := vm_ConnectorId u, C_ConnectorVersion := vm_ConnectorVersion u,
                              C_Labels := newLabels, C_Annotations := vm_Annotations u,
                              C_EncryptedConfiguration := vm_EncryptedConfiguration u, C_EncryptedAt := Some now,
                              C_SetupStep := vm_SetupStep u, C_SetupError := vm_SetupError u, C_HealthState := healthState,
                              C_UpdatedAt := now\<rparr>), None))))"

definition UpdateConnectionForVersionMigration ::
  "('db, 'm) sql_ops_scheme \<Rightarrow> int \<Rightarrow> 'db \<Rightarrow> version_migration \<Rightarrow> 'db \<times> db_connection option \<times> err" where
  "UpdateConnectionForVersionMigration ops now db u =
     (case version_migration_validate u of
        Some e \<Rightarrow> (db, None, Some e)
      | None \<Rightarrow> transaction ops db None (migrate_row ops now u))"

subsection \<open>Labels and annotations\<close>

definition edit_connection ::
  "('db, 'm) sql_ops_scheme \<Rightarrow> 'db \<Rightarrow> string \<Rightarrow> ('db \<Rightarrow> 'db \<times> (gerror + (db_connection \<Rightarrow> db_connection))) \<Rightarrow>
   'db \<times> (gerror + db_connection option)" where
  "edit_connection ops db i edit =
     (case transaction ops db None (\<lambda>tx.
        case GetConnection ops tx i of
          Inl e \<Rightarrow> (tx, None, Some e)
        | Inr conn \<Rightarrow>
            (case edit tx of
               (tx', Inl e) \<Rightarrow> (tx', None, Some e)
             | (tx', Inr set_fields) \<Rightarrow> (tx', Some (set_fields conn), None))) of
        (db', result, Some e) \<Rightarrow> (db', Inl e)
      | (db', result, None) \<Rightarrow> (db', Inr result))"

definition set_conn_labels :: "smap \<times> int \<Rightarrow> db_connection \<Rightarrow> db_connection" where
  "set_conn_labels = (\<lambda>(labels, now) c. c\<lparr>C_Labels := labels, C_UpdatedAt := now\<rparr>)"

definition set_conn_annotations :: "smap \<times> int \<Rightarrow> db_connection \<Rightarrow> db_connection" where
  "set_conn_annotations = (\<lambda>(annotations, now) c. c\<lparr>C_Annotations := annotations, C_UpdatedAt := now\<rparr>)"

definition UpdateConnectionLabels ::
  "('db, 'm) sql_ops_scheme \<Rightarrow> int \<Rightarrow> 'db \<Rightarrow> string \<Rightarrow> smap \<Rightarrow> 'db \<times> (gerror + db_connection option)" where
  "UpdateConnectionLabels ops now db i labels =
     (if i = [] then (db, Inl (Err ''connection id is required''))
      else case ValidateUserLabels labels of
        Some e \<Rightarrow> (db, Inl (Wrapf ''invalid labels: %w'' [] e))
      | None \<Rightarrow> edit_connection ops db i (\<lambda>tx.
          apsnd (map_sum id set_conn_labels) (replaceUserLabelsInTableTx ops now tx ConnectionsTable (live_id i) labels)))"

definition PutConnectionLabels ::
  "('db, 'm) sql_ops_scheme \<Rightarrow> int \<Rightarrow> 'db \<Rightarrow> string \<Rightarrow> smap \<Rightarrow> 'db \<times> (gerror + db_connection option)" where
  "PutConnectionLabels ops now db i labels =
     (if i = [] then (db, Inl (Err ''connection id is required''))
      else if length labels = 0 then (db, result_bind (GetConnection ops db i) (\<lambda>c. Inr (Some c)))
      else case ValidateUserLabels labels of
        Some e \<Rightarrow> (db, Inl (Wrapf ''invalid labels: %w'' [] e))
      | None \<Rightarrow> edit_connection ops db i (\<lambda>tx.
          apsnd (map_sum id set_conn_labels) (putLabelsInTableTx ops now tx ConnectionsTable (live_id i) labels)))"

definition DeleteConnectionLabels ::
  "('db, 'm) sql_ops_scheme \<Rightarrow> int \<Rightarrow> 'db \<Rightarrow> string \<Rightarrow> string list \<Rightarrow> 'db \<times> (gerror + db_connection option)" where
  "DeleteConnectionLabels ops now db i ks =
     (if i = [] then (db, Inl (Err ''connection id is required''))
      else if length ks = 0 then (db, result_bind (GetConnection ops db i) (\<lambda>c. Inr (Some c)))
      else case ValidateUserLabelDeletionKeys ks of
        Some e \<Rightarrow> (db, Inl (Wrapf ''invalid label keys: %w'' [] e))
      | None \<Rightarrow> edit_connection ops db i (\<lambda>tx.
          apsnd (map_sum id set_conn_labels) (deleteLabelsInTableTx ops now tx ConnectionsTable (live_id i) ks)))"

definition UpdateConnectionAnnotations ::
  "('db, 'm) sql_ops_scheme \<Rightarrow> int \<Rightarrow> 'db \<Rightarrow> string \<Rightarrow> smap \<Rightarrow> 'db \<times> (gerror + db_connection option)" where
  "UpdateConnectionAnnotations ops now db i annotations =
     (if i = [] then (db, Inl (Err ''connection id is required''))
      else case ValidateAnnotations annotations of
        Some e \<Rightarrow> (db, Inl (Wrapf ''invalid annotations: %w'' [] e))
      | None \<Rightarrow> edit_connection ops db i (\<lambda>tx.
          apsnd (map_sum id (\<lambda>ts. set_conn_annotations (annotations, ts)))
            (updateAnnotationsInTableTx ops now tx ConnectionsTable (live_id i) annotations)))"

definition PutConnectionAnnotations ::
  "('db, 'm) sql_ops_scheme \<Rightarrow> int \<Rightarrow> 'db \<Rightarrow> string \<Rightarrow> smap \<Rightarrow> 'db \<times> (gerror + db_connection option)" where
  "PutConnectionAnnotations ops now db i annotations =
     (if i = [] then (db, Inl (Err ''connection id is required''))
      else if length annotations = 0 then (db, result_bind (GetConnection ops db i) (\<lambda>c. Inr (Some c)))
      else case ValidateAnnotations annotations of
        Some e \<Rightarrow> (db, Inl (Wrapf ''invalid annotations: %w'' [] e))
      | None \<Rightarrow> edit_connection ops db i (\<lambda>tx.
          apsnd (map_sum id set_conn_annotations) (putAnnotationsInTableTx ops now tx ConnectionsTable (live_id i) annotations)))"

definition DeleteConnectionAnnotations ::
  "('db, 'm) sql_ops_scheme \<Rightarrow> int \<Rightarrow> 'db \<Rightarrow> string \<Rightarrow> string list \<Rightarrow> 'db \<times> (gerror + db_connection option)" where
  "DeleteConnectionAnnotations ops now db i ks =
     (if i = [] then (db, Inl (Err ''connection id is required''))
      else if length ks = 0 then (db, result_bind (GetConnection ops db i) (\<lambda>c. Inr (Some c)))
      else edit_connection ops db i (\<lambda>tx.
          apsnd (map_sum id set_conn_annotations) (deleteAnnotationsInTableTx ops now tx ConnectionsTable (live_id i) ks)))"

subsection \<open>Listing\<close>

record conn_filters = list_filters +
  cf_States :: "string list"
  cf_ConnectorIds :: "string list"
  cf_NamespaceMatchers :: "string list"
  cf_Name :: "string option"
  cf_OrderByField :: "string option"
  cf_OrderBy :: "string option"
  cf_IncludeDeleted :: bool
  cf_LabelSelector :: "string option"
  cf_SetupStepNotNull :: bool
  cf_UpdatedBefore :: "int option"

definition ListConnectionsBuilder :: conn_filters where
  "ListConnectionsBuilder = \<lparr>LimitVal = 100, Offset = 0, Errors = [], cf_States = [], cf_ConnectorIds = [], cf_NamespaceMatchers = [],
     cf_Name = None, cf_OrderByField = None, cf_OrderBy = None, cf_IncludeDeleted = False, cf_LabelSelector = None,
     cf_SetupStepNotNull = False, cf_UpdatedBefore = None\<rparr>"

definition IsValidConnectionOrderByField :: "string \<Rightarrow> bool" where
  "IsValidConnectionOrderByField f \<longleftrightarrow>
     f = ''id'' \<or> f = ''namespace'' \<or> f = ''state'' \<or> f = ''created_at'' \<or> f = ''updated_at''"

definition cf_addError :: "conn_filters \<Rightarrow> gerror \<Rightarrow> conn_filters" where
  "cf_addError l e = l\<lparr>Errors := multi_append (Errors l) e\<rparr>"

definition cf_Limit :: "conn_filters \<Rightarrow> 32 word \<Rightarrow> conn_filters" where
  "cf_Limit l limit = l\<lparr>LimitVal := signed limit\<rparr>"

definition cf_ForStates :: "conn_filters \<Rightarrow> string list \<Rightarrow> conn_filters" where
  "cf_ForStates l states = l\<lparr>cf_States := states\<rparr>"

definition cf_ForState :: "conn_filters \<Rightarrow> string \<Rightarrow> conn_filters" where
  "cf_ForState l state = cf_ForStates l [state]"

definition cf_ForConnectorId :: "conn_filters \<Rightarrow> string \<Rightarrow> conn_filters" where
  "cf_ForConnectorId l i = l\<lparr>cf_ConnectorIds := [i]\<rparr>"

definition cf_ForNamespaceMatcher :: "conn_filters \<Rightarrow> string \<Rightarrow> conn_filters" where
  "cf_ForNamespaceMatcher l matcher =
     (case ValidateMatcher matcher of Some e \<Rightarrow> cf_addError l e | None \<Rightarrow> l\<lparr>cf_NamespaceMatchers := [matcher]\<rparr>)"

definition cf_ForNamespaceMatchers :: "conn_filters \<Rightarrow> string list \<Rightarrow> conn_filters" where
  "cf_ForNamespaceMatchers l matchers =
     (case first_invalid matchers of Some e \<Rightarrow> cf_addError l e | None \<Rightarrow> l\<lparr>cf_NamespaceMatchers := matchers\<rparr>)"

definition cf_ForName :: "conn_filters \<Rightarrow> string \<Rightarrow> conn_filters" where
  "cf_ForName l name = (case ResourceName_Validate name of Some e \<Rightarrow> cf_addError l e | None \<Rightarrow> l\<lparr>cf_Name := Some name\<rparr>)"

definition cf_SetOrderBy :: "conn_filters \<Rightarrow> string \<Rightarrow> string \<Rightarrow> conn_filters" where
  "cf_SetOrderBy l field by =
     (if IsValidConnectionOrderByField field then l\<lparr>cf_OrderByField := Some field, cf_OrderBy := Some by\<rparr>
      else cf_addError l (Errf ''invalid order by field: %v'' [field]))"

definition cf_SetIncludeDeleted :: "conn_filters \<Rightarrow> conn_filters" where
  "cf_SetIncludeDeleted l = l\<lparr>cf_IncludeDeleted := True\<rparr>"

definition cf_ForLabelSelector :: "conn_filters \<Rightarrow> string \<Rightarrow> conn_filters" where
  "cf_ForLabelSelector l selector = l\<lparr>cf_LabelSelector := Some selector\<rparr>"

definition cf_WithSetupStepNotNull :: "conn_filters \<Rightarrow> conn_filters" where
  "cf_WithSetupStepNotNull l = l\<lparr>cf_SetupStepNotNull := True\<rparr>"

definition cf_SetUpdatedBefore :: "conn_filters \<Rightarrow> int \<Rightarrow> conn_filters" where
  "cf_SetUpdatedBefore l t = l\<lparr>cf_UpdatedBefore := Some t\<rparr>"

text \<open>One value is compared with \<^verbatim>\<open>IN\<close> as well, since the builder is given a slice.\<close>

definition connections_applyRestrictions :: "provider \<Rightarrow> conn_filters \<Rightarrow> conn_filters \<times> list_query" where
  "connections_applyRestrictions provider l0 =
     (let (l1, labels) =
            (case cf_LabelSelector l0 of
               None \<Rightarrow> (l0, [])
             | Some sel \<Rightarrow>
                 (case ParseLabelSelector sel of
                    Inl e \<Rightarrow> (cf_addError l0 e, [])
                  | Inr selector \<Rightarrow> (l0, ApplyToSqlBuilderWithProvider selector [] provider)));
          deleted = (if \<not> cf_IncludeDeleted l1 then [WEq ''deleted_at'' VNull] else []);
          l2 = (if LimitVal l1 \<le> 0 then l1\<lparr>LimitVal := 100\<rparr> else l1);
          states = (if length (cf_States l2) > 0 then [WIn ''state'' (map VText (cf_States l2))] else []);
          connectors = (if length (cf_ConnectorIds l2) > 0 then [WIn ''connector_id'' (map id_value (cf_ConnectorIds l2))] else []);
          ns = (if length (cf_NamespaceMatchers l2) > 0 then restrictToNamespaceMatchers [] (cf_NamespaceMatchers l2) else []);
          name = (case cf_Name l2 of None \<Rightarrow> [] | Some n \<Rightarrow> [WEq ''name'' (VText n)]);
          setup = (if cf_SetupStepNotNull l2 then [WNotNull ''setup_step_id''] else []);
          before = (case cf_UpdatedBefore l2 of None \<Rightarrow> [] | Some t \<Rightarrow> [WBefore ''updated_at'' t]);
          order = (case cf_OrderByField l2 of
                     Some f \<Rightarrow> [(f, OrderBy_String (cf_OrderBy l2))]
                   | None \<Rightarrow> [(''created_at'', ''ASC''), (''id'', ''ASC'')])
      in (l2, \<lparr>lq_where = deleted @ states @ connectors @ name @ setup @ before, lq_namespaces = ns, lq_labels = labels,
               lq_order = order, lq_limit = unat (LimitVal l2 + 1), lq_offset = unat (Offset l2)\<rparr>))"

definition run_connections ::
  "('db, 'm) sql_table_ops_scheme \<Rightarrow> provider \<Rightarrow> 'db \<Rightarrow> conn_filters \<Rightarrow> conn_filters \<times> (gerror + db_connection list)" where
  "run_connections ops provider db l0 =
     (let (l, q) = connections_applyRestrictions provider l0
      in (l, case sql_select ops db ConnectionsTable q of Inl e \<Rightarrow> Inl e | Inr rs \<Rightarrow> scan_all connection_fields rs))"

definition connections_FetchPage ::
  "('db, 'm) sql_table_ops_scheme \<Rightarrow> provider \<Rightarrow> (conn_filters \<Rightarrow> gerror + string) \<Rightarrow> 'db \<Rightarrow> conn_filters \<Rightarrow>
   conn_filters \<times> db_connection page_result" where
  "connections_FetchPage ops provider cursor db l = fetchPage (run_connections ops provider db) cursor l"

subsection \<open>Every stored row is well formed\<close>

definition conn_row_ok :: "row \<Rightarrow> bool" where
  "conn_row_ok r \<longleftrightarrow>
     (\<exists>i. r ''id'' = VText i \<and> HasPrefix i PrefixConnection) \<and>
     (\<exists>n. r ''name'' = VText n \<and> ResourceName_Validate n = None) \<and>
     (\<exists>ns. r ''namespace'' = VText ns \<and> ValidatePath ns = None) \<and>
     (\<exists>s. r ''state'' = VText s \<and> IsValidConnectionState s) \<and>
     (\<exists>h. r ''health_state'' = VText h \<and> IsValidConnectionHealthState h) \<and>
     (\<exists>c. r ''connector_id'' = VText c \<and> HasPrefix c PrefixConnectorVersion) \<and>
     (\<exists>v. r ''connector_version'' = VInt v \<and> 0 < v)"

lemma conn_row_ok_reads:
  "reads_only {''id'', ''name'', ''namespace'', ''state'', ''health_state'', ''connector_id'', ''connector_version''} conn_row_ok"
  by (simp add: reads_only_def conn_row_ok_def)

lemma ID_ValidatePrefix_None: "ID_ValidatePrefix i p = None \<longleftrightarrow> i = [] \<or> HasPrefix i p"
  by (simp add: ID_ValidatePrefix_def ID_HasPrefix_def)

lemma connection_Validate_None:
  assumes "connection_Validate c = None"
  shows "C_Id c \<noteq> [] \<and> HasPrefix (C_Id c) PrefixConnection \<and> ResourceName_Validate (C_Name c) = None \<and> ValidatePath (C_Namespace c) = None \<and>
    IsValidConnectionState (C_State c) \<and> IsValidConnectionHealthState (healthStateForInsert c) \<and>
    C_ConnectorId c \<noteq> [] \<and> HasPrefix (C_ConnectorId c) PrefixConnectorVersion \<and> C_ConnectorVersion c \<noteq> 0"
  using assms
  by (simp add: connection_Validate_def Let_def append_if_wrapped ID_ValidatePrefix_None healthStateForInsert_def
      IsValidConnectionHealthState_def split: if_splits) auto

lemma uint_pos: "0 < uint w \<longleftrightarrow> w \<noteq> 0" for w :: "64 word"
  using uint_ge_0 [of w] uint_0_iff [of w] by linarith

lemma connection_values_ok:
  assumes "connection_Validate c = None"
  shows "conn_row_ok (assign (connection_values (c\<lparr>C_Labels := l, C_CreatedAt := a, C_UpdatedAt := u\<rparr>)) (\<lambda>_. VNull))"
  using connection_Validate_None [OF assms]
  by (auto simp: conn_row_ok_def connection_values_def assign_def id_value_def healthStateForInsert_def uint_pos)

text \<open>The operations that change stored connections, with their arguments.\<close>

datatype conn_op =
    CreateOp db_connection
  | DeleteOp string
  | StateOp string string
  | HealthOp string string
  | StepOp string "string option"
  | SetupErrorOp string "string option"
  | ConfigurationOp string "encrypted_field option"
  | NameOp string string
  | MigrateOp version_migration
  | UpdateLabelsOp string smap
  | PutLabelsOp string smap
  | DeleteLabelsOp string "string list"
  | UpdateAnnotationsOp string smap
  | PutAnnotationsOp string smap
  | DeleteAnnotationsOp string "string list"

fun conn_exec :: "('db, 'm) sql_table_ops_scheme \<Rightarrow> (gerror \<Rightarrow> bool) \<Rightarrow> int \<times> conn_op \<Rightarrow> 'db \<Rightarrow> 'db" where
  "conn_exec ops unique (now, CreateOp c) db = fst (CreateConnection ops unique now db c)"
| "conn_exec ops unique (now, DeleteOp i) db = fst (DeleteConnection ops now db i)"
| "conn_exec ops unique (now, StateOp i s) db = fst (SetConnectionState ops now db i s)"
| "conn_exec ops unique (now, HealthOp i s) db = fst (SetConnectionHealthState ops now db i s)"
| "conn_exec ops unique (now, StepOp i s) db = fst (SetConnectionSetupStep ops now db i s)"
| "conn_exec ops unique (now, SetupErrorOp i s) db = fst (SetConnectionSetupError ops now db i s)"
| "conn_exec ops unique (now, ConfigurationOp i c) db = fst (SetConnectionEncryptedConfiguration ops now db i c)"
| "conn_exec ops unique (now, NameOp i n) db = fst (UpdateConnectionName ops unique now db i n)"
| "conn_exec ops unique (now, MigrateOp u) db = fst (UpdateConnectionForVersionMigration ops now db u)"
| "conn_exec ops unique (now, UpdateLabelsOp i m) db = fst (UpdateConnectionLabels ops now db i m)"
| "conn_exec ops unique (now, PutLabelsOp i m) db = fst (PutConnectionLabels ops now db i m)"
| "conn_exec ops unique (now, DeleteLabelsOp i ks) db = fst (DeleteConnectionLabels ops now db i ks)"
| "conn_exec ops unique (now, UpdateAnnotationsOp i m) db = fst (UpdateConnectionAnnotations ops now db i m)"
| "conn_exec ops unique (now, PutAnnotationsOp i m) db = fst (PutConnectionAnnotations ops now db i m)"
| "conn_exec ops unique (now, DeleteAnnotationsOp i ks) db = fst (DeleteConnectionAnnotations ops now db i ks)"

definition conns_ok :: "(string \<Rightarrow> row list) \<Rightarrow> bool" where
  "conns_ok R \<longleftrightarrow> table_all conn_row_ok ConnectionsTable R"

lemma setters_keep:
  "keeps conn_row_ok [(''updated_at'', t), (''deleted_at'', d)]"
  "IsValidConnectionState s \<Longrightarrow> keeps conn_row_ok [(''updated_at'', t), (''state'', VText s)]"
  "IsValidConnectionHealthState s \<Longrightarrow> keeps conn_row_ok [(''updated_at'', t), (''health_state'', VText s)]"
  "keeps conn_row_ok [(''updated_at'', t), (''setup_step_id'', v)]"
  "keeps conn_row_ok [(''updated_at'', t), (''setup_error'', v)]"
  "keeps conn_row_ok [(''updated_at'', t), (''encrypted_configuration'', v), (''encrypted_at'', u)]"
  "ResourceName_Validate n = None \<Longrightarrow> keeps conn_row_ok [(''name'', VText n), (''labels'', v), (''updated_at'', u)]"
  by (auto simp: keeps_def conn_row_ok_def assign_def)

context sql_db
begin

lemma update_one_table_all:
  assumes "table_all P t (rows db)" "t = ConnectionsTable \<Longrightarrow> keeps P as"
  shows "table_all P t (rows (fst (update_one ops db as wh msg several)))"
proof -
  obtain db' x where u: "sql_update ops db ConnectionsTable as wh = (db', x)" by fastforce
  from update_table_all [OF assms(1) _ u] assms(2) show ?thesis
    unfolding update_one_def u by (auto split: sum.split)
qed

lemma setters_conns_ok:
  assumes "conns_ok (rows db)"
  shows "conns_ok (rows (fst (DeleteConnection ops now db i)))" "conns_ok (rows (fst (SetConnectionState ops now db i s)))"
    "conns_ok (rows (fst (SetConnectionHealthState ops now db i s)))" "conns_ok (rows (fst (SetConnectionSetupStep ops now db i p)))"
    "conns_ok (rows (fst (SetConnectionSetupError ops now db i p)))"
    "conns_ok (rows (fst (SetConnectionEncryptedConfiguration ops now db i c)))"
  using assms unfolding conns_ok_def
  by (auto simp: DeleteConnection_def SetConnectionState_def SetConnectionHealthState_def SetConnectionSetupStep_def
      SetConnectionSetupError_def SetConnectionEncryptedConfiguration_def intro!: update_one_table_all setters_keep)

lemma edit_connection_table_all:
  assumes "table_all P t (rows db)" "table_all P t (rows (fst (edit db)))"
  shows "table_all P t (rows (fst (edit_connection ops db i edit)))"
proof -
  define fn where "fn = (\<lambda>tx. case GetConnection ops tx i of
          Inl e \<Rightarrow> (tx, None, Some e)
        | Inr conn \<Rightarrow>
            (case edit tx of
               (tx', Inl e) \<Rightarrow> (tx', None, Some e)
             | (tx', Inr set_fields) \<Rightarrow> (tx', Some (set_fields conn), None)))"
  have "table_all P t (rows (fst (fn db)))" using assms by (auto simp: fn_def split: sum.split prod.split)
  then have "table_all P t (rows (fst (transaction ops db None fn)))" by (rule transaction_table_all [OF assms(1)])
  then show ?thesis unfolding edit_connection_def fn_def [symmetric] by (auto split: prod.split option.split)
qed

lemma edits_conns_ok:
  assumes "conns_ok (rows db)"
  shows "conns_ok (rows (fst (UpdateConnectionLabels ops now db i m)))"
    "conns_ok (rows (fst (PutConnectionLabels ops now db i m)))" "conns_ok (rows (fst (DeleteConnectionLabels ops now db i ks)))"
    "conns_ok (rows (fst (UpdateConnectionAnnotations ops now db i m)))"
    "conns_ok (rows (fst (PutConnectionAnnotations ops now db i m)))" "conns_ok (rows (fst (DeleteConnectionAnnotations ops now db i ks)))"
proof -
  note inv = assms [unfolded conns_ok_def]
  note edits = edits_table_all [OF inv conn_row_ok_reads]
  note defs = UpdateConnectionLabels_def PutConnectionLabels_def DeleteConnectionLabels_def UpdateConnectionAnnotations_def
    PutConnectionAnnotations_def DeleteConnectionAnnotations_def
  show "conns_ok (rows (fst (UpdateConnectionLabels ops now db i m)))"
    "conns_ok (rows (fst (PutConnectionLabels ops now db i m)))" "conns_ok (rows (fst (DeleteConnectionLabels ops now db i ks)))"
    "conns_ok (rows (fst (UpdateConnectionAnnotations ops now db i m)))"
    "conns_ok (rows (fst (PutConnectionAnnotations ops now db i m)))" "conns_ok (rows (fst (DeleteConnectionAnnotations ops now db i ks)))"
    unfolding defs conns_ok_def
    by (simp_all add: inv edit_connection_table_all [OF inv] fst_apsnd edits split: option.split)
qed

lemma name_conns_ok:
  assumes "conns_ok (rows db)"
  shows "conns_ok (rows (fst (UpdateConnectionName ops unique now db i n)))"
proof (cases "ResourceName_Validate n")
  case None
  then have "conns_ok (rows (fst (updateResourceNameAndSelfLabels ops unique now db ConnectionsTable i n)))"
    unfolding conns_ok_def by (intro rename_table_all assms [unfolded conns_ok_def] setters_keep)
  with assms show ?thesis by (auto simp: UpdateConnectionName_def split: option.split prod.split)
qed (use assms in \<open>simp add: UpdateConnectionName_def split: option.split\<close>)

text \<open>The connection that is read has the health state of a stored row.\<close>

lemma GetConnection_health:
  assumes "conns_ok (rows db)" "GetConnection ops db i = Inr c"
  shows "IsValidConnectionHealthState (C_HealthState c)"
proof -
  obtain r where q: "sql_query_row ops db ConnectionsTable (live_id i) = Inr (Some r)" and f: "connection_fields r = Inr c"
    using assms(2) by (auto simp: GetConnection_def split: sum.splits option.splits)
  have "conn_row_ok r" using query_row_some [OF q] assms(1) by (auto simp: conns_ok_def table_all_def)
  then obtain h where h: "r ''health_state'' = VText h" "IsValidConnectionHealthState h" by (auto simp: conn_row_ok_def)
  have "C_HealthState c = h"
    using f h(1) by (auto simp: connection_fields_def result_bind_def scan_text_def split: sum.splits)
  with h(2) show ?thesis by simp
qed

lemma migration_conns_ok:
  assumes inv: "conns_ok (rows db)"
  shows "conns_ok (rows (fst (UpdateConnectionForVersionMigration ops now db u)))"
proof (cases "version_migration_validate u")
  case None
  then have u: "vm_ConnectorId u \<noteq> []" "HasPrefix (vm_ConnectorId u) PrefixConnectorVersion" "vm_ConnectorVersion u \<noteq> 0"
      "\<And>h. vm_HealthState u = Some h \<Longrightarrow> IsValidConnectionHealthState h"
    by (auto simp: version_migration_validate_def Let_def append_if_wrapped ID_ValidatePrefix_None split: if_splits)
  have "conns_ok (rows (fst (migrate_row ops now u db)))"
  proof (cases "GetConnection ops db (vm_Id u)")
    case (Inl e)
    then show ?thesis using inv by (simp add: migrate_row_def)
  next
    case (Inr c)
    from GetConnection_health [OF inv Inr] u(4)
    have h: "IsValidConnectionHealthState (case vm_HealthState u of None \<Rightarrow> C_HealthState c | Some h \<Rightarrow> h)" by (auto split: option.split)
    show ?thesis
    proof (cases "parent_labels ops db (vm_ConnectorId u) (C_Namespace c)")
      case (Inl e)
      then show ?thesis using inv Inr by (simp add: migrate_row_def)
    next
      case (Inr ps)
      have k: "keeps conn_row_ok [(''connector_id'', id_value (vm_ConnectorId u)), (''connector_version'', VInt (uint (vm_ConnectorVersion u))),
          (''labels'', l), (''annotations'', a), (''encrypted_configuration'', ec), (''encrypted_at'', ea), (''setup_step_id'', st),
          (''setup_error'', se), (''health_state'', VText (case vm_HealthState u of None \<Rightarrow> C_HealthState c | Some h \<Rightarrow> h)), (''updated_at'', t)]"
        for l a ec ea st se t
        using h u(1-3) by (auto simp: keeps_def conn_row_ok_def assign_def id_value_def uint_pos)
      have "conns_ok (rows (fst (sql_update ops db ConnectionsTable as w)))" if "keeps conn_row_ok as" for as w
        unfolding conns_ok_def by (rule update_table_all [OF inv [unfolded conns_ok_def], of ConnectionsTable as]) (use that in \<open>auto simp: prod_eq_iff\<close>)
      from this [OF k] Inr \<open>GetConnection ops db (vm_Id u) = Inr c\<close> show ?thesis
        by (auto simp: migrate_row_def Let_def split: prod.split sum.split) (metis fst_conv)+
    qed
  qed
  with inv transaction_table_all [of conn_row_ok ConnectionsTable db "migrate_row ops now u"] show ?thesis
    by (simp add: UpdateConnectionForVersionMigration_def None conns_ok_def)
qed (use inv in \<open>simp add: UpdateConnectionForVersionMigration_def\<close>)

end

context sql_tables
begin

lemma create_conns_ok:
  assumes inv: "conns_ok (rows db)"
  shows "conns_ok (rows (fst (CreateConnection ops unique now db c)))"
proof (cases "connection_Validate (connection_normalize c)")
  case None
  have ins: "table_all conn_row_ok ConnectionsTable (rows x)"
    if "sql_insert ops db ConnectionsTable
      (connection_values (connection_normalize c\<lparr>C_Labels := l, C_CreatedAt := a, C_UpdatedAt := u\<rparr>)) = (x, y)" for l a u x y
    using insert_table_all [OF inv [unfolded conns_ok_def] connection_values_ok [OF None], of ConnectionsTable u a l] that by simp
  show ?thesis
    unfolding CreateConnection_def Let_def None option.case conns_ok_def
    by (rule transaction_table_all [OF inv [unfolded conns_ok_def]])
       (use inv in \<open>auto simp: conns_ok_def dest: ins split: sum.split prod.split\<close>)
qed (use inv in \<open>simp add: CreateConnection_def Let_def\<close>)

lemma exec_conns_ok: "conns_ok (rows db) \<Longrightarrow> conns_ok (rows (conn_exec ops unique op db))"
  by (cases op; cases "snd op")
     (auto simp: create_conns_ok setters_conns_ok name_conns_ok migration_conns_ok edits_conns_ok)

end

text \<open>
  Property C40. Stored connections are well typed: starting from a database where every row of the
  table is well formed, any sequence of creations, state changes, migrations, edits and deletions,
  with any arguments and however the database fails, leaves a database where every connection, deleted
  ones included, has an identifier and a connector of the right kind, a valid name and namespace path,
  one of the five lifecycle states, one of the two health states, and a version above zero.
\<close>

theorem stored_connections_valid:
  assumes "sql_tables like ops rows jf" "conns_ok (rows db)"
  shows "conns_ok (rows (fold (conn_exec ops unique) calls db))"
  using assms(2)
proof (induction calls arbitrary: db)
  case (Cons op calls)
  from Cons.IH [OF sql_tables.exec_conns_ok [OF assms(1) Cons.prems]] show ?case by simp
qed simp

definition no_rows :: mem_db where "no_rows = \<lparr>tables = (\<lambda>_. []), fail_commit = False\<rparr>"

definition sample_connection :: db_connection where
  "sample_connection = \<lparr>C_Id = ''cxn_1'', C_Namespace = ''root'', C_Name = [], C_State = ''setup'', C_HealthState = [],
     C_ConnectorId = ''cxr_1'', C_ConnectorVersion = 1, C_Labels = [], C_Annotations = [], C_EncryptedConfiguration = None,
     C_EncryptedAt = None, C_SetupStep = None, C_SetupError = None, C_CreatedAt = 0, C_UpdatedAt = 0, C_DeletedAt = None\<rparr>"

lemma sample_connection_valid: "connection_Validate (connection_normalize sample_connection) = None"
proof -
  have "ResourceName_Validate ''cxn_1'' = None"
    by (simp add: ResourceName_Validate_def resourceNameRegex_def rmatch_name valid_name_def label_char_def is_alnum_def)
  moreover have "ValidatePath ''root'' = None" by code_simp
  ultimately show ?thesis
    by (simp add: connection_Validate_def connection_normalize_def sample_connection_def ID_ValidatePrefix_def ID_HasPrefix_def
        PrefixConnection_def PrefixConnectorVersion_def HasPrefix_def IsValidConnectionState_def Labels_Validate_def ValidateLabels_def
        ValidateAnnotations_def ErrorOrNil_def)
qed

lemma mem_parent_labels: "\<exists>ps. parent_labels mem_table_ops db i ns = Inr ps"
proof -
  have "\<exists>l. fetchLabelsForCarryForward mem_table_ops db t w = Inr l" for t w
    by (cases "List.find (row_matches like_exec w) (tables db t)") (auto simp: fetchLabelsForCarryForward_def mem_ops_def)
  then obtain l l' where "fetchLabelsForCarryForward mem_table_ops db ConnectorsTable (live_id i) = Inr l"
    "fetchLabelsForCarryForward mem_table_ops db NamespacesTable (live_path ns) = Inr l'" by metis
  then show ?thesis by (simp add: parent_labels_def)
qed

lemma mem_create_connection:
  assumes "connection_Validate (connection_normalize c) = None" "\<not> fail_commit db"
  shows "\<exists>l. tables (fst (CreateConnection mem_table_ops unique now db c)) ConnectionsTable =
      tables db ConnectionsTable @
        [assign (connection_values (connection_normalize c\<lparr>C_Labels := l, C_CreatedAt := now, C_UpdatedAt := now\<rparr>)) (\<lambda>_. VNull)]"
proof -
  obtain ps where ps: "parent_labels mem_table_ops db (C_ConnectorId (connection_normalize c)) (C_Namespace (connection_normalize c)) = Inr ps"
    using mem_parent_labels by blast
  have "sql_begin mem_ops db = None" "sql_commit mem_ops db x = (x, None)" for x using assms(2) by (simp_all add: mem_ops_def)
  with ps show ?thesis
    by (simp add: CreateConnection_def assms(1) transaction_def mem_insert Let_def) (rule exI, rule refl)
qed

theorem stored_connections_valid_witness:
  "\<exists>r. tables (fold (conn_exec mem_table_ops (\<lambda>_. False)) [(5, CreateOp sample_connection), (6, StateOp ''cxn_1'' ''configured'')] no_rows) ConnectionsTable = [r]
     \<and> r ''state'' = VText ''configured'' \<and> conn_row_ok r"
proof -
  let ?db1 = "fst (CreateConnection mem_table_ops (\<lambda>_. False) 5 no_rows sample_connection)"
  have "conns_ok (tables no_rows)" by (simp add: conns_ok_def table_all_def no_rows_def)
  from stored_connections_valid [OF mem_tables.sql_tables_axioms this, of "\<lambda>_. False" "[(5, CreateOp sample_connection), (6, StateOp ''cxn_1'' ''configured'')]"]
  have ok: "conns_ok (tables (fst (SetConnectionState mem_table_ops 6 ?db1 ''cxn_1'' ''configured'')))" by simp
  obtain r0 where r0: "tables ?db1 ConnectionsTable = [r0]" "r0 ''id'' = VText ''cxn_1''" "r0 ''deleted_at'' = VNull"
    using mem_create_connection [OF sample_connection_valid, of no_rows "\<lambda>_. False" 5]
    by (auto simp: no_rows_def connection_normalize_def sample_connection_def connection_values_def assign_def id_value_def time_ptr_value_def)
  have "tables (fst (SetConnectionState mem_table_ops 6 ?db1 ''cxn_1'' ''configured'')) ConnectionsTable =
      [assign [(''updated_at'', VTime 6), (''state'', VText ''configured'')] r0]"
    by (simp add: SetConnectionState_def IsValidConnectionState_def update_one_def mem_ops_def r0 update_rows_def row_matches_def)
  with ok show ?thesis by (auto simp: conns_ok_def table_all_def assign_def)
qed

end
