(* ===== verification/Setup_Token.thy ===== *)
theory Setup_Token
  imports Redis_Store Connection_Store Setup_Schema
begin

text \<open>
  One-time tokens for redirect steps (\<^verbatim>\<open>internal/core/setup_token/token.go\<close>). A token is a random
  identifier; its claims are stored in Redis, encrypted, under that identifier, and reading them deletes
  them. The random identifier and the random bytes of the encryption are arguments. Redis is the
  parameter of \<open>Redis_Store\<close> with two more commands, the encryption service a parameter with the law that
  what it encrypted it decrypts. The lemmas show that a token is good for one use within its lifetime.
\<close>

subsection \<open>Parameters\<close>

text \<open>\<open>SETEX\<close> stores a string with a lifetime in milliseconds; \<open>GETDEL\<close> reads and deletes. Either may fail,
  having changed the key or not.\<close>

record 'r token_commands =
  SETEX :: "'r \<Rightarrow> int \<Rightarrow> string \<Rightarrow> string \<Rightarrow> int \<Rightarrow> 'r \<times> err"
  GETDEL :: "'r \<Rightarrow> int \<Rightarrow> string \<Rightarrow> 'r \<times> (gerror + string option)"

locale token_redis = redis_db ops entry
  for ops :: "'r redis_ops" and entry :: "'r \<Rightarrow> int \<Rightarrow> string \<Rightarrow> rentry" +
  fixes tc :: "'r token_commands"
  assumes SETEX_ok: "SETEX tc r t k v ms = (r', None) \<Longrightarrow> 0 < ms \<Longrightarrow> entry r' t k = Some (RString v, Some (t + ms))"
    and SETEX_frame: "SETEX tc r t k v ms = (r', se) \<Longrightarrow> k' \<noteq> k \<Longrightarrow> t \<le> t' \<Longrightarrow> entry r' t' k' = entry r t' k'"
    and GETDEL_absent: "GETDEL tc r t k = (r', Inr None) \<Longrightarrow> entry r t k = None"
    and GETDEL_reads: "GETDEL tc r t k = (r', Inr (Some v)) \<Longrightarrow> \<exists>ex. entry r t k = Some (RString v, ex)"
    and GETDEL_removes: "GETDEL tc r t k = (r', Inr vo) \<Longrightarrow> entry r' t k = None"
    and GETDEL_fails: "GETDEL tc r t k = (r', Inl ge) \<Longrightarrow> entry r' t k = None \<or> entry r' t k = entry r t k"
    and GETDEL_frame: "GETDEL tc r t k = (r', y) \<Longrightarrow> k' \<noteq> k \<Longrightarrow> t \<le> t' \<Longrightarrow> entry r' t' k' = entry r t' k'"

definition mem_token_commands :: "mem_redis token_commands" where
  "mem_token_commands =
     \<lparr>SETEX = (\<lambda>r t k v ms. (AList.update k (RString v, Some (t + ms)) r, None)),
      GETDEL = (\<lambda>r t k. case mem_entry r t k of
                   None \<Rightarrow> (r, Inr None)
                 | Some (RString v, _) \<Rightarrow> (AList.delete k r, Inr (Some v))
                 | Some _ \<Rightarrow> (r, Inl WRONGTYPE))\<rparr>"

interpretation mtoken: token_redis mem_redis_ops mem_entry mem_token_commands
  by unfold_locales (auto simp: mem_token_commands_def split: option.splits prod.splits rval.splits)

text \<open>The plaintext of the encryption service is a document; \<open>nonce\<close> is its randomness.\<close>

record encrypt_ops =
  EncryptGlobal :: "nat \<Rightarrow> raw_json \<Rightarrow> gerror + encrypted_field"
  EncryptStringForNamespace :: "nat \<Rightarrow> string \<Rightarrow> raw_json \<Rightarrow> gerror + encrypted_field"
  Decrypt :: "encrypted_field \<Rightarrow> gerror + raw_json"

locale encryption =
  fixes enc :: encrypt_ops
  assumes decrypts_global: "EncryptGlobal enc n p = Inr ef \<Longrightarrow> Decrypt enc ef = Inr p"
    and decrypts_namespace: "EncryptStringForNamespace enc n ns p = Inr ef \<Longrightarrow> Decrypt enc ef = Inr p"
    and data_key_global: "EncryptGlobal enc n p = Inr ef \<Longrightarrow> HasPrefix (ef_ID ef) PrefixDataEncryptionKey \<and> CHR '':'' \<notin> set (ef_ID ef)"
    and data_key_namespace:
      "EncryptStringForNamespace enc n ns p = Inr ef \<Longrightarrow> HasPrefix (ef_ID ef) PrefixDataEncryptionKey \<and> CHR '':'' \<notin> set (ef_ID ef)"

text \<open>An instance: a vault that knows some documents by name and gives out the names.\<close>

definition vault :: "(string \<times> raw_json) list \<Rightarrow> encrypt_ops" where
  "vault docs =
     (let enc = (\<lambda>p. case List.find (\<lambda>d. snd d = p) docs of
                   None \<Rightarrow> Inl (Err ''no such document'')
                 | Some d \<Rightarrow> Inr \<lparr>ef_ID = ''dek_1'', ef_Data = fst d\<rparr>)
      in \<lparr>EncryptGlobal = (\<lambda>n p. enc p), EncryptStringForNamespace = (\<lambda>n ns p. enc p),
          Decrypt = (\<lambda>ef. case map_of docs (ef_Data ef) of None \<Rightarrow> Inl (Err ''unknown ciphertext'') | Some p \<Rightarrow> Inr p)\<rparr>)"

lemma vault_encryption:
  assumes "distinct (map fst docs)"
  shows "encryption (vault docs)"
proof -
  have "map_of docs (fst d) = Some p" if "List.find (\<lambda>d. snd d = p) docs = Some d" for d p
  proof -
    have "d \<in> set docs" "snd d = p" using that by (auto simp: find_Some_iff)
    then show ?thesis using assms by (metis map_of_eq_Some_iff prod.collapse)
  qed
  then show ?thesis
    by unfold_locales (auto simp: vault_def Let_def PrefixDataEncryptionKey_def HasPrefix_def split: option.splits)
qed

subsection \<open>Tokens\<close>

definition IntentAdvance :: string where "IntentAdvance = ''advance''"
definition IntentAbort :: string where "IntentAbort = ''abort''"

definition Intent_IsValid :: "string \<Rightarrow> bool" where
  "Intent_IsValid i \<longleftrightarrow> i = IntentAdvance \<or> i = IntentAbort"

record mint_input =
  mi_ConnectionId :: string
  mi_StepId :: string
  mi_ActorId :: string
  mi_Intent :: string
  mi_ReturnToUrl :: string

record claims = mint_input +
  cl_Jti :: string

definition token_ErrNotFound :: gerror where "token_ErrNotFound = Sentinel ''setup_token: not found''"
definition ErrTampered :: gerror where "ErrTampered = Sentinel ''setup_token: tampered payload''"

definition MintInput_Validate :: "mint_input \<Rightarrow> err" where
  "MintInput_Validate m =
     (if mi_ConnectionId m = [] then Some (Err ''setup token: connectionId is required'')
      else if mi_StepId m = [] then Some (Err ''setup_token: step_id is required'')
      else if mi_ActorId m = [] then Some (Err ''setup_token: actor_id is required'')
      else if \<not> Intent_IsValid (mi_Intent m) then Some (Errf ''setup_token: invalid intent %q'' [mi_Intent m])
      else None)"

definition Claims_json :: "claims \<Rightarrow> json" where
  "Claims_json c =
     JObj ([(''connectionId'', JStr (mi_ConnectionId c)), (''stepId'', JStr (mi_StepId c)), (''actorId'', JStr (mi_ActorId c)),
            (''intent'', JStr (mi_Intent c))] @ omit_string ''returnToUrl'' (mi_ReturnToUrl c) @ [(''jti'', JStr (cl_Jti c))])"

definition Claims_of_json :: "json \<Rightarrow> gerror + claims" where
  "Claims_of_json j =
     json_struct (\<lambda>j.
       result_bind (json_string (json_field j ''connectionId'')) (\<lambda>cid.
       result_bind (json_string (json_field j ''stepId'')) (\<lambda>step.
       result_bind (json_string (json_field j ''actorId'')) (\<lambda>actor.
       result_bind (json_string (json_field j ''intent'')) (\<lambda>intent.
       result_bind (json_string (json_field j ''returnToUrl'')) (\<lambda>url.
       result_bind (json_string (json_field j ''jti'')) (\<lambda>jti.
         Inr \<lparr>mi_ConnectionId = cid, mi_StepId = step, mi_ActorId = actor, mi_Intent = intent, mi_ReturnToUrl = url, cl_Jti = jti\<rparr>))))))) (Some j)"

definition redisKey :: "string \<Rightarrow> string" where
  "redisKey jti = ''setup_token:'' @ jti"

text \<open>Lifetimes are whole milliseconds; \<open>rnd\<close> is the random part of the identifier.\<close>

definition Mint ::
  "'r token_commands \<Rightarrow> encrypt_ops \<Rightarrow> nat \<Rightarrow> string \<Rightarrow> 'r \<Rightarrow> int \<Rightarrow> mint_input \<Rightarrow> int \<Rightarrow> 'r \<times> (gerror + string)" where
  "Mint tc enc nonce rnd r t i ttl =
     (case MintInput_Validate i of
        Some e \<Rightarrow> (r, Inl e)
      | None \<Rightarrow>
          if ttl \<le> 0 then (r, Inl (Err ''setup_token: ttl must be positive''))
          else
            let jti = ''stk_'' @ rnd;
                claims = mint_input.extend i \<lparr>cl_Jti = jti\<rparr>
            in (case EncryptGlobal enc nonce (RawDoc (Claims_json claims)) of
                  Inl e \<Rightarrow> (r, Inl (Wrapf ''setup_token: encrypt claims: %w'' [] e))
                | Inr ef \<Rightarrow>
                    (case SETEX tc r t (redisKey jti) (ToInlineString ef) ttl of
                       (r', Some e) \<Rightarrow> (r', Inl (Wrapf ''setup_token: persist to redis: %w'' [] e))
                     | (r', None) \<Rightarrow> (r', Inr jti))))"

definition VerifyAndConsume ::
  "'r token_commands \<Rightarrow> encrypt_ops \<Rightarrow> 'r \<Rightarrow> int \<Rightarrow> string \<Rightarrow> 'r \<times> (gerror + claims)" where
  "VerifyAndConsume tc enc r t token =
     (if token = [] then (r, Inl token_ErrNotFound)
      else case GETDEL tc r t (redisKey token) of
        (r', Inl e) \<Rightarrow> (r', Inl (Wrapf ''setup_token: redis getdel: %w'' [] e))
      | (r', Inr None) \<Rightarrow> (r', Inl token_ErrNotFound)
      | (r', Inr (Some raw)) \<Rightarrow>
          (r', case ParseInlineString raw of
                 Inl e \<Rightarrow> Inl (Wrapf ''%w: parse envelope: %v'' [] ErrTampered)
               | Inr ef \<Rightarrow>
                   (case Decrypt enc ef of
                      Inl e \<Rightarrow> Inl (Wrapf ''%w: decrypt: %v'' [] ErrTampered)
                    | Inr plaintext \<Rightarrow>
                        (case result_bind (json_Unmarshal plaintext) Claims_of_json of
                           Inl e \<Rightarrow> Inl (Wrapf ''%w: unmarshal: %v'' [] ErrTampered)
                         | Inr c \<Rightarrow> Inr c))))"

lemma Claims_reread: "Claims_of_json (Claims_json c) = Inr c"
  by (cases c) (simp add: Claims_of_json_def Claims_json_def json_struct_def json_field_def json_string_def omit_string_def)

lemma redisKey_inj [simp]: "redisKey a = redisKey b \<longleftrightarrow> a = b"
  by (simp add: redisKey_def)

subsection \<open>One use\<close>

context token_redis
begin

lemma Mint_stores:
  assumes "encryption enc" "Mint tc enc nonce rnd r t i ttl = (r', Inr jti)"
  shows "jti = ''stk_'' @ rnd \<and> 0 < ttl \<and> (\<exists>ef. entry r' t (redisKey jti) = Some (RString (ToInlineString ef), Some (t + ttl)) \<and>
    ParseInlineString (ToInlineString ef) = Inr ef \<and> Decrypt enc ef = Inr (RawDoc (Claims_json (mint_input.extend i \<lparr>cl_Jti = jti\<rparr>))))"
proof -
  obtain ef where ef: "EncryptGlobal enc nonce (RawDoc (Claims_json (mint_input.extend i \<lparr>cl_Jti = ''stk_'' @ rnd\<rparr>))) = Inr ef"
      "SETEX tc r t (redisKey (''stk_'' @ rnd)) (ToInlineString ef) ttl = (r', None)" "0 < ttl" "jti = ''stk_'' @ rnd"
    using assms(2) by (auto simp: Mint_def Let_def split: option.splits if_splits sum.splits prod.splits)
  have "ParseInlineString (ToInlineString ef) = Inr ef"
    using encryption.data_key_global [OF assms(1) ef(1)] by (simp add: inline_reread)
  with SETEX_ok [OF ef(2,3)] encryption.decrypts_global [OF assms(1) ef(1)] ef(3,4) show ?thesis by auto
qed

lemma consume_stored:
  assumes "entry r t (redisKey token) = Some (RString (ToInlineString ef), x)" "ParseInlineString (ToInlineString ef) = Inr ef"
    "Decrypt enc ef = Inr (RawDoc (Claims_json c))" "token \<noteq> []" "VerifyAndConsume tc enc r t token = (r', y)"
  shows "y = Inr c \<or> (\<exists>e. GETDEL tc r t (redisKey token) = (r', Inl e))"
proof -
  obtain z where z: "GETDEL tc r t (redisKey token) = (r', z)"
    using assms(4,5) by (auto simp: VerifyAndConsume_def split: prod.splits sum.splits option.splits)
  show ?thesis
  proof (cases z)
    case (Inr v)
    then obtain raw where raw: "v = Some raw" using GETDEL_absent [of r t "redisKey token" r'] z assms(1) by (cases v) auto
    then have "raw = ToInlineString ef" using GETDEL_reads [of r t "redisKey token" r' raw] z Inr assms(1) by auto
    with raw Inr z assms(2-5) show ?thesis by (simp add: VerifyAndConsume_def json_Unmarshal_def Claims_reread)
  qed (use z in auto)
qed

text \<open>Once the key is gone it stays gone, and its token is refused.\<close>

definition spent :: "'r \<Rightarrow> int \<Rightarrow> string \<Rightarrow> bool" where
  "spent r t token \<longleftrightarrow> (\<forall>t' \<ge> t. entry r t' (redisKey token) = None)"

lemma spentI: "entry r t (redisKey token) = None \<Longrightarrow> spent r t token"
  unfolding spent_def using entry_none by blast

lemma consume_spends:
  assumes "VerifyAndConsume tc enc r t token = (r', Inr c)"
  shows "spent r' t token"
proof -
  obtain v where "GETDEL tc r t (redisKey token) = (r', Inr v)"
    using assms by (auto simp: VerifyAndConsume_def split: if_splits prod.splits sum.splits option.splits)
  from GETDEL_removes [OF this] show ?thesis by (rule spentI)
qed

lemma spent_refused:
  assumes "spent r t token" "t \<le> t'"
  shows "isl (snd (VerifyAndConsume tc enc r t' token))" "spent (fst (VerifyAndConsume tc enc r t' token)) t' token"
proof -
  obtain r' y where g: "GETDEL tc r t' (redisKey token) = (r', y)" by fastforce
  have none: "entry r t' (redisKey token) = None" using assms by (simp add: spent_def)
  have y: "y = Inr None \<or> (\<exists>e. y = Inl e)"
  proof (cases y)
    case (Inr v)
    then show ?thesis using GETDEL_reads [of r t' "redisKey token" r'] g none by (cases v) auto
  qed simp
  then show "isl (snd (VerifyAndConsume tc enc r t' token))" using g by (auto simp: VerifyAndConsume_def)
  have "entry r' t' (redisKey token) = None"
    using y g GETDEL_removes [of r t' "redisKey token" r' None] GETDEL_fails [of r t' "redisKey token" r'] none by auto
  from spentI [OF this] spentI [OF none] show "spent (fst (VerifyAndConsume tc enc r t' token)) t' token"
    using y g by (auto simp: VerifyAndConsume_def)
qed

lemma spent_kept_consume:
  assumes "spent r t token" "t \<le> t'" "token' \<noteq> token"
  shows "spent (fst (VerifyAndConsume tc enc r t' token')) t' token"
proof -
  obtain r' y where g: "GETDEL tc r t' (redisKey token') = (r', y)" by fastforce
  have "entry r' u (redisKey token) = entry r u (redisKey token)" if "t' \<le> u" for u
    using GETDEL_frame [OF g, of "redisKey token" u] assms(3) that by simp
  then have "spent r' t' token" using assms(1,2) by (simp add: spent_def)
  moreover have "spent r t' token" using assms(1,2) by (simp add: spent_def)
  ultimately show ?thesis using g by (auto simp: VerifyAndConsume_def split: sum.split option.split)
qed

lemma spent_kept_mint:
  assumes "spent r t token" "t \<le> t'" "''stk_'' @ rnd \<noteq> token"
  shows "spent (fst (Mint tc enc nonce rnd r t' i ttl)) t' token"
proof -
  have "spent r' t' token" if "SETEX tc r t' (redisKey (''stk_'' @ rnd)) v ttl = (r', y)" for r' v y
    using SETEX_frame [OF that, of "redisKey token"] assms by (auto simp: spent_def)
  moreover have "spent r t' token" using assms(1,2) by (simp add: spent_def)
  ultimately show ?thesis by (auto simp: Mint_def Let_def split: option.split sum.split prod.split)
qed

end

text \<open>Requests to the token store, each with its time, and the claims each of them yields.\<close>

datatype token_request = MintReq nat string mint_input int | ConsumeReq string

fun token_step :: "'r token_commands \<Rightarrow> encrypt_ops \<Rightarrow> int \<times> token_request \<Rightarrow> 'r \<Rightarrow> 'r \<times> (gerror + claims) option" where
  "token_step tc enc (t, MintReq nonce rnd i ttl) r = (fst (Mint tc enc nonce rnd r t i ttl), None)"
| "token_step tc enc (t, ConsumeReq token) r = apsnd Some (VerifyAndConsume tc enc r t token)"

fun token_run :: "'r token_commands \<Rightarrow> encrypt_ops \<Rightarrow> (int \<times> token_request) list \<Rightarrow> 'r \<Rightarrow> (gerror + claims) option list" where
  "token_run tc enc [] r = []"
| "token_run tc enc (q # qs) r = (let (r', x) = token_step tc enc q r in x # token_run tc enc qs r')"

definition mints :: "token_request \<Rightarrow> string \<Rightarrow> bool" where
  "mints q token \<longleftrightarrow> (case q of MintReq _ rnd _ _ \<Rightarrow> ''stk_'' @ rnd = token | ConsumeReq _ \<Rightarrow> False)"

context token_redis
begin

lemma spent_run:
  assumes "spent r t token" "sorted (t # map fst qs)" "\<forall>q \<in> set qs. \<not> mints (snd q) token"
  shows "\<forall>k < length qs. snd (qs ! k) = ConsumeReq token \<longrightarrow> (\<exists>e. token_run tc enc qs r ! k = Some (Inl e))"
  using assms
proof (induction qs arbitrary: r t)
  case (Cons q qs)
  obtain u req where q: "q = (u, req)" by fastforce
  have u: "t \<le> u" "sorted (u # map fst qs)" using Cons.prems(2) q by auto
  have "spent (fst (token_step tc enc q r)) u token"
  proof (cases req)
    case (MintReq nonce rnd i ttl)
    with spent_kept_mint [OF Cons.prems(1) u(1)] Cons.prems(3) show ?thesis by (simp add: q mints_def)
  next
    case (ConsumeReq token')
    with spent_refused(2) [OF Cons.prems(1) u(1)] spent_kept_consume [OF Cons.prems(1) u(1), of token'] show ?thesis
      by (cases "token' = token") (simp_all add: q)
  qed
  from Cons.IH [OF this u(2)] Cons.prems(3)
  have rest: "\<forall>k < length qs. snd (qs ! k) = ConsumeReq token \<longrightarrow> (\<exists>e. token_run tc enc qs (fst (token_step tc enc q r)) ! k = Some (Inl e))"
    by simp
  have first: "\<exists>e. snd (token_step tc enc q r) = Some (Inl e)" if "req = ConsumeReq token"
    using spent_refused(1) [OF Cons.prems(1) u(1), of enc] that by (auto simp: q isl_def)
  show ?case
  proof (intro allI impI)
    fix k assume "k < length (q # qs)" "snd ((q # qs) ! k) = ConsumeReq token"
    then show "\<exists>e. token_run tc enc (q # qs) r ! k = Some (Inl e)"
      using rest first by (cases k) (auto simp: q case_prod_unfold Let_def)
  qed
qed simp

end

text \<open>
  Property C38. A setup token is good for one use. Minted at one time and presented within its lifetime
  it yields exactly the claims it was minted with, unless Redis fails; and once it has yielded them,
  in whatever sequence of later requests, with other tokens minted and consumed in between, every
  further presentation is refused.
\<close>

theorem setup_token_single_use:
  assumes "token_redis ops entry tc" "encryption enc"
    and "Mint tc enc nonce rnd r t i ttl = (r1, Inr token)" "t \<le> t'" "t' < t + ttl"
    and "VerifyAndConsume tc enc r1 t' token = (r2, x)" "\<nexists>e. GETDEL tc r1 t' (redisKey token) = (r2, Inl e)"
    and "sorted (t' # map fst qs)" "\<forall>q \<in> set qs. \<not> mints (snd q) token"
  shows "x = Inr (mint_input.extend i \<lparr>cl_Jti = token\<rparr>) \<and>
    (\<forall>k < length qs. snd (qs ! k) = ConsumeReq token \<longrightarrow> (\<exists>e. token_run tc enc qs r2 ! k = Some (Inl e)))"
proof -
  note l = token_redis.Mint_stores [OF assms(1,2,3)]
  then obtain ef where e: "entry r1 t (redisKey token) = Some (RString (ToInlineString ef), Some (t + ttl))"
      "ParseInlineString (ToInlineString ef) = Inr ef" "Decrypt enc ef = Inr (RawDoc (Claims_json (mint_input.extend i \<lparr>cl_Jti = token\<rparr>)))"
      "token \<noteq> []" by auto
  have "redis_db ops entry" using assms(1) by (rule token_redis.axioms)
  from redis_db.entry_later [OF this e(1) assms(4,5)]
  have "x = Inr (mint_input.extend i \<lparr>cl_Jti = token\<rparr>)"
    using token_redis.consume_stored [OF assms(1) _ e(2,3,4) assms(6)] assms(7) by blast
  moreover from this token_redis.consume_spends [OF assms(1)] assms(6) have "token_redis.spent entry r2 t' token" by blast
  ultimately show ?thesis using token_redis.spent_run [OF assms(1) _ assms(8,9)] by blast
qed

definition sample_mint :: mint_input where
  "sample_mint = \<lparr>mi_ConnectionId = ''cxn_1'', mi_StepId = ''install_app'', mi_ActorId = ''act_1'', mi_Intent = ''advance'', mi_ReturnToUrl = []\<rparr>"

definition sample_vault :: encrypt_ops where
  "sample_vault = vault [(''doc1'', RawDoc (Claims_json (mint_input.extend sample_mint \<lparr>cl_Jti = ''stk_a''\<rparr>)))]"

interpretation sample_vault: encryption sample_vault
  unfolding sample_vault_def by (rule vault_encryption) simp

theorem setup_token_single_use_witness:
  "\<exists>r2. VerifyAndConsume mem_token_commands sample_vault (fst (Mint mem_token_commands sample_vault 0 ''a'' [] 0 sample_mint 900000)) 5 ''stk_a'' =
      (r2, Inr (mint_input.extend sample_mint \<lparr>cl_Jti = ''stk_a''\<rparr>)) \<and>
    (\<exists>e. token_run mem_token_commands sample_vault [(6, ConsumeReq ''stk_a'')] r2 = [Some (Inl e)])"
proof -
  let ?claims = "mint_input.extend sample_mint \<lparr>cl_Jti = ''stk_a''\<rparr>"
  let ?r1 = "AList.update (redisKey ''stk_a'') (RString ''dek_1:doc1'', Some 900000) []"
  have m: "Mint mem_token_commands sample_vault 0 ''a'' [] 0 sample_mint 900000 = (?r1, Inr ''stk_a'')"
    by (simp add: Mint_def MintInput_Validate_def sample_mint_def Intent_IsValid_def IntentAdvance_def sample_vault_def vault_def Let_def
        mem_token_commands_def ToInlineString_def)
  obtain r2 x where v: "VerifyAndConsume mem_token_commands sample_vault ?r1 5 ''stk_a'' = (r2, x)" by fastforce
  have g: "\<nexists>e. GETDEL mem_token_commands ?r1 5 (redisKey ''stk_a'') = (r2, Inl e)"
    by (simp add: mem_token_commands_def mem_entry_def)
  have "x = Inr ?claims \<and> (\<forall>k < length [(6 :: int, ConsumeReq ''stk_a'')]. snd ([(6 :: int, ConsumeReq ''stk_a'')] ! k) = ConsumeReq ''stk_a'' \<longrightarrow>
      (\<exists>e. token_run mem_token_commands sample_vault [(6, ConsumeReq ''stk_a'')] r2 ! k = Some (Inl e)))"
    by (rule setup_token_single_use [OF mtoken.token_redis_axioms sample_vault.encryption_axioms m _ _ v g]) (simp_all add: mints_def)
  then show ?thesis using m v by (auto simp: case_prod_unfold)
qed

end
