(* ===== verification/Connection_Setup.thy ===== *)
theory Connection_Setup
  imports Setup_Flow Setup_Token
begin

text \<open>
  The setup of a connection: the methods of a loaded connection and of the core service that move it
  through its setup flow (\<^verbatim>\<open>internal/core\<close>: \<^verbatim>\<open>connection.go\<close>, \<^verbatim>\<open>connection_setup_flow.go\<close>,
  \<^verbatim>\<open>connection_setup_dispatch.go\<close>, \<^verbatim>\<open>connection_post_auth.go\<close>, \<^verbatim>\<open>connection_verify.go\<close>, \<^verbatim>\<open>connection_probe.go\<close>,
  \<^verbatim>\<open>service_connection_*.go\<close>, \<^verbatim>\<open>task_verify_connection.go\<close>). The world of a request holds the database, Redis,
  the loaded connection with its cached configuration, and an external state, on which the task queue,
  the probes and the authentication methods act. Logging is left out. The error of an operation is
  returned with the world it leaves behind.
\<close>

subsection \<open>The world of a request\<close>

record ('db, 'r, 'x) world =
  w_db :: 'db
  w_redis :: 'r
  w_conn :: db_connection
  w_cache :: "cfg option option"
  w_random :: nat
  w_ext :: 'x

text \<open>
  \<open>w_cache\<close> is the configuration cache of the loaded connection, \<^term>\<open>None\<close> before the first use;
  \<open>w_random\<close> counts the random values drawn. A probe answers with the text of its error.
\<close>

record 'w probe_spec =
  probe_Id :: string
  probe_If :: "string option"
  probe_Invoke :: "'w \<Rightarrow> 'w \<times> string option"

record 'w connector_def =
  cd_SetupFlow :: "setup_flow option"
  cd_Probes :: "'w probe_spec list"
  cd_Auth :: "string option"

text \<open>An authentication method: the steps it adds to a flow and, if it supports it, how it revokes credentials.\<close>

record 'w auth_factory =
  fa_ManifestSetupSteps :: "'w connector_def \<Rightarrow> 'w manifest_step list"
  fa_Revoke :: "('w \<Rightarrow> 'w \<times> err) option"

text \<open>
  What a request runs against: the database, Redis and the encryption service, the JSON Schema
  compiler, the JavaScript of the connector (an error when its library does not compile, else the
  evaluation of a script with the configuration, labels and annotations), the template renderer, the
  authentication methods, the task queue, the connector versions, the clocks of the process and of Redis, the acting user, the
  random values, and the public base URL.
\<close>

record ('db, 'r, 'x, 'w) core_service =
  sv_ops :: "'db sql_table_ops"
  sv_redis :: "'r redis_ops"
  sv_tokens :: "'r token_commands"
  sv_encrypt :: encrypt_ops
  sv_compiler :: schema_compiler
  sv_js :: "gerror + (string \<Rightarrow> cfg \<Rightarrow> smap \<Rightarrow> smap \<Rightarrow> gerror + bool)"
  sv_mustache :: "string \<Rightarrow> cfg option \<Rightarrow> smap \<Rightarrow> smap \<Rightarrow> gerror + string"
  sv_factories :: "string \<Rightarrow> 'w auth_factory option"
  sv_enqueue :: "'x \<Rightarrow> string \<Rightarrow> 'x \<times> err"
  sv_connectors :: "'db \<Rightarrow> string \<Rightarrow> 64 word \<Rightarrow> gerror + 'w connector_def"
  sv_now :: int
  sv_redis_now :: int
  sv_actor :: string
  sv_rnd :: "nat \<Rightarrow> string"
  sv_public :: string

type_synonym ('db, 'r, 'x) service = "('db, 'r, 'x, ('db, 'r, 'x) world) core_service"
type_synonym ('db, 'r, 'x) connector = "('db, 'r, 'x) world connector_def"
type_synonym ('db, 'r, 'x) flow = "('db, 'r, 'x) world manifestFlow"
type_synonym ('db, 'r, 'x) step = "('db, 'r, 'x) world manifest_step"

subsection \<open>HTTP errors and responses\<close>

text \<open>An error with a status; the text of a wrapped error is not formatted.\<close>

definition BadRequest :: "string \<Rightarrow> gerror" where "BadRequest msg = Errf ''400'' [msg]"
definition BadRequestErr :: "gerror \<Rightarrow> gerror" where "BadRequestErr e = Wrapf ''400'' [] e"
definition InternalServerErrorMsg :: "string \<Rightarrow> gerror" where "InternalServerErrorMsg msg = Errf ''500'' [msg]"
definition InternalServerErrorf :: "string \<Rightarrow> gerror \<Rightarrow> gerror" where "InternalServerErrorf fmt e = Wrapf ''500'' [] (Wrapf fmt [] e)"

datatype setup_response =
    ConnectionSetupForm string string string string raw_json raw_json
  | ConnectionSetupRedirect string string
  | ConnectionSetupVerifying string
  | ConnectionSetupComplete string
  | ConnectionSetupError string string bool

subsection \<open>The loaded connection\<close>

definition GetHealthState :: "('db, 'r, 'x) world \<Rightarrow> string" where
  "GetHealthState w = (if C_HealthState (w_conn w) = [] then ''healthy'' else C_HealthState (w_conn w))"

text \<open>A setter writes the column and, if that succeeded, the loaded connection.\<close>

definition write_conn ::
  "('db \<Rightarrow> 'db \<times> err) \<Rightarrow> (db_connection \<Rightarrow> db_connection) \<Rightarrow> ('db, 'r, 'x) world \<Rightarrow> ('db, 'r, 'x) world \<times> err" where
  "write_conn op change w =
     (case op (w_db w) of
        (db', Some e) \<Rightarrow> (w\<lparr>w_db := db'\<rparr>, Some e)
      | (db', None) \<Rightarrow> (w\<lparr>w_db := db', w_conn := change (w_conn w)\<rparr>, None))"

definition SetSetupStep :: "('db, 'r, 'x) service \<Rightarrow> setup_step option \<Rightarrow> ('db, 'r, 'x) world \<Rightarrow> ('db, 'r, 'x) world \<times> err" where
  "SetSetupStep s p w =
     write_conn (\<lambda>db. SetConnectionSetupStep (sv_ops s) (sv_now s) db (C_Id (w_conn w)) p) (\<lambda>c. c\<lparr>C_SetupStep := p\<rparr>) w"

definition SetSetupError :: "('db, 'r, 'x) service \<Rightarrow> string option \<Rightarrow> ('db, 'r, 'x) world \<Rightarrow> ('db, 'r, 'x) world \<times> err" where
  "SetSetupError s p w =
     write_conn (\<lambda>db. SetConnectionSetupError (sv_ops s) (sv_now s) db (C_Id (w_conn w)) p) (\<lambda>c. c\<lparr>C_SetupError := p\<rparr>) w"

definition SetState :: "('db, 'r, 'x) service \<Rightarrow> string \<Rightarrow> ('db, 'r, 'x) world \<Rightarrow> ('db, 'r, 'x) world \<times> err" where
  "SetState s state w =
     write_conn (\<lambda>db. SetConnectionState (sv_ops s) (sv_now s) db (C_Id (w_conn w)) state) (\<lambda>c. c\<lparr>C_State := state\<rparr>) w"

definition MarkHealthState :: "('db, 'r, 'x) service \<Rightarrow> string \<Rightarrow> ('db, 'r, 'x) world \<Rightarrow> ('db, 'r, 'x) world \<times> err" where
  "MarkHealthState s state w =
     (if \<not> IsValidConnectionHealthState state then (w, Some (Errf ''invalid health state: %q'' [state]))
      else if GetHealthState w = state then (w, None)
      else apsnd (map_option (Wrapf ''failed to update connection health state: %w'' []))
        (write_conn (\<lambda>db. SetConnectionHealthState (sv_ops s) (sv_now s) db (C_Id (w_conn w)) state) (\<lambda>c. c\<lparr>C_HealthState := state\<rparr>) w))"

text \<open>The configuration: decrypted once and cached. Copies of it share nothing, so a copy is the value.\<close>

definition config_is_absent :: "encrypted_field option \<Rightarrow> bool" where
  "config_is_absent p = (case p of None \<Rightarrow> True | Some ef \<Rightarrow> EncryptedField_IsZero ef)"

definition GetConfiguration :: "('db, 'r, 'x) service \<Rightarrow> ('db, 'r, 'x) world \<Rightarrow> ('db, 'r, 'x) world \<times> (gerror + cfg option)" where
  "GetConfiguration s w =
     (case w_cache w of
        Some cfg \<Rightarrow> (w, Inr cfg)
      | None \<Rightarrow>
          if config_is_absent (C_EncryptedConfiguration (w_conn w)) then (w\<lparr>w_cache := Some None\<rparr>, Inr None)
          else (case Decrypt (sv_encrypt s) (the (C_EncryptedConfiguration (w_conn w))) of
                  Inl e \<Rightarrow> (w, Inl (Wrapf ''failed to decrypt connection configuration: %w'' [] e))
                | Inr decrypted \<Rightarrow>
                    (case result_bind (json_Unmarshal decrypted) json_map of
                       Inl e \<Rightarrow> (w, Inl (Wrapf ''failed to unmarshal connection configuration: %w'' [] e))
                     | Inr cfg \<Rightarrow> (w\<lparr>w_cache := Some cfg\<rparr>, Inr cfg))))"

definition SetConfiguration :: "('db, 'r, 'x) service \<Rightarrow> cfg option \<Rightarrow> ('db, 'r, 'x) world \<Rightarrow> ('db, 'r, 'x) world \<times> err" where
  "SetConfiguration s data w0 =
     (let doc = (case data of None \<Rightarrow> JNull | Some d \<Rightarrow> JObj d);
          w = w0\<lparr>w_random := Suc (w_random w0)\<rparr>
      in case json_map doc of
           Inl e \<Rightarrow> (w0, Some (Wrapf ''failed to normalize connection configuration: %w'' [] e))
         | Inr cached \<Rightarrow>
        (case EncryptStringForNamespace (sv_encrypt s) (w_random w0) (C_Namespace (w_conn w)) (RawDoc doc) of
           Inl e \<Rightarrow> (w, Some (Wrapf ''failed to encrypt connection configuration: %w'' [] e))
         | Inr ef \<Rightarrow>
             (case SetConnectionEncryptedConfiguration (sv_ops s) (sv_now s) (w_db w) (C_Id (w_conn w)) (Some ef) of
                (db', Some e) \<Rightarrow> (w\<lparr>w_db := db'\<rparr>, Some e)
              | (db', None) \<Rightarrow>
                  (w\<lparr>w_db := db', w_conn := (w_conn w)\<lparr>C_EncryptedConfiguration := Some ef\<rparr>, w_cache := Some cached\<rparr>, None))))"

text \<open>Evaluating a condition of the connector: without a configuration the variable is an empty object.\<close>

definition eval_condition :: "('db, 'r, 'x) service \<Rightarrow> string \<Rightarrow> string \<Rightarrow> string \<Rightarrow> ('db, 'r, 'x) world \<Rightarrow> gerror + bool" where
  "eval_condition s what i script w =
     (case sv_js s of
        Inl e \<Rightarrow> Inl (Wrapf (what @ '' %q: get javascript context: %w'') [i] e)
      | Inr run \<Rightarrow>
          (case snd (GetConfiguration s w) of
             Inl e \<Rightarrow> Inl (Wrapf (what @ '' %q: get javascript context: %w'') [i] (Wrapf ''get connection configuration: %w'' [] e))
           | Inr cfg \<Rightarrow>
               (case run script (case cfg of None \<Rightarrow> [] | Some c \<Rightarrow> c) (C_Labels (w_conn w)) (C_Annotations (w_conn w)) of
                  Inl e \<Rightarrow> Inl (Wrapf (what @ '' %q if.javascript: %w'') [i] e)
                | Inr ok \<Rightarrow> Inr ok)))"

definition isProbeEnabled :: "('db, 'r, 'x) service \<Rightarrow> ('db, 'r, 'x) world probe_spec \<Rightarrow> ('db, 'r, 'x) world \<Rightarrow> gerror + bool" where
  "isProbeEnabled s p w = (case probe_If p of None \<Rightarrow> Inr True | Some js \<Rightarrow> eval_condition s ''probe'' (probe_Id p) js w)"

fun enabled_probes ::
  "('db, 'r, 'x) service \<Rightarrow> ('db, 'r, 'x) world probe_spec list \<Rightarrow> ('db, 'r, 'x) world \<Rightarrow> gerror + ('db, 'r, 'x) world probe_spec list" where
  "enabled_probes s [] w = Inr []"
| "enabled_probes s (p # ps) w =
     (case isProbeEnabled s p w of
        Inl e \<Rightarrow> Inl e
      | Inr enabled \<Rightarrow> result_bind (enabled_probes s ps w) (\<lambda>qs. Inr (if enabled then p # qs else qs)))"

definition GetEnabledProbes ::
  "('db, 'r, 'x) service \<Rightarrow> ('db, 'r, 'x) connector \<Rightarrow> ('db, 'r, 'x) world \<Rightarrow> gerror + ('db, 'r, 'x) world probe_spec list" where
  "GetEnabledProbes s def w = enabled_probes s (cd_Probes def) w"

definition HasProbes :: "'w connector_def \<Rightarrow> bool" where
  "HasProbes def \<longleftrightarrow> length (cd_Probes def) > 0"

subsection \<open>The steps of the schema\<close>

definition newSchemaStepEligibility ::
  "('db, 'r, 'x) service \<Rightarrow> step_spec \<Rightarrow> (('db, 'r, 'x) world \<Rightarrow> gerror + bool) option" where
  "newSchemaStepEligibility s spec = map_option (\<lambda>js w. eval_condition s ''step'' (spec_Id spec) js w) (spec_If spec)"

definition newSchemaFormStep :: "('db, 'r, 'x) service \<Rightarrow> step_spec \<Rightarrow> ('db, 'r, 'x) step" where
  "newSchemaFormStep s spec = NewFormStep
     \<lparr>form_Id = spec_Id spec, form_Title = spec_Title spec, form_Description = spec_Description spec,
      form_JsonSchema = spec_JsonSchema spec, form_UiSchema = spec_UiSchema spec,
      form_OnSubmit = Some (\<lambda>data w0.
        case GetConfiguration s w0 of
          (w1, Inl e) \<Rightarrow> (w1, Some (InternalServerErrorf ''failed to get existing configuration: %w'' e))
        | (w1, Inr existing) \<Rightarrow>
            (case ValidateAndMergeData (sv_compiler s) spec (spec_Id spec) data existing of
               (_, Some e) \<Rightarrow> (w1, Some (BadRequestErr e))
             | (merged, None) \<Rightarrow>
                 apsnd (map_option (InternalServerErrorf ''failed to save configuration: %w'')) (SetConfiguration s merged w1))),
      form_IsEligible = newSchemaStepEligibility s spec\<rparr>"

definition setupTokenTTL :: int where "setupTokenTTL = 900000"

definition TrimRight_slash :: "string \<Rightarrow> string" where
  "TrimRight_slash u = rev (dropWhile (\<lambda>c. c = CHR ''/'') (rev u))"

definition mintReturnURL ::
  "('db, 'r, 'x) service \<Rightarrow> string \<Rightarrow> string \<Rightarrow> string \<Rightarrow> ('db, 'r, 'x) world \<Rightarrow> ('db, 'r, 'x) world \<times> (gerror + string)" where
  "mintReturnURL s stepId returnToUrl intent w0 =
     (let cid = C_Id (w_conn w0);
          w = w0\<lparr>w_random := Suc (w_random w0)\<rparr>
      in case Mint (sv_tokens s) (sv_encrypt s) (w_random w0) (sv_rnd s (w_random w0)) (w_redis w) (sv_redis_now s)
              \<lparr>mi_ConnectionId = cid, mi_StepId = stepId, mi_ActorId = sv_actor s, mi_Intent = intent, mi_ReturnToUrl = returnToUrl\<rparr>
              setupTokenTTL of
           (r', Inl e) \<Rightarrow> (w\<lparr>w_redis := r'\<rparr>, Inl e)
         | (r', Inr tok) \<Rightarrow>
             (w\<lparr>w_redis := r'\<rparr>, Inr (TrimRight_slash (sv_public s) @ ''/setup/connections/'' @ cid @ ''/''
               @ (if intent = IntentAbort then ''abort'' else ''advance'') @ ''?token='' @ tok)))"

text \<open>\<^verbatim>\<open>strings.ReplaceAll\<close> with a non-empty pattern.\<close>

function ReplaceAll :: "string \<Rightarrow> string \<Rightarrow> string \<Rightarrow> string" where
  "ReplaceAll t old new =
     (if old = [] then t
      else case Index t old of None \<Rightarrow> t | Some i \<Rightarrow> take i t @ new @ ReplaceAll (drop (i + length old) t) old new)"
  by pat_completeness auto
termination
proof (relation "measure (\<lambda>(t, old, new). length t)", goal_cases)
  case (2 t old new i)
  then have "old \<noteq> []" "t = take i t @ old @ drop (i + length old) t" using Index_Some [of t old i] by simp_all
  then have "0 < length old" "length old \<le> length t" by (simp, metis le_add2 le_trans le_add1 length_append)
  then have "length t - (i + length old) < length t" by linarith
  then show ?case by simp
qed simp

declare ReplaceAll.simps [simp del]

definition newSchemaRedirectStep :: "('db, 'r, 'x) service \<Rightarrow> step_spec \<Rightarrow> ('db, 'r, 'x) step" where
  "newSchemaRedirectStep s spec = NewRedirectStep
     \<lparr>redirect_Id = spec_Id spec, redirect_Title = spec_Title spec, redirect_Description = spec_Description spec,
      redirect_IsEligible = newSchemaStepEligibility s spec,
      redirect_Render = Some (\<lambda>returnToUrl w0.
        let wrap = (\<lambda>what e. Wrapf (''redirect step %q: '' @ what @ '': %w'') [spec_Id spec] e) in
        case spec_Redirect spec of
          None \<Rightarrow> (w0, Inl (Errf ''redirect step %q has no URL configured'' [spec_Id spec]))
        | Some url \<Rightarrow>
            if url = [] then (w0, Inl (Errf ''redirect step %q has no URL configured'' [spec_Id spec]))
            else (case GetConfiguration s w0 of
                    (w1, Inl e) \<Rightarrow>
                      (w1, Inl (wrap ''get mustache context'' (Wrapf ''failed to get connection configuration for mustache context: %w'' [] e)))
                  | (w1, Inr cfg) \<Rightarrow>
                      (case sv_mustache s url cfg (C_Labels (w_conn w1)) (C_Annotations (w_conn w1)) of
                         Inl e \<Rightarrow> (w1, Inl (wrap ''render template'' e))
                       | Inr rendered \<Rightarrow>
                           (case mintReturnURL s (spec_Id spec) returnToUrl IntentAdvance w1 of
                              (w2, Inl e) \<Rightarrow> (w2, Inl (wrap ''mint advance token'' e))
                            | (w2, Inr advanceURL) \<Rightarrow>
                                (case mintReturnURL s (spec_Id spec) returnToUrl IntentAbort w2 of
                                   (w3, Inl e) \<Rightarrow> (w3, Inl (wrap ''mint abort token'' e))
                                 | (w3, Inr abortURL) \<Rightarrow>
                                     (w3, Inr (ReplaceAll (ReplaceAll rendered ''{{RETURN_ADVANCE}}'' advanceURL) ''{{RETURN_ABORT}}'' abortURL)))))))\<rparr>"

definition newSchemaStep :: "('db, 'r, 'x) service \<Rightarrow> step_spec \<Rightarrow> ('db, 'r, 'x) step" where
  "newSchemaStep s spec =
     (if SetupFlowStepType_Normalized (spec_Type spec) = ''redirect'' then newSchemaRedirectStep s spec else newSchemaFormStep s spec)"

definition getAuthMethodFactory :: "('db, 'r, 'x) service \<Rightarrow> ('db, 'r, 'x) connector \<Rightarrow> ('db, 'r, 'x) world auth_factory option" where
  "getAuthMethodFactory s def = (case cd_Auth def of None \<Rightarrow> None | Some kind \<Rightarrow> sv_factories s kind)"

definition auth_steps :: "('db, 'r, 'x) service \<Rightarrow> ('db, 'r, 'x) connector \<Rightarrow> ('db, 'r, 'x) step list" where
  "auth_steps s def = (case getAuthMethodFactory s def of None \<Rightarrow> [] | Some f \<Rightarrow> fa_ManifestSetupSteps f def)"

definition buildManifestSetupFlow :: "('db, 'r, 'x) service \<Rightarrow> ('db, 'r, 'x) connector \<Rightarrow> ('db, 'r, 'x) flow" where
  "buildManifestSetupFlow s def =
     (let pre = (if HasPreconnect (cd_SetupFlow def) then map (newSchemaStep s) (the (Preconnect (the (cd_SetupFlow def)))) else []);
          steps1 = pre @ auth_steps s def;
          conf = (if HasConfigure (cd_SetupFlow def) then map (newSchemaStep s) (the (Configure (the (cd_SetupFlow def)))) else [])
      in \<lparr>flow_steps = steps1 @ conf, flow_hasProbes = HasProbes def,
          flow_hasEnabledProbes = Some (\<lambda>w. result_bind (GetEnabledProbes s def w) (\<lambda>ps. Inr (length ps > 0))),
          flow_authBoundary = int (length steps1) - 1\<rparr>)"

subsection \<open>Notifications\<close>

definition NotificationsTable :: string where "NotificationsTable = ''notifications''"

definition ResolveNotificationsForResourceKeys ::
  "('db, 'm) sql_ops_scheme \<Rightarrow> int \<Rightarrow> 'db \<Rightarrow> string \<Rightarrow> string \<Rightarrow> string list \<Rightarrow> 'db \<times> err" where
  "ResolveNotificationsForResourceKeys ops now db resourceType resourceID ks =
     (if length ks = 0 then (db, None)
      else if resourceType = [] then (db, Some (Err ''resource type is required''))
      else if resourceID = [] then (db, Some (Err ''resource id is required''))
      else (case sql_update ops db NotificationsTable
              [(''state'', VText ''resolved''), (''resolved_at'', VTime now), (''updated_at'', VTime now)]
              [WEq ''resource_type'' (VText resourceType), WEq ''resource_id'' (VText resourceID), WIn ''key'' (map VText ks),
               WEq ''state'' (VText ''active''), WEq ''deleted_at'' VNull] of
              (db', Inl e) \<Rightarrow> (db', Some e)
            | (db', Inr _) \<Rightarrow> (db', None)))"

text \<open>The cache version is bumped after a change; a failure of that is only logged.\<close>

definition bumpNotificationCacheVersion :: "('db, 'r, 'x) service \<Rightarrow> ('db, 'r, 'x) world \<Rightarrow> ('db, 'r, 'x) world" where
  "bumpNotificationCacheVersion s w = w\<lparr>w_redis := snd (INCR (sv_redis s) (w_redis w) (sv_redis_now s) ''notifications:version'')\<rparr>"

definition resolveNotificationsForResourceKeys ::
  "('db, 'r, 'x) service \<Rightarrow> string \<Rightarrow> string \<Rightarrow> string list \<Rightarrow> ('db, 'r, 'x) world \<Rightarrow> ('db, 'r, 'x) world \<times> err" where
  "resolveNotificationsForResourceKeys s resourceType resourceID ks w =
     (if length ks = 0 then (w, None)
      else case ResolveNotificationsForResourceKeys (sv_ops s) (sv_now s) (w_db w) resourceType resourceID ks of
        (db', Some e) \<Rightarrow> (w\<lparr>w_db := db'\<rparr>, Some e)
      | (db', None) \<Rightarrow> (bumpNotificationCacheVersion s (w\<lparr>w_db := db'\<rparr>), None))"

definition connectionRequiredActionNotificationKey :: "string \<Rightarrow> string \<Rightarrow> string" where
  "connectionRequiredActionNotificationKey connectionID keyPart = ''connection:'' @ connectionID @ '':'' @ keyPart"

definition resolveRequiredActionNotifications ::
  "('db, 'r, 'x) service \<Rightarrow> string list \<Rightarrow> ('db, 'r, 'x) world \<Rightarrow> ('db, 'r, 'x) world \<times> err" where
  "resolveRequiredActionNotifications s keyParts w =
     resolveNotificationsForResourceKeys s ''connection'' (C_Id (w_conn w))
       (map (connectionRequiredActionNotificationKey (C_Id (w_conn w))) keyParts) w"

subsection \<open>Moving between steps\<close>

text \<open>Running operations in turn: the first error ends the sequence.\<close>

definition then_do :: "'w \<times> err \<Rightarrow> ('w \<Rightarrow> 'w \<times> (gerror + 'a)) \<Rightarrow> 'w \<times> (gerror + 'a)" where
  "then_do r k = (case r of (w, Some e) \<Rightarrow> (w, Inl e) | (w, None) \<Rightarrow> k w)"

definition and_then :: "'w \<times> err \<Rightarrow> ('w \<Rightarrow> 'w \<times> err) \<Rightarrow> 'w \<times> err" where
  "and_then r k = (case r of (w, Some e) \<Rightarrow> (w, Some e) | (w, None) \<Rightarrow> k w)"

definition wrap_err :: "(gerror \<Rightarrow> gerror) \<Rightarrow> 'w \<times> err \<Rightarrow> 'w \<times> err" where
  "wrap_err f r = apsnd (map_option f) r"

definition completeFlow :: "('db, 'r, 'x) service \<Rightarrow> ('db, 'r, 'x) world \<Rightarrow> ('db, 'r, 'x) world \<times> (gerror + setup_response)" where
  "completeFlow s w0 =
     then_do (if C_SetupStep (w_conn w0) \<noteq> None
              then wrap_err (InternalServerErrorf ''failed to clear setup step: %w'') (SetSetupStep s None w0) else (w0, None)) (\<lambda>w1.
     then_do (if C_State (w_conn w1) \<noteq> ''configured''
              then wrap_err (InternalServerErrorf ''failed to set connection state to configured: %w'') (SetState s ''configured'' w1) else (w1, None)) (\<lambda>w2.
     then_do (wrap_err (InternalServerErrorf ''failed to resolve setup-required notification: %w'')
                (resolveRequiredActionNotifications s [''setup_required''] w2)) (\<lambda>w3.
       (w3, Inr (ConnectionSetupComplete (C_Id (w_conn w3)))))))"

definition renderStepResponse ::
  "('db, 'r, 'x) step \<Rightarrow> string \<Rightarrow> ('db, 'r, 'x) world \<Rightarrow> ('db, 'r, 'x) world \<times> (gerror + setup_response)" where
  "renderStepResponse step returnToUrl w =
     (case step_Type step of
        ManifestStepTypeForm \<Rightarrow>
          (w, Inr (ConnectionSetupForm (C_Id (w_conn w)) (step_Id step) (step_Title step) (step_Description step) (step_JsonSchema step) (step_UiSchema step)))
      | ManifestStepTypeRedirect \<Rightarrow>
          if returnToUrl = [] then (w, Inr (ConnectionSetupRedirect (C_Id (w_conn w)) []))
          else (case RenderRedirect step returnToUrl w of
                  (w', Inl e) \<Rightarrow> (w', Inl (InternalServerErrorf ''failed to render redirect: %w'' e))
                | (w', Inr url) \<Rightarrow> (w', Inr (ConnectionSetupRedirect (C_Id (w_conn w')) url)))
      | ManifestStepTypeVerify \<Rightarrow> (w, Inr (ConnectionSetupVerifying (C_Id (w_conn w)))))"

definition EnqueueVerifyConnection :: "('db, 'r, 'x) service \<Rightarrow> string \<Rightarrow> ('db, 'r, 'x) world \<Rightarrow> ('db, 'r, 'x) world \<times> err" where
  "EnqueueVerifyConnection s i w =
     (if i = [] then (w, Some (Err ''connection id is required''))
      else case sv_enqueue s (w_ext w) i of
        (x', Some e) \<Rightarrow> (w\<lparr>w_ext := x'\<rparr>, Some (Wrapf ''failed to enqueue verify connection task: %w'' [] e))
      | (x', None) \<Rightarrow> (w\<lparr>w_ext := x'\<rparr>, None))"

text \<open>
  A step with an empty identifier makes \<^verbatim>\<open>MustNewSetupStep\<close> panic; a validated connector and its
  authentication method name all their steps. The branch is an error here.
\<close>

definition setup_step_of :: "('db, 'r, 'x) step \<Rightarrow> gerror + setup_step" where
  "setup_step_of step = (case MustNewSetupStep (step_Id step) of Inl p \<Rightarrow> Inl (Err p) | Inr i \<Rightarrow> Inr i)"

definition advanceToStep ::
  "('db, 'r, 'x) service \<Rightarrow> ('db, 'r, 'x) step option \<Rightarrow> string \<Rightarrow> ('db, 'r, 'x) world \<Rightarrow> ('db, 'r, 'x) world \<times> (gerror + setup_response)" where
  "advanceToStep s next returnToUrl w0 =
     (case next of
        None \<Rightarrow> completeFlow s w0
      | Some step \<Rightarrow>
          (case (if step_Type step = ManifestStepTypeRedirect then RenderRedirect step returnToUrl w0 else (w0, Inr [])) of
             (w1, Inl e) \<Rightarrow> (w1, Inl (BadRequestErr e))
           | (w1, Inr url) \<Rightarrow>
               (case setup_step_of step of
                  Inl e \<Rightarrow> (w1, Inl e)
                | Inr i \<Rightarrow>
                    then_do (wrap_err (InternalServerErrorf ''failed to update setup step: %w'') (SetSetupStep s (Some i) w1)) (\<lambda>w2.
                    then_do (if step_Type step = ManifestStepTypeVerify
                             then wrap_err (InternalServerErrorf ''failed to enqueue verify connection task: %w'')
                                    (EnqueueVerifyConnection s (C_Id (w_conn w2)) w2)
                             else (w2, None)) (\<lambda>w3.
                      if step_Type step = ManifestStepTypeRedirect then (w3, Inr (ConnectionSetupRedirect (C_Id (w_conn w3)) url))
                      else renderStepResponse step returnToUrl w3)))))"

definition flow_error :: "gerror \<Rightarrow> gerror" where
  "flow_error e = InternalServerErrorf ''failed to evaluate setup flow: %w'' e"

definition renderResumeResponse ::
  "('db, 'r, 'x) service \<Rightarrow> ('db, 'r, 'x) flow \<Rightarrow> setup_step \<Rightarrow> string \<Rightarrow> ('db, 'r, 'x) world \<Rightarrow> ('db, 'r, 'x) world \<times> (gerror + setup_response)" where
  "renderResumeResponse s flow setupStep returnToUrl w =
     (if IsTerminalFailure setupStep
      then (w, Inr (ConnectionSetupError (C_Id (w_conn w)) (case C_SetupError (w_conn w) of None \<Rightarrow> [] | Some e \<Rightarrow> e) True))
      else case StepById flow w setupStep of
        Inl e \<Rightarrow> (w, Inl (flow_error e))
      | Inr (step, ok) \<Rightarrow>
          if \<not> ok then
            (if ContainsStep flow setupStep
             then (case NextStep flow w setupStep of
                     Inl e \<Rightarrow> (w, Inl (flow_error e))
                   | Inr None \<Rightarrow> completeFlow s w
                   | Inr (Some next) \<Rightarrow> advanceToStep s (Some next) returnToUrl w)
             else (w, Inl (InternalServerErrorf ''current setup step %q not in manifest'' (Err setupStep))))
          else (case step of
                  None \<Rightarrow> (w, Inl (Err ''no step''))
                | Some st \<Rightarrow> renderStepResponse st returnToUrl w))"

definition ensureStepMatches :: "setup_step option \<Rightarrow> string \<Rightarrow> err" where
  "ensureStepMatches setupStep reqStepId =
     (case setupStep of
        None \<Rightarrow> Some (BadRequest ''connection has no active setup step'')
      | Some cur \<Rightarrow>
          if reqStepId = [] then Some (BadRequest ''step_id is required'')
          else if reqStepId \<noteq> cur then Some (Errf ''400'' [''step_id %q does not match current step %q'', reqStepId, cur])
          else None)"

definition isAuthMethodSetupStep :: "('db, 'r, 'x) connector \<Rightarrow> string \<Rightarrow> bool" where
  "isAuthMethodSetupStep def stepID =
     (case cd_SetupFlow def of None \<Rightarrow> True | Some sf \<Rightarrow> FindStepById (Some sf) stepID = None)"

definition resolveAuthRequiredIfCredentialsEstablished ::
  "('db, 'r, 'x) service \<Rightarrow> ('db, 'r, 'x) connector \<Rightarrow> ('db, 'r, 'x) step \<Rightarrow> ('db, 'r, 'x) step option \<Rightarrow>
   ('db, 'r, 'x) world \<Rightarrow> ('db, 'r, 'x) world \<times> err" where
  "resolveAuthRequiredIfCredentialsEstablished s def current next w =
     (if \<not> isAuthMethodSetupStep def (step_Id current) then (w, None)
      else if (case next of None \<Rightarrow> False | Some n \<Rightarrow> step_Type n = ManifestStepTypeVerify) then (w, None)
      else wrap_err (InternalServerErrorf ''failed to resolve auth-required notification: %w'') (resolveRequiredActionNotifications s [''auth_required''] w))"

subsection \<open>Operations of a loaded connection\<close>

record submit_request =
  sub_StepId :: string
  sub_Data :: raw_json
  sub_ReturnToUrl :: string

definition SubmitForm ::
  "('db, 'r, 'x) service \<Rightarrow> ('db, 'r, 'x) connector \<Rightarrow> submit_request \<Rightarrow> ('db, 'r, 'x) world \<Rightarrow>
   ('db, 'r, 'x) world \<times> (gerror + setup_response)" where
  "SubmitForm s def req w0 =
     (let setupStep = C_SetupStep (w_conn w0); flow = buildManifestSetupFlow s def in
      case ensureStepMatches setupStep (sub_StepId req) of
        Some e \<Rightarrow> (w0, Inl e)
      | None \<Rightarrow>
     (case StepById flow w0 (the setupStep) of
        Inl e \<Rightarrow> (w0, Inl (flow_error e))
      | Inr (None, _) \<Rightarrow> (w0, Inl (InternalServerErrorMsg ''current setup step is not addressable in manifest''))
      | Inr (Some current, ok) \<Rightarrow>
          if \<not> ok then (w0, Inl (InternalServerErrorMsg ''current setup step is not addressable in manifest''))
          else if step_Type current \<noteq> ManifestStepTypeForm
          then (w0, Inl (Errf ''400'' [''step %q does not accept form submissions'', step_Id current]))
          else then_do (OnSubmit current (sub_Data req) w0) (\<lambda>w1.
            case NextStep flow w1 (step_Id current) of
              Inl e \<Rightarrow> (w1, Inl (flow_error e))
            | Inr None \<Rightarrow>
                (case completeFlow s w1 of
                   (w2, Inl e) \<Rightarrow> (w2, Inl e)
                 | (w2, Inr resp) \<Rightarrow>
                     then_do (resolveAuthRequiredIfCredentialsEstablished s def current None w2) (\<lambda>w3. (w3, Inr resp)))
            | Inr (Some next) \<Rightarrow>
                then_do (resolveAuthRequiredIfCredentialsEstablished s def current (Some next) w1)
                  (advanceToStep s (Some next) (sub_ReturnToUrl req)))))"

definition GetCurrentSetupStepResponse ::
  "('db, 'r, 'x) service \<Rightarrow> ('db, 'r, 'x) connector \<Rightarrow> string \<Rightarrow> ('db, 'r, 'x) world \<Rightarrow>
   ('db, 'r, 'x) world \<times> (gerror + setup_response)" where
  "GetCurrentSetupStepResponse s def returnToUrl w =
     (case C_SetupStep (w_conn w) of
        None \<Rightarrow> (w, Inr (ConnectionSetupComplete (C_Id (w_conn w))))
      | Some setupStep \<Rightarrow> renderResumeResponse s (buildManifestSetupFlow s def) setupStep returnToUrl w)"

fun first_addressable :: "('db, 'r, 'x) flow \<Rightarrow> ('db, 'r, 'x) world \<Rightarrow> string list \<Rightarrow> gerror + ('db, 'r, 'x) step option" where
  "first_addressable flow w [] = Inr None"
| "first_addressable flow w (i # is) =
     (case StepById flow w i of
        Inl e \<Rightarrow> Inl e
      | Inr (candidate, ok) \<Rightarrow> if ok then Inr candidate else first_addressable flow w is)"

definition Reconfigure ::
  "('db, 'r, 'x) service \<Rightarrow> ('db, 'r, 'x) connector \<Rightarrow> ('db, 'r, 'x) world \<Rightarrow> ('db, 'r, 'x) world \<times> (gerror + setup_response)" where
  "Reconfigure s def w =
     (if C_State (w_conn w) \<noteq> ''configured'' then (w, Inl (BadRequest ''connection must be configured to reconfigure''))
      else if \<not> HasConfigure (cd_SetupFlow def) then (w, Inl (BadRequest ''connector has no configure steps to reconfigure''))
      else case first_addressable (buildManifestSetupFlow s def) w (map spec_Id (the (Configure (the (cd_SetupFlow def))))) of
        Inl e \<Rightarrow> (w, Inl (flow_error e))
      | Inr None \<Rightarrow> completeFlow s w
      | Inr (Some step) \<Rightarrow> advanceToStep s (Some step) [] w)"

definition CancelSetup :: "('db, 'r, 'x) service \<Rightarrow> ('db, 'r, 'x) world \<Rightarrow> ('db, 'r, 'x) world \<times> err" where
  "CancelSetup s w0 =
     (if C_State (w_conn w0) \<noteq> ''configured'' then (w0, Some (BadRequest ''connection is not in a state that can cancel setup''))
      else if C_SetupStep (w_conn w0) = None \<and> C_SetupError (w_conn w0) = None then (w0, None)
      else and_then (if C_SetupStep (w_conn w0) \<noteq> None
                     then wrap_err (InternalServerErrorf ''failed to clear setup step: %w'') (SetSetupStep s None w0) else (w0, None)) (\<lambda>w1.
          if C_SetupError (w_conn w1) \<noteq> None
          then wrap_err (InternalServerErrorf ''failed to clear setup error: %w'') (SetSetupError s None w1) else (w1, None)))"

definition getRevokeCredentialsOperations ::
  "('db, 'r, 'x) service \<Rightarrow> ('db, 'r, 'x) connector \<Rightarrow> (('db, 'r, 'x) world \<Rightarrow> ('db, 'r, 'x) world \<times> err) list" where
  "getRevokeCredentialsOperations s def =
     (case getAuthMethodFactory s def of
        None \<Rightarrow> []
      | Some f \<Rightarrow> (case fa_Revoke f of None \<Rightarrow> [] | Some revoke \<Rightarrow> [revoke]))"

text \<open>Revocation errors are logged, and the next operation runs.\<close>

definition revoke_all :: "(('db, 'r, 'x) world \<Rightarrow> ('db, 'r, 'x) world \<times> err) list \<Rightarrow> ('db, 'r, 'x) world \<Rightarrow> ('db, 'r, 'x) world" where
  "revoke_all = fold (\<lambda>op w. fst (op w))"

text \<open>The answer of \<^verbatim>\<open>HandleCredentialsEstablished\<close> tells whether setup is still pending.\<close>

definition HandleCredentialsEstablished ::
  "('db, 'r, 'x) service \<Rightarrow> ('db, 'r, 'x) connector \<Rightarrow> ('db, 'r, 'x) world \<Rightarrow> ('db, 'r, 'x) world \<times> (gerror + bool)" where
  "HandleCredentialsEstablished s def w0 =
     (case C_SetupStep (w_conn w0) of
        None \<Rightarrow> (w0, Inl (Err ''connection has no active setup step''))
      | Some current \<Rightarrow>
          then_do (wrap_err (Wrapf ''failed to mark connection healthy after credentials were established: %w'' []) (MarkHealthState s ''healthy'' w0)) (\<lambda>w1.
            let resolve = (\<lambda>pending w. then_do
                  (wrap_err (Wrapf ''failed to resolve auth-required notification after credentials were established: %w'' [])
                    (resolveRequiredActionNotifications s [''auth_required''] w)) (\<lambda>w'. (w', Inr pending))) in
            case NextStep (buildManifestSetupFlow s def) w1 current of
              Inl e \<Rightarrow> (w1, Inl (Wrapf ''failed to evaluate setup flow: %w'' [] e))
            | Inr None \<Rightarrow>
                (case completeFlow s w1 of
                   (w2, Inl e) \<Rightarrow> (w2, Inl e)
                 | (w2, Inr _) \<Rightarrow> resolve False w2)
            | Inr (Some next) \<Rightarrow>
                (case setup_step_of next of
                   Inl e \<Rightarrow> (w1, Inl e)
                 | Inr i \<Rightarrow>
                     then_do (wrap_err (Wrapf ''failed to set setup step to %q: %w'' [step_Id next]) (SetSetupStep s (Some i) w1)) (\<lambda>w2.
                       if step_Type next = ManifestStepTypeVerify
                       then then_do (wrap_err (Wrapf ''failed to enqueue verify connection task: %w'' []) (EnqueueVerifyConnection s (C_Id (w_conn w2)) w2))
                              (\<lambda>w3. (w3, Inr True))
                       else resolve True w2))))"

definition HandleAuthFailed :: "('db, 'r, 'x) service \<Rightarrow> string \<Rightarrow> ('db, 'r, 'x) world \<Rightarrow> ('db, 'r, 'x) world \<times> err" where
  "HandleAuthFailed s authErr w0 =
     and_then (wrap_err (Wrapf ''failed to record setup error after auth failure: %w'' []) (SetSetupError s (Some authErr) w0)) (\<lambda>w1.
       wrap_err (Wrapf ''failed to set setup step to auth_failed: %w'' []) (SetSetupStep s (Some SetupStepAuthFailed) w1))"

subsection \<open>Verification\<close>

text \<open>
  \<^verbatim>\<open>%q\<close> of \<^verbatim>\<open>fmt\<close>: quotes and backslashes are escaped, control characters by name or in hexadecimal.
  Other bytes are kept, so the text is exact for ASCII and for valid printable UTF-8.
\<close>

definition hex_digit :: "nat \<Rightarrow> char" where
  "hex_digit n = (if n < 10 then char_of (48 + n) else char_of (87 + n))"

definition Quote_char :: "char \<Rightarrow> string" where
  "Quote_char c =
     (let n = of_char c :: nat in
      if c = CHR 0x22 \<or> c = CHR 0x5C then [CHR 0x5C, c]
      else if n = 7 then [CHR 0x5C, CHR ''a''] else if n = 8 then [CHR 0x5C, CHR ''b'']
      else if n = 9 then [CHR 0x5C, CHR ''t''] else if n = 10 then [CHR 0x5C, CHR ''n'']
      else if n = 11 then [CHR 0x5C, CHR ''v''] else if n = 12 then [CHR 0x5C, CHR ''f'']
      else if n = 13 then [CHR 0x5C, CHR ''r'']
      else if n < 32 \<or> n = 127 then [CHR 0x5C, CHR ''x'', hex_digit (n div 16), hex_digit (n mod 16)]
      else [c])"

definition Quote :: "string \<Rightarrow> string" where
  "Quote t = [CHR 0x22] @ concat (map Quote_char t) @ [CHR 0x22]"

definition onVerifyPassed ::
  "('db, 'r, 'x) service \<Rightarrow> ('db, 'r, 'x) connector \<Rightarrow> ('db, 'r, 'x) world \<Rightarrow> ('db, 'r, 'x) world \<times> err" where
  "onVerifyPassed s def w0 =
     and_then (wrap_err (Wrapf ''failed to mark connection healthy after verify: %w'' []) (MarkHealthState s ''healthy'' w0)) (\<lambda>w1.
     and_then (wrap_err (Wrapf ''failed to resolve auth-required notification after verify: %w'' [])
                (resolveRequiredActionNotifications s [''auth_required''] w1)) (\<lambda>w2.
      case NextStep (buildManifestSetupFlow s def) w2 SetupStepVerify of
        Inl e \<Rightarrow> (w2, Some (Wrapf ''failed to evaluate setup flow after verify: %w'' [] e))
      | Inr None \<Rightarrow> (case completeFlow s w2 of (w3, Inl e) \<Rightarrow> (w3, Some e) | (w3, Inr _) \<Rightarrow> (w3, None))
      | Inr (Some next) \<Rightarrow>
          (case setup_step_of next of
             Inl e \<Rightarrow> (w2, Some e)
           | Inr i \<Rightarrow> wrap_err (Wrapf ''failed to advance setup step after verify: %w'' []) (SetSetupStep s (Some i) w2))))"

definition onVerifyFailed ::
  "('db, 'r, 'x) service \<Rightarrow> ('db, 'r, 'x) connector \<Rightarrow> string \<Rightarrow> string \<Rightarrow> ('db, 'r, 'x) world \<Rightarrow> ('db, 'r, 'x) world \<times> err" where
  "onVerifyFailed s def probeId invokeErr w0 =
     and_then (SetSetupError s (Some (''probe '' @ Quote probeId @ '' failed: '' @ invokeErr)) (revoke_all (getRevokeCredentialsOperations s def) w0))
       (SetSetupStep s (Some SetupStepVerifyFailed))"

text \<open>The probes run in order up to the first that fails, which is handed back with the text of its error.\<close>

fun run_probes ::
  "('db, 'r, 'x) world probe_spec list \<Rightarrow> ('db, 'r, 'x) world \<Rightarrow> ('db, 'r, 'x) world \<times> (string \<times> string) option" where
  "run_probes [] w = (w, None)"
| "run_probes (p # ps) w =
     (case probe_Invoke p w of
        (w', None) \<Rightarrow> run_probes ps w'
      | (w', Some e) \<Rightarrow> (w', Some (probe_Id p, e)))"

subsection \<open>Operations of the service\<close>

text \<open>
  \<^verbatim>\<open>errors.Is\<close>: some error of the chain is the target. In \<^verbatim>\<open>getConnection\<close> the arguments are swapped, so
  only the bare sentinel is recognized.
\<close>

fun errors_Is :: "gerror \<Rightarrow> gerror \<Rightarrow> bool" where
  "errors_Is (Wrapf f as e) target \<longleftrightarrow> Wrapf f as e = target \<or> errors_Is e target"
| "errors_Is (Multi es) target \<longleftrightarrow> Multi es = target \<or> (\<exists>e \<in> set es. errors_Is e target)"
| "errors_Is e target \<longleftrightarrow> e = target"

definition ErrConnectionNotFound :: gerror where "ErrConnectionNotFound = Wrapf ''connection not found: %w'' [] ErrNotFound"
definition SkipRetry :: gerror where "SkipRetry = Sentinel ''skip retry for the task''"

text \<open>Loading a connection fills the world with it; its configuration is not cached yet.\<close>

definition load :: "db_connection \<Rightarrow> ('db, 'r, 'x) world \<Rightarrow> ('db, 'r, 'x) world" where
  "load c w = w\<lparr>w_conn := c, w_cache := None\<rparr>"

definition getConnectionForDb ::
  "('db, 'r, 'x) service \<Rightarrow> db_connection \<Rightarrow> ('db, 'r, 'x) world \<Rightarrow> gerror + ('db, 'r, 'x) world \<times> ('db, 'r, 'x) connector" where
  "getConnectionForDb s c w =
     (case sv_connectors s (w_db w) (C_ConnectorId c) (C_ConnectorVersion c) of
        Inl e \<Rightarrow>
          Inl (if errors_Is e ErrNotFound then Wrapf ''connector is missing for connector version: %w'' [] e
               else Wrapf ''failed to get connector for connection: %w'' [] e)
      | Inr def \<Rightarrow> Inr (load c w, def))"

definition getConnection ::
  "('db, 'r, 'x) service \<Rightarrow> string \<Rightarrow> ('db, 'r, 'x) world \<Rightarrow> gerror + ('db, 'r, 'x) world \<times> ('db, 'r, 'x) connector" where
  "getConnection s i w =
     (case GetConnection (sv_ops s) (w_db w) i of
        Inl e \<Rightarrow> Inl (if errors_Is ErrNotFound e then ErrConnectionNotFound else e)
      | Inr c \<Rightarrow> getConnectionForDb s c w)"

definition runVerifyConnection :: "('db, 'r, 'x) service \<Rightarrow> string \<Rightarrow> ('db, 'r, 'x) world \<Rightarrow> ('db, 'r, 'x) world \<times> err" where
  "runVerifyConnection s i w =
     (case getConnection s i w of
        Inl e \<Rightarrow> (w, Some (if errors_Is e ErrNotFound then SkipRetry else Wrapf ''failed to get connection for verify: %w'' [] e))
      | Inr (w0, def) \<Rightarrow>
          if C_SetupStep (w_conn w0) \<noteq> Some SetupStepVerify then (w0, None)
          else (case GetEnabledProbes s def w0 of
                  Inl e \<Rightarrow> (w0, Some (Wrapf ''failed to resolve enabled probes for verify: %w'' [] e))
                | Inr probes \<Rightarrow>
                    (case run_probes probes w0 of
                       (w1, Some (probeId, invokeErr)) \<Rightarrow>
                         (case onVerifyFailed s def probeId invokeErr w1 of
                            (w2, Some e) \<Rightarrow> (w2, Some (Wrapf ''failed to record verify failure: %w'' [] e))
                          | (w2, None) \<Rightarrow> (w2, Some SkipRetry))
                     | (w1, None) \<Rightarrow> onVerifyPassed s def w1)))"

definition restart_setup ::
  "('db, 'r, 'x) service \<Rightarrow> ('db, 'r, 'x) connector \<Rightarrow> string \<Rightarrow> string \<Rightarrow> ('db, 'r, 'x) world \<Rightarrow>
   ('db, 'r, 'x) world \<times> (gerror + setup_response)" where
  "restart_setup s def no_flow returnToUrl w0 =
     then_do (wrap_err (InternalServerErrorf ''failed to clear setup error: %w'') (SetSetupError s None w0)) (\<lambda>w1.
       case FirstStep (buildManifestSetupFlow s def) w1 of
         Inl e \<Rightarrow> (w1, Inl (flow_error e))
       | Inr None \<Rightarrow> (w1, Inl (BadRequest no_flow))
       | Inr (Some first) \<Rightarrow> advanceToStep s (Some first) returnToUrl w1)"

definition RetryConnectionSetup ::
  "('db, 'r, 'x) service \<Rightarrow> string \<Rightarrow> string \<Rightarrow> ('db, 'r, 'x) world \<Rightarrow> ('db, 'r, 'x) world \<times> (gerror + setup_response)" where
  "RetryConnectionSetup s i returnToUrl w =
     (case getConnection s i w of
        Inl e \<Rightarrow> (w, Inl e)
      | Inr (w0, def) \<Rightarrow>
          (case C_SetupStep (w_conn w0) of
             None \<Rightarrow> (w0, Inl (BadRequest ''connection is not in a retryable state''))
           | Some setupStep \<Rightarrow>
               if \<not> IsTerminalFailure setupStep then (w0, Inl (BadRequest ''connection is not in a retryable state''))
               else restart_setup s def ''connector has no setup flow to retry'' returnToUrl w0))"

definition ReauthConnection ::
  "('db, 'r, 'x) service \<Rightarrow> string \<Rightarrow> string \<Rightarrow> ('db, 'r, 'x) world \<Rightarrow> ('db, 'r, 'x) world \<times> (gerror + setup_response)" where
  "ReauthConnection s i returnToUrl w =
     (case getConnection s i w of
        Inl e \<Rightarrow> (w, Inl e)
      | Inr (w0, def) \<Rightarrow>
          if C_State (w_conn w0) \<noteq> ''configured'' then (w0, Inl (BadRequest ''connection is not in a reauthable state''))
          else if cd_Auth def = None then (w0, Inl (InternalServerErrorMsg ''connector has no auth configuration''))
          else if length (auth_steps s def) = 0 then (w0, Inl (BadRequest ''connector does not support reauth''))
          else restart_setup s def ''connector has no setup flow to reauth through'' returnToUrl w0)"

definition AbortConnection :: "('db, 'r, 'x) service \<Rightarrow> string \<Rightarrow> ('db, 'r, 'x) world \<Rightarrow> ('db, 'r, 'x) world \<times> err" where
  "AbortConnection s i w =
     (case getConnection s i w of
        Inl e \<Rightarrow> (w, Some e)
      | Inr (w0, def) \<Rightarrow>
          if C_SetupStep (w_conn w0) = None
          then (w0, Some (BadRequest ''connection setup is already complete; use disconnect instead''))
          else and_then (wrap_err (Wrapf ''failed to set connection state during abort: %w'' [])
                       (SetState s ''disconnected'' (revoke_all (getRevokeCredentialsOperations s def) w0))) (\<lambda>w1.
                    (case DeleteConnection (sv_ops s) (sv_now s) (w_db w1) i of
                       (db', Some e) \<Rightarrow> (w1\<lparr>w_db := db'\<rparr>, Some (Wrapf ''failed to delete connection during abort: %w'' [] e))
                     | (db', None) \<Rightarrow> (w1\<lparr>w_db := db'\<rparr>, None))))"

end
