(* ===== verification/Setup_Invariants.thy ===== *)
theory Setup_Invariants
  imports Connection_Setup
begin

text \<open>
  What the setup operations of \<open>Connection_Setup\<close> keep. The locale \<open>connection_setup\<close> holds what they rely on
  of the database, the connector, the authentication methods and the probes; \<open>setup_invariant\<close> shows once
  that an invariant kept by the writes of setup is kept by every operation, and is used twice: the
  stored setup step belongs to the flow, and the loaded connection agrees with what is stored.
\<close>

subsection \<open>The flow of a validated connector\<close>

text \<open>The steps of an authentication method carry distinct identifiers with the reserved prefix, none that of verification or of a failure.\<close>

definition reserved_steps :: "'w manifest_step list \<Rightarrow> bool" where
  "reserved_steps ss \<longleftrightarrow> distinct (map step_Id ss) \<and>
     list_all (\<lambda>s. HasPrefix (step_Id s) ApxyStepPrefix \<and> step_Id s \<noteq> SetupStepVerify \<and> \<not> IsTerminalFailure (step_Id s)) ss"

lemma newSchemaStep_Id [simp]: "step_Id (newSchemaStep s spec) = spec_Id spec"
  by (simp add: newSchemaStep_def newSchemaRedirectStep_def newSchemaFormStep_def NewFormStep_def NewRedirectStep_def)

definition pre_specs :: "('db, 'r, 'x) connector \<Rightarrow> step_spec list" where
  "pre_specs def = (case cd_SetupFlow def of None \<Rightarrow> [] | Some f \<Rightarrow> phase_steps (Preconnect f))"

definition conf_specs :: "('db, 'r, 'x) connector \<Rightarrow> step_spec list" where
  "conf_specs def = (case cd_SetupFlow def of None \<Rightarrow> [] | Some f \<Rightarrow> phase_steps (Configure f))"

lemma built_steps:
  "flow_steps (buildManifestSetupFlow s def) =
     map (newSchemaStep s) (pre_specs def) @ auth_steps s def @ map (newSchemaStep s) (conf_specs def)"
  by (auto simp: buildManifestSetupFlow_def Let_def pre_specs_def conf_specs_def phase_steps_def HasPreconnect_def HasConfigure_def
      split: option.splits)

lemma built_boundary:
  "flow_authBoundary (buildManifestSetupFlow s def) = int (length (pre_specs def) + length (auth_steps s def)) - 1"
  by (auto simp: buildManifestSetupFlow_def Let_def pre_specs_def phase_steps_def HasPreconnect_def split: option.splits)

lemma built_probes [simp]: "flow_hasProbes (buildManifestSetupFlow s def) = HasProbes def"
  by (simp add: buildManifestSetupFlow_def Let_def)

lemma validated_specs:
  assumes "ValidateWithJavascript eval vc (cd_SetupFlow def) = None"
  shows "distinct (map spec_Id (pre_specs def @ conf_specs def)) \<and>
    (\<forall>x \<in> set (pre_specs def @ conf_specs def). user_step_id (spec_Id x))"
proof (cases "cd_SetupFlow def")
  case None
  then show ?thesis by (simp add: pre_specs_def conf_specs_def)
next
  case (Some f)
  then have "pre_specs def = phase_steps (Preconnect f)" "conf_specs def = phase_steps (Configure f)"
    by (simp_all add: pre_specs_def conf_specs_def)
  with assms [unfolded Some setup_flow_accepted] show ?thesis unfolding step_ok_def by auto
qed

lemma built_flow_ok:
  assumes "ValidateWithJavascript eval vc (cd_SetupFlow def) = None" "reserved_steps (auth_steps s def)"
  shows "flow_ok (buildManifestSetupFlow s def) \<and> [] \<notin> step_Id ` set (flow_steps (buildManifestSetupFlow s def))"
proof -
  let ?auth = "map step_Id (auth_steps s def)"
  have res: "HasPrefix i ApxyStepPrefix \<and> i \<noteq> ''apxy:verify''" if "i \<in> set ?auth" for i
    using that assms(2) by (auto simp: reserved_steps_def list_all_iff SetupStepVerify_def ApxyStepPrefix_def)
  have dist: "distinct ?auth" using assms(2) by (simp add: reserved_steps_def)
  have spec: "i \<noteq> [] \<and> \<not> HasPrefix i ApxyStepPrefix" if "i \<in> spec_Id ` set (pre_specs def @ conf_specs def)" for i
    using that validated_specs [OF assms(1)] unfolding user_step_id_def by (metis imageE)
  have ids: "map step_Id (flow_steps (buildManifestSetupFlow s def)) = map spec_Id (pre_specs def) @ ?auth @ map spec_Id (conf_specs def)"
    by (simp add: built_steps comp_def)
  have "set ?auth \<inter> spec_Id ` set (pre_specs def @ conf_specs def) = {}" using res spec by blast
  then have "distinct (map step_Id (flow_steps (buildManifestSetupFlow s def)))"
    unfolding ids using validated_specs [OF assms(1)] dist by auto
  moreover have "i \<noteq> [] \<and> i \<noteq> ''apxy:verify''" if "i \<in> step_Id ` set (flow_steps (buildManifestSetupFlow s def))" for i
  proof -
    have "i \<in> set ?auth \<or> i \<in> spec_Id ` set (pre_specs def @ conf_specs def)" using that unfolding set_map [symmetric] ids by auto
    moreover have "HasPrefix ''apxy:verify'' ApxyStepPrefix" "\<not> HasPrefix [] ApxyStepPrefix" by (simp_all add: ApxyStepPrefix_def HasPrefix_def)
    ultimately show ?thesis using res spec by metis
  qed
  moreover have "length (pre_specs def) + length (auth_steps s def) \<le> length (flow_steps (buildManifestSetupFlow s def))" by (simp add: built_steps)
  ultimately show ?thesis unfolding flow_ok_def built_boundary by auto
qed

text \<open>Navigation answers with steps of the flow, or with verification when there are probes.\<close>

definition offered :: "'w manifestFlow \<Rightarrow> 'w manifest_step \<Rightarrow> bool" where
  "offered f st \<longleftrightarrow> st \<in> set (flow_steps f) \<or> st = verifyStep \<and> flow_hasProbes f"

lemma next_loop_in: "next_loop f w i end = Inr (Some st) \<Longrightarrow> st \<in> set (flow_steps f)"
proof (induction f w i "end" rule: next_loop.induct)
  case (1 f w i "end")
  from 1(2) show ?case
    by (subst (asm) next_loop.simps)
       (use 1(1) in \<open>auto simp: isStepEligible_def split: if_splits sum.splits\<close>)
qed

lemma nextEligibleStep_in: "nextEligibleStep f w i end = Inr (Some st) \<Longrightarrow> st \<in> set (flow_steps f)"
  by (auto simp: nextEligibleStep_def Let_def split: if_splits dest: next_loop_in)

lemma NextStep_offered: "NextStep f w i = Inr (Some st) \<Longrightarrow> offered f st"
  unfolding NextStep_def offered_def Let_def NewVerifyStep_def
  by (auto split: if_splits option.splits sum.splits dest: nextEligibleStep_in)

lemma verifyEnabled_probes: "verifyEnabled f w = Inr True \<Longrightarrow> flow_hasProbes f"
  by (auto simp: verifyEnabled_def split: if_splits)

lemma FirstStep_offered: "FirstStep f w = Inr (Some st) \<Longrightarrow> offered f st"
  unfolding FirstStep_def offered_def Let_def NewVerifyStep_def
  by (auto split: if_splits option.splits sum.splits dest: nextEligibleStep_in)

lemma StepById_offered:
  assumes "StepById f w i = Inr (Some st, ok)"
  shows "offered f st \<and> step_Id st = i"
proof (cases "find_id i 0 (flow_steps f)")
  case None
  with assms show ?thesis
    by (auto simp: StepById_def offered_def NewVerifyStep_def split: if_splits sum.splits simp del: find_id_None)
next
  case (Some n)
  with find_id_Some [OF this] assms show ?thesis
    by (auto simp: StepById_def offered_def NewVerifyStep_def split: if_splits sum.splits)
qed

lemma failure_not_in_flow:
  assumes "ValidateWithJavascript eval vc (cd_SetupFlow def) = None" "reserved_steps (auth_steps s def)" "IsTerminalFailure i"
  shows "i \<notin> step_Id ` set (flow_steps (buildManifestSetupFlow s def)) \<and> i \<noteq> SetupStepVerify"
proof -
  have i: "HasPrefix i ApxyStepPrefix" "i \<noteq> SetupStepVerify"
    using assms(3) by (auto simp: IsTerminalFailure_def SetupStepVerifyFailed_def SetupStepAuthFailed_def SetupStepVerify_def ApxyStepPrefix_def HasPrefix_def)
  then have "i \<notin> spec_Id ` set (pre_specs def @ conf_specs def)"
    using validated_specs [OF assms(1)] unfolding user_step_id_def by (metis imageE)
  moreover have "i \<notin> step_Id ` set (auth_steps s def)" using assms(2,3) by (auto simp: reserved_steps_def list_all_iff)
  ultimately show ?thesis using i(2) by (auto simp: built_steps)
qed

subsection \<open>What setup relies on\<close>

text \<open>
  The part of a connection that only setup writes: its identifier, state, setup step and setup error,
  in the rows of the table and in the loaded connection.
\<close>

definition setup_columns :: "string list" where
  "setup_columns = [''id'', ''state'', ''setup_step_id'', ''setup_error'', ''deleted_at'']"

definition conn_view ::
  "('db \<Rightarrow> string \<Rightarrow> row list) \<Rightarrow> ('db, 'r, 'x) world \<Rightarrow> sql_value list list \<times> string \<times> string \<times> setup_step option \<times> string option" where
  "conn_view rows w =
     (map (\<lambda>r. map r setup_columns) (rows (w_db w) ConnectionsTable),
      C_Id (w_conn w), C_State (w_conn w), C_SetupStep (w_conn w), C_SetupError (w_conn w))"

text \<open>
  The laws: every connection is of the one validated connector, the database is as \<open>sql_db\<close> says, and
  authentication methods and probes write neither the setup columns nor the fields read from them.
\<close>

locale connection_setup = sql_db like "sv_ops s" rows
  for like :: "string \<Rightarrow> string \<Rightarrow> bool" and s :: "('db, 'r, 'x) service" and rows :: "'db \<Rightarrow> string \<Rightarrow> row list" +
  fixes eval :: js_eval and def :: "('db, 'r, 'x) connector"
  assumes connector: "sv_connectors s db i v = Inr d \<Longrightarrow> d = def"
    and validated: "ValidateWithJavascript eval [] (cd_SetupFlow def) = None"
    and reserved: "reserved_steps (auth_steps s def)"
    and submit_view: "st \<in> set (auth_steps s def) \<Longrightarrow> conn_view rows (fst (OnSubmit st data w)) = conn_view rows w"
    and render_view: "st \<in> set (auth_steps s def) \<Longrightarrow> conn_view rows (fst (RenderRedirect st url w)) = conn_view rows w"
    and probe_view: "p \<in> set (cd_Probes def) \<Longrightarrow> conn_view rows (fst (probe_Invoke p w)) = conn_view rows w"
    and revoke_view: "op \<in> set (getRevokeCredentialsOperations s def) \<Longrightarrow> conn_view rows (fst (op w)) = conn_view rows w"

text \<open>A setup step that belongs to a flow: a step of it, verification if there are probes, or a failure.\<close>

definition known_step :: "('db, 'r, 'x) flow \<Rightarrow> setup_step option \<Rightarrow> bool" where
  "known_step f p \<longleftrightarrow> (case p of None \<Rightarrow> True | Some i \<Rightarrow> IsTerminalFailure i \<or> ContainsStep f i)"

definition row_step_known :: "('db, 'r, 'x) flow \<Rightarrow> row \<Rightarrow> bool" where
  "row_step_known f r \<longleftrightarrow> (\<exists>p. r ''setup_step_id'' = step_value p \<and> known_step f p)"

definition steps_known :: "('db, 'r, 'x) flow \<Rightarrow> ('db \<Rightarrow> string \<Rightarrow> row list) \<Rightarrow> ('db, 'r, 'x) world \<Rightarrow> bool" where
  "steps_known f rows w \<longleftrightarrow> table_all (row_step_known f) ConnectionsTable (rows (w_db w)) \<and> known_step f (C_SetupStep (w_conn w))"

lemma columns_all:
  assumes "reads_only (set cs) P" "map (\<lambda>r. map r cs) rs' = map (\<lambda>r. map r cs) rs" "\<forall>r \<in> set rs. P r"
  shows "\<forall>r \<in> set rs'. P r"
proof
  fix r' assume "r' \<in> set rs'"
  then have "map r' cs \<in> set (map (\<lambda>r. map r cs) rs)" unfolding assms(2) [symmetric] by auto
  then obtain r where "r \<in> set rs" "map r' cs = map r cs" by auto
  then have "P r" "\<forall>c \<in> set cs. r' c = r c" using assms(3) by simp_all
  then show "P r'" using assms(1) unfolding reads_only_def by blast
qed

lemma view_table_all:
  assumes "conn_view rows w' = conn_view rows w" "reads_only (set setup_columns) P" "table_all P ConnectionsTable (rows (w_db w))"
  shows "table_all P ConnectionsTable (rows (w_db w'))"
  using columns_all [OF assms(2), of "rows (w_db w') ConnectionsTable" "rows (w_db w) ConnectionsTable"] assms(1,3)
  by (simp add: conn_view_def table_all_def)

lemma row_step_known_reads: "reads_only (set setup_columns) (row_step_known f)"
  by (simp add: reads_only_def row_step_known_def setup_columns_def)

lemma steps_known_view:
  assumes "conn_view rows w' = conn_view rows w" "steps_known f rows w"
  shows "steps_known f rows w'"
  using view_table_all [OF assms(1) row_step_known_reads, of f] assms
  by (simp add: steps_known_def conn_view_def)

lemma fst_wrap_err [simp]: "fst (wrap_err g r) = fst r"
  by (simp add: wrap_err_def)

declare fst_apsnd [simp]

lemma fst_write_conn:
  "fst (write_conn op ch w) = (case op (w_db w) of (db', e) \<Rightarrow> if e = None then w\<lparr>w_db := db', w_conn := ch (w_conn w)\<rparr> else w\<lparr>w_db := db'\<rparr>)"
  by (auto simp: write_conn_def split: prod.splits option.splits)

lemma known_None [simp]: "known_step f None" by (simp add: known_step_def)

lemma failure_known:
  "known_step f (Some SetupStepAuthFailed)" "known_step f (Some SetupStepVerifyFailed)"
  by (simp_all add: known_step_def IsTerminalFailure_def)

lemma enabled_probes_subset: "enabled_probes s ps w = Inr qs \<Longrightarrow> set qs \<subseteq> set ps"
  by (induction ps arbitrary: qs) (auto simp: result_bind_def split: sum.splits if_splits)

lemma first_addressable_offered: "first_addressable f w is = Inr (Some st) \<Longrightarrow> offered f st"
  by (induction "is") (auto split: sum.splits if_splits dest: StepById_offered)

context connection_setup
begin

abbreviation "flow \<equiv> buildManifestSetupFlow s def"

lemma flow: "flow_ok flow" "[] \<notin> step_Id ` set (flow_steps flow)"
  using built_flow_ok [OF validated reserved] by blast+

text \<open>Writing a column other than the setup columns leaves the view alone.\<close>

lemma update_one_columns:
  assumes "fst ` set as \<inter> set cs = {}"
  shows "map (\<lambda>r. map r cs) (rows (fst (update_one (sv_ops s) db as wh msg several)) ConnectionsTable) = map (\<lambda>r. map r cs) (rows db ConnectionsTable)"
proof -
  obtain db' x where u: "sql_update (sv_ops s) db ConnectionsTable as wh = (db', x)" by fastforce
  have "map (\<lambda>r. map r cs) (update_rows like wh as rs) = map (\<lambda>r. map r cs) rs" for rs
  proof -
    have "map (assign as r) cs = map r cs" for r using assms by (intro map_cong refl assign_other) blast
    then show ?thesis by (simp add: update_rows_def)
  qed
  then have "map (\<lambda>r. map r cs) (rows db' ConnectionsTable) = map (\<lambda>r. map r cs) (rows db ConnectionsTable)"
    using update_ok [of db ConnectionsTable as wh db'] update_err [of db ConnectionsTable as wh db'] u by (cases x) auto
  then show ?thesis by (auto simp: update_one_def u split: sum.splits)
qed

lemma other_columns:
  "map (\<lambda>r. map r setup_columns) (rows (fst (SetConnectionHealthState (sv_ops s) t db i state)) ConnectionsTable) = map (\<lambda>r. map r setup_columns) (rows db ConnectionsTable)"
  "map (\<lambda>r. map r setup_columns) (rows (fst (SetConnectionEncryptedConfiguration (sv_ops s) t db i p)) ConnectionsTable) = map (\<lambda>r. map r setup_columns) (rows db ConnectionsTable)"
proof -
  have "fst ` set [(''updated_at'', VTime t), (''health_state'', VText state)] \<inter> set setup_columns = {}"
    "fst ` set [(''updated_at'', VTime t), (''encrypted_configuration'', cfg_value p), (''encrypted_at'', VTime t)] \<inter> set setup_columns = {}"
    by (simp_all add: setup_columns_def)
  from this [THEN update_one_columns]
  show "map (\<lambda>r. map r setup_columns) (rows (fst (SetConnectionHealthState (sv_ops s) t db i state)) ConnectionsTable) = map (\<lambda>r. map r setup_columns) (rows db ConnectionsTable)"
    "map (\<lambda>r. map r setup_columns) (rows (fst (SetConnectionEncryptedConfiguration (sv_ops s) t db i p)) ConnectionsTable) = map (\<lambda>r. map r setup_columns) (rows db ConnectionsTable)"
    unfolding SetConnectionHealthState_def SetConnectionEncryptedConfiguration_def by (simp_all only: fst_conv split: if_split) blast+
qed

lemma health_view: "conn_view rows (fst (MarkHealthState s state w)) = conn_view rows w"
  using other_columns(1) [of "sv_now s" "w_db w" "C_Id (w_conn w)" state]
  by (simp add: MarkHealthState_def fst_write_conn conn_view_def case_prod_unfold)

lemma config_view: "conn_view rows (fst (GetConfiguration s w)) = conn_view rows w"
  by (simp add: GetConfiguration_def conn_view_def split: option.splits sum.splits)

lemma set_config_view: "conn_view rows (fst (SetConfiguration s data w)) = conn_view rows w"
  using other_columns(2) [of "sv_now s" "w_db w" "C_Id (w_conn w)"]
  by (auto simp: SetConfiguration_def Let_def conn_view_def split: option.splits sum.splits prod.splits) (metis fst_conv)+

lemma notifications_view: "conn_view rows (fst (resolveRequiredActionNotifications s ks w)) = conn_view rows w"
proof -
  have "rows (fst (ResolveNotificationsForResourceKeys (sv_ops s) t db ty i ks)) ConnectionsTable = rows db ConnectionsTable" for t db ty i ks
  proof -
    obtain db' x where u: "sql_update (sv_ops s) db NotificationsTable
        [(''state'', VText ''resolved''), (''resolved_at'', VTime t), (''updated_at'', VTime t)]
        [WEq ''resource_type'' (VText ty), WEq ''resource_id'' (VText i), WIn ''key'' (map VText ks),
         WEq ''state'' (VText ''active''), WEq ''deleted_at'' VNull] = (db', x)" by fastforce
    have "rows db' ConnectionsTable = rows db ConnectionsTable"
      using update_ok update_err u by (cases x) (fastforce simp: NotificationsTable_def ConnectionsTable_def)+
    then show ?thesis by (auto simp: ResolveNotificationsForResourceKeys_def u split: sum.splits)
  qed
  then show ?thesis
    by (auto simp: resolveRequiredActionNotifications_def resolveNotificationsForResourceKeys_def bumpNotificationCacheVersion_def conn_view_def
        split: prod.splits option.splits) (metis fst_conv)+
qed

lemma enqueue_view: "conn_view rows (fst (EnqueueVerifyConnection s i w)) = conn_view rows w"
  by (auto simp: EnqueueVerifyConnection_def conn_view_def split: prod.splits option.splits)

text \<open>The closures of the steps of the flow.\<close>

lemma schema_submit_view: "conn_view rows (fst (OnSubmit (newSchemaStep s spec) data w)) = conn_view rows w"
proof (cases "SetupFlowStepType_Normalized (spec_Type spec) = ''redirect''")
  case True
  then show ?thesis by (simp add: newSchemaStep_def newSchemaRedirectStep_def NewRedirectStep_def)
next
  case False
  obtain w1 r where g: "GetConfiguration s w = (w1, r)" by fastforce
  have v: "conn_view rows w1 = conn_view rows w" using config_view [of w] by (simp add: g)
  then show ?thesis using False set_config_view [of _ w1]
    by (auto simp: newSchemaStep_def newSchemaFormStep_def NewFormStep_def g split: sum.splits prod.splits option.splits)
qed

lemma mint_view: "conn_view rows (fst (mintReturnURL s i u t w)) = conn_view rows w"
  by (auto simp: mintReturnURL_def Let_def conn_view_def split: prod.splits sum.splits)

lemma schema_render_view: "conn_view rows (fst (RenderRedirect (newSchemaStep s spec) u w)) = conn_view rows w"
proof (cases "SetupFlowStepType_Normalized (spec_Type spec) = ''redirect''")
  case False
  then show ?thesis by (simp add: newSchemaStep_def newSchemaFormStep_def NewFormStep_def)
next
  case True
  have m: "mintReturnURL s i u' t a = (b, x) \<Longrightarrow> conn_view rows b = conn_view rows a" for i u' t a b x
    using mint_view [of i u' t a] by simp
  have c: "GetConfiguration s w = (b, x) \<Longrightarrow> conn_view rows b = conn_view rows w" for b x
    using config_view [of w] by simp
  from True show ?thesis
    by (auto simp: newSchemaStep_def newSchemaRedirectStep_def NewRedirectStep_def Let_def c m split: option.splits prod.splits sum.splits)
qed

lemma flow_step_cases:
  assumes "st \<in> set (flow_steps flow)"
  obtains (schema) spec where "st = newSchemaStep s spec" | (auth) "st \<in> set (auth_steps s def)"
  using assms by (auto simp: built_steps)

lemma flow_step_views:
  assumes "st \<in> set (flow_steps flow) \<or> st = verifyStep"
  shows "conn_view rows (fst (OnSubmit st data w)) = conn_view rows w" "conn_view rows (fst (RenderRedirect st u w)) = conn_view rows w"
  using assms submit_view render_view
  by (auto elim!: flow_step_cases simp: schema_submit_view schema_render_view)

lemma revoke_views: "conn_view rows (revoke_all (getRevokeCredentialsOperations s def) w) = conn_view rows w"
proof -
  have "(\<forall>op w. op \<in> set ops' \<longrightarrow> conn_view rows (fst (op w)) = conn_view rows w) \<Longrightarrow> conn_view rows (revoke_all ops' w) = conn_view rows w"
    for ops' and w :: "('db, 'r, 'x) world"
    by (induction ops' arbitrary: w) (simp_all add: revoke_all_def)
  then show ?thesis using revoke_view by blast
qed

lemma run_probes_view: "set ps \<subseteq> set (cd_Probes def) \<Longrightarrow> run_probes ps w = (w', r) \<Longrightarrow> conn_view rows w' = conn_view rows w"
proof (induction ps arbitrary: w)
  case (Cons p ps)
  then show ?case using probe_view [of p w] by (auto split: prod.splits option.splits)
qed simp

lemma offered_step:
  assumes "offered flow st" "setup_step_of st = Inr i"
  shows "known_step flow (Some i)"
proof -
  have "i = step_Id st" "i \<noteq> []" using assms(2) by (auto simp: setup_step_of_def MustNewSetupStep_def NewSetupStep_def split: if_splits)
  with assms(1) show ?thesis
    by (auto simp: known_step_def offered_def ContainsStep_def NewVerifyStep_def list_ex_iff)
qed

end

subsection \<open>Invariants of the operations\<close>

text \<open>
  An invariant of the connection that reads it through the view and is kept by the four writes of setup
  is kept by every operation.
\<close>

locale setup_invariant = connection_setup like s rows eval def
  for like :: "string \<Rightarrow> string \<Rightarrow> bool" and s :: "('db, 'r, 'x) service" and rows :: "'db \<Rightarrow> string \<Rightarrow> row list"
    and eval :: js_eval and def :: "('db, 'r, 'x) connector" +
  fixes Inv :: "('db, 'r, 'x) world \<Rightarrow> bool"
  assumes view: "conn_view rows w' = conn_view rows w \<Longrightarrow> Inv w \<Longrightarrow> Inv w'"
    and set_step: "Inv w \<Longrightarrow> known_step flow p \<Longrightarrow> Inv (fst (SetSetupStep s p w))"
    and set_state: "Inv w \<Longrightarrow> Inv (fst (SetState s state w))"
    and set_error: "Inv w \<Longrightarrow> Inv (fst (SetSetupError s e w))"
begin

lemma then_do_inv:
  assumes "Inv (fst r)" "\<And>w. Inv w \<Longrightarrow> Inv (fst (k w))"
  shows "Inv (fst (then_do r k))"
  using assms by (auto simp: then_do_def split: prod.splits option.splits)

lemma and_then_inv:
  assumes "Inv (fst r)" "\<And>w. Inv w \<Longrightarrow> Inv (fst (k w))"
  shows "Inv (fst (and_then r k))"
  using assms by (auto simp: and_then_def split: prod.splits option.splits)

lemma inv_views:
  assumes "Inv w"
  shows "Inv (fst (MarkHealthState s state w))" "Inv (fst (resolveRequiredActionNotifications s ks w))"
    "Inv (fst (GetConfiguration s w))" "Inv (fst (EnqueueVerifyConnection s i w))"
  using assms health_view notifications_view config_view enqueue_view view by metis+

lemma completeFlow_inv: "Inv w \<Longrightarrow> Inv (fst (completeFlow s w))"
  unfolding completeFlow_def
  by (intro then_do_inv) (simp_all add: set_step set_state set_error inv_views)

lemma render_inv:
  assumes "Inv w" "offered flow st"
  shows "Inv (fst (RenderRedirect st u w))" "Inv (fst (OnSubmit st data w))"
    "Inv (fst (renderStepResponse st u w))"
proof -
  have st: "st \<in> set (flow_steps flow) \<or> st = verifyStep" using assms(2) by (auto simp: offered_def)
  show r: "Inv (fst (RenderRedirect st u w))" "Inv (fst (OnSubmit st data w))"
    using view [OF _ assms(1)] flow_step_views [OF st] by blast+
  then show "Inv (fst (renderStepResponse st u w))"
    using assms(1) by (cases "step_Type st") (auto simp: renderStepResponse_def split: prod.splits sum.splits)
qed

lemma advance_inv:
  assumes "Inv w" "offered flow st"
  shows "Inv (fst (advanceToStep s (Some st) u w))"
proof -
  let ?r = "if step_Type st = ManifestStepTypeRedirect then RenderRedirect st u w else (w, Inr [])"
  obtain w1 r where r: "?r = (w1, r)" by fastforce
  have w1: "Inv w1" using render_inv(1) [OF assms, of u] assms(1) r by (auto split: if_splits)
  show ?thesis
  proof (cases r)
    case (Inl e)
    with r w1 show ?thesis by (simp add: advanceToStep_def)
  next
    case (Inr url)
    show ?thesis
    proof (cases "setup_step_of st")
      case (Inl e)
      with r w1 Inr show ?thesis by (simp add: advanceToStep_def)
    next
      case i: (Inr i)
      have "Inv (fst (advanceToStep s (Some st) u w))"
        unfolding advanceToStep_def option.case r prod.case Inr sum.case i
        by (intro then_do_inv)
           (simp_all add: set_step w1 offered_step [OF assms(2) i] inv_views render_inv(3) [OF _ assms(2)])
      then show ?thesis .
    qed
  qed
qed

lemma restart_inv: "Inv w \<Longrightarrow> Inv (fst (restart_setup s def no u w))"
  unfolding restart_setup_def
  by (intro then_do_inv)
     (simp_all add: set_state set_error FirstStep_offered advance_inv split: sum.split option.split)

lemma resume_inv: "Inv w \<Longrightarrow> Inv (fst (renderResumeResponse s flow i u w))"
  by (auto simp: renderResumeResponse_def completeFlow_inv advance_inv render_inv(3) NextStep_offered
      split: sum.splits option.splits dest: StepById_offered)

lemma submit_inv:
  assumes "Inv w"
  shows "Inv (fst (SubmitForm s def req w))"
proof (cases "ensureStepMatches (C_SetupStep (w_conn w)) (sub_StepId req)")
  case (Some e)
  with assms show ?thesis by (simp add: SubmitForm_def Let_def)
next
  case None
  have auth: "Inv x \<Longrightarrow> Inv (fst (resolveAuthRequiredIfCredentialsEstablished s def c n x))" for x c n
    by (simp add: resolveAuthRequiredIfCredentialsEstablished_def inv_views)
  have comp: "Inv x \<Longrightarrow> completeFlow s x = (y, z) \<Longrightarrow> Inv y" for x y z
    using completeFlow_inv [of x] by simp
  show ?thesis using assms None
    by (auto simp: SubmitForm_def Let_def render_inv(2) auth advance_inv NextStep_offered
        intro!: then_do_inv split: sum.split option.split prod.split dest: StepById_offered)
      (blast intro: comp auth)+
qed

lemma credentials_inv:
  assumes "Inv w"
  shows "Inv (fst (HandleCredentialsEstablished s def w))"
proof -
  have comp: "Inv x \<Longrightarrow> completeFlow s x = (y, z) \<Longrightarrow> Inv y" for x y z
    using completeFlow_inv [of x] by simp
  have nxt: "NextStep flow x i = Inr (Some st) \<Longrightarrow> setup_step_of st = Inr j \<Longrightarrow> known_step flow (Some j)" for x i st j
    using offered_step [OF NextStep_offered] .
  show ?thesis using assms
    by (auto simp: HandleCredentialsEstablished_def Let_def inv_views set_step nxt
        intro!: then_do_inv split: sum.split option.split prod.split) (blast intro: comp inv_views)+
qed

lemma auth_failed_inv: "Inv w \<Longrightarrow> Inv (fst (HandleAuthFailed s m w))"
  unfolding HandleAuthFailed_def
  by (intro and_then_inv) (simp_all add: set_state set_error set_step failure_known)

lemma verify_failed_inv: "Inv w \<Longrightarrow> Inv (fst (onVerifyFailed s def p m w))"
  unfolding onVerifyFailed_def
  by (intro and_then_inv set_state set_error set_step failure_known) (simp_all add: view [OF revoke_views])

lemma verify_passed_inv:
  assumes "Inv w"
  shows "Inv (fst (onVerifyPassed s def w))"
proof -
  have comp: "Inv x \<Longrightarrow> completeFlow s x = (y, z) \<Longrightarrow> Inv y" for x y z
    using completeFlow_inv [of x] by simp
  have nxt: "NextStep flow x i = Inr (Some st) \<Longrightarrow> setup_step_of st = Inr j \<Longrightarrow> known_step flow (Some j)" for x i st j
    using offered_step [OF NextStep_offered] .
  show ?thesis unfolding onVerifyPassed_def using assms
    by (intro and_then_inv)
       (auto simp: inv_views set_step nxt split: sum.split option.split prod.split, (blast intro: comp)+)
qed

lemma cancel_inv: "Inv w \<Longrightarrow> Inv (fst (CancelSetup s w))"
  unfolding CancelSetup_def by (auto intro!: and_then_inv simp: set_step set_state set_error)

lemma reconfigure_inv: "Inv w \<Longrightarrow> Inv (fst (Reconfigure s def w))"
  by (auto simp: Reconfigure_def completeFlow_inv advance_inv first_addressable_offered split: sum.split option.split)

lemma current_inv: "Inv w \<Longrightarrow> Inv (fst (GetCurrentSetupStepResponse s def u w))"
  by (auto simp: GetCurrentSetupStepResponse_def resume_inv split: option.split)

end

subsection \<open>Stored steps belong to the flow\<close>

context connection_setup
begin

lemma SetSetupStep_steps:
  assumes "steps_known f rows w" "known_step f p"
  shows "steps_known f rows (fst (SetSetupStep s p w))"
proof -
  have "keeps (row_step_known f) [(''updated_at'', VTime (sv_now s)), (''setup_step_id'', step_value p)]"
    using assms(2) by (auto simp: keeps_def row_step_known_def assign_def)
  then have "table_all (row_step_known f) ConnectionsTable (rows (fst (SetConnectionSetupStep (sv_ops s) (sv_now s) (w_db w) i p)))" for i
    using assms(1) update_one_table_all by (simp add: SetConnectionSetupStep_def steps_known_def)
  then show ?thesis using assms by (auto simp: SetSetupStep_def fst_write_conn steps_known_def case_prod_unfold)
qed

lemma other_setters_steps:
  assumes "steps_known f rows w"
  shows "steps_known f rows (fst (SetState s state w))" "steps_known f rows (fst (SetSetupError s e w))"
    "table_all (row_step_known f) ConnectionsTable (rows (fst (DeleteConnection (sv_ops s) (sv_now s) (w_db w) i)))"
proof -
  have k: "keeps (row_step_known f) [(''updated_at'', t), (c, v)]" if "c \<noteq> ''setup_step_id''" for t c v
    using that by (auto simp: keeps_def row_step_known_def assign_def)
  have "table_all (row_step_known f) ConnectionsTable (rows (fst (SetConnectionState (sv_ops s) (sv_now s) (w_db w) j state)))"
    "table_all (row_step_known f) ConnectionsTable (rows (fst (SetConnectionSetupError (sv_ops s) (sv_now s) (w_db w) j e)))" for j
    using assms update_one_table_all k by (simp_all add: SetConnectionState_def SetConnectionSetupError_def steps_known_def)
  then show "steps_known f rows (fst (SetState s state w))" "steps_known f rows (fst (SetSetupError s e w))"
    using assms by (auto simp: SetState_def SetSetupError_def fst_write_conn steps_known_def case_prod_unfold)
  show "table_all (row_step_known f) ConnectionsTable (rows (fst (DeleteConnection (sv_ops s) (sv_now s) (w_db w) i)))"
    using assms update_one_table_all k by (simp add: DeleteConnection_def steps_known_def)
qed

lemma getConnection_steps:
  assumes "steps_known flow rows w" "getConnection s i w = Inr (w0, d)"
  shows "steps_known flow rows w0 \<and> d = def"
proof -
  obtain c where c: "GetConnection (sv_ops s) (w_db w) i = Inr c" "w0 = load c w" "d = def"
    using assms(2) connector by (auto simp: getConnection_def getConnectionForDb_def split: sum.splits)
  then obtain r where r: "sql_query_row (sv_ops s) (w_db w) ConnectionsTable (live_id i) = Inr (Some r)" "connection_fields r = Inr c"
    by (auto simp: GetConnection_def split: sum.splits option.splits)
  then have "row_step_known flow r" using query_row_some [OF r(1)] assms(1) by (auto simp: steps_known_def table_all_def)
  then obtain p where p: "r ''setup_step_id'' = step_value p" "known_step flow p" by (auto simp: row_step_known_def)
  have "scan_pointer scan_text (step_value p) = Inr (C_SetupStep c)"
    using r(2) p(1) by (auto simp: connection_fields_def result_bind_def split: sum.splits)
  then have "known_step flow (C_SetupStep c)"
    using p(2) by (cases p) (auto simp: step_value_def scan_pointer_def scan_text_def result_bind_def split: if_splits)
  then show ?thesis using c assms(1) by (simp add: steps_known_def load_def)
qed

end

sublocale connection_setup \<subseteq> known: setup_invariant like s rows eval def "steps_known (buildManifestSetupFlow s def) rows"
  by unfold_locales (auto intro: steps_known_view SetSetupStep_steps other_setters_steps)

subsection \<open>The loaded connection is what is stored\<close>

definition conn_live_rows :: "(string \<Rightarrow> string \<Rightarrow> bool) \<Rightarrow> ('db \<Rightarrow> string \<Rightarrow> row list) \<Rightarrow> 'db \<Rightarrow> string \<Rightarrow> row list" where
  "conn_live_rows like rows db i = filter (row_matches like (live_id i)) (rows db ConnectionsTable)"

definition stored_as :: "db_connection \<Rightarrow> row \<Rightarrow> bool" where
  "stored_as c r \<longleftrightarrow> r ''state'' = VText (C_State c) \<and> r ''setup_step_id'' = step_value (C_SetupStep c) \<and>
     r ''setup_error'' = text_ptr_value (C_SetupError c)"

definition synced :: "(string \<Rightarrow> string \<Rightarrow> bool) \<Rightarrow> ('db \<Rightarrow> string \<Rightarrow> row list) \<Rightarrow> ('db, 'r, 'x) world \<Rightarrow> bool" where
  "synced like rows w \<longleftrightarrow> length (conn_live_rows like rows (w_db w) (C_Id (w_conn w))) \<le> 1 \<and>
     list_all (stored_as (w_conn w)) (conn_live_rows like rows (w_db w) (C_Id (w_conn w)))"

text \<open>A driver that can count the rows an update touched.\<close>

locale connection_sync = connection_setup like s rows eval def
  for like :: "string \<Rightarrow> string \<Rightarrow> bool" and s :: "('db, 'r, 'x) service" and rows :: "'db \<Rightarrow> string \<Rightarrow> row list"
    and eval :: js_eval and def :: "('db, 'r, 'x) connector" +
  assumes counted: "sql_update (sv_ops s) db t as wh = (db', Inr a) \<Longrightarrow> \<exists>n. a = Inr n"
begin

lemma live_assign:
  assumes "fst ` set as \<inter> {''id'', ''deleted_at''} = {}"
  shows "row_matches like (live_id i) (assign as r) = row_matches like (live_id i) r"
  using assign_other [of "''id''" as r] assign_other [of "''deleted_at''" as r] assms by (auto simp: row_matches_def)

lemma update_one_live:
  assumes "update_one (sv_ops s) db as (live_id i) msg several = (db', e)" "fst ` set as \<inter> {''id'', ''deleted_at''} = {}"
    and "length (conn_live_rows like rows db i) \<le> 1"
  shows "conn_live_rows like rows db' i = (if e = None then map (assign as) (conn_live_rows like rows db i) else conn_live_rows like rows db i)"
proof -
  obtain x where u: "sql_update (sv_ops s) db ConnectionsTable as (live_id i) = (db', x)"
    using assms(1) by (auto simp: update_one_def split: prod.splits sum.splits)
  show ?thesis
  proof (cases x)
    case (Inl e')
    with u assms(1) update_err [of db ConnectionsTable as "live_id i" db' e'] show ?thesis by (auto simp: update_one_def conn_live_rows_def)
  next
    case (Inr a)
    with u counted obtain n where n: "x = Inr (Inr n)" by blast
    with u update_ok [of db ConnectionsTable as "live_id i" db' "Inr n"]
    have r: "rows db' ConnectionsTable = update_rows like (live_id i) as (rows db ConnectionsTable)" and "n = length (conn_live_rows like rows db i)"
      by (auto simp: conn_live_rows_def)
    moreover have "filter (row_matches like (live_id i)) (update_rows like (live_id i) as rs) = map (assign as) (filter (row_matches like (live_id i)) rs)" for rs
      by (induction rs) (auto simp: update_rows_def live_assign [OF assms(2)])
    ultimately show ?thesis using assms(1,3) u n by (auto simp: update_one_def conn_live_rows_def split: if_splits)
  qed
qed

lemma write_synced:
  assumes "synced like rows w"
    and op: "\<And>db. op db = update_one (sv_ops s) db as (live_id (C_Id (w_conn w))) msg several \<or> (\<exists>e. op db = (db, Some e))"
    and as: "fst ` set as \<inter> {''id'', ''deleted_at''} = {}"
    and ch: "C_Id (ch (w_conn w)) = C_Id (w_conn w)" "\<And>r. stored_as (w_conn w) r \<Longrightarrow> stored_as (ch (w_conn w)) (assign as r)"
  shows "synced like rows (fst (write_conn op ch w))"
proof -
  obtain db' e where o: "op (w_db w) = (db', e)" by fastforce
  have "conn_live_rows like rows db' (C_Id (w_conn w)) =
      (if e = None then map (assign as) (conn_live_rows like rows (w_db w) (C_Id (w_conn w))) else conn_live_rows like rows (w_db w) (C_Id (w_conn w)))"
    using op [of "w_db w"] update_one_live [OF _ as, of "w_db w" "C_Id (w_conn w)" msg several db' e] assms(1) o
    by (auto simp: synced_def)
  then show ?thesis using assms(1) ch o
    by (auto simp: fst_write_conn synced_def list_all_iff)
qed

lemma setters_synced:
  assumes "synced like rows w"
  shows "synced like rows (fst (SetSetupStep s p w))" "synced like rows (fst (SetState s state w))" "synced like rows (fst (SetSetupError s e w))"
proof -
  show "synced like rows (fst (SetSetupStep s p w))"
    unfolding SetSetupStep_def SetConnectionSetupStep_def
    by (rule write_synced [where as = "[(''updated_at'', VTime (sv_now s)), (''setup_step_id'', step_value p)]", OF assms])
       (auto simp: stored_as_def assign_def)
  show "synced like rows (fst (SetState s state w))"
    unfolding SetState_def SetConnectionState_def
    by (rule write_synced [where as = "[(''updated_at'', VTime (sv_now s)), (''state'', VText state)]", OF assms])
       (auto simp: stored_as_def assign_def)
  show "synced like rows (fst (SetSetupError s e w))"
    unfolding SetSetupError_def SetConnectionSetupError_def
    by (rule write_synced [where as = "[(''updated_at'', VTime (sv_now s)), (''setup_error'', text_ptr_value e)]", OF assms])
       (auto simp: stored_as_def assign_def)
qed

lemma view_synced:
  assumes "conn_view rows w' = conn_view rows w" "synced like rows w"
  shows "synced like rows w'"
proof -
  let ?c = "\<lambda>r. map r setup_columns" and ?i = "C_Id (w_conn w)"
  have same: "C_Id (w_conn w') = ?i" "C_State (w_conn w') = C_State (w_conn w)" "C_SetupStep (w_conn w') = C_SetupStep (w_conn w)"
      "C_SetupError (w_conn w') = C_SetupError (w_conn w)"
    and cols: "map ?c (rows (w_db w') ConnectionsTable) = map ?c (rows (w_db w) ConnectionsTable)"
    using assms(1) by (simp_all add: conn_view_def)
  have m: "row_matches like (live_id ?i) = (\<lambda>r. ?c r ! 0 = VText ?i \<and> ?c r ! 4 = VNull)"
    by (rule ext) (auto simp: row_matches_def setup_columns_def)
  have "map ?c (conn_live_rows like rows db ?i) = filter (\<lambda>v. v ! 0 = VText ?i \<and> v ! 4 = VNull) (map ?c (rows db ConnectionsTable))" for db
    by (simp only: conn_live_rows_def filter_map comp_def m)
  then have live: "map ?c (conn_live_rows like rows (w_db w') ?i) = map ?c (conn_live_rows like rows (w_db w) ?i)" using cols by simp
  have "reads_only (set setup_columns) (stored_as (w_conn w))" by (simp add: reads_only_def stored_as_def setup_columns_def)
  then have "\<forall>r \<in> set (conn_live_rows like rows (w_db w') ?i). stored_as (w_conn w) r"
    using assms(2) by (intro columns_all [OF _ live]) (simp_all add: synced_def list_all_iff)
  moreover have "stored_as (w_conn w') r = stored_as (w_conn w) r" for r using same by (simp add: stored_as_def)
  ultimately show ?thesis using assms(2) map_eq_imp_length_eq [OF live] same(1) by (simp add: synced_def list_all_iff)
qed

end

sublocale connection_sync \<subseteq> sync: setup_invariant like s rows eval def "synced like rows"
  by unfold_locales (auto intro: view_synced setters_synced)

subsection \<open>Sequences of operations\<close>

text \<open>Calls on a loaded connection, and requests to the service, which load the connection they are about.\<close>

datatype setup_call =
  SubmitCall submit_request | CurrentCall string | ReconfigureCall | CancelCall | CredentialsCall | AuthFailedCall string

fun call_exec :: "('db, 'r, 'x) service \<Rightarrow> ('db, 'r, 'x) connector \<Rightarrow> setup_call \<Rightarrow> ('db, 'r, 'x) world \<Rightarrow> ('db, 'r, 'x) world" where
  "call_exec s def (SubmitCall req) w = fst (SubmitForm s def req w)"
| "call_exec s def (CurrentCall url) w = fst (GetCurrentSetupStepResponse s def url w)"
| "call_exec s def ReconfigureCall w = fst (Reconfigure s def w)"
| "call_exec s def CancelCall w = fst (CancelSetup s w)"
| "call_exec s def CredentialsCall w = fst (HandleCredentialsEstablished s def w)"
| "call_exec s def (AuthFailedCall m) w = fst (HandleAuthFailed s m w)"

datatype setup_op = CallOp string setup_call | VerifyOp string | RetryOp string string | ReauthOp string string | AbortOp string

fun setup_exec :: "('db, 'r, 'x) service \<Rightarrow> setup_op \<Rightarrow> ('db, 'r, 'x) world \<Rightarrow> ('db, 'r, 'x) world" where
  "setup_exec s (CallOp i c) w = (case getConnection s i w of Inl e \<Rightarrow> w | Inr (w0, def) \<Rightarrow> call_exec s def c w0)"
| "setup_exec s (VerifyOp i) w = fst (runVerifyConnection s i w)"
| "setup_exec s (RetryOp i url) w = fst (RetryConnectionSetup s i url w)"
| "setup_exec s (ReauthOp i url) w = fst (ReauthConnection s i url w)"
| "setup_exec s (AbortOp i) w = fst (AbortConnection s i w)"

context setup_invariant
begin

lemma call_inv: "Inv w \<Longrightarrow> Inv (call_exec s def c w)"
  by (cases c) (simp_all add: submit_inv current_inv reconfigure_inv cancel_inv credentials_inv auth_failed_inv)

lemma calls_inv: "Inv w \<Longrightarrow> Inv (fold (call_exec s def) calls w)"
  by (induction calls arbitrary: w) (simp_all add: call_inv)

lemma verify_inv:
  assumes "getConnection s i w = Inr (w0, def)" "Inv w0"
  shows "Inv (fst (runVerifyConnection s i w))"
proof -
  have "Inv w1" if "GetEnabledProbes s def w0 = Inr ps" "run_probes ps w0 = (w1, r)" for ps w1 r
    using view [OF run_probes_view assms(2)] enabled_probes_subset that unfolding GetEnabledProbes_def by blast
  then show ?thesis using assms verify_passed_inv verify_failed_inv
    by (auto simp: runVerifyConnection_def split: sum.split prod.split option.split) (metis fst_conv)+
qed

end

context connection_setup
begin

lemma abort_known:
  assumes "steps_known flow rows w"
  shows "steps_known flow rows (fst (AbortConnection s i w))"
proof (cases "getConnection s i w")
  case (Inl e)
  with assms show ?thesis by (simp add: AbortConnection_def)
next
  case (Inr x)
  then obtain w0 where g: "getConnection s i w = Inr (w0, def)" and w0: "steps_known flow rows w0"
    using getConnection_steps [OF assms, of i "fst x" "snd x"] by (cases x) auto
  have del: "steps_known flow rows (w1\<lparr>w_db := db'\<rparr>)"
    if "steps_known flow rows w1" "DeleteConnection (sv_ops s) (sv_now s) (w_db w1) i = (db', e)" for w1 db' e
    using other_setters_steps(3) [OF that(1), of i] that by (simp add: steps_known_def)
  show ?thesis
    unfolding AbortConnection_def g sum.case prod.case
    using w0 steps_known_view [OF revoke_views w0]
    by (auto intro!: known.and_then_inv known.set_state split: prod.split option.split intro: del)
qed

lemma exec_known:
  assumes "steps_known flow rows w"
  shows "steps_known flow rows (setup_exec s op w)"
proof -
  have g: "\<exists>w0. x = (w0, def) \<and> steps_known flow rows w0" if "getConnection s i w = Inr x" for i x
    using getConnection_steps [OF assms, of i "fst x" "snd x"] that by (cases x) simp
  show ?thesis
  proof (cases op)
    case (CallOp i c)
    then show ?thesis using assms g [of i] known.call_inv by (cases "getConnection s i w") auto
  next
    case (VerifyOp i)
    then show ?thesis using assms g [of i] known.verify_inv [of i w]
      by (cases "getConnection s i w") (auto simp: runVerifyConnection_def)
  next
    case (RetryOp i u)
    then show ?thesis using assms g [of i] known.restart_inv
      by (cases "getConnection s i w") (auto simp: RetryConnectionSetup_def split: option.split)
  next
    case (ReauthOp i u)
    then show ?thesis using assms g [of i] known.restart_inv
      by (cases "getConnection s i w") (auto simp: ReauthConnection_def)
  next
    case (AbortOp i)
    then show ?thesis using abort_known [OF assms] by simp
  qed
qed

lemma run_known: "steps_known flow rows w \<Longrightarrow> steps_known flow rows (fold (setup_exec s) calls w)"
  by (induction calls arbitrary: w) (simp_all add: exec_known)

end

context connection_sync
begin

lemma load_synced:
  assumes "steps_known flow rows w" "length (conn_live_rows like rows (w_db w) i) \<le> 1" "getConnection s i w = Inr (w0, d)"
  shows "synced like rows w0"
proof -
  obtain c where c: "GetConnection (sv_ops s) (w_db w) i = Inr c" "w0 = load c w"
    using assms(3) by (auto simp: getConnection_def getConnectionForDb_def split: sum.splits)
  then obtain r where q: "sql_query_row (sv_ops s) (w_db w) ConnectionsTable (live_id i) = Inr (Some r)" and f: "connection_fields r = Inr c"
    by (auto simp: GetConnection_def split: sum.splits option.splits)
  from query_row_some [OF q] have r: "r \<in> set (conn_live_rows like rows (w_db w) i)" by (simp add: conn_live_rows_def)
  with assms(2) have live: "conn_live_rows like rows (w_db w) i = [r]" by (cases "conn_live_rows like rows (w_db w) i") auto
  have "r ''id'' = VText i" using r by (auto simp: conn_live_rows_def row_matches_def)
  then have i: "C_Id c = i" using f by (auto simp: connection_fields_def result_bind_def scan_id_def split: sum.splits)
  obtain p where p: "r ''setup_step_id'' = step_value p"
    using r assms(1) by (auto simp: steps_known_def table_all_def row_step_known_def conn_live_rows_def)
  have "scan_pointer scan_text (r ''setup_step_id'') = Inr (C_SetupStep c)" "scan_pointer scan_text (r ''setup_error'') = Inr (C_SetupError c)"
    "scan_text (r ''state'') = Inr (C_State c)"
    using f by (auto simp: connection_fields_def result_bind_def split: sum.splits)
  then have "stored_as c r"
    using p by (auto simp: stored_as_def step_value_def text_ptr_value_def scan_pointer_def scan_text_def result_bind_def
        split: sql_value.splits option.splits if_splits) metis+
  then show ?thesis using live i c(2) by (simp add: synced_def load_def)
qed

end

end
