(* ===== verification/Setup_Lifecycle.thy ===== *)
theory Setup_Lifecycle
  imports Setup_Invariants
begin

text \<open>
  Where the setup operations lead: a validated connector gives a well-formed flow, the stored step
  always belongs to it, a submitted form moves the connection to the next step of the flow, and
  verification lets a connection pass only when all its enabled probes succeed.
\<close>

subsection \<open>Where an operation leads\<close>

lemma then_do_Inr: "then_do r k = (w', Inr x) \<longleftrightarrow> (\<exists>w. r = (w, None) \<and> k w = (w', Inr x))"
  by (auto simp: then_do_def split: prod.splits option.splits)

lemma and_then_None: "and_then r k = (w', None) \<longleftrightarrow> (\<exists>w. r = (w, None) \<and> k w = (w', None))"
  by (auto simp: and_then_def split: prod.splits option.splits)

lemma wrap_err_None [simp]: "wrap_err g r = (w, None) \<longleftrightarrow> r = (w, None)"
  by (cases r) (simp add: wrap_err_def)

lemma then_do_Inl: "then_do r k = (w', Inl e) \<longleftrightarrow> r = (w', Some e) \<or> (\<exists>w. r = (w, None) \<and> k w = (w', Inl e))"
  by (auto simp: then_do_def split: prod.splits option.splits)

lemma and_then_Some: "and_then r k = (w', Some e) \<longleftrightarrow> r = (w', Some e) \<or> (\<exists>w. r = (w, None) \<and> k w = (w', Some e))"
  by (auto simp: and_then_def split: prod.splits option.splits)

lemma wrap_err_Some: "wrap_err g r = (w, Some e) \<longleftrightarrow> (\<exists>e'. r = (w, Some e') \<and> e = g e')"
  by (cases r) (auto simp: wrap_err_def)

lemma write_conn_None: "write_conn op ch w = (w', None) \<Longrightarrow> w_conn w' = ch (w_conn w)"
  by (auto simp: write_conn_def split: prod.splits option.splits)

lemma setters_None:
  "SetSetupStep s p w = (w', None) \<Longrightarrow> w_conn w' = (w_conn w)\<lparr>C_SetupStep := p\<rparr>"
  "SetSetupError s e w = (w', None) \<Longrightarrow> w_conn w' = (w_conn w)\<lparr>C_SetupError := e\<rparr>"
  "SetState s state w = (w', None) \<Longrightarrow> w_conn w' = (w_conn w)\<lparr>C_State := state\<rparr>"
  by (simp_all add: SetSetupStep_def SetSetupError_def SetState_def write_conn_None)

lemma view_fields:
  assumes "conn_view rows w' = conn_view rows w"
  shows "C_Id (w_conn w') = C_Id (w_conn w)" "C_State (w_conn w') = C_State (w_conn w)" "C_SetupStep (w_conn w') = C_SetupStep (w_conn w)"
    "C_SetupError (w_conn w') = C_SetupError (w_conn w)"
  using assms by (simp_all add: conn_view_def)

text \<open>An operation led a connection to a step, or to the end of its flow, which makes it configured.\<close>

definition led_to :: "setup_step option \<Rightarrow> db_connection \<Rightarrow> db_connection \<Rightarrow> bool" where
  "led_to p c c' \<longleftrightarrow> C_Id c' = C_Id c \<and> C_SetupError c' = C_SetupError c \<and> C_SetupStep c' = p \<and>
     C_State c' = (if p = None then ''configured'' else C_State c)"

context connection_setup
begin

lemma resolved_fields:
  assumes "resolveRequiredActionNotifications s ks w = (w', x)"
  shows "C_Id (w_conn w') = C_Id (w_conn w) \<and> C_State (w_conn w') = C_State (w_conn w) \<and> C_SetupStep (w_conn w') = C_SetupStep (w_conn w) \<and>
    C_SetupError (w_conn w') = C_SetupError (w_conn w)"
  using view_fields [OF notifications_view [of ks w]] assms by simp

lemma completeFlow_leads:
  assumes "completeFlow s w = (w', Inr resp)"
  shows "led_to None (w_conn w) (w_conn w') \<and> resp = ConnectionSetupComplete (C_Id (w_conn w))"
  using assms
  by (auto simp: completeFlow_def then_do_Inr led_to_def split: if_splits dest!: setters_None resolved_fields)

lemma setup_step_of_Inr: "setup_step_of st = Inr i \<longleftrightarrow> i = step_Id st \<and> i \<noteq> []"
  by (auto simp: setup_step_of_def MustNewSetupStep_def NewSetupStep_def)

lemma led_to_view:
  assumes "led_to next (w_conn w1) c" "conn_view rows w1 = conn_view rows w"
  shows "led_to next (w_conn w) c"
  using assms(1) view_fields [OF assms(2)] by (simp add: led_to_def)

lemma enqueue_fields: "EnqueueVerifyConnection s i w = (w', x) \<Longrightarrow> w_conn w' = w_conn w"
  by (auto simp: EnqueueVerifyConnection_def split: if_splits prod.splits option.splits)

lemma renderStepResponse_view:
  assumes "offered flow st"
  shows "conn_view rows (fst (renderStepResponse st u w)) = conn_view rows w"
proof -
  have "st \<in> set (flow_steps flow) \<or> st = verifyStep" using assms by (auto simp: offered_def)
  from flow_step_views(2) [OF this, of u w] show ?thesis
    by (cases "step_Type st") (auto simp: renderStepResponse_def split: prod.splits sum.splits)
qed

lemma advance_leads:
  assumes "advanceToStep s (Some st) u w = (w', Inr resp)" "offered flow st"
  shows "led_to (Some (step_Id st)) (w_conn w) (w_conn w')"
proof -
  have st: "st \<in> set (flow_steps flow) \<or> st = verifyStep" using assms(2) by (auto simp: offered_def)
  let ?r = "if step_Type st = ManifestStepTypeRedirect then RenderRedirect st u w else (w, Inr [])"
  obtain w1 url where r: "?r = (w1, Inr url)" using assms(1) by (cases ?r) (auto simp: advanceToStep_def split: sum.splits)
  have v: "conn_view rows w1 = conn_view rows w" using flow_step_views(2) [OF st, of u w] r by (auto split: if_splits)
  obtain w2 w3 where w2: "SetSetupStep s (Some (step_Id st)) w1 = (w2, None)" and w3: "w_conn w3 = w_conn w2"
    and w': "w' = w3 \<or> renderStepResponse st u w3 = (w', Inr resp)"
    using assms(1) unfolding advanceToStep_def option.case r prod.case sum.case
    by (auto simp: then_do_Inr setup_step_of_Inr split: sum.splits if_splits dest: enqueue_fields)
  have "conn_view rows w' = conn_view rows w3" using w' renderStepResponse_view [OF assms(2), of u w3] by auto
  then have "C_Id (w_conn w') = C_Id (w_conn w3)" "C_State (w_conn w') = C_State (w_conn w3)" "C_SetupStep (w_conn w') = C_SetupStep (w_conn w3)"
    "C_SetupError (w_conn w') = C_SetupError (w_conn w3)" by (rule view_fields)+
  then have "led_to (Some (step_Id st)) (w_conn w1) (w_conn w')" using setters_None(1) [OF w2] w3 by (simp add: led_to_def)
  then show ?thesis using v by (rule led_to_view)
qed

lemma submit_leads:
  assumes "SubmitForm s def req w = (w', Inr resp)"
  shows "\<exists>st w1 next. C_SetupStep (w_conn w) = Some (sub_StepId req) \<and> StepById flow w (sub_StepId req) = Inr (Some st, True) \<and>
    step_Type st = ManifestStepTypeForm \<and> OnSubmit st (sub_Data req) w = (w1, None) \<and>
    NextStep flow w1 (sub_StepId req) = Inr next \<and> led_to (map_option step_Id next) (w_conn w) (w_conn w')"
proof -
  have cur: "C_SetupStep (w_conn w) = Some (sub_StepId req)"
    and ens: "ensureStepMatches (Some (sub_StepId req)) (sub_StepId req) = None"
    using assms by (auto simp: SubmitForm_def Let_def ensureStepMatches_def split: option.splits if_splits)
  obtain c ok where c: "StepById flow w (sub_StepId req) = Inr (c, ok)"
    using assms unfolding SubmitForm_def Let_def cur ens option.case option.sel
    by (cases "StepById flow w (sub_StepId req)") auto
  have "c \<noteq> None \<and> ok \<and> step_Type (the c) = ManifestStepTypeForm"
    using assms unfolding SubmitForm_def Let_def cur ens option.case option.sel c
    by (cases c; cases ok; cases "step_Type (the c) = ManifestStepTypeForm") simp_all
  then obtain st where st: "StepById flow w (sub_StepId req) = Inr (Some st, True)" "step_Type st = ManifestStepTypeForm"
    using c by (cases c) auto
  from StepById_offered [OF st(1)] have off: "offered flow st" and i: "step_Id st = sub_StepId req" by simp_all
  then have "st \<in> set (flow_steps flow) \<or> st = verifyStep" by (auto simp: offered_def)
  note views = flow_step_views(1) [OF this, of "sub_Data req" w]
  define auth where "auth = resolveAuthRequiredIfCredentialsEstablished s def st"
  have auth: "C_Id (w_conn b) = C_Id (w_conn a) \<and> C_State (w_conn b) = C_State (w_conn a) \<and> C_SetupStep (w_conn b) = C_SetupStep (w_conn a) \<and>
      C_SetupError (w_conn b) = C_SetupError (w_conn a)" if "auth n a = (b, None)" for n a b
    using that resolved_fields by (auto simp: auth_def resolveAuthRequiredIfCredentialsEstablished_def split: if_splits)
  have leads_auth: "led_to n (w_conn a) c \<longleftrightarrow> led_to n (w_conn b) c" "led_to n c (w_conn a) \<longleftrightarrow> led_to n c (w_conn b)" if "auth m a = (b, None)" for m a b c n
    using auth [OF that] by (simp_all add: led_to_def)
  define K where "K = (\<lambda>w1.
      case NextStep flow w1 (sub_StepId req) of
        Inl e \<Rightarrow> (w1, Inl (flow_error e))
      | Inr None \<Rightarrow> (case completeFlow s w1 of (w2, Inl e) \<Rightarrow> (w2, Inl e) | (w2, Inr resp) \<Rightarrow> then_do (auth None w2) (\<lambda>w3. (w3, Inr resp)))
      | Inr (Some n) \<Rightarrow> then_do (auth (Some n) w1) (advanceToStep s (Some n) (sub_ReturnToUrl req)))"
  have "SubmitForm s def req w = then_do (OnSubmit st (sub_Data req) w) K"
    unfolding SubmitForm_def Let_def cur ens option.case option.sel st sum.case prod.case auth_def K_def by (simp add: st(2) i)
  then have "then_do (OnSubmit st (sub_Data req) w) K = (w', Inr resp)" using assms by simp
  then obtain w1 where w1: "OnSubmit st (sub_Data req) w = (w1, None)" and "K w1 = (w', Inr resp)" unfolding then_do_Inr by blast
  note k = this(2) [unfolded K_def]
  obtain nx where nxt: "NextStep flow w1 (sub_StepId req) = Inr nx" using k by (cases "NextStep flow w1 (sub_StepId req)") auto
  have "led_to (map_option step_Id nx) (w_conn w1) (w_conn w')"
  proof (cases nx)
    case None
    then obtain w2 resp' where "completeFlow s w1 = (w2, Inr resp')" "auth None w2 = (w', None)"
      using k nxt by (auto simp: then_do_Inr split: prod.splits sum.splits)
    with None show ?thesis using completeFlow_leads [of w1 w2 resp'] leads_auth(2) [of None w2 w'] by simp
  next
    case (Some n)
    then have "offered flow n" using nxt by (simp add: NextStep_offered)
    obtain w2 where "auth (Some n) w1 = (w2, None)" "advanceToStep s (Some n) (sub_ReturnToUrl req) w2 = (w', Inr resp)"
      using k nxt Some by (auto simp: then_do_Inr)
    with Some show ?thesis using advance_leads [OF _ \<open>offered flow n\<close>] leads_auth(1) [of "Some n" w1 w2] by simp
  qed
  then have "led_to (map_option step_Id nx) (w_conn w) (w_conn w')" using led_to_view views w1 by simp
  with cur st w1 nxt show ?thesis by blast
qed

lemma health_fields:
  assumes "MarkHealthState s state w = (w', x)"
  shows "C_Id (w_conn w') = C_Id (w_conn w) \<and> C_State (w_conn w') = C_State (w_conn w) \<and> C_SetupStep (w_conn w') = C_SetupStep (w_conn w) \<and>
    C_SetupError (w_conn w') = C_SetupError (w_conn w)"
  using view_fields [OF health_view [of state w]] assms by simp

lemma credentials_leads:
  assumes "HandleCredentialsEstablished s def w = (w', Inr pending)"
  shows "\<exists>cur w1 next. C_SetupStep (w_conn w) = Some cur \<and> MarkHealthState s ''healthy'' w = (w1, None) \<and>
    NextStep flow w1 cur = Inr next \<and> led_to (map_option step_Id next) (w_conn w) (w_conn w') \<and> pending = (next \<noteq> None)"
proof -
  obtain cur where cur: "C_SetupStep (w_conn w) = Some cur"
    using assms by (cases "C_SetupStep (w_conn w)") (auto simp: HandleCredentialsEstablished_def)
  define K where "K = (\<lambda>w1.
      let resolve = (\<lambda>pending w. then_do
            (wrap_err (Wrapf ''failed to resolve auth-required notification after credentials were established: %w'' [])
              (resolveRequiredActionNotifications s [''auth_required''] w)) (\<lambda>w'. (w', Inr pending))) in
      case NextStep flow w1 cur of
        Inl e \<Rightarrow> (w1, Inl (Wrapf ''failed to evaluate setup flow: %w'' [] e))
      | Inr None \<Rightarrow> (case completeFlow s w1 of (w2, Inl e) \<Rightarrow> (w2, Inl e) | (w2, Inr _) \<Rightarrow> resolve False w2)
      | Inr (Some next) \<Rightarrow>
          (case setup_step_of next of
             Inl e \<Rightarrow> (w1, Inl e)
           | Inr i \<Rightarrow>
               then_do (wrap_err (Wrapf ''failed to set setup step to %q: %w'' [step_Id next]) (SetSetupStep s (Some i) w1)) (\<lambda>w2.
                 if step_Type next = ManifestStepTypeVerify
                 then then_do (wrap_err (Wrapf ''failed to enqueue verify connection task: %w'' []) (EnqueueVerifyConnection s (C_Id (w_conn w2)) w2))
                        (\<lambda>w3. (w3, Inr True))
                 else resolve True w2)))"
  have "then_do (wrap_err (Wrapf ''failed to mark connection healthy after credentials were established: %w'' []) (MarkHealthState s ''healthy'' w)) K = (w', Inr pending)"
    using assms unfolding HandleCredentialsEstablished_def cur option.case K_def .
  then obtain w1 where w1: "MarkHealthState s ''healthy'' w = (w1, None)" and "K w1 = (w', Inr pending)" unfolding then_do_Inr wrap_err_None by blast
  note eq = this(2) [unfolded K_def Let_def]
  obtain nx where nx: "NextStep flow w1 cur = Inr nx" using eq by (cases "NextStep flow w1 cur") auto
  have "led_to (map_option step_Id nx) (w_conn w1) (w_conn w') \<and> pending = (nx \<noteq> None)"
  proof (cases nx)
    case None
    then obtain w2 resp where "completeFlow s w1 = (w2, Inr resp)" "resolveRequiredActionNotifications s [''auth_required''] w2 = (w', None)" "\<not> pending"
      using eq nx by (auto simp: then_do_Inr split: prod.splits sum.splits option.splits)
    with None show ?thesis using completeFlow_leads [of w1 w2 resp] resolved_fields [of "[''auth_required'']" w2 w' None] by (simp add: led_to_def)
  next
    case (Some n)
    obtain i where i: "setup_step_of n = Inr i" using eq nx Some by (cases "setup_step_of n") auto
    obtain w2 where w2: "SetSetupStep s (Some i) w1 = (w2, None)" and r: "w_conn w' = w_conn w2 \<or> resolveRequiredActionNotifications s [''auth_required''] w2 = (w', None)"
        and p: pending
      using eq nx Some i by (auto simp: then_do_Inr split: if_splits dest: enqueue_fields)
    then show ?thesis using Some i setters_None(1) [OF w2] resolved_fields [of "[''auth_required'']" w2 w' None]
      by (auto simp: led_to_def setup_step_of_Inr)
  qed
  moreover have "led_to p (w_conn w1) c = led_to p (w_conn w) c" for p c using health_fields [OF w1] by (simp add: led_to_def)
  ultimately show ?thesis using cur w1 nx by blast
qed

lemma verify_passed_leads:
  assumes "onVerifyPassed s def w = (w', None)"
  shows "\<exists>w2 next. NextStep flow w2 SetupStepVerify = Inr next \<and> led_to (map_option step_Id next) (w_conn w) (w_conn w')"
proof -
  obtain w1 w2 where w1: "MarkHealthState s ''healthy'' w = (w1, None)" and w2: "resolveRequiredActionNotifications s [''auth_required''] w1 = (w2, None)"
    and k: "(case NextStep flow w2 SetupStepVerify of
        Inl e \<Rightarrow> (w2, Some (Wrapf ''failed to evaluate setup flow after verify: %w'' [] e))
      | Inr None \<Rightarrow> (case completeFlow s w2 of (w3, Inl e) \<Rightarrow> (w3, Some e) | (w3, Inr _) \<Rightarrow> (w3, None))
      | Inr (Some next) \<Rightarrow>
          (case setup_step_of next of
             Inl e \<Rightarrow> (w2, Some e)
           | Inr i \<Rightarrow> wrap_err (Wrapf ''failed to advance setup step after verify: %w'' []) (SetSetupStep s (Some i) w2))) = (w', None)"
    using assms unfolding onVerifyPassed_def and_then_None wrap_err_None by blast
  obtain nx where nx: "NextStep flow w2 SetupStepVerify = Inr nx" using k by (cases "NextStep flow w2 SetupStepVerify") auto
  have "led_to (map_option step_Id nx) (w_conn w2) (w_conn w')"
  proof (cases nx)
    case None
    then obtain resp where "completeFlow s w2 = (w', Inr resp)" using k nx by (auto split: prod.splits sum.splits)
    with None completeFlow_leads show ?thesis by simp
  next
    case (Some n)
    then have "setup_step_of n = Inr (step_Id n)" "SetSetupStep s (Some (step_Id n)) w2 = (w', None)"
      using k nx by (auto simp: setup_step_of_Inr split: sum.splits)
    with Some show ?thesis by (auto simp: led_to_def dest!: setters_None)
  qed
  moreover have "led_to p (w_conn w2) c = led_to p (w_conn w) c" for p c
    using health_fields [OF w1] resolved_fields [OF w2] by (simp add: led_to_def)
  ultimately show ?thesis using nx by blast
qed

lemma completeFlow_error: "completeFlow s w = (w', Inl e) \<Longrightarrow> e \<noteq> SkipRetry"
  unfolding completeFlow_def then_do_Inl
  by (auto simp: wrap_err_Some SkipRetry_def InternalServerErrorf_def split: if_splits)

lemma verify_passed_error:
  assumes "onVerifyPassed s def w = (w', Some e)"
  shows "e \<noteq> SkipRetry"
proof -
  define K where "K = (\<lambda>w2. case NextStep flow w2 SetupStepVerify of
        Inl e \<Rightarrow> (w2, Some (Wrapf ''failed to evaluate setup flow after verify: %w'' [] e))
      | Inr None \<Rightarrow> (case completeFlow s w2 of (w3, Inl e) \<Rightarrow> (w3, Some e) | (w3, Inr _) \<Rightarrow> (w3, None))
      | Inr (Some next) \<Rightarrow>
          (case setup_step_of next of
             Inl e \<Rightarrow> (w2, Some e)
           | Inr i \<Rightarrow> wrap_err (Wrapf ''failed to advance setup step after verify: %w'' []) (SetSetupStep s (Some i) w2)))"
  have wrapped: "Wrapf f as x \<noteq> SkipRetry" for f as x by (simp add: SkipRetry_def)
  have st: "setup_step_of n = Inl x \<Longrightarrow> x \<noteq> SkipRetry" for n :: "('db, 'r, 'x) step" and x
    by (auto simp: setup_step_of_def SkipRetry_def split: sum.splits)
  have K: "x \<noteq> SkipRetry" if "K w2 = (w', Some x)" for w2 x
  proof (cases "NextStep flow w2 SetupStepVerify")
    case (Inl y)
    with that wrapped show ?thesis by (auto simp: K_def)
  next
    case (Inr n)
    with that st wrapped completeFlow_error show ?thesis
      by (cases n) (auto simp: K_def wrap_err_Some split: prod.splits sum.splits)
  qed
  then show ?thesis using assms wrapped unfolding onVerifyPassed_def K_def [symmetric] and_then_Some wrap_err_Some by metis
qed

lemma verify_failed_leads:
  assumes "onVerifyFailed s def p m w = (w', None)"
  shows "C_SetupStep (w_conn w') = Some SetupStepVerifyFailed \<and> C_State (w_conn w') = C_State (w_conn w) \<and>
    C_SetupError (w_conn w') = Some (''probe '' @ Quote p @ '' failed: '' @ m)"
  using assms view_fields [OF revoke_views [of w]] unfolding onVerifyFailed_def and_then_None
  by (auto dest!: setters_None)

lemma verify_leads:
  assumes g: "getConnection s i w = Inr (w0, def)" and run: "runVerifyConnection s i w = (w', e)"
  shows "(C_SetupStep (w_conn w0) \<noteq> Some SetupStepVerify \<longrightarrow> w' = w0 \<and> e = None) \<and>
    (C_SetupStep (w_conn w0) = Some SetupStepVerify \<and> e = None \<longrightarrow>
      (\<exists>ps w1 w2 next. GetEnabledProbes s def w0 = Inr ps \<and> run_probes ps w0 = (w1, None) \<and>
         NextStep flow w2 SetupStepVerify = Inr next \<and> led_to (map_option step_Id next) (w_conn w0) (w_conn w'))) \<and>
    (e = Some SkipRetry \<longrightarrow>
      (\<exists>ps w1 p m. GetEnabledProbes s def w0 = Inr ps \<and> run_probes ps w0 = (w1, Some (p, m)) \<and>
         C_SetupStep (w_conn w') = Some SetupStepVerifyFailed \<and> C_State (w_conn w') = C_State (w_conn w0) \<and>
         C_SetupError (w_conn w') = Some (''probe '' @ Quote p @ '' failed: '' @ m)))"
proof (cases "C_SetupStep (w_conn w0) = Some SetupStepVerify")
  case False
  then have "w' = w0" "e = None" using run by (simp_all add: runVerifyConnection_def g)
  with False show ?thesis by (simp add: SkipRetry_def)
next
  case True
  have wrapped: "Wrapf f as x \<noteq> SkipRetry" for f as x by (simp add: SkipRetry_def)
  show ?thesis
  proof (cases "GetEnabledProbes s def w0")
    case (Inl x)
    then have "e = Some (Wrapf ''failed to resolve enabled probes for verify: %w'' [] x)" using run True by (simp add: runVerifyConnection_def g)
    with True wrapped show ?thesis by simp
  next
    case (Inr ps)
    obtain w1 r where r: "run_probes ps w0 = (w1, r)" by fastforce
    have "conn_view rows w1 = conn_view rows w0"
      using run_probes_view [OF _ r] enabled_probes_subset Inr unfolding GetEnabledProbes_def by blast
    note same = view_fields [OF this]
    show ?thesis
    proof (cases r)
      case None
      then have pass: "onVerifyPassed s def w1 = (w', e)" using run True Inr r by (simp add: runVerifyConnection_def g)
      then have "e \<noteq> Some SkipRetry" using verify_passed_error by blast
      moreover have "led_to p (w_conn w1) c = led_to p (w_conn w0) c" for p c using same by (simp add: led_to_def)
      ultimately show ?thesis using True Inr r None pass verify_passed_leads [of w1 w'] by auto
    next
      case (Some pm)
      obtain p m where pm: "pm = (p, m)" by fastforce
      obtain w2 x where f: "onVerifyFailed s def p m w1 = (w2, x)" by fastforce
      then have "w' = w2" "e = (case x of None \<Rightarrow> Some SkipRetry | Some y \<Rightarrow> Some (Wrapf ''failed to record verify failure: %w'' [] y))"
        using run True Inr r Some pm by (auto simp: runVerifyConnection_def g split: option.splits)
      with f True Inr r Some pm same wrapped verify_failed_leads [of p m w1 w2] show ?thesis by (cases x) auto
    qed
  qed
qed

end

context connection_sync
begin

lemma calls_synced: "synced like rows w \<Longrightarrow> synced like rows (fold (call_exec s def) calls w)"
  by (rule sync.calls_inv)

lemma verify_synced:
  "getConnection s i w = Inr (w0, def) \<Longrightarrow> synced like rows w0 \<Longrightarrow> synced like rows (fst (runVerifyConnection s i w))"
  by (rule sync.verify_inv)

end

subsection \<open>A sample service\<close>

text \<open>
  A connector with an API key form, one probe and one configure form, on the in-memory database. The
  external state is a log; the probe fails once the log names a bad key.
\<close>

type_synonym sample_world = "(mem_db, mem_redis, string list) world"

definition log_event :: "string \<Rightarrow> sample_world \<Rightarrow> sample_world" where
  "log_event e w = w\<lparr>w_ext := w_ext w @ [e]\<rparr>"

definition sample_key_step :: "sample_world manifest_step" where
  "sample_key_step = formStep \<lparr>form_Id = ''apxy:auth:api_key'', form_Title = ''API key'', form_Description = [],
     form_JsonSchema = RawDoc (JObj []), form_UiSchema = NoJson,
     form_OnSubmit = Some (\<lambda>data w. (log_event ''key'' w, None)), form_IsEligible = None\<rparr>"

definition sample_factory :: "sample_world auth_factory" where
  "sample_factory = \<lparr>fa_ManifestSetupSteps = (\<lambda>_. [sample_key_step]), fa_Revoke = Some (\<lambda>w. (log_event ''revoked'' w, None))\<rparr>"

definition sample_probe :: "sample_world probe_spec" where
  "sample_probe = \<lparr>probe_Id = ''ping'', probe_If = None,
     probe_Invoke = (\<lambda>w. (log_event ''ping'' w, if ''bad key'' \<in> set (w_ext w) then Some ''status 401'' else None))\<rparr>"

definition sample_channel :: step_spec where
  "sample_channel = \<lparr>spec_Id = ''channel'', spec_Type = ''form'', spec_Title = ''Channel'', spec_Description = [],
     spec_JsonSchema = RawDoc (JObj [(''properties'', JObj [(''channel'', JObj [])])]), spec_UiSchema = NoJson, spec_DataSources = [], spec_If = None, spec_Redirect = None\<rparr>"

definition sample_connector :: "sample_world connector_def" where
  "sample_connector = \<lparr>cd_SetupFlow = Some \<lparr>Preconnect = None, Configure = Some [sample_channel]\<rparr>, cd_Probes = [sample_probe], cd_Auth = Some ''api_key''\<rparr>"

definition sample_link :: mint_input where
  "sample_link = \<lparr>mi_ConnectionId = ''cxn_1'', mi_StepId = ''apxy:auth:api_key'', mi_ActorId = ''act_1'', mi_Intent = ''advance'',
     mi_ReturnToUrl = ''https://example.com/done''\<rparr>"

definition sample_service :: "(mem_db, mem_redis, string list) service" where
  "sample_service = \<lparr>sv_ops = mem_table_ops, sv_redis = mem_redis_ops, sv_tokens = mem_token_commands, 
     sv_encrypt = vault [(''doc1'', RawDoc (JObj [(''channel'', JStr ''general'')])),
       (''doc2'', RawDoc (Claims_json (mint_input.extend sample_link \<lparr>cl_Jti = ''stk_a''\<rparr>)))],
     sv_compiler = \<lparr>AddResource = (\<lambda>_. None), Compile = (\<lambda>_. Inr (\<lambda>_. None))\<rparr>, sv_js = Inr (\<lambda>_ _ _ _. Inr True),
     sv_mustache = (\<lambda>t _ _ _. Inr t), sv_factories = (\<lambda>_. Some sample_factory), sv_enqueue = (\<lambda>x i. (x @ [''verify '' @ i], None)),
     sv_connectors = (\<lambda>_ _ _. Inr sample_connector), sv_now = 1, sv_redis_now = 0, sv_actor = ''act_1'', sv_rnd = (\<lambda>_. ''a''),
     sv_public = ''https://example.com/''\<rparr>"

definition sample_stored :: "setup_step \<Rightarrow> string list \<Rightarrow> sample_world" where
  "sample_stored step events = \<lparr>w_db = no_rows\<lparr>tables := (\<lambda>_. [])(ConnectionsTable :=
       [assign (connection_values (sample_connection\<lparr>C_Name := ''c'', C_SetupStep := Some step\<rparr>)) (\<lambda>_. VNull)])\<rparr>,
     w_redis = [], w_conn = sample_connection, w_cache = None, w_random = 0, w_ext = events\<rparr>"

lemma sample_simps [simp]:
  "sv_ops sample_service = mem_table_ops" "sv_connectors sample_service db i v = Inr sample_connector" "sv_now sample_service = 1"
  "auth_steps sample_service sample_connector = [sample_key_step]" "cd_Probes sample_connector = [sample_probe]"
  "getRevokeCredentialsOperations sample_service sample_connector = [\<lambda>w. (log_event ''revoked'' w, None)]"
  by (simp_all add: auth_steps_def getAuthMethodFactory_def getRevokeCredentialsOperations_def sample_connector_def sample_service_def sample_factory_def)

lemma sample_validated: "ValidateWithJavascript (\<lambda>_. Inr True) [] (cd_SetupFlow sample_connector) = None"
  by (simp add: sample_connector_def setup_flow_accepted phase_steps_def step_ok_def sample_channel_def user_step_id_def HasPrefix_def
      ApxyStepPrefix_def SetupFlowStepType_IsValid_def json_Valid_def)

lemma sample_reserved: "reserved_steps (auth_steps sample_service sample_connector)"
  by (simp add: reserved_steps_def sample_key_step_def HasPrefix_def ApxyStepPrefix_def SetupStepVerify_def IsTerminalFailure_def
      SetupStepVerifyFailed_def SetupStepAuthFailed_def)

lemma log_event_view [simp]: "conn_view rows (log_event e w) = conn_view rows w"
  by (simp add: conn_view_def log_event_def)

interpretation sample: connection_sync like_exec sample_service tables "\<lambda>_. Inr True" sample_connector
proof -
  have "sql_db like_exec (sv_ops sample_service) tables" by (simp add: mem_table_ops_sql_db)
  moreover have "connection_setup_axioms sample_service tables (\<lambda>_. Inr True) sample_connector"
    using sample_validated sample_reserved
    by (intro connection_setup_axioms.intro) (simp_all add: sample_key_step_def sample_probe_def)
  moreover have "connection_sync_axioms sample_service" by (intro connection_sync_axioms.intro) (auto simp: mem_ops_def)
  ultimately show "connection_sync like_exec sample_service tables (\<lambda>_. Inr True) sample_connector"
    by (intro connection_sync.intro connection_setup.intro)
qed

definition sample_loaded :: "setup_step \<Rightarrow> db_connection" where
  "sample_loaded step = sample_connection\<lparr>C_Name := ''c'', C_HealthState := ''healthy'', C_SetupStep := Some step\<rparr>"

lemma sample_load:
  assumes "step \<noteq> []"
  shows "getConnection sample_service ''cxn_1'' (sample_stored step ev) = Inr (load (sample_loaded step) (sample_stored step ev), sample_connector)"
proof -
  let ?r = "assign (connection_values (sample_connection\<lparr>C_Name := ''c'', C_SetupStep := Some step\<rparr>)) (\<lambda>_. VNull)"
  have "row_matches like_exec (live_id ''cxn_1'') ?r"
    by (simp add: row_matches_def assign_def connection_values_def sample_connection_def id_value_def time_ptr_value_def)
  then have "sql_query_row mem_table_ops (w_db (sample_stored step ev)) ConnectionsTable (live_id ''cxn_1'') = Inr (Some ?r)"
    by (simp add: mem_ops_def sample_stored_def no_rows_def)
  moreover have "connection_fields ?r = Inr (sample_loaded step)"
    using assms
    by (simp add: connection_fields_def assign_def connection_values_def sample_connection_def sample_loaded_def id_value_def time_ptr_value_def
        step_value_def text_ptr_value_def cfg_value_def map_value_def healthStateForInsert_def scan_pointer_def scan_text_def scan_id_def scan_map_def
        scan_time_def scan_time_ptr_def scan_uint64_def)
  ultimately show ?thesis by (simp add: getConnection_def GetConnection_def getConnectionForDb_def)
qed

lemma sample_known:
  assumes "step \<in> {SetupStepVerify, SetupStepAuthFailed, ''apxy:auth:api_key''}"
  shows "steps_known (buildManifestSetupFlow sample_service sample_connector) tables (sample_stored step ev)"
proof -
  have "known_step (buildManifestSetupFlow sample_service sample_connector) (Some step)"
    using assms by (auto simp: known_step_def IsTerminalFailure_def ContainsStep_def NewVerifyStep_def SetupStepVerify_def ApxyStepPrefix_def
        HasProbes_def built_steps list_ex_iff sample_key_step_def)
  then show ?thesis
    by (auto simp: steps_known_def table_all_def sample_stored_def row_step_known_def assign_def connection_values_def no_rows_def sample_connection_def)
qed

lemma sample_single: "length (conn_live_rows like_exec tables (w_db (sample_stored step ev)) i) \<le> 1"
  by (simp add: conn_live_rows_def sample_stored_def)

lemma sample_flow:
  "flow_steps (buildManifestSetupFlow sample_service sample_connector) = [sample_key_step, newSchemaStep sample_service sample_channel]"
  "flow_authBoundary (buildManifestSetupFlow sample_service sample_connector) = 0"
  by (simp_all add: built_steps built_boundary pre_specs_def conf_specs_def phase_steps_def sample_connector_def [THEN arg_cong [of _ _ cd_SetupFlow]])

lemma sample_next: "NextStep (buildManifestSetupFlow sample_service sample_connector) w ''apxy:auth:api_key'' = Inr (Some verifyStep)"
proof -
  have "verifyEnabled (buildManifestSetupFlow sample_service sample_connector) w = Inr True"
    by (simp add: verifyEnabled_def buildManifestSetupFlow_def Let_def GetEnabledProbes_def isProbeEnabled_def sample_probe_def HasProbes_def)
  then show ?thesis
    by (simp add: NextStep_def NewVerifyStep_def sample_flow Let_def nextEligibleStep_def next_loop.simps sample_key_step_def HasProbes_def)
qed

text \<open>Writes to the sample connection succeed as long as it has a live row.\<close>

definition sample_alive :: "sample_world \<Rightarrow> bool" where
  "sample_alive w \<longleftrightarrow> C_Id (w_conn w) = ''cxn_1'' \<and> length (conn_live_rows like_exec tables (w_db w) ''cxn_1'') = 1"

lemma sample_update:
  assumes "length (conn_live_rows like_exec tables db i) = 1" "fst ` set as \<inter> {''id'', ''deleted_at''} = {}"
  shows "\<exists>db'. update_one mem_table_ops db as (live_id i) msg several = (db', None) \<and> length (conn_live_rows like_exec tables db' i) = 1"
proof -
  have "length (filter (row_matches like_exec (live_id i)) (tables db ConnectionsTable)) = 1" using assms(1) by (simp add: conn_live_rows_def)
  then obtain db' where u: "update_one mem_table_ops db as (live_id i) msg several = (db', None)" by (simp add: update_one_def mem_ops_def)
  from sample.update_one_live [unfolded sample_simps, OF this assms(2)] assms(1) show ?thesis using u by simp
qed

lemma sample_writes:
  assumes "sample_alive w"
  shows "\<exists>w'. SetSetupStep sample_service p w = (w', None) \<and> sample_alive w' \<and> w_ext w' = w_ext w"
    "\<exists>w'. SetSetupError sample_service m w = (w', None) \<and> sample_alive w' \<and> w_ext w' = w_ext w"
    "\<exists>w'. SetState sample_service ''configured'' w = (w', None) \<and> sample_alive w' \<and> w_ext w' = w_ext w"
proof -
  have i: "C_Id (w_conn w) = ''cxn_1''" and one: "length (conn_live_rows like_exec tables (w_db w) ''cxn_1'') = 1" using assms by (simp_all add: sample_alive_def)
  have "\<exists>w'. write_conn op ch w = (w', None) \<and> sample_alive w' \<and> w_ext w' = w_ext w"
    if "op (w_db w) = update_one mem_table_ops (w_db w) as (live_id ''cxn_1'') msg several" "fst ` set as \<inter> {''id'', ''deleted_at''} = {}"
      "\<And>c. C_Id (ch c) = C_Id c" for op ch as msg several
    using sample_update [OF one that(2), of msg several] that(1,3) i by (auto simp: write_conn_def sample_alive_def)
  from this [where as = "[(''updated_at'', VTime 1), (''setup_step_id'', step_value p)]"]
    this [where as = "[(''updated_at'', VTime 1), (''setup_error'', text_ptr_value m)]"]
    this [where as = "[(''updated_at'', VTime 1), (''state'', VText ''configured'')]"]
  show "\<exists>w'. SetSetupStep sample_service p w = (w', None) \<and> sample_alive w' \<and> w_ext w' = w_ext w"
    "\<exists>w'. SetSetupError sample_service m w = (w', None) \<and> sample_alive w' \<and> w_ext w' = w_ext w"
    "\<exists>w'. SetState sample_service ''configured'' w = (w', None) \<and> sample_alive w' \<and> w_ext w' = w_ext w"
    by (simp_all add: SetSetupStep_def SetConnectionSetupStep_def SetSetupError_def SetConnectionSetupError_def SetState_def SetConnectionState_def
        IsValidConnectionState_def i)
qed

lemma sample_alive_load: "step \<noteq> [] \<Longrightarrow> sample_alive (load (sample_loaded step) (sample_stored step ev))"
  by (simp add: sample_alive_def load_def sample_loaded_def sample_connection_def sample_stored_def no_rows_def conn_live_rows_def row_matches_def
      assign_def connection_values_def id_value_def time_ptr_value_def)

subsection \<open>Properties\<close>

text \<open>
  Property C37. A connector whose setup flow passes validation gives a well-formed manifest flow: with
  authentication steps under the reserved prefix, the identifiers of preconnect, authentication and
  configure steps are pairwise distinct and not empty, none is that of the verify step, and the
  authentication boundary lies in the flow, which is what navigation relies on.
\<close>

theorem validated_flow_ok:
  assumes "ValidateWithJavascript eval vc (cd_SetupFlow def) = None" "reserved_steps (auth_steps s def)"
  shows "flow_ok (buildManifestSetupFlow s def) \<and> [] \<notin> step_Id ` set (flow_steps (buildManifestSetupFlow s def))"
  by (rule built_flow_ok [OF assms])

theorem validated_flow_ok_witness:
  "flow_ok (buildManifestSetupFlow sample_service sample_connector) \<and>
   map step_Id (flow_steps (buildManifestSetupFlow sample_service sample_connector)) = [''apxy:auth:api_key'', ''channel'']"
  using validated_flow_ok [OF sample_validated sample_reserved]
  by (simp add: built_steps pre_specs_def conf_specs_def sample_connector_def [THEN arg_cong [of _ _ cd_SetupFlow]] phase_steps_def
      sample_channel_def sample_key_step_def)





text \<open>
  Property C7. A submitted form follows the flow: a submission that succeeds named the connection's
  current step, that step is an eligible form of the flow, its data was accepted, and the connection is
  afterwards at the step the flow offers next, or configured with no step when there is none. Nothing
  else of its setup changes.
\<close>

theorem submit_follows_flow:
  assumes "connection_setup like s rows eval def" "SubmitForm s def req w = (w', Inr resp)"
  shows "\<exists>st w1 next. C_SetupStep (w_conn w) = Some (sub_StepId req) \<and>
    StepById (buildManifestSetupFlow s def) w (sub_StepId req) = Inr (Some st, True) \<and>
    step_Type st = ManifestStepTypeForm \<and> OnSubmit st (sub_Data req) w = (w1, None) \<and>
    NextStep (buildManifestSetupFlow s def) w1 (sub_StepId req) = Inr next \<and>
    led_to (map_option step_Id next) (w_conn w) (w_conn w')"
  by (rule connection_setup.submit_leads [OF assms])

theorem submit_follows_flow_witness:
  "\<exists>w'. SubmitForm sample_service sample_connector \<lparr>sub_StepId = ''apxy:auth:api_key'', sub_Data = RawDoc (JObj []), sub_ReturnToUrl = []\<rparr>
      (load (sample_loaded ''apxy:auth:api_key'') (sample_stored ''apxy:auth:api_key'' [])) = (w', Inr (ConnectionSetupVerifying ''cxn_1'')) \<and>
    C_SetupStep (w_conn w') = Some ''apxy:verify'' \<and> C_State (w_conn w') = ''setup''"
proof -
  let ?f = "buildManifestSetupFlow sample_service sample_connector" and ?i = "''apxy:auth:api_key''"
  let ?req = "\<lparr>sub_StepId = ?i, sub_Data = RawDoc (JObj []), sub_ReturnToUrl = []\<rparr>"
  let ?w = "load (sample_loaded ?i) (sample_stored ?i [])"
  let ?w1 = "log_event ''key'' ?w"
  have cur: "C_SetupStep (w_conn ?w) = Some ?i" "C_Id (w_conn ?w) = ''cxn_1''" "C_State (w_conn ?w) = ''setup''"
    by (simp_all add: load_def sample_loaded_def sample_connection_def)
  have step: "StepById ?f ?w ?i = Inr (Some sample_key_step, True)"
    by (simp add: StepById_def NewVerifyStep_def sample_flow isStepEligible_def sample_key_step_def)
  have "sample_alive ?w1" using sample_alive_load [of ?i "[]"] by (simp add: sample_alive_def log_event_def)
  then obtain w2 where w2: "SetSetupStep sample_service (Some ''apxy:verify'') ?w1 = (w2, None)" "C_Id (w_conn w2) = ''cxn_1''"
    using sample_writes(1) [of ?w1 "Some ''apxy:verify''"] by (auto simp: sample_alive_def)
  have "advanceToStep sample_service (Some verifyStep) [] ?w1 = (w2\<lparr>w_ext := w_ext w2 @ [''verify cxn_1'']\<rparr>, Inr (ConnectionSetupVerifying ''cxn_1''))"
    by (simp add: advanceToStep_def setup_step_of_def MustNewSetupStep_def NewSetupStep_def w2 then_do_def EnqueueVerifyConnection_def
        wrap_err_def renderStepResponse_def sample_service_def [THEN arg_cong [of _ _ sv_enqueue]])
  moreover have key: "OnSubmit sample_key_step data v = (log_event ''key'' v, None)" "step_Id sample_key_step = ?i"
      "step_Type sample_key_step = ManifestStepTypeForm" for data v
    by (simp_all add: sample_key_step_def)
  moreover have "isAuthMethodSetupStep sample_connector ?i"
    by (simp add: isAuthMethodSetupStep_def FindStepById_def find_in_phase_def sample_connector_def sample_channel_def)
  ultimately have "SubmitForm sample_service sample_connector ?req ?w =
      (w2\<lparr>w_ext := w_ext w2 @ [''verify cxn_1'']\<rparr>, Inr (ConnectionSetupVerifying ''cxn_1''))"
    by (simp add: SubmitForm_def ensureStepMatches_def cur step sample_next then_do_def resolveAuthRequiredIfCredentialsEstablished_def Let_def)
  from submit_follows_flow [OF sample.connection_setup_axioms this] this cur sample_next step
  show ?thesis by (auto simp: led_to_def)
qed



text \<open>
  Property C39. Credentials established for a connection that is at a failed step complete its setup:
  such a step is in no flow, so nothing comes after it and the connection becomes configured, without
  verification and without the configure steps, and keeps its setup error. A provider's callback that
  arrives after another one has failed has this effect.
\<close>

theorem credentials_after_failure_complete:
  assumes "connection_setup like s rows eval def" "C_SetupStep (w_conn w) = Some i" "IsTerminalFailure i"
    and "HandleCredentialsEstablished s def w = (w', Inr pending)"
  shows "\<not> pending \<and> C_State (w_conn w') = ''configured'' \<and> C_SetupStep (w_conn w') = None \<and> C_SetupError (w_conn w') = C_SetupError (w_conn w)"
proof -
  obtain w1 nx where n: "NextStep (buildManifestSetupFlow s def) w1 i = Inr nx" "led_to (map_option step_Id nx) (w_conn w) (w_conn w')"
      "pending = (nx \<noteq> None)"
    using connection_setup.credentials_leads [OF assms(1,4)] assms(2) by auto
  have "i \<notin> step_Id ` set (flow_steps (buildManifestSetupFlow s def)) \<and> i \<noteq> SetupStepVerify"
    using failure_not_in_flow connection_setup.validated connection_setup.reserved assms(1,3) by metis
  then have "find_id i 0 (flow_steps (buildManifestSetupFlow s def)) = None" "i \<noteq> ''apxy:verify''" by (auto simp: SetupStepVerify_def ApxyStepPrefix_def)
  then have "NextStep (buildManifestSetupFlow s def) w1 i = Inr None"
    by (simp add: NextStep_def NewVerifyStep_def Let_def del: find_id_None)
  with n show ?thesis by (auto simp: led_to_def)
qed

lemma sample_resolve:
  assumes "C_Id (w_conn w) = ''cxn_1''"
  shows "\<exists>w'. resolveRequiredActionNotifications sample_service [k] w = (w', None) \<and> w_conn w' = w_conn w"
  using assms
  by (simp add: resolveRequiredActionNotifications_def resolveNotificationsForResourceKeys_def ResolveNotificationsForResourceKeys_def
      mem_ops_def bumpNotificationCacheVersion_def)

theorem credentials_after_failure_complete_witness:
  "\<exists>w'. HandleCredentialsEstablished sample_service sample_connector (load (sample_loaded SetupStepAuthFailed) (sample_stored SetupStepAuthFailed []))
      = (w', Inr False) \<and> C_State (w_conn w') = ''configured'' \<and> C_SetupStep (w_conn w') = None"
proof -
  let ?f = "buildManifestSetupFlow sample_service sample_connector"
  let ?ld = "load (sample_loaded SetupStepAuthFailed) (sample_stored SetupStepAuthFailed [])"
  have cur: "C_SetupStep (w_conn ?ld) = Some SetupStepAuthFailed" "GetHealthState ?ld = ''healthy''" "C_State (w_conn ?ld) = ''setup''"
    by (simp_all add: load_def sample_loaded_def sample_connection_def GetHealthState_def)
  have fail: "IsTerminalFailure SetupStepAuthFailed" by (simp add: IsTerminalFailure_def)
  have "sample_alive ?ld" by (rule sample_alive_load) (simp add: SetupStepAuthFailed_def)
  then obtain w1 where w1: "SetSetupStep sample_service None ?ld = (w1, None)" "sample_alive w1" using sample_writes(1) by blast
  then have st: "C_State (w_conn w1) = ''setup''" using cur by (auto dest!: setters_None)
  obtain w2 where w2: "SetState sample_service ''configured'' w1 = (w2, None)" "sample_alive w2" using sample_writes(3) [OF w1(2)] by blast
  obtain w3 where w3: "resolveRequiredActionNotifications sample_service [''setup_required''] w2 = (w3, None)" "w_conn w3 = w_conn w2"
    using sample_resolve w2(2) by (metis sample_alive_def)
  obtain w4 where w4: "resolveRequiredActionNotifications sample_service [''auth_required''] w3 = (w4, None)"
    using sample_resolve [of w3] w3(2) w2(2) by (auto simp: sample_alive_def)
  have "find_id SetupStepAuthFailed 0 (flow_steps ?f) = None" "SetupStepAuthFailed \<noteq> ''apxy:verify''"
    using failure_not_in_flow [OF sample_validated sample_reserved fail] by (auto simp: SetupStepVerify_def ApxyStepPrefix_def)
  then have "NextStep ?f v SetupStepAuthFailed = Inr None" for v by (simp add: NextStep_def NewVerifyStep_def Let_def del: find_id_None)
  moreover have "completeFlow sample_service ?ld = (w3, Inr (ConnectionSetupComplete (C_Id (w_conn w3))))"
    by (simp add: completeFlow_def cur w1 w2 w3 st then_do_def wrap_err_def)
  moreover have "MarkHealthState sample_service ''healthy'' ?ld = (?ld, None)"
    by (simp add: MarkHealthState_def cur IsValidConnectionHealthState_def)
  ultimately have "HandleCredentialsEstablished sample_service sample_connector ?ld = (w4, Inr False)"
    by (simp add: HandleCredentialsEstablished_def cur w4 then_do_def wrap_err_def Let_def)
  with credentials_after_failure_complete [OF sample.connection_setup_axioms cur(1) fail this] show ?thesis by auto
qed

lemma merge_distinct:
  assumes "ValidateAndMergeData sc st i data config = (c, None)" "\<And>m. config = Some m \<Longrightarrow> distinct (map fst m)"
  shows "\<exists>m. c = Some m \<and> distinct (map fst m)"
proof -
  have "distinct (map fst m) \<Longrightarrow> distinct (map fst (fold (\<lambda>(k, v) c. if k \<in> A then AList.update k v c else c) kvs m))" for kvs m :: cfg and A
    by (induction kvs arbitrary: m) (auto simp: distinct_update)
  with assms show ?thesis by (auto simp: ValidateAndMergeData_def Let_def split: if_splits sum.splits option.splits)
qed

lemma json_map_same:
  assumes "distinct (map fst m)"
  shows "\<exists>m'. json_map (JObj m) = Inr (Some m') \<and> map_of m' = map_of m"
  using fold_update_if_distinct [OF assms, of "\<lambda>_. True" "[]"] by (auto simp: json_map_def fun_eq_iff)

text \<open>
  Property C9. A form writes only the fields of its schema. When the submission of a schema step
  succeeds, the configuration read back, from the cache and, after the connection is loaded anew, by
  decrypting what was stored, has for each field of the schema that was submitted its new value and
  for every other field its old one.
\<close>

theorem form_writes_schema_fields:
  assumes "encryption (sv_encrypt s)" "w_cache w = None" "GetConfiguration s w = (w0, Inr existing)"
    and "OnSubmit (newSchemaFormStep s spec) data w = (w', None)"
  shows "\<exists>j submitted allowed cfg. data = RawDoc j \<and> json_map j = Inr submitted \<and>
    extractSchemaPropertyNames (spec_JsonSchema spec) = Inr allowed \<and>
    snd (GetConfiguration s w') = Inr cfg \<and> snd (GetConfiguration s (load (w_conn w') w')) = Inr cfg \<and>
    (\<forall>k. cfg_lookup cfg k = (if k \<in> set allowed \<and> cfg_lookup submitted k \<noteq> None then cfg_lookup submitted k else cfg_lookup existing k))"
proof -
  obtain merged where m: "ValidateAndMergeData (sv_compiler s) spec (spec_Id spec) data existing = (merged, None)"
    and set: "SetConfiguration s merged w0 = (w', None)"
    using assms(3,4) by (auto simp: newSchemaFormStep_def NewFormStep_def wrap_err_def [symmetric] split: prod.splits option.splits)
  have "distinct (map fst e)" if "existing = Some e" for e
    using assms(2,3) that json_map_distinct
    by (auto simp: GetConfiguration_def result_bind_def split: if_splits sum.splits)
  then obtain mm where mm: "merged = Some mm" "distinct (map fst mm)" using merge_distinct [OF m] by blast
  then obtain m' where m': "json_map (JObj mm) = Inr (Some m')" "map_of m' = map_of mm" using json_map_same by blast
  obtain ef where ef: "EncryptStringForNamespace (sv_encrypt s) (w_random w0) (C_Namespace (w_conn w0)) (RawDoc (JObj mm)) = Inr ef"
    "w_cache w' = Some (Some m')" "C_EncryptedConfiguration (w_conn w') = Some ef"
    using set by (auto simp: SetConfiguration_def mm m'(1) Let_def split: sum.splits prod.splits option.splits)
  have "Decrypt (sv_encrypt s) ef = Inr (RawDoc (JObj mm))" "ef_ID ef \<noteq> []"
    using encryption.decrypts_namespace [OF assms(1) ef(1)] encryption.data_key_namespace [OF assms(1) ef(1)]
    by (auto simp: HasPrefix_def PrefixDataEncryptionKey_def)
  then have "snd (GetConfiguration s (load (w_conn w') w')) = Inr (Some m')"
    using ef(3) m'(1) by (simp add: GetConfiguration_def load_def config_is_absent_def EncryptedField_IsZero_def json_Unmarshal_def)
  moreover have "snd (GetConfiguration s w') = Inr (Some m')" using ef(2) by (simp add: GetConfiguration_def)
  moreover have "cfg_lookup (Some m') = cfg_lookup merged" using m'(2) mm(1) by (simp add: cfg_lookup_def fun_eq_iff)
  ultimately show ?thesis using merge_fields [OF m] by metis
qed

theorem form_writes_schema_fields_witness:
  "\<exists>w' cfg. OnSubmit (newSchemaFormStep sample_service sample_channel) (RawDoc (JObj [(''channel'', JStr ''general'')]))
      (load (sample_loaded ''channel'') (sample_stored ''channel'' [])) = (w', None) \<and>
    snd (GetConfiguration sample_service (load (w_conn w') w')) = Inr cfg \<and> cfg_lookup cfg ''channel'' = Some (JStr ''general'') \<and>
    cfg_lookup cfg ''admin'' = None"
proof -
  let ?s = "sample_service" and ?doc = "JObj [(''channel'', JStr ''general'')]"
  let ?ld = "load (sample_loaded ''channel'') (sample_stored ''channel'' [])"
  have enc: "encryption (sv_encrypt ?s)" unfolding sample_service_def core_service.simps by (rule vault_encryption) simp
  have cfg: "GetConfiguration ?s ?ld = (?ld\<lparr>w_cache := Some None\<rparr>, Inr None)"
    by (simp add: GetConfiguration_def load_def config_is_absent_def sample_loaded_def sample_connection_def)
  have one: "length (conn_live_rows like_exec tables (w_db ?ld) ''cxn_1'') = 1" and i: "C_Id (w_conn ?ld) = ''cxn_1''"
    using sample_alive_load [of "''channel''" "[]"] by (simp_all add: sample_alive_def)
  have names: "extractSchemaPropertyNames (spec_JsonSchema sample_channel) = Inr [''channel'']" by code_simp
  have merge: "ValidateAndMergeData (sv_compiler ?s) sample_channel (spec_Id sample_channel) (RawDoc ?doc) None = (Some [(''channel'', JStr ''general'')], None)"
    using names by (simp add: ValidateAndMergeData_def json_Unmarshal_def json_map_def validateDataAgainstSchema_def sample_service_def)
      (simp add: sample_channel_def)
  obtain ef where ef: "EncryptStringForNamespace (sv_encrypt ?s) n ns (RawDoc ?doc) = Inr ef" for n ns
    by (simp add: sample_service_def vault_def Let_def)
  let ?as = "[(''updated_at'', VTime 1), (''encrypted_configuration'', cfg_value (Some ef)), (''encrypted_at'', VTime 1)]"
  obtain db' where "SetConnectionEncryptedConfiguration mem_table_ops 1 (w_db ?ld) ''cxn_1'' (Some ef) = (db', None)"
    using sample_update [OF one, of ?as] by (auto simp: SetConnectionEncryptedConfiguration_def)
  then obtain w' where set: "SetConfiguration ?s (Some [(''channel'', JStr ''general'')]) (?ld\<lparr>w_cache := Some None\<rparr>) = (w', None)"
    using i by (simp add: SetConfiguration_def Let_def json_map_def ef)
  have w': "OnSubmit (newSchemaFormStep ?s sample_channel) (RawDoc ?doc) ?ld = (w', None)"
    by (simp add: newSchemaFormStep_def NewFormStep_def cfg merge set)
  have "w_cache ?ld = None" by (simp add: load_def)
  from form_writes_schema_fields [OF enc this cfg w'] names
  obtain submitted cfg' where "json_map ?doc = Inr submitted" "snd (GetConfiguration ?s (load (w_conn w') w')) = Inr cfg'"
      "\<forall>k. cfg_lookup cfg' k = (if k \<in> {''channel''} \<and> cfg_lookup submitted k \<noteq> None then cfg_lookup submitted k else cfg_lookup None k)"
    by auto
  with w' show ?thesis by (auto simp: json_map_def cfg_lookup_def)
qed

end
