(* ===== verification/Setup_Routes.thy ===== *)
theory Setup_Routes
  imports Setup_Lifecycle
begin

text \<open>
  The public setup endpoints (\<^verbatim>\<open>internal/routes/public_setup.go\<close>): a third party sends the user back to
  \<^verbatim>\<open>/setup/connections/{id}/advance\<close> or \<^verbatim>\<open>/abort\<close> with a setup token, which is verified, consumed and
  compared with the endpoint, the connection and the session's actor before the connection moves. The
  middleware that authenticates the session is \<open>Request_Auth\<close>; a request here carries the actor it found.
  The answer is the redirect's ingredients, the return URL of the token, the connection and whether
  setup is pending, or the error page; the URL assembled from them is not modelled.
\<close>

subsection \<open>The handlers\<close>

record setup_http_request =
  rq_Actor :: string
  rq_Id :: string
  rq_QueryToken :: string
  rq_FormToken :: string

datatype setup_answer = SetupRedirected string string bool | SetupErrorPage gerror

definition request_token :: "setup_http_request \<Rightarrow> string" where
  "request_token rq = (if rq_QueryToken rq = [] then rq_FormToken rq else rq_QueryToken rq)"

definition handle ::
  "('db, 'r, 'x) service \<Rightarrow> string \<Rightarrow> (string \<Rightarrow> claims \<Rightarrow> ('db, 'r, 'x) world \<Rightarrow> ('db, 'r, 'x) world \<times> (gerror + setup_answer)) \<Rightarrow>
   setup_http_request \<Rightarrow> ('db, 'r, 'x) world \<Rightarrow> ('db, 'r, 'x) world \<times> setup_answer" where
  "handle s endpointIntent action rq w =
     (case ID_Parse (rq_Id rq) of
        (_, Some e) \<Rightarrow> (w, SetupErrorPage (Wrapf ''invalid connection id: %w'' [] e))
      | (connectionId, None) \<Rightarrow>
          if connectionId = [] then (w, SetupErrorPage (Errf ''invalid connection id: %w'' [''nil'']))
          else if request_token rq = [] then (w, SetupErrorPage (Err ''missing setup token''))
          else (case VerifyAndConsume (sv_tokens s) (sv_encrypt s) (w_redis w) (sv_redis_now s) (request_token rq) of
                  (r', Inl e) \<Rightarrow> (w\<lparr>w_redis := r'\<rparr>, SetupErrorPage e)
                | (r', Inr claims) \<Rightarrow>
                    let w1 = w\<lparr>w_redis := r'\<rparr> in
                    if mi_Intent claims \<noteq> endpointIntent
                    then (w1, SetupErrorPage (Errf ''token intent %q does not match endpoint %q'' [mi_Intent claims, endpointIntent]))
                    else if mi_ConnectionId claims \<noteq> connectionId then (w1, SetupErrorPage (Err ''token does not authorize this connection''))
                    else if mi_ActorId claims \<noteq> rq_Actor rq then (w1, SetupErrorPage (Err ''token does not authorize this actor''))
                    else (case action connectionId claims w1 of
                            (w2, Inl e) \<Rightarrow> (w2, SetupErrorPage e)
                          | (w2, Inr a) \<Rightarrow> (w2, a))))"

definition doAdvance ::
  "('db, 'r, 'x) service \<Rightarrow> string \<Rightarrow> claims \<Rightarrow> ('db, 'r, 'x) world \<Rightarrow> ('db, 'r, 'x) world \<times> (gerror + setup_answer)" where
  "doAdvance s connectionId claims w =
     (case getConnection s connectionId w of
        Inl e \<Rightarrow> (w, Inl (Wrapf ''failed to load connection: %w'' [] e))
      | Inr (w0, def) \<Rightarrow>
          if C_SetupStep (w_conn w0) \<noteq> Some (mi_StepId claims)
          then (w0, Inl (Err ''connection setup step has moved since token was issued''))
          else (case HandleCredentialsEstablished s def w0 of
                  (w1, Inl e) \<Rightarrow> (w1, Inl (Wrapf ''failed to advance connection: %w'' [] e))
                | (w1, Inr pending) \<Rightarrow> (w1, Inr (SetupRedirected (mi_ReturnToUrl claims) connectionId pending))))"

definition doAbort ::
  "('db, 'r, 'x) service \<Rightarrow> string \<Rightarrow> claims \<Rightarrow> ('db, 'r, 'x) world \<Rightarrow> ('db, 'r, 'x) world \<times> (gerror + setup_answer)" where
  "doAbort s connectionId claims w =
     (case AbortConnection s connectionId w of
        (w1, Some e) \<Rightarrow> (w1, Inl (Wrapf ''failed to abort connection: %w'' [] e))
      | (w1, None) \<Rightarrow> (w1, Inr (SetupRedirected (mi_ReturnToUrl claims) connectionId False)))"

definition advance :: "('db, 'r, 'x) service \<Rightarrow> setup_http_request \<Rightarrow> ('db, 'r, 'x) world \<Rightarrow> ('db, 'r, 'x) world \<times> setup_answer" where
  "advance s = handle s IntentAdvance (doAdvance s)"

definition abort :: "('db, 'r, 'x) service \<Rightarrow> setup_http_request \<Rightarrow> ('db, 'r, 'x) world \<Rightarrow> ('db, 'r, 'x) world \<times> setup_answer" where
  "abort s = handle s IntentAbort (doAbort s)"

subsection \<open>What a link is good for\<close>

lemma handle_consumed:
  assumes "ID_Parse (rq_Id rq) = (rq_Id rq, None)" "rq_Id rq \<noteq> []" "request_token rq \<noteq> []"
    and "VerifyAndConsume (sv_tokens s) (sv_encrypt s) (w_redis w) (sv_redis_now s) (request_token rq) = (r', Inr c)"
  shows "handle s intent action rq w =
    (let w1 = w\<lparr>w_redis := r'\<rparr> in
     if mi_Intent c = intent \<and> mi_ConnectionId c = rq_Id rq \<and> mi_ActorId c = rq_Actor rq
     then (case action (rq_Id rq) c w1 of (w2, Inl e) \<Rightarrow> (w2, SetupErrorPage e) | (w2, Inr a) \<Rightarrow> (w2, a))
     else (w1, SetupErrorPage
       (if mi_Intent c \<noteq> intent then Errf ''token intent %q does not match endpoint %q'' [mi_Intent c, intent]
        else if mi_ConnectionId c \<noteq> rq_Id rq then Err ''token does not authorize this connection''
        else Err ''token does not authorize this actor'')))"
  using assms by (simp add: handle_def Let_def)

lemma minted_claims:
  assumes "token_redis ops entry tc" "encryption enc" "Mint tc enc nonce rnd r t i ttl = (r1, Inr token)" "t \<le> t'" "t' < t + ttl"
    and "\<nexists>e. snd (GETDEL tc r1 t' (redisKey token)) = Inl e"
  shows "\<exists>r2. VerifyAndConsume tc enc r1 t' token = (r2, Inr (mint_input.extend i \<lparr>cl_Jti = token\<rparr>)) \<and> token \<noteq> []"
proof -
  from token_redis.Mint_stores [OF assms(1,2,3)]
  obtain ef where ef: "entry r1 t (redisKey token) = Some (RString (ToInlineString ef), Some (t + ttl))"
      "ParseInlineString (ToInlineString ef) = Inr ef" "Decrypt enc ef = Inr (RawDoc (Claims_json (mint_input.extend i \<lparr>cl_Jti = token\<rparr>)))"
      "token \<noteq> []" by auto
  obtain r2 x where v: "VerifyAndConsume tc enc r1 t' token = (r2, x)" by fastforce
  have "redis_db ops entry" using assms(1) by (rule token_redis.axioms)
  from redis_db.entry_later [OF this ef(1) assms(4,5)] token_redis.consume_stored [OF assms(1) _ ef(2,3,4) v] assms(6)
  have "x = Inr (mint_input.extend i \<lparr>cl_Jti = token\<rparr>)" by fastforce
  with v ef(4) show ?thesis by blast
qed

text \<open>
  Property C5. An advance link is good for exactly what it was rendered for. Given a token minted for a
  connection, step, actor and intent, presented within its lifetime while Redis answers, for a
  connection that can move on, the endpoint answers with the redirect if and only if the token is an
  advance token, the path names its connection, the session its actor, and the connection is still at
  its step; otherwise the database is left as it was.
\<close>

theorem advance_link_exact:
  assumes "token_redis (sv_redis s) entry (sv_tokens s)" "encryption (sv_encrypt s)"
    and "Mint (sv_tokens s) (sv_encrypt s) nonce rnd r t i ttl = (w_redis w, Inr (request_token rq))" "t \<le> sv_redis_now s" "sv_redis_now s < t + ttl"
    and "\<nexists>e. snd (GETDEL (sv_tokens s) (w_redis w) (sv_redis_now s) (redisKey (request_token rq))) = Inl e"
    and "ID_Parse (rq_Id rq) = (rq_Id rq, None)" "rq_Id rq \<noteq> []"
    and "\<And>r'. \<exists>def w1 pending. getConnection s (rq_Id rq) (w\<lparr>w_redis := r'\<rparr>) = Inr (load c (w\<lparr>w_redis := r'\<rparr>), def) \<and>
      HandleCredentialsEstablished s def (load c (w\<lparr>w_redis := r'\<rparr>)) = (w1, Inr pending)"
  shows "if mi_Intent i = IntentAdvance \<and> mi_ConnectionId i = rq_Id rq \<and> mi_ActorId i = rq_Actor rq \<and> C_SetupStep c = Some (mi_StepId i)
    then \<exists>pending. snd (advance s rq w) = SetupRedirected (mi_ReturnToUrl i) (rq_Id rq) pending
    else (\<exists>e. snd (advance s rq w) = SetupErrorPage e) \<and> w_db (fst (advance s rq w)) = w_db w"
proof -
  let ?cl = "mint_input.extend i \<lparr>cl_Jti = request_token rq\<rparr>"
  obtain r2 where v: "VerifyAndConsume (sv_tokens s) (sv_encrypt s) (w_redis w) (sv_redis_now s) (request_token rq) = (r2, Inr ?cl)" "request_token rq \<noteq> []"
    using minted_claims [OF assms(1-6)] by blast
  have cl: "mi_Intent ?cl = mi_Intent i" "mi_ConnectionId ?cl = mi_ConnectionId i" "mi_ActorId ?cl = mi_ActorId i" "mi_StepId ?cl = mi_StepId i"
    "mi_ReturnToUrl ?cl = mi_ReturnToUrl i" by (simp_all add: mint_input.defs)
  from assms(9) obtain def w1 pending where g: "getConnection s (rq_Id rq) (w\<lparr>w_redis := r2\<rparr>) = Inr (load c (w\<lparr>w_redis := r2\<rparr>), def)"
      "HandleCredentialsEstablished s def (load c (w\<lparr>w_redis := r2\<rparr>)) = (w1, Inr pending)" by blast
  show ?thesis
    using handle_consumed [OF assms(7,8) v(2,1), of IntentAdvance "doAdvance s"] g
    by (auto simp: advance_def doAdvance_def cl Let_def load_def)
qed

lemma sample_credentials:
  fixes r' :: mem_redis
  defines "w \<equiv> load (sample_loaded ''apxy:auth:api_key'') ((sample_stored ''apxy:auth:api_key'' [])\<lparr>w_redis := r'\<rparr>)"
  shows "\<exists>w1. HandleCredentialsEstablished sample_service sample_connector w = (w1, Inr True)"
proof -
  have cur: "C_SetupStep (w_conn w) = Some ''apxy:auth:api_key''" "GetHealthState w = ''healthy''"
    by (simp_all add: w_def load_def sample_loaded_def sample_connection_def GetHealthState_def)
  have "sample_alive w" using sample_alive_load [of "''apxy:auth:api_key''" "[]"] by (simp add: w_def sample_alive_def load_def)
  then obtain w1 where w1: "SetSetupStep sample_service (Some ''apxy:verify'') w = (w1, None)" "C_Id (w_conn w1) = ''cxn_1''"
    using sample_writes(1) [of w "Some ''apxy:verify''"] by (auto simp: sample_alive_def)
  have "MarkHealthState sample_service ''healthy'' w = (w, None)" by (simp add: MarkHealthState_def cur IsValidConnectionHealthState_def)
  then show ?thesis
    by (simp add: HandleCredentialsEstablished_def cur sample_next then_do_def wrap_err_def setup_step_of_def MustNewSetupStep_def NewSetupStep_def
        w1 EnqueueVerifyConnection_def sample_service_def [THEN arg_cong [of _ _ sv_enqueue]])
qed

definition sample_rq :: setup_http_request where
  "sample_rq = \<lparr>rq_Actor = ''act_1'', rq_Id = ''cxn_1'', rq_QueryToken = ''stk_a'', rq_FormToken = []\<rparr>"

definition sample_minted :: sample_world where
  "sample_minted = (sample_stored ''apxy:auth:api_key'' [])
     \<lparr>w_redis := fst (Mint mem_token_commands (sv_encrypt sample_service) 0 ''a'' [] 0 sample_link 900000)\<rparr>"

lemma sample_tokens:
  "sv_tokens sample_service = mem_token_commands" "sv_redis sample_service = mem_redis_ops" "sv_redis_now sample_service = 0"
  "request_token sample_rq = ''stk_a''" "rq_Id sample_rq = ''cxn_1''" "rq_Actor sample_rq = ''act_1''"
  by (simp_all add: sample_service_def sample_rq_def request_token_def)

lemma sample_encryption: "encryption (sv_encrypt sample_service)"
  unfolding sample_service_def core_service.simps by (rule vault_encryption) simp

lemma sample_token_redis: "token_redis (sv_redis sample_service) mem_entry (sv_tokens sample_service)"
  unfolding sample_tokens by (rule mtoken.token_redis_axioms)

lemma sample_mint:
  "Mint (sv_tokens sample_service) (sv_encrypt sample_service) 0 ''a'' [] 0 sample_link 900000 = (w_redis sample_minted, Inr (request_token sample_rq))"
proof -
  have "snd (Mint mem_token_commands (sv_encrypt sample_service) 0 ''a'' [] 0 sample_link 900000) = Inr ''stk_a''"
    by (simp add: Mint_def MintInput_Validate_def sample_link_def Intent_IsValid_def IntentAdvance_def Let_def mem_token_commands_def
        sample_service_def vault_def Claims_json_def ToInlineString_def)
  then show ?thesis by (simp add: sample_tokens sample_minted_def prod_eq_iff)
qed

lemma sample_getdel: "\<nexists>e. snd (GETDEL (sv_tokens sample_service) (w_redis sample_minted) (sv_redis_now sample_service) (redisKey (request_token sample_rq))) = Inl e"
  using token_redis.Mint_stores [OF sample_token_redis sample_encryption sample_mint] by (auto simp: sample_tokens mem_token_commands_def)

lemma sample_moves:
  "\<exists>def w1 pending. getConnection sample_service (rq_Id sample_rq) (sample_minted\<lparr>w_redis := r'\<rparr>) =
      Inr (load (sample_loaded ''apxy:auth:api_key'') (sample_minted\<lparr>w_redis := r'\<rparr>), def) \<and>
    HandleCredentialsEstablished sample_service def (load (sample_loaded ''apxy:auth:api_key'') (sample_minted\<lparr>w_redis := r'\<rparr>)) = (w1, Inr pending)"
proof -
  have "getConnection sample_service (rq_Id sample_rq) (sample_minted\<lparr>w_redis := r'\<rparr>) =
      Inr (load (sample_loaded ''apxy:auth:api_key'') (sample_minted\<lparr>w_redis := r'\<rparr>), sample_connector)"
    using sample_load [of "''apxy:auth:api_key''" "[]"]
    by (auto simp: sample_tokens sample_minted_def getConnection_def getConnectionForDb_def load_def split: sum.splits dest: arg_cong [of _ _ w_conn])
  with sample_credentials [of r'] show ?thesis by (auto simp: sample_minted_def)
qed

lemma sample_id: "ID_Parse (rq_Id sample_rq) = (rq_Id sample_rq, None)" "rq_Id sample_rq \<noteq> []"
  by (simp_all add: sample_tokens ID_Parse_def validPrefixes_def HasPrefix_def)

theorem advance_link_exact_witness:
  "\<exists>pending. snd (advance sample_service sample_rq sample_minted) = SetupRedirected ''https://example.com/done'' ''cxn_1'' pending"
proof -
  have time: "(0 :: int) \<le> sv_redis_now sample_service" "sv_redis_now sample_service < 0 + 900000" by (simp_all add: sample_tokens)
  from advance_link_exact [OF sample_token_redis sample_encryption sample_mint time sample_getdel sample_id sample_moves]
  show ?thesis by (simp add: sample_tokens sample_link_def IntentAdvance_def sample_loaded_def)
qed

text \<open>
  Establishing credentials touches Redis only to bump the notification version, so a spent token stays
  spent.
\<close>

definition bump :: "('db, 'r, 'x) service \<Rightarrow> 'r \<Rightarrow> 'r" where
  "bump s r = snd (INCR (sv_redis s) r (sv_redis_now s) ''notifications:version'')"

lemma setters_redis [simp]:
  "w_redis (fst (SetSetupStep s p w)) = w_redis w" "w_redis (fst (SetState s st w)) = w_redis w" "w_redis (fst (MarkHealthState s h w)) = w_redis w"
  "w_redis (fst (EnqueueVerifyConnection s i w)) = w_redis w"
  by (auto simp: SetSetupStep_def SetState_def MarkHealthState_def EnqueueVerifyConnection_def fst_write_conn split: prod.splits option.splits)

lemma resolve_redis: "w_redis (fst (resolveRequiredActionNotifications s ks w)) \<in> {w_redis w, bump s (w_redis w)}"
  by (auto simp: resolveRequiredActionNotifications_def resolveNotificationsForResourceKeys_def bumpNotificationCacheVersion_def bump_def
      split: prod.splits option.splits)

lemma then_do_redis:
  assumes "P (w_redis (fst r))" "\<And>w. P (w_redis w) \<Longrightarrow> P (w_redis (fst (k w)))"
  shows "P (w_redis (fst (then_do r k)))"
  using assms by (auto simp: then_do_def split: prod.splits option.splits)

lemma credentials_redis:
  fixes s :: "('db, 'r, 'x) service"
  assumes P: "\<And>r. P r \<Longrightarrow> P (bump s r)" and "P (w_redis w)"
  shows "P (w_redis (fst (HandleCredentialsEstablished s def w)))"
proof -
  have res: "P (w_redis (fst (wrap_err g (resolveRequiredActionNotifications s ks v))))" if "P (w_redis v)" for g ks v
    using resolve_redis [of s ks v] P that by auto
  have comp: "P (w_redis (fst (completeFlow s v)))" if "P (w_redis v)" for v
    unfolding completeFlow_def by (intro then_do_redis [where P = P]) (use that res in auto)
  have comp': "P (w_redis v')" if "completeFlow s v = (v', x)" "P (w_redis v)" for v v' x using comp [of v] that by simp
  show ?thesis
  proof (cases "C_SetupStep (w_conn w)")
    case (Some cur)
    show ?thesis unfolding HandleCredentialsEstablished_def Some option.case Let_def
      by (rule then_do_redis [where P = P])
         (use assms(2) res comp' in \<open>auto intro!: then_do_redis [where P = P] split: sum.split option.split prod.split\<close>)
  qed (use assms(2) in \<open>simp add: HandleCredentialsEstablished_def\<close>)
qed

text \<open>
  Property C34. A link works once. After a token has moved a connection forward, a later request with
  the same token, at either endpoint, by whoever and for whichever connection, is answered with the
  error page and leaves the database as it is.
\<close>

theorem setup_link_once:
  assumes "token_redis (sv_redis s) entry (sv_tokens s)"
    and "advance s rq w = (w', SetupRedirected ret cid pending)"
    and "sv_tokens s' = sv_tokens s" "sv_redis_now s \<le> sv_redis_now s'" "request_token rq' = request_token rq"
  shows "(\<exists>e. snd (advance s' rq' w') = SetupErrorPage e) \<and> w_db (fst (advance s' rq' w')) = w_db w' \<and>
    (\<exists>e. snd (abort s' rq' w') = SetupErrorPage e) \<and> w_db (fst (abort s' rq' w')) = w_db w'"
proof -
  have refused: "(\<exists>e. snd (handle s' intent action rq' w') = SetupErrorPage e) \<and> w_db (fst (handle s' intent action rq' w')) = w_db w'"
    if "isl (snd (VerifyAndConsume (sv_tokens s') (sv_encrypt s') (w_redis w') (sv_redis_now s') (request_token rq')))" for intent action
    using that by (auto simp: handle_def isl_def split: prod.splits sum.splits option.splits)
  have red: "redis_db (sv_redis s) entry" using assms(1) by (rule token_redis.axioms)
  obtain r c where v: "VerifyAndConsume (sv_tokens s) (sv_encrypt s) (w_redis w) (sv_redis_now s) (request_token rq) = (r, Inr c)"
    and act: "doAdvance s (fst (ID_Parse (rq_Id rq))) c (w\<lparr>w_redis := r\<rparr>) = (w', Inr (SetupRedirected ret cid pending))"
    using assms(2) by (auto simp: advance_def handle_def Let_def split: prod.splits sum.splits option.splits if_splits)
  obtain w0 def where g: "getConnection s (fst (ID_Parse (rq_Id rq))) (w\<lparr>w_redis := r\<rparr>) = Inr (w0, def)"
    and h: "HandleCredentialsEstablished s def w0 = (w', Inr pending)"
    using act by (auto simp: doAdvance_def split: prod.splits sum.splits if_splits)
  have w0: "w_redis w0 = r" using g by (auto simp: getConnection_def getConnectionForDb_def load_def split: sum.splits)
  define P where "P = (\<lambda>r. token_redis.spent entry r (sv_redis_now s) (request_token rq))"
  have "P (bump s x)" if "P x" for x
    using that redis_db.INCR_frame [OF red, of "redisKey (request_token rq)" "''notifications:version''"]
    by (auto simp: P_def bump_def token_redis.spent_def [OF assms(1)] redisKey_def)
  moreover have "P (w_redis w0)" using token_redis.consume_spends [OF assms(1) v] w0 by (simp add: P_def)
  ultimately have "P (w_redis w')" using credentials_redis [of P s w0 def] h by simp
  then have "isl (snd (VerifyAndConsume (sv_tokens s') (sv_encrypt s') (w_redis w') (sv_redis_now s') (request_token rq')))"
    unfolding P_def assms(3,5) by (rule token_redis.spent_refused(1) [OF assms(1) _ assms(4)])
  from refused [OF this] show ?thesis by (simp add: advance_def abort_def)
qed

theorem setup_link_once_witness:
  "\<exists>w' ret pending e e'. advance sample_service sample_rq sample_minted = (w', SetupRedirected ret ''cxn_1'' pending) \<and>
     snd (advance sample_service sample_rq w') = SetupErrorPage e \<and>
     snd (abort (sample_service\<lparr>sv_redis_now := 5\<rparr>) (sample_rq\<lparr>rq_Actor := ''act_2''\<rparr>) w') = SetupErrorPage e'"
proof -
  let ?cl = "mint_input.extend sample_link \<lparr>cl_Jti = request_token sample_rq\<rparr>"
  have time: "(0 :: int) \<le> sv_redis_now sample_service" "sv_redis_now sample_service < 0 + 900000" by (simp_all add: sample_tokens)
  obtain r2 where v: "VerifyAndConsume (sv_tokens sample_service) (sv_encrypt sample_service) (w_redis sample_minted) (sv_redis_now sample_service) (request_token sample_rq)
      = (r2, Inr ?cl)" "request_token sample_rq \<noteq> []"
    using minted_claims [OF sample_token_redis sample_encryption sample_mint time sample_getdel] by blast
  obtain def w1 pending where "getConnection sample_service (rq_Id sample_rq) (sample_minted\<lparr>w_redis := r2\<rparr>) =
      Inr (load (sample_loaded ''apxy:auth:api_key'') (sample_minted\<lparr>w_redis := r2\<rparr>), def)"
    "HandleCredentialsEstablished sample_service def (load (sample_loaded ''apxy:auth:api_key'') (sample_minted\<lparr>w_redis := r2\<rparr>)) = (w1, Inr pending)"
    using sample_moves by blast
  then have adv: "advance sample_service sample_rq sample_minted = (w1, SetupRedirected ''https://example.com/done'' ''cxn_1'' pending)"
    using handle_consumed [OF sample_id v(2,1), of IntentAdvance "doAdvance sample_service"]
    by (simp add: advance_def doAdvance_def sample_tokens sample_link_def IntentAdvance_def mint_input.defs load_def sample_loaded_def)
  note once = setup_link_once [OF sample_token_redis adv]
  from once [of sample_service sample_rq] once [of "sample_service\<lparr>sv_redis_now := 5\<rparr>" "sample_rq\<lparr>rq_Actor := ''act_2''\<rparr>"] adv
  show ?thesis by (auto simp: sample_tokens request_token_def sample_rq_def)
qed

end
