(* ===== verification/Spec2Isabelle.thy ===== *)
theory Spec2Isabelle
  imports Access_Control Label_Selector Label_Store Rate_Cache Setup_Routes
begin

text \<open>
  \<^bold>\<open>Verification of authproxy.\<close> authproxy is a server that holds the credentials of third-party
  services and proxies requests to them. The development covers its authorisation, its labels, its
  rate limiting, the setup of connections and the data access they rest on. Paths below are relative to \<^verbatim>\<open>src/internal\<close>.

  \<^bold>\<open>Parts and theories.\<close>

  \<^item> Authorisation. \<^verbatim>\<open>Namespaces\<close> models paths and matchers (\<^verbatim>\<open>schema/resources/namespace\<close>),
    \<^verbatim>\<open>Permissions\<close> the permissions of an actor (\<^verbatim>\<open>schema/auth\<close>, \<^verbatim>\<open>apauth/core\<close>), \<^verbatim>\<open>Request_Auth\<close> the
    authorisation of one request (\<^verbatim>\<open>apauth/core/request_auth.go\<close>), \<^verbatim>\<open>Access_Control\<close> the middleware
    in front of the routes (\<^verbatim>\<open>apauth/service\<close>) and \<^verbatim>\<open>Namespace_Filter\<close> the SQL restriction that list
    queries derive from matchers (\<^verbatim>\<open>database/namespace.go\<close>). Shown: restrictions only narrow, a
    handler runs only behind a permission, filtering returns exactly the permitted objects, and the
    namespaces of a list query are those of the point query, with the exceptions that are stated as
    theorems of their own (\<^verbatim>\<open>ConstrainMatcher_collision\<close> and the lemmas that follow from it).
  \<^item> Labels. \<^verbatim>\<open>Labels\<close> models keys, values and carry-forward (\<^verbatim>\<open>database/labels.go\<close>,
    \<^verbatim>\<open>annotations.go\<close>, \<^verbatim>\<open>apid\<close>), \<^verbatim>\<open>Label_Selector\<close> selectors and their SQL
    (\<^verbatim>\<open>database/label_selector.go\<close>), \<^verbatim>\<open>Label_Store\<close> edits and propagation over stored rows
    (\<^verbatim>\<open>database/labels_propagate.go\<close>). Shown: parsing inverts printing, SQL and memory select the
    same rows, edits keep system labels, propagation ends and derives what it should.
  \<^item> Rate limiting. \<^verbatim>\<open>Rate_Schema\<close> models the rules and their validation
    (\<^verbatim>\<open>schema/resources/rate_limit\<close>), \<^verbatim>\<open>Path_Glob\<close> and \<^verbatim>\<open>Rate_Match\<close> the matching of requests and the
    bucket keys (\<^verbatim>\<open>ratelimit/matcher.go\<close>), \<^verbatim>\<open>Limiter\<close>, \<^verbatim>\<open>Fixed_Window\<close>, \<^verbatim>\<open>Sliding_Window\<close> and
    \<^verbatim>\<open>Token_Bucket\<close> the limiters with their Lua scripts, \<^verbatim>\<open>Enforcer\<close> the round tripper that applies
    the rules, \<^verbatim>\<open>Reactive_Limit\<close> and \<^verbatim>\<open>Backoff_Config\<close> the reaction to upstream 429 responses,
    \<^verbatim>\<open>Http_Client\<close> the client factory that chains them (\<^verbatim>\<open>httpf\<close>), \<^verbatim>\<open>Rate_Cache\<close> the cache of rules
    and its refresher, \<^verbatim>\<open>Rate_Json\<close> and \<^verbatim>\<open>Human_Duration\<close> the JSON form of rules and durations,
    \<^verbatim>\<open>Rate_Limit_Store\<close> their table (\<^verbatim>\<open>database/rate_limit.go\<close>). Shown: each limiter's bound over any sequence of requests, that the strictest
    rule answers, that an unreachable Redis fails open, and that the cache keeps its last good
    snapshot.
  \<^item> Connections. \<^verbatim>\<open>Setup_Schema\<close> models the setup flow of a connector and its validation
    (\<^verbatim>\<open>schema/resources/connectors/setup_flow.go\<close>), \<^verbatim>\<open>Setup_Flow\<close> the steps of a manifest and the
    navigation over them (\<^verbatim>\<open>core/iface/manifest_setup_step.go\<close>, \<^verbatim>\<open>core/connection_setup_flow.go\<close>),
    \<^verbatim>\<open>Connection_Store\<close> the table of connections and encrypted fields (\<^verbatim>\<open>database/connection.go\<close>,
    \<^verbatim>\<open>encfield\<close>), \<^verbatim>\<open>Setup_Token\<close> one-time tokens (\<^verbatim>\<open>core/setup_token\<close>), \<^verbatim>\<open>Connection_Setup\<close> the
    operations that move a connection through its setup (\<^verbatim>\<open>core/connection_*.go\<close>,
    \<^verbatim>\<open>core/service_connection_*.go\<close>, \<^verbatim>\<open>core/task_verify_connection.go\<close>) and \<^verbatim>\<open>Setup_Routes\<close> the public
    endpoints (\<^verbatim>\<open>routes/public_setup.go\<close>). \<^verbatim>\<open>Setup_Invariants\<close> and \<^verbatim>\<open>Setup_Lifecycle\<close> hold the lemmas
    over sequences of requests. Shown: navigation follows the plan of the flow and ends, stored steps
    belong to the flow, memory and row agree, verification is a gate, forms write the fields of their
    schema only, and a link works once and only for what it was rendered for. Credentials that arrive
    at a failed step complete the setup, which is stated as a theorem of its own.
  \<^item> Data access. \<^verbatim>\<open>Sql_Store\<close> states what the code needs of the SQL database and models its
    transaction wrapper (\<^verbatim>\<open>database/util.go\<close>), \<^verbatim>\<open>Sql_Tables\<close> extends it to tables with columns,
    \<^verbatim>\<open>Redis_Store\<close> does so for Redis, \<^verbatim>\<open>Pagination\<close> models the
    paged lists (\<^verbatim>\<open>util/pagination\<close>, the list builders).
  \<^item> The language. \<^verbatim>\<open>Prelude\<close>, \<^verbatim>\<open>Regex\<close>, \<^verbatim>\<open>Go_Text\<close>, \<^verbatim>\<open>Go_Float\<close>, \<^verbatim>\<open>Json\<close> and \<^verbatim>\<open>Lua_Numbers\<close> hold what
    the sources use of Go's standard library and of Lua's numbers.

  \<^bold>\<open>Correspondence.\<close> Definitions have the names of the functions they translate, with the receiver
  in front where two methods share a name. A Go string is a list of bytes, an error a value of
  \<^typ>\<open>gerror\<close>, a panic the left side of a sum, a map an association list whose order stands for one
  order of a \<^verbatim>\<open>range\<close> loop; theorems hold for every order. JSON is modelled as documents, not as text. State that code mutates is passed and
  returned.

  \<^bold>\<open>Code that is not in the repository\<close> is a parameter: the SQL database, Redis, the Lua
  interpreter, the template engine, the JavaScript engine, the JSON Schema compiler, encryption, regular
  expressions of the configuration, date parsing. Authentication methods, probes and the lookup of
  connector versions, which are in the repository, are parameters of the setup too. What
  the code relies on is stated in the locales \<open>sql_like\<close>, \<open>sql_db\<close>, \<open>sql_tables\<close>, \<open>token_redis\<close>,
  \<open>encryption\<close>, \<open>connection_setup\<close>, \<open>connection_sync\<close>, \<open>json_functions\<close>, \<open>redis_db\<close>,
  \<open>lua_numbers\<close> and \<open>redis_lua\<close>. Each has an executable instance on which the witnesses run.

  \<^bold>\<open>Bounds.\<close> Widths are kept where they matter: depths, versions and offsets are 64-bit words,
  durations wrap at 64 bits. Script arguments are integers below 2 to the power 53, as any window in
  milliseconds and any limit are. Floats are rounded to 53 binary digits without the coarser steps
  below the smallest normal number. The clocks of Redis and of the servers may differ, by a
  constant. Members of the request log are distinct, as the source draws them at random. Label
  propagation has a bound on its depth; \<open>RefreshNamespace_terminates\<close> shows that the length of the
  longest path is enough. The paging loop is an optional value; \<open>Enumerate_returns\<close> shows that it
  returns.

  \<^bold>\<open>Not modelled.\<close> Routes that bind and render JSON, the public setup endpoints apart; initiation and
  disconnection of connections; connector versions; tables other than rate limits and connections;
  workflows run by an external engine; encryption, session tokens and OAuth2, which rest on
  cryptographic libraries and remote servers; storage of request events; configuration files;
  wiring, logging, telemetry; generated code; command line tools, user interface and the other
  clients of the API.
\<close>

end
